(* ===== verification/Prelude.thy ===== *)
theory Prelude
  imports Main "HOL-Library.Word" "HOL-Library.Monad_Syntax"
begin

text \<open>
  Shared vocabulary of the development: the machine integer types of the C sources, the
  collections of facts the component proofs are driven by, and generic lemmas on words,
  lists and options.

  Conventions used throughout:
  \<^item> a C value of type \<open>uint16_t\<close>, \<open>uint32_t\<close>, \<open>uint8_t\<close> is a word of that width;
    arithmetic that C performs in \<open>int\<close> and stores back to such a type is written at
    the width where it is observable;
  \<^item> an operation that can fail to produce a defined result (it loops for ever, or it
    performs an access or a shift that C leaves undefined) returns an \<open>option\<close>, and
    \<open>None\<close> is exactly that case;
  \<^item> an array is a list (with its length in the well-formedness invariant) or, for the
    64K-word RAM, a function on 16-bit addresses.
\<close>

unbundle bit_operations_syntax

type_synonym u8 = "8 word"
type_synonym u16 = "16 word"
type_synonym u32 = "32 word"
type_synonym u64 = "64 word"

text \<open>Function pointers and object pointers of the C program, as opaque addresses.\<close>

type_synonym fnptr = nat
type_synonym ptr = nat

named_theorems wf_intros \<open>preservation of the virtual machine's well-formedness\<close>
named_theorems frame_simps \<open>fields an operation leaves alone\<close>
named_theorems op_defs \<open>definitions of the instruction routines\<close>

section \<open>Options\<close>

lemma pred_option_bind [intro]:
  assumes "pred_option P m" and "\<And>x. P x \<Longrightarrow> m = Some x \<Longrightarrow> pred_option Q (f x)"
  shows "pred_option Q (m \<bind> f)"
  using assms by (cases m) auto

lemma pred_option_SomeD [dest]: "pred_option P m \<Longrightarrow> m = Some x \<Longrightarrow> P x"
  by simp

lemma pred_optionI: "(\<And>x. m = Some x \<Longrightarrow> P x) \<Longrightarrow> pred_option P m"
  by (cases m) auto

lemma bind_eq_SomeE:
  assumes "m \<bind> f = Some y"
  obtains x where "m = Some x" and "f x = Some y"
  using assms by (cases m) auto

section \<open>Lists\<close>

lemma take_Suc_list_update:
  "n < length xs \<Longrightarrow> take (Suc n) (xs[n := x]) = take n xs @ [x]"
  by (simp add: take_Suc_conv_app_nth)

lemma take_list_update_ge: "n \<le> i \<Longrightarrow> take n (xs[i := x]) = take n xs"
  by (simp add: take_update_swap list_update_beyond)

section \<open>Words\<close>

lemma unat_and_mask: "unat (w AND mask n) = unat (w :: 'a::len word) mod 2 ^ n"
  unfolding take_bit_eq_mask [symmetric] unsigned_take_bit_eq by (rule take_bit_eq_mod)

lemma unat_drop_bit: "unat (drop_bit n (w :: 'a::len word)) = unat w div 2 ^ n"
  unfolding unat_drop_bit_eq by (rule drop_bit_eq_div)

lemma unat_less_65536 [simp]: "unat (w :: u16) < 65536"
  using unsigned_less [of w, where ?'a = nat] by simp

lemma unat_of_nat_u16: "n < 65536 \<Longrightarrow> unat (of_nat n :: u16) = n"
  by (simp add: unsigned_of_nat take_bit_nat_eq_self)

lemma uint_less_65536 [simp]: "uint (w :: u16) < 65536"
  using uint_bounded [of w] by simp

lemma sint_u16_bounds: "- 32768 \<le> sint (w :: u16)" "sint (w :: u16) \<le> 32767"
  using sint_ge [of w] sint_lt [of w] by simp_all

lemma u16_eq_iff_uint: "(a :: u16) = b \<longleftrightarrow> uint a = uint b"
  by (simp add: word_uint_eq_iff)

lemma take_bit_u16 [simp]: "take_bit 16 (uint (w :: u16)) = uint w"
  by (simp add: take_bit_int_eq_self)

lemma sint_u16_eq: "sint (w :: u16) = (if uint w < 32768 then uint w else uint w - 65536)"
proof -
  have "sint w = take_bit 16 (uint w + 32768) - 32768"
    by (simp add: sint_uint signed_take_bit_eq_take_bit_shift)
  also have "\<dots> = (uint w + 32768) mod 65536 - 32768"
    by (simp add: take_bit_eq_mod)
  also have "\<dots> = (if uint w < 32768 then uint w else uint w - 65536)"
  proof (cases "uint w < 32768")
    case True
    then have "(uint w + 32768) mod 65536 = uint w + 32768"
      by (intro mod_pos_pos_trivial) auto
    with True show ?thesis by simp
  next
    case False
    have "(uint w + 32768) mod 65536 = (uint w - 32768) mod 65536"
      using mod_add_self2 [of "uint w - 32768" 65536] by (simp add: add.commute)
    also have "\<dots> = uint w - 32768"
      using False uint_less_65536 [of w] by (intro mod_pos_pos_trivial) linarith+
    finally show ?thesis using False by simp
  qed
  finally show ?thesis .
qed

end
