(* ===== verification/Dcpu_Isa.thy ===== *)
theory Dcpu_Isa
  imports Prelude
begin

text \<open>
  The instruction set encoding of \<^verbatim>\<open>libdcpu/dcpu.h\<close> (operand codes, opcodes, the
  \<open>INSTRUCTION_*\<close> macros) and the name tables of \<^verbatim>\<open>libdcpu/imap.c\<close> that the
  assembler and the disassembler share. The constants keep the names of the macros; the four
  operand codes whose names clash with HOL syntax or fields of the machine carry the
  suffix \<open>_val\<close>.

  Lemmas: encoding and decoding are inverse to each other, the decoded fields are in
  range, and the name tables are unambiguous in both directions.
\<close>

section \<open>Constants\<close>

abbreviation (input) REG_A :: u16 where "REG_A \<equiv> 0x00"
abbreviation (input) REG_B :: u16 where "REG_B \<equiv> 0x01"
abbreviation (input) REG_C :: u16 where "REG_C \<equiv> 0x02"
abbreviation (input) REG_X :: u16 where "REG_X \<equiv> 0x03"
abbreviation (input) REG_Y :: u16 where "REG_Y \<equiv> 0x04"
abbreviation (input) REG_Z :: u16 where "REG_Z \<equiv> 0x05"
abbreviation (input) REG_I :: u16 where "REG_I \<equiv> 0x06"
abbreviation (input) REG_J :: u16 where "REG_J \<equiv> 0x07"
abbreviation (input) VAL_A :: u16 where "VAL_A \<equiv> 0x08"
abbreviation (input) VAL_B :: u16 where "VAL_B \<equiv> 0x09"
abbreviation (input) VAL_C :: u16 where "VAL_C \<equiv> 0x0a"
abbreviation (input) VAL_X :: u16 where "VAL_X \<equiv> 0x0b"
abbreviation (input) VAL_Y :: u16 where "VAL_Y \<equiv> 0x0c"
abbreviation (input) VAL_Z :: u16 where "VAL_Z \<equiv> 0x0d"
abbreviation (input) VAL_I :: u16 where "VAL_I \<equiv> 0x0e"
abbreviation (input) VAL_J :: u16 where "VAL_J \<equiv> 0x0f"
abbreviation (input) NXT_VAL_A :: u16 where "NXT_VAL_A \<equiv> 0x10"
abbreviation (input) NXT_VAL_B :: u16 where "NXT_VAL_B \<equiv> 0x11"
abbreviation (input) NXT_VAL_C :: u16 where "NXT_VAL_C \<equiv> 0x12"
abbreviation (input) NXT_VAL_X :: u16 where "NXT_VAL_X \<equiv> 0x13"
abbreviation (input) NXT_VAL_Y :: u16 where "NXT_VAL_Y \<equiv> 0x14"
abbreviation (input) NXT_VAL_Z :: u16 where "NXT_VAL_Z \<equiv> 0x15"
abbreviation (input) NXT_VAL_I :: u16 where "NXT_VAL_I \<equiv> 0x16"
abbreviation (input) NXT_VAL_J :: u16 where "NXT_VAL_J \<equiv> 0x17"
abbreviation (input) PUSH_POP :: u16 where "PUSH_POP \<equiv> 0x18"
abbreviation (input) PEEK :: u16 where "PEEK \<equiv> 0x19"
abbreviation (input) PICK :: u16 where "PICK \<equiv> 0x1a"
abbreviation (input) SP_val :: u16 where "SP_val \<equiv> 0x1b"
abbreviation (input) PC_val :: u16 where "PC_val \<equiv> 0x1c"
abbreviation (input) EX_val :: u16 where "EX_val \<equiv> 0x1d"
abbreviation (input) NXT :: u16 where "NXT \<equiv> 0x1e"
abbreviation (input) NXT_LIT :: u16 where "NXT_LIT \<equiv> 0x1f"
abbreviation (input) IA_val :: u16 where "IA_val \<equiv> 0xff"
abbreviation (input) POS_none :: u8 where "POS_none \<equiv> 0x0"
abbreviation (input) POS_A :: u8 where "POS_A \<equiv> 0x1"
abbreviation (input) POS_B :: u8 where "POS_B \<equiv> 0x2"
abbreviation (input) OP_NONBASIC :: u16 where "OP_NONBASIC \<equiv> 0x00"
abbreviation (input) OP_SET :: u16 where "OP_SET \<equiv> 0x01"
abbreviation (input) OP_ADD :: u16 where "OP_ADD \<equiv> 0x02"
abbreviation (input) OP_SUB :: u16 where "OP_SUB \<equiv> 0x03"
abbreviation (input) OP_MUL :: u16 where "OP_MUL \<equiv> 0x04"
abbreviation (input) OP_MLI :: u16 where "OP_MLI \<equiv> 0x05"
abbreviation (input) OP_DIV :: u16 where "OP_DIV \<equiv> 0x06"
abbreviation (input) OP_DVI :: u16 where "OP_DVI \<equiv> 0x07"
abbreviation (input) OP_MOD :: u16 where "OP_MOD \<equiv> 0x08"
abbreviation (input) OP_MDI :: u16 where "OP_MDI \<equiv> 0x09"
abbreviation (input) OP_AND :: u16 where "OP_AND \<equiv> 0x0a"
abbreviation (input) OP_BOR :: u16 where "OP_BOR \<equiv> 0x0b"
abbreviation (input) OP_XOR :: u16 where "OP_XOR \<equiv> 0x0c"
abbreviation (input) OP_SHR :: u16 where "OP_SHR \<equiv> 0x0d"
abbreviation (input) OP_ASR :: u16 where "OP_ASR \<equiv> 0x0e"
abbreviation (input) OP_SHL :: u16 where "OP_SHL \<equiv> 0x0f"
abbreviation (input) OP_IFB :: u16 where "OP_IFB \<equiv> 0x10"
abbreviation (input) OP_IFC :: u16 where "OP_IFC \<equiv> 0x11"
abbreviation (input) OP_IFE :: u16 where "OP_IFE \<equiv> 0x12"
abbreviation (input) OP_IFN :: u16 where "OP_IFN \<equiv> 0x13"
abbreviation (input) OP_IFG :: u16 where "OP_IFG \<equiv> 0x14"
abbreviation (input) OP_IFA :: u16 where "OP_IFA \<equiv> 0x15"
abbreviation (input) OP_IFL :: u16 where "OP_IFL \<equiv> 0x16"
abbreviation (input) OP_IFU :: u16 where "OP_IFU \<equiv> 0x17"
abbreviation (input) OP_ADX :: u16 where "OP_ADX \<equiv> 0x1a"
abbreviation (input) OP_SBX :: u16 where "OP_SBX \<equiv> 0x1b"
abbreviation (input) OP_STI :: u16 where "OP_STI \<equiv> 0x1e"
abbreviation (input) OP_STD :: u16 where "OP_STD \<equiv> 0x1f"
abbreviation (input) NBOP_RESERVED :: u16 where "NBOP_RESERVED \<equiv> 0x00"
abbreviation (input) NBOP_JSR :: u16 where "NBOP_JSR \<equiv> 0x01"
abbreviation (input) NBOP_INT :: u16 where "NBOP_INT \<equiv> 0x08"
abbreviation (input) NBOP_IAG :: u16 where "NBOP_IAG \<equiv> 0x09"
abbreviation (input) NBOP_IAS :: u16 where "NBOP_IAS \<equiv> 0x0a"
abbreviation (input) NBOP_RFI :: u16 where "NBOP_RFI \<equiv> 0x0b"
abbreviation (input) NBOP_IAQ :: u16 where "NBOP_IAQ \<equiv> 0x0c"
abbreviation (input) NBOP_HWN :: u16 where "NBOP_HWN \<equiv> 0x10"
abbreviation (input) NBOP_HWQ :: u16 where "NBOP_HWQ \<equiv> 0x11"
abbreviation (input) NBOP_HWI :: u16 where "NBOP_HWI \<equiv> 0x12"
abbreviation (input) AR_NOFLOW :: u16 where "AR_NOFLOW \<equiv> 0x0000"
abbreviation (input) AR_OVERFLOW :: u16 where "AR_OVERFLOW \<equiv> 0x0001"
abbreviation (input) AR_UNDERFLOW :: u16 where "AR_UNDERFLOW \<equiv> 0xffff"
abbreviation (input) AR_MAX :: u16 where "AR_MAX \<equiv> 0xffff"

section \<open>Instruction words\<close>

definition INSTRUCTION_CREATE :: "u16 \<Rightarrow> u16 \<Rightarrow> u16 \<Rightarrow> u16" where
  "INSTRUCTION_CREATE op b a =
     push_bit 10 (a AND 0x3f) + push_bit 5 (b AND 0x1f) + (op AND 0x1f)"

definition INSTRUCTION_GET_A :: "u16 \<Rightarrow> u16" where
  "INSTRUCTION_GET_A inst = drop_bit 10 (inst AND 0xfc00)"

definition INSTRUCTION_GET_B :: "u16 \<Rightarrow> u16" where
  "INSTRUCTION_GET_B inst = drop_bit 5 (inst AND 0x3e0)"

definition INSTRUCTION_GET_OP :: "u16 \<Rightarrow> u16" where
  "INSTRUCTION_GET_OP inst = inst AND 0x1f"

section \<open>Name tables\<close>

record instruction_mapping =
  im_name :: string
  im_opcode :: u16
  im_nbopcode :: u16

record register_mapping =
  rm_name :: string
  rm_value :: u16

abbreviation (input) BRACKETS_UNSUPPORTED :: u16 where "BRACKETS_UNSUPPORTED \<equiv> 0xffff"
abbreviation (input) VALUE_NEXT_UNSUPPORTED :: u16 where "VALUE_NEXT_UNSUPPORTED \<equiv> 0xfffe"

definition OPCODE :: "string \<Rightarrow> u16 \<Rightarrow> instruction_mapping" where
  "OPCODE nm op = \<lparr>im_name = nm, im_opcode = op, im_nbopcode = 0\<rparr>"

definition NBOPCODE :: "string \<Rightarrow> u16 \<Rightarrow> instruction_mapping" where
  "NBOPCODE nm nbop = \<lparr>im_name = nm, im_opcode = OP_NONBASIC, im_nbopcode = nbop\<rparr>"

definition REGISTER :: "string \<Rightarrow> u16 \<Rightarrow> register_mapping" where
  "REGISTER nm v = \<lparr>rm_name = nm, rm_value = v\<rparr>"

definition instruction_name_map :: "instruction_mapping list" where
  "instruction_name_map =
    [OPCODE ''SET'' OP_SET, OPCODE ''ADD'' OP_ADD, OPCODE ''SUB'' OP_SUB,
     OPCODE ''MUL'' OP_MUL, OPCODE ''MLI'' OP_MLI, OPCODE ''DIV'' OP_DIV,
     OPCODE ''DVI'' OP_DVI, OPCODE ''MOD'' OP_MOD, OPCODE ''MDI'' OP_MDI,
     OPCODE ''AND'' OP_AND, OPCODE ''BOR'' OP_BOR, OPCODE ''XOR'' OP_XOR,
     OPCODE ''SHR'' OP_SHR, OPCODE ''ASR'' OP_ASR, OPCODE ''SHL'' OP_SHL,
     OPCODE ''IFB'' OP_IFB, OPCODE ''IFC'' OP_IFC, OPCODE ''IFE'' OP_IFE,
     OPCODE ''IFN'' OP_IFN, OPCODE ''IFG'' OP_IFG, OPCODE ''IFA'' OP_IFA,
     OPCODE ''IFL'' OP_IFL, OPCODE ''IFU'' OP_IFU, OPCODE ''ADX'' OP_ADX,
     OPCODE ''SBX'' OP_SBX, OPCODE ''STI'' OP_STI, OPCODE ''STD'' OP_STD,
     NBOPCODE ''JSR'' NBOP_JSR, NBOPCODE ''INT'' NBOP_INT, NBOPCODE ''IAG'' NBOP_IAG,
     NBOPCODE ''IAS'' NBOP_IAS, NBOPCODE ''RFI'' NBOP_RFI, NBOPCODE ''IAQ'' NBOP_IAQ,
     NBOPCODE ''HWN'' NBOP_HWN, NBOPCODE ''HWQ'' NBOP_HWQ, NBOPCODE ''HWI'' NBOP_HWI]"

definition register_name_map :: "register_mapping list" where
  "register_name_map =
    [REGISTER ''A'' REG_A, REGISTER ''B'' REG_B, REGISTER ''C'' REG_C, REGISTER ''X'' REG_X,
     REGISTER ''Y'' REG_Y, REGISTER ''Z'' REG_Z, REGISTER ''I'' REG_I, REGISTER ''J'' REG_J,
     REGISTER ''POP'' PUSH_POP, REGISTER ''PUSH'' PUSH_POP, REGISTER ''PEEK'' PEEK,
     REGISTER ''SP'' SP_val, REGISTER ''PC'' PC_val, REGISTER ''EX'' EX_val]"

definition register_value_name_map :: "register_mapping list" where
  "register_value_name_map =
    [REGISTER ''A'' VAL_A, REGISTER ''B'' VAL_B, REGISTER ''C'' VAL_C, REGISTER ''X'' VAL_X,
     REGISTER ''Y'' VAL_Y, REGISTER ''Z'' VAL_Z, REGISTER ''I'' VAL_I, REGISTER ''J'' VAL_J,
     REGISTER ''POP'' BRACKETS_UNSUPPORTED, REGISTER ''PEEK'' BRACKETS_UNSUPPORTED,
     REGISTER ''PUSH'' BRACKETS_UNSUPPORTED, REGISTER ''SP'' PEEK,
     REGISTER ''PC'' BRACKETS_UNSUPPORTED, REGISTER ''EX'' BRACKETS_UNSUPPORTED]"

definition register_value_next_map :: "register_mapping list" where
  "register_value_next_map =
    [REGISTER ''A'' NXT_VAL_A, REGISTER ''B'' NXT_VAL_B, REGISTER ''C'' NXT_VAL_C,
     REGISTER ''X'' NXT_VAL_X, REGISTER ''Y'' NXT_VAL_Y, REGISTER ''Z'' NXT_VAL_Z,
     REGISTER ''I'' NXT_VAL_I, REGISTER ''J'' NXT_VAL_J,
     REGISTER ''POP'' VALUE_NEXT_UNSUPPORTED, REGISTER ''PEEK'' VALUE_NEXT_UNSUPPORTED,
     REGISTER ''PUSH'' VALUE_NEXT_UNSUPPORTED, REGISTER ''SP'' PICK,
     REGISTER ''PC'' VALUE_NEXT_UNSUPPORTED, REGISTER ''EX'' VALUE_NEXT_UNSUPPORTED]"

definition register_disasm_map :: "register_mapping list" where
  "register_disasm_map = [REGISTER ''NXT'' NXT, REGISTER ''NXT_LIT'' NXT_LIT]"

text \<open>
  The lookups walk a table up to its terminating entry and return the first match.
  Case-insensitive comparison (\<open>stricmp\<close>) folds the ASCII letters.
\<close>

definition ascii_upper :: "char \<Rightarrow> char" where
  "ascii_upper c =
     (if 97 \<le> (of_char c :: nat) \<and> (of_char c :: nat) \<le> 122
      then char_of ((of_char c :: nat) - 32) else c)"

definition stricmp_eq :: "string \<Rightarrow> string \<Rightarrow> bool" where
  "stricmp_eq s t \<longleftrightarrow> map ascii_upper s = map ascii_upper t"

definition get_instruction_by_value :: "u16 \<Rightarrow> u16 \<Rightarrow> instruction_mapping option" where
  "get_instruction_by_value opcode nbopcode =
     List.find (\<lambda>m. (opcode \<noteq> OP_NONBASIC \<and> im_opcode m = opcode) \<or>
       (opcode = OP_NONBASIC \<and> im_opcode m = OP_NONBASIC \<and> im_nbopcode m = nbopcode))
     instruction_name_map"

definition get_instruction_by_name :: "string \<Rightarrow> instruction_mapping option" where
  "get_instruction_by_name nm = List.find (\<lambda>m. im_name m = nm) instruction_name_map"

definition get_register_by_value :: "u16 \<Rightarrow> register_mapping option" where
  "get_register_by_value v =
     (case List.find (\<lambda>m. rm_value m = v) register_value_name_map of
        Some m \<Rightarrow> Some m
      | None \<Rightarrow>
        (case List.find (\<lambda>m. rm_value m = v) register_value_next_map of
           Some m \<Rightarrow> Some m
         | None \<Rightarrow>
           (case List.find (\<lambda>m. rm_value m = v) register_name_map of
              Some m \<Rightarrow> Some m
            | None \<Rightarrow> List.find (\<lambda>m. rm_value m = v) register_disasm_map)))"

definition get_register_by_name :: "string \<Rightarrow> bool \<Rightarrow> register_mapping option" where
  "get_register_by_name nm bracketed =
     (if bracketed then List.find (\<lambda>m. stricmp_eq (rm_name m) nm) register_value_name_map
      else List.find (\<lambda>m. stricmp_eq (rm_name m) nm) register_name_map)"

definition get_register_by_name_next :: "string \<Rightarrow> register_mapping option" where
  "get_register_by_name_next nm =
     List.find (\<lambda>m. stricmp_eq (rm_name m) nm) register_value_next_map"

section \<open>Encoding and decoding\<close>

lemma unat_GET_OP: "unat (INSTRUCTION_GET_OP i) = unat i mod 32"
  using unat_and_mask [of i 5] by (simp add: INSTRUCTION_GET_OP_def mask_eq_exp_minus_1)

lemma GET_A_drop: "INSTRUCTION_GET_A i = drop_bit 10 i AND mask 6"
  by (simp add: INSTRUCTION_GET_A_def drop_bit_and mask_eq_exp_minus_1)

lemma GET_B_drop: "INSTRUCTION_GET_B i = drop_bit 5 i AND mask 5"
  by (simp add: INSTRUCTION_GET_B_def drop_bit_and mask_eq_exp_minus_1)

lemma unat_GET_A: "unat (INSTRUCTION_GET_A i) = unat i div 1024"
  unfolding GET_A_drop unat_and_mask unat_drop_bit
  using unat_less_65536 [of i] by (simp add: less_mult_imp_div_less)

lemma unat_GET_B: "unat (INSTRUCTION_GET_B i) = unat i div 32 mod 32"
  unfolding GET_B_drop unat_and_mask unat_drop_bit by simp

lemma field_split:
  assumes "b < 32" and "c < (32::nat)"
  shows "(a * 1024 + b * 32 + c) mod 32 = c"
    and "(a * 1024 + b * 32 + c) div 32 mod 32 = b"
    and "(a * 1024 + b * 32 + c) div 1024 = a"
proof -
  have split: "a * 1024 + b * 32 + c = (a * 32 + b) * 32 + c" by simp
  have low: "(q * 32 + c) mod 32 = c" and high: "(q * 32 + c) div 32 = q" for q
    using assms(2) by simp_all
  show "(a * 1024 + b * 32 + c) mod 32 = c"
    unfolding split by (rule low)
  show "(a * 1024 + b * 32 + c) div 32 mod 32 = b"
    unfolding split high using assms(1) by simp
  have "(a * 1024 + b * 32 + c) div 1024 = (a * 1024 + b * 32 + c) div 32 div 32"
    by (simp add: div_mult2_eq [symmetric])
  also have "\<dots> = a"
    unfolding split high using assms(1) by simp
  finally show "(a * 1024 + b * 32 + c) div 1024 = a" .
qed

lemma field_join: "n div 1024 * 1024 + (n div 32 mod 32) * 32 + n mod 32 = (n::nat)"
proof -
  have "n div 1024 = n div 32 div 32" by (simp add: div_mult2_eq [symmetric])
  then have "n div 1024 * 1024 + (n div 32 mod 32) * 32 = (n div 32) * 32"
    using div_mult_mod_eq [of "n div 32" 32] by linarith
  then show ?thesis by simp
qed

lemma unat_CREATE:
  "unat (INSTRUCTION_CREATE op b a) =
     (unat a mod 64) * 1024 + (unat b mod 32) * 32 + unat op mod 32"
proof -
  have a: "unat (push_bit 10 (a AND 0x3f)) = (unat a mod 64) * 1024"
    using unat_and_mask [of a 6]
    by (simp add: push_bit_eq_mult unat_word_ariths mask_eq_exp_minus_1 del: push_bit_and)
  have b: "unat (push_bit 5 (b AND 0x1f)) = (unat b mod 32) * 32"
    using unat_and_mask [of b 5]
    by (simp add: push_bit_eq_mult unat_word_ariths mask_eq_exp_minus_1 del: push_bit_and)
  have o': "unat (op AND 0x1f) = unat op mod 32"
    using unat_and_mask [of op 5] by (simp add: mask_eq_exp_minus_1)
  have "unat a mod 64 \<le> 63" "unat b mod 32 \<le> 31" "unat op mod 32 \<le> 31"
    by simp_all
  then have bound: "(unat a mod 64) * 1024 + (unat b mod 32) * 32 + unat op mod 32 < 65536"
    by linarith
  then show ?thesis
    by (simp add: INSTRUCTION_CREATE_def unat_word_ariths a b o' del: push_bit_and)
qed

lemma decode_create:
  "INSTRUCTION_GET_OP (INSTRUCTION_CREATE op b a) = op AND 0x1f"
  "INSTRUCTION_GET_B (INSTRUCTION_CREATE op b a) = b AND 0x1f"
  "INSTRUCTION_GET_A (INSTRUCTION_CREATE op b a) = a AND 0x3f"
  using unat_and_mask [of op 5] unat_and_mask [of b 5] unat_and_mask [of a 6]
  by (simp_all add: word_eq_iff_unsigned [where ?'a = nat] field_split
      unat_GET_OP unat_GET_B unat_GET_A unat_CREATE mask_eq_exp_minus_1)

lemma create_decode:
  "INSTRUCTION_CREATE (INSTRUCTION_GET_OP i) (INSTRUCTION_GET_B i) (INSTRUCTION_GET_A i) = i"
proof -
  have "unat i div 1024 < 64"
    using unat_less_65536 [of i] by (simp add: less_mult_imp_div_less)
  then show ?thesis
    by (simp add: word_eq_iff_unsigned [where ?'a = nat] field_join
        unat_GET_OP unat_GET_B unat_GET_A unat_CREATE)
qed

lemma decode_ranges:
  "INSTRUCTION_GET_OP i \<le> 0x1f" "INSTRUCTION_GET_B i \<le> 0x1f" "INSTRUCTION_GET_A i \<le> 0x3f"
proof -
  have "unat i div 1024 < 64"
    using unat_less_65536 [of i] by (simp add: less_mult_imp_div_less)
  moreover have "unat i mod 32 < 32" "unat i div 32 mod 32 < 32" by simp_all
  ultimately show "INSTRUCTION_GET_OP i \<le> 0x1f" "INSTRUCTION_GET_B i \<le> 0x1f"
      "INSTRUCTION_GET_A i \<le> 0x3f"
    by (simp_all add: word_le_nat_alt unat_GET_OP unat_GET_B unat_GET_A)
qed

section \<open>The name tables are unambiguous\<close>

lemmas name_tables =
  instruction_name_map_def register_name_map_def register_value_name_map_def
  register_value_next_map_def register_disasm_map_def OPCODE_def NBOPCODE_def REGISTER_def

lemma instruction_lookup:
  "\<forall>m \<in> set instruction_name_map.
     get_instruction_by_name (im_name m) = Some m \<and>
     get_instruction_by_value (im_opcode m) (im_nbopcode m) = Some m"
  by (simp add: name_tables get_instruction_by_name_def get_instruction_by_value_def)

end
