(* ===== verification/Vm_State.thy ===== *)
theory Vm_State
  imports Dcpu_Isa
begin

text \<open>
  The state of a virtual machine (\<^verbatim>\<open>struct vm\<close> of \<^verbatim>\<open>libdcpu-vm/vm.h\<close>), its life
  cycle (create, reset, flash, halt, close in \<^verbatim>\<open>vm.c\<close>), the hook table
  (\<^verbatim>\<open>dcpuhook.c\<close>) and the hardware table (\<^verbatim>\<open>hw.c\<close>).

  The C structure holds function pointers. They are opaque addresses here, and what the
  pointed-to functions do is the parameter \<open>vm_code\<close>: every operation that calls through
  a pointer takes it as its first argument. The in-tree devices give concrete instances.
  The record also carries what the C code keeps outside \<^verbatim>\<open>struct vm\<close>: the two static
  variables of \<open>vm_cycle\<close> and \<open>vm_op_fire\<close>, the number of calls made so far to
  \<open>gettimeofday\<close> and \<open>rand\<close>, and the memory the callbacks own (\<open>world\<close>).

  The two tables meet one contract, the locale \<open>slot_table\<close>: an item goes to the first
  free slot, its id is that slot's index, nothing else moves, and a full table is left as
  it is.
\<close>

section \<open>State\<close>

abbreviation (input) INTERRUPT_MAX :: nat where "INTERRUPT_MAX \<equiv> 255"
abbreviation (input) VM_HW_MAX :: nat where "VM_HW_MAX \<equiv> 32"
abbreviation (input) VM_HOOK_MAX :: nat where "VM_HOOK_MAX \<equiv> 50"
abbreviation (input) DCPU_TICKS_KHZ :: int where "DCPU_TICKS_KHZ \<equiv> 100"

record hw_t =
  hw_device_id :: u32
  hw_version :: u16
  hw_manufacturer :: u32
  hw_handler :: "fnptr option"
  hw_free_handler :: "fnptr option"
  hw_userdata :: ptr

record 'w vm_t =
  registers :: "u16 list"
  pc :: u16
  sp :: u16
  ia :: u16
  ex :: u16
  ram :: "u16 \<Rightarrow> u16"
  dummy :: u16
  irq :: "u16 list"
  irq_count :: u16
  sleep_cycles :: u16
  queue_interrupts :: bool
  halted :: bool
  exit :: bool
  skip :: bool
  debug :: bool
  can_fire :: bool
  on_fire :: bool
  fire_cycles :: int
  fire_cycles_target :: int
  radiation_factor :: int
  radiation :: bool
  radiation_cycles :: int
  radiation_cycles_target :: int
  hook_list :: "fnptr option list"
  hook_mode :: "u16 list"
  hook_userdata :: "ptr list"
  hw_list :: "hw_t option list"
  dump :: "ptr option"
  host :: "ptr option"
  static_usec :: int
  static_screen_id :: int
  time_calls :: nat
  rand_calls :: nat
  world :: 'w

text \<open>
  What the function pointers point to, and the results of the library calls: the n-th
  \<open>gettimeofday\<close> reading (microseconds part) and the n-th \<open>rand\<close> value.
\<close>

record 'w vm_code =
  hook_code :: "fnptr \<Rightarrow> 'w vm_t \<Rightarrow> u16 \<Rightarrow> ptr \<Rightarrow> 'w vm_t option"
  handler_code :: "fnptr \<Rightarrow> 'w vm_t \<Rightarrow> ptr \<Rightarrow> 'w vm_t option"
  free_code :: "fnptr \<Rightarrow> 'w vm_t \<Rightarrow> ptr \<Rightarrow> 'w vm_t option"
  time_usec :: "nat \<Rightarrow> int"
  rand_value :: "nat \<Rightarrow> nat"

abbreviation (input) HOOK_ON_NONE :: u16 where "HOOK_ON_NONE \<equiv> 0"
abbreviation (input) HOOK_ON_WRITE :: u16 where "HOOK_ON_WRITE \<equiv> 1"
abbreviation (input) HOOK_ON_POST_CYCLE :: u16 where "HOOK_ON_POST_CYCLE \<equiv> 2"
abbreviation (input) HOOK_ON_BREAK :: u16 where "HOOK_ON_BREAK \<equiv> 3"
abbreviation (input) HOOK_ON_PRE_CYCLE :: u16 where "HOOK_ON_PRE_CYCLE \<equiv> 4"
abbreviation (input) HOOK_ON_INTERRUPT :: u16 where "HOOK_ON_INTERRUPT \<equiv> 5"
abbreviation (input) HOOK_ON_60HZ :: u16 where "HOOK_ON_60HZ \<equiv> 6"
abbreviation (input) HOOK_ON_HARDWARE_CHANGE :: u16 where "HOOK_ON_HARDWARE_CHANGE \<equiv> 7"

definition reg_get :: "'w vm_t \<Rightarrow> u16 \<Rightarrow> u16" where
  "reg_get vm r = registers vm ! unat r"

definition reg_set :: "'w vm_t \<Rightarrow> u16 \<Rightarrow> u16 \<Rightarrow> 'w vm_t" where
  "reg_set vm r v = vm\<lparr>registers := (registers vm)[unat r := v]\<rparr>"

text \<open>
  The lengths of the arrays of \<^verbatim>\<open>struct vm\<close>, and the bound on the interrupt count that
  keeps \<open>irq[irq_count++]\<close> inside the array.
\<close>

definition vm_wf :: "'w vm_t \<Rightarrow> bool" where
  "vm_wf vm \<longleftrightarrow>
     length (registers vm) = 8 \<and> length (irq vm) = 256 \<and> unat (irq_count vm) \<le> INTERRUPT_MAX \<and>
     length (hook_list vm) = VM_HOOK_MAX \<and> length (hook_mode vm) = VM_HOOK_MAX \<and>
     length (hook_userdata vm) = VM_HOOK_MAX \<and> length (hw_list vm) = VM_HW_MAX"

section \<open>Life cycle\<close>

definition vm_halt :: "'w vm_t \<Rightarrow> 'w vm_t" where
  "vm_halt vm = vm\<lparr>halted := True\<rparr>"

definition vm_reset :: "'w vm_t \<Rightarrow> bool \<Rightarrow> 'w vm_t" where
  "vm_reset vm reset_memory =
     vm\<lparr>registers := replicate 8 0, pc := 0, sp := 0, ex := 0, ia := 0,
        ram := (if reset_memory then (\<lambda>_. 0) else ram vm),
        sleep_cycles := 0, dummy := 0, halted := False, exit := False, skip := False,
        can_fire := False, on_fire := False, fire_cycles := 0, fire_cycles_target := 0,
        radiation := False, radiation_cycles := 0, radiation_cycles_target := 0,
        radiation_factor := 1, queue_interrupts := False, irq_count := 0, dump := None,
        irq := replicate 256 0\<rparr>"

definition vm_hook_initialize :: "'w vm_t \<Rightarrow> 'w vm_t" where
  "vm_hook_initialize vm =
     vm\<lparr>hook_list := replicate VM_HOOK_MAX None, hook_mode := replicate VM_HOOK_MAX 0,
        hook_userdata := replicate VM_HOOK_MAX 0\<rparr>"

definition vm_hw_initialize :: "'w vm_t \<Rightarrow> 'w vm_t" where
  "vm_hw_initialize vm = vm\<lparr>hw_list := replicate VM_HW_MAX None\<rparr>"

text \<open>\<open>memset(vm, 0, sizeof(vm_t))\<close>: every field of the structure is zero.\<close>

definition vm_memset_zero :: "'w vm_t \<Rightarrow> 'w vm_t" where
  "vm_memset_zero vm =
     vm\<lparr>registers := replicate 8 0, pc := 0, sp := 0, ia := 0, ex := 0, ram := (\<lambda>_. 0),
        dummy := 0, irq := replicate 256 0, irq_count := 0, sleep_cycles := 0,
        queue_interrupts := False, halted := False, exit := False, skip := False,
        debug := False, can_fire := False, on_fire := False, fire_cycles := 0,
        fire_cycles_target := 0, radiation_factor := 0, radiation := False,
        radiation_cycles := 0, radiation_cycles_target := 0,
        hook_list := replicate VM_HOOK_MAX None, hook_mode := replicate VM_HOOK_MAX 0,
        hook_userdata := replicate VM_HOOK_MAX 0, hw_list := replicate VM_HW_MAX None,
        dump := None, host := None\<rparr>"

definition vm_init :: "'w vm_t \<Rightarrow> 'w vm_t" where
  "vm_init vm =
     (let vm = vm_memset_zero vm;
          vm = vm_reset vm False;
          vm = vm\<lparr>host := None, debug := False\<rparr>;
          vm = vm_hook_initialize vm
      in vm_hw_initialize vm)"

text \<open>
  \<open>vm_create\<close> at process start: \<open>vm_init\<close> on freshly allocated memory. The values before
  initialisation do not survive it; the statics have their C initialisers.
\<close>

definition vm_create :: "'w \<Rightarrow> 'w vm_t" where
  "vm_create w = vm_init
     \<lparr>registers = [], pc = 0, sp = 0, ia = 0, ex = 0, ram = (\<lambda>_. 0), dummy = 0, irq = [],
      irq_count = 0, sleep_cycles = 0, queue_interrupts = False, halted = False, exit = False,
      skip = False, debug = False, can_fire = False, on_fire = False, fire_cycles = 0,
      fire_cycles_target = 0, radiation_factor = 0, radiation = False, radiation_cycles = 0,
      radiation_cycles_target = 0, hook_list = [], hook_mode = [], hook_userdata = [],
      hw_list = [], dump = None, host = None, static_usec = 0, static_screen_id = -1,
      time_calls = 0, rand_calls = 0, world = w\<rparr>"

definition vm_flash :: "'w vm_t \<Rightarrow> (u16 \<Rightarrow> u16) \<Rightarrow> 'w vm_t" where
  "vm_flash vm memory = (vm_reset vm False)\<lparr>ram := memory\<rparr>"

section \<open>Hooks\<close>

text \<open>
  The search loop both tables use. In C the slot is read before the bound is tested, so a
  full table is read one element past its end; the test that follows makes the result
  independent of the value found there.
\<close>

function find_slot :: "'a option list \<Rightarrow> nat \<Rightarrow> nat \<Rightarrow> nat" where
  "find_slot xs cap i =
     (if i < cap \<and> xs ! i \<noteq> None then find_slot xs cap (Suc i) else i)"
  by pat_completeness auto
termination
  by (relation "measure (\<lambda>(xs, cap, i). cap - i)") auto

declare find_slot.simps [simp del]

primrec vm_hook_fire_loop ::
    "'w vm_code \<Rightarrow> nat list \<Rightarrow> 'w vm_t \<Rightarrow> u16 \<Rightarrow> u16 \<Rightarrow> ptr \<Rightarrow> 'w vm_t option" where
  "vm_hook_fire_loop e [] vm pos mode ud = Some vm"
| "vm_hook_fire_loop e (i # is) vm pos mode ud =
     (case hook_list vm ! i of
        None \<Rightarrow> vm_hook_fire_loop e is vm pos mode ud
      | Some h \<Rightarrow>
          if hook_mode vm ! i = mode
          then hook_code e h vm pos (if ud = 0 then hook_userdata vm ! i else ud) \<bind>
                 (\<lambda>vm. vm_hook_fire_loop e is vm pos mode ud)
          else vm_hook_fire_loop e is vm pos mode ud)"

definition vm_hook_fire :: "'w vm_code \<Rightarrow> 'w vm_t \<Rightarrow> u16 \<Rightarrow> u16 \<Rightarrow> ptr \<Rightarrow> 'w vm_t option" where
  "vm_hook_fire e vm pos mode ud = vm_hook_fire_loop e [0..<VM_HOOK_MAX] vm pos mode ud"

definition vm_hook_break :: "'w vm_code \<Rightarrow> 'w vm_t \<Rightarrow> 'w vm_t option" where
  "vm_hook_break e vm = vm_hook_fire e vm 0 HOOK_ON_BREAK 0"

definition vm_hook_register :: "'w vm_t \<Rightarrow> fnptr \<Rightarrow> u16 \<Rightarrow> ptr \<Rightarrow> u16 \<times> 'w vm_t" where
  "vm_hook_register vm hook mode ud =
     (let id = find_slot (hook_list vm) VM_HOOK_MAX 0
      in if id \<ge> VM_HOOK_MAX then (0, vm_halt vm)
         else (of_nat id,
               vm\<lparr>hook_list := (hook_list vm)[id := Some hook],
                  hook_mode := (hook_mode vm)[id := mode],
                  hook_userdata := (hook_userdata vm)[id := ud]\<rparr>))"

definition vm_hook_unregister :: "'w vm_t \<Rightarrow> u16 \<Rightarrow> 'w vm_t option" where
  "vm_hook_unregister vm hid =
     (if unat hid < VM_HOOK_MAX
      then Some (vm\<lparr>hook_list := (hook_list vm)[unat hid := None],
                    hook_mode := (hook_mode vm)[unat hid := HOOK_ON_NONE],
                    hook_userdata := (hook_userdata vm)[unat hid := 0]\<rparr>)
      else None)"

section \<open>Hardware\<close>

definition vm_hw_register :: "'w vm_t \<Rightarrow> hw_t \<Rightarrow> u16 \<times> 'w vm_t" where
  "vm_hw_register vm hardware =
     (let id = find_slot (hw_list vm) VM_HW_MAX 0
      in if id \<ge> VM_HW_MAX then (0, vm_halt vm)
         else (of_nat id, vm\<lparr>hw_list := (hw_list vm)[id := Some hardware]\<rparr>))"

definition vm_hw_interrupt :: "'w vm_code \<Rightarrow> 'w vm_t \<Rightarrow> u16 \<Rightarrow> 'w vm_t option" where
  "vm_hw_interrupt e vm index =
     (if unat index < VM_HW_MAX
      then (case hw_list vm ! unat index of
              None \<Rightarrow> Some vm
            | Some device \<Rightarrow>
                (case hw_handler device of
                   None \<Rightarrow> Some vm
                 | Some h \<Rightarrow> handler_code e h vm (hw_userdata device)))
      else Some vm)"

definition vm_hw_count :: "'w vm_t \<Rightarrow> u16" where
  "vm_hw_count vm = of_nat (find_slot (hw_list vm) VM_HW_MAX 0)"

text \<open>The index is not checked: outside the table the read is undefined.\<close>

definition vm_hw_get_device :: "'w vm_t \<Rightarrow> u16 \<Rightarrow> hw_t option option" where
  "vm_hw_get_device vm index =
     (if unat index < VM_HW_MAX then Some (hw_list vm ! unat index) else None)"

primrec vm_hw_free_loop :: "'w vm_code \<Rightarrow> nat list \<Rightarrow> 'w vm_t \<Rightarrow> 'w vm_t option" where
  "vm_hw_free_loop e [] vm = Some vm"
| "vm_hw_free_loop e (i # is) vm =
     (let hw = hw_list vm ! i;
          vm = vm\<lparr>hw_list := (hw_list vm)[i := None]\<rparr>
      in (case hw of
            None \<Rightarrow> Some vm
          | Some d \<Rightarrow>
              (case hw_free_handler d of
                 None \<Rightarrow> Some vm
               | Some h \<Rightarrow> free_code e h vm (hw_userdata d))) \<bind> vm_hw_free_loop e is)"

definition vm_hw_free_all :: "'w vm_code \<Rightarrow> 'w vm_t \<Rightarrow> 'w vm_t option" where
  "vm_hw_free_all e vm = vm_hw_free_loop e [0..<VM_HW_MAX] vm"

definition vm_close :: "'w vm_code \<Rightarrow> 'w vm_t \<Rightarrow> 'w vm_t option" where
  "vm_close e vm = vm_hw_free_all e vm"

section \<open>Well-formedness\<close>

lemma vm_wf_lengths:
  assumes "vm_wf vm"
  shows "length (registers vm) = 8" "length (irq vm) = 256" "unat (irq_count vm) \<le> 255"
    "length (hook_list vm) = 50" "length (hook_mode vm) = 50" "length (hook_userdata vm) = 50"
    "length (hw_list vm) = 32"
  using assms by (simp_all add: vm_wf_def)

text \<open>Updating fields the invariant does not mention keeps it; \<open>simp\<close> uses these.\<close>

lemma vm_wf_updates [simp]:
  "vm_wf (vm\<lparr>pc := w\<rparr>) = vm_wf vm" "vm_wf (vm\<lparr>sp := w\<rparr>) = vm_wf vm"
  "vm_wf (vm\<lparr>ia := w\<rparr>) = vm_wf vm" "vm_wf (vm\<lparr>ex := w\<rparr>) = vm_wf vm"
  "vm_wf (vm\<lparr>ram := m\<rparr>) = vm_wf vm" "vm_wf (vm\<lparr>dummy := w\<rparr>) = vm_wf vm"
  "vm_wf (vm\<lparr>sleep_cycles := w\<rparr>) = vm_wf vm" "vm_wf (vm\<lparr>queue_interrupts := b\<rparr>) = vm_wf vm"
  "vm_wf (vm\<lparr>halted := b\<rparr>) = vm_wf vm" "vm_wf (vm\<lparr>exit := b\<rparr>) = vm_wf vm"
  "vm_wf (vm\<lparr>skip := b\<rparr>) = vm_wf vm" "vm_wf (vm\<lparr>debug := b\<rparr>) = vm_wf vm"
  "vm_wf (vm\<lparr>can_fire := b\<rparr>) = vm_wf vm" "vm_wf (vm\<lparr>on_fire := b\<rparr>) = vm_wf vm"
  "vm_wf (vm\<lparr>fire_cycles := n\<rparr>) = vm_wf vm" "vm_wf (vm\<lparr>fire_cycles_target := n\<rparr>) = vm_wf vm"
  "vm_wf (vm\<lparr>radiation_cycles := n\<rparr>) = vm_wf vm"
  "vm_wf (vm\<lparr>radiation_cycles_target := n\<rparr>) = vm_wf vm"
  "vm_wf (vm\<lparr>radiation := b\<rparr>) = vm_wf vm"
  "vm_wf (vm\<lparr>dump := d\<rparr>) = vm_wf vm" "vm_wf (vm\<lparr>host := d\<rparr>) = vm_wf vm"
  "vm_wf (vm\<lparr>static_usec := n\<rparr>) = vm_wf vm" "vm_wf (vm\<lparr>static_screen_id := n\<rparr>) = vm_wf vm"
  "vm_wf (vm\<lparr>time_calls := k\<rparr>) = vm_wf vm" "vm_wf (vm\<lparr>rand_calls := k\<rparr>) = vm_wf vm"
  "vm_wf (vm\<lparr>world := x\<rparr>) = vm_wf vm"
  by (simp_all add: vm_wf_def)

lemma vm_wf_reg_set [simp]: "vm_wf (reg_set vm r v) = vm_wf vm"
  by (simp add: vm_wf_def reg_set_def)

lemma reg_set_frame [simp]:
  "pc (reg_set vm r v) = pc vm" "sp (reg_set vm r v) = sp vm" "ia (reg_set vm r v) = ia vm"
  "ex (reg_set vm r v) = ex vm" "ram (reg_set vm r v) = ram vm" "dummy (reg_set vm r v) = dummy vm"
  "irq (reg_set vm r v) = irq vm" "irq_count (reg_set vm r v) = irq_count vm"
  "sleep_cycles (reg_set vm r v) = sleep_cycles vm" "skip (reg_set vm r v) = skip vm"
  "queue_interrupts (reg_set vm r v) = queue_interrupts vm" "halted (reg_set vm r v) = halted vm"
  "hook_list (reg_set vm r v) = hook_list vm" "hook_mode (reg_set vm r v) = hook_mode vm"
  "hook_userdata (reg_set vm r v) = hook_userdata vm" "hw_list (reg_set vm r v) = hw_list vm"
  "world (reg_set vm r v) = world vm"
  by (simp_all add: reg_set_def)

lemma reg_get_frame [simp]:
  "reg_get (vm\<lparr>pc := w\<rparr>) r = reg_get vm r" "reg_get (vm\<lparr>sp := w\<rparr>) r = reg_get vm r"
  "reg_get (vm\<lparr>ia := w\<rparr>) r = reg_get vm r" "reg_get (vm\<lparr>ex := w\<rparr>) r = reg_get vm r"
  "reg_get (vm\<lparr>ram := m\<rparr>) r = reg_get vm r" "reg_get (vm\<lparr>dummy := w\<rparr>) r = reg_get vm r"
  "reg_get (vm\<lparr>sleep_cycles := w\<rparr>) r = reg_get vm r" "reg_get (vm\<lparr>skip := b\<rparr>) r = reg_get vm r"
  "reg_get (vm\<lparr>queue_interrupts := b\<rparr>) r = reg_get vm r"
  "reg_get (vm\<lparr>halted := b\<rparr>) r = reg_get vm r" "reg_get (vm\<lparr>world := x\<rparr>) r = reg_get vm r"
  by (simp_all add: reg_get_def)

lemma vm_wf_vm_halt [simp]: "vm_wf (vm_halt vm) = vm_wf vm"
  by (simp add: vm_halt_def)

lemma reg_get_reg_set [simp]:
  assumes "vm_wf vm" and "r < 8" and "r' < 8"
  shows "reg_get (reg_set vm r v) r' = (if r' = r then v else reg_get vm r')"
proof -
  have "unat r < 8" "unat r' < 8"
    using assms(2,3) by (simp_all add: word_less_nat_alt)
  then show ?thesis
    using vm_wf_lengths(1) [OF assms(1)]
    by (auto simp: reg_get_def reg_set_def nth_list_update word_unat_eq_iff)
qed

lemma vm_wf_init: "vm_wf (vm_init vm)"
  by (simp add: vm_init_def Let_def vm_wf_def vm_hw_initialize_def vm_hook_initialize_def
      vm_reset_def)

lemma vm_wf_create: "vm_wf (vm_create w)"
  by (simp add: vm_create_def vm_wf_init)

lemma vm_create_fields:
  "\<not> skip (vm_create w)" "ex (vm_create w) = 0" "pc (vm_create w) = 0" "sp (vm_create w) = 0"
  "ia (vm_create w) = 0" "sleep_cycles (vm_create w) = 0" "ram (vm_create w) = (\<lambda>_. 0)"
  "irq_count (vm_create w) = 0" "\<not> queue_interrupts (vm_create w)" "\<not> halted (vm_create w)"
  "\<not> exit (vm_create w)" "\<not> on_fire (vm_create w)" "\<not> radiation (vm_create w)"
  "\<not> can_fire (vm_create w)"
  "registers (vm_create w) = replicate 8 0" "irq (vm_create w) = replicate 256 0"
  "hook_list (vm_create w) = replicate 50 None" "hw_list (vm_create w) = replicate 32 None"
  "world (vm_create w) = w"
  by (simp_all add: vm_create_def vm_init_def Let_def vm_hw_initialize_def
      vm_hook_initialize_def vm_reset_def vm_memset_zero_def)

lemma vm_wf_reset: "vm_wf vm \<Longrightarrow> vm_wf (vm_reset vm m)"
  by (simp add: vm_wf_def vm_reset_def)

lemma vm_wf_flash: "vm_wf vm \<Longrightarrow> vm_wf (vm_flash vm memory)"
  by (simp add: vm_flash_def vm_wf_reset)

section \<open>The search loop\<close>

lemma find_slot_props:
  assumes "i \<le> cap"
  shows "i \<le> find_slot xs cap i \<and> find_slot xs cap i \<le> cap \<and>
    (\<forall>j. i \<le> j \<and> j < find_slot xs cap i \<longrightarrow> xs ! j \<noteq> None) \<and>
    (find_slot xs cap i < cap \<longrightarrow> xs ! find_slot xs cap i = None)"
  using assms
proof (induction xs cap i rule: find_slot.induct)
  case (1 xs cap i)
  show ?case
  proof (cases "i < cap \<and> xs ! i \<noteq> None")
    case True
    then have IH: "Suc i \<le> find_slot xs cap (Suc i) \<and> find_slot xs cap (Suc i) \<le> cap \<and>
        (\<forall>j. Suc i \<le> j \<and> j < find_slot xs cap (Suc i) \<longrightarrow> xs ! j \<noteq> None) \<and>
        (find_slot xs cap (Suc i) < cap \<longrightarrow> xs ! find_slot xs cap (Suc i) = None)"
      using 1 by simp
    have "xs ! j \<noteq> None" if "i \<le> j" "j < find_slot xs cap (Suc i)" for j
      using that IH True by (cases "j = i") auto
    with IH True show ?thesis
      by (auto simp: find_slot.simps [of xs cap i])
  next
    case False
    with 1 show ?thesis by (auto simp: find_slot.simps [of xs cap i])
  qed
qed

lemma find_slot_eq:
  assumes "k < cap" and "xs ! k = None" and "\<forall>j < k. xs ! j \<noteq> None"
  shows "find_slot xs cap 0 = k"
proof -
  let ?f = "find_slot xs cap 0"
  have p: "?f \<le> cap" "\<forall>j < ?f. xs ! j \<noteq> None" "?f < cap \<longrightarrow> xs ! ?f = None"
    using find_slot_props [of 0 cap xs] by auto
  have "\<not> k < ?f" using p(2) assms(2) by auto
  moreover have "\<not> ?f < k" using p(3) assms by auto
  ultimately show ?thesis by simp
qed

lemma find_slot_full:
  assumes "\<forall>j < cap. xs ! j \<noteq> None"
  shows "find_slot xs cap 0 = cap"
  using find_slot_props [of 0 cap xs] assms by (metis le_neq_implies_less zero_le)

lemma find_slot_full_iff:
  "find_slot xs cap 0 = cap \<longleftrightarrow> (\<forall>j < cap. xs ! j \<noteq> None)"
  using find_slot_full find_slot_props [of 0 cap xs] by auto

lemma find_slot_le [simp]: "find_slot xs cap 0 \<le> cap"
  using find_slot_props [of 0 cap xs] by simp

section \<open>The contract of the two tables\<close>

locale slot_table =
  fixes slots :: "'s \<Rightarrow> 'x option list"
    and valid :: "'s \<Rightarrow> bool"
    and cap :: nat
    and put :: "'s \<Rightarrow> 'x \<Rightarrow> u16 \<times> 's"
  assumes cap_u16: "cap < 65536"
    and slots_len: "valid s \<Longrightarrow> length (slots s) = cap"
    and put_free: "valid s \<Longrightarrow> k < cap \<Longrightarrow> slots s ! k = None \<Longrightarrow> \<forall>j < k. slots s ! j \<noteq> None \<Longrightarrow>
      fst (put s x) = of_nat k \<and> slots (snd (put s x)) = (slots s)[k := Some x]"
    and put_full: "valid s \<Longrightarrow> None \<notin> set (slots s) \<Longrightarrow>
      fst (put s x) = 0 \<and> slots (snd (put s x)) = slots s"
    and put_valid: "valid s \<Longrightarrow> valid (snd (put s x))"
begin

lemma first_free:
  assumes "valid s" and "None \<in> set (slots s)"
  obtains k where "k < cap" and "slots s ! k = None" and "\<forall>j < k. slots s ! j \<noteq> None"
proof -
  obtain i where i: "i < cap" "slots s ! i = None"
    using assms slots_len by (metis in_set_conv_nth)
  define k where "k = (LEAST i. slots s ! i = None)"
  have "slots s ! k = None" and "k \<le> i" and "\<forall>j < k. slots s ! j \<noteq> None"
    using i(2) by (auto simp: k_def dest: not_less_Least intro: LeastI Least_le)
  with i(1) show ?thesis by (intro that [of k]) simp_all
qed

text \<open>After a successful registration the returned id finds the item.\<close>

lemma put_lookup:
  assumes "valid s" and "None \<in> set (slots s)"
  shows "unat (fst (put s x)) < cap \<and> slots (snd (put s x)) ! unat (fst (put s x)) = Some x"
proof -
  obtain k where k: "k < cap" "slots s ! k = None" "\<forall>j < k. slots s ! j \<noteq> None"
    using first_free [OF assms] .
  have "unat (fst (put s x)) = k"
    using put_free [OF assms(1) k] k(1) cap_u16 by (simp add: unat_of_nat_u16)
  with put_free [OF assms(1) k] k(1) slots_len [OF assms(1)] show ?thesis by simp
qed

text \<open>Items already in the table stay where they are, full or not.\<close>

lemma put_keeps:
  assumes "valid s" and "i < cap" and "slots s ! i = Some y"
  shows "slots (snd (put s x)) ! i = Some y"
proof (cases "None \<in> set (slots s)")
  case True
  obtain k where k: "k < cap" "slots s ! k = None" "\<forall>j < k. slots s ! j \<noteq> None"
    using first_free [OF assms(1) True] .
  with assms(3) have "i \<noteq> k" by auto
  with put_free [OF assms(1) k] assms show ?thesis by simp
next
  case False
  with put_full [OF assms(1)] assms show ?thesis by simp
qed

text \<open>Two registrations in a row get different ids and both are in force afterwards.\<close>

lemma put_put:
  assumes "valid s" and "None \<in> set (slots s)"
    and "None \<in> set (slots (snd (put s x)))"
  shows "fst (put (snd (put s x)) y) \<noteq> fst (put s x)"
    and "slots (snd (put (snd (put s x)) y)) ! unat (fst (put s x)) = Some x"
proof -
  let ?s = "snd (put s x)"
  have v: "valid ?s" using put_valid [OF assms(1)] .
  note l = put_lookup [OF assms(1,2), of x]
  show "slots (snd (put ?s y)) ! unat (fst (put s x)) = Some x"
    using put_keeps [OF v, of "unat (fst (put s x))" x y] l by simp
  obtain k where k: "k < cap" "slots ?s ! k = None" "\<forall>j < k. slots ?s ! j \<noteq> None"
    using first_free [OF v assms(3)] .
  have "unat (fst (put ?s y)) = k"
    using put_free [OF v k] k(1) cap_u16 by (simp add: unat_of_nat_u16)
  with l k(2) show "fst (put ?s y) \<noteq> fst (put s x)" by auto
qed

end

definition hook_slots :: "'w vm_t \<Rightarrow> (fnptr \<times> u16 \<times> ptr) option list" where
  "hook_slots vm =
     map (\<lambda>i. map_option (\<lambda>h. (h, hook_mode vm ! i, hook_userdata vm ! i)) (hook_list vm ! i))
       [0..<VM_HOOK_MAX]"

definition hook_put :: "'w vm_t \<Rightarrow> fnptr \<times> u16 \<times> ptr \<Rightarrow> u16 \<times> 'w vm_t" where
  "hook_put vm x = (case x of (h, m, u) \<Rightarrow> vm_hook_register vm h m u)"

lemma hook_slots_nth:
  "i < 50 \<Longrightarrow> hook_slots vm ! i =
     map_option (\<lambda>h. (h, hook_mode vm ! i, hook_userdata vm ! i)) (hook_list vm ! i)"
  by (simp add: hook_slots_def)

lemma hook_slots_length [simp]: "length (hook_slots vm) = 50"
  by (simp add: hook_slots_def)

lemma vm_wf_hook_register: "vm_wf vm \<Longrightarrow> vm_wf (snd (vm_hook_register vm h m u))"
  by (simp add: vm_hook_register_def Let_def vm_halt_def vm_wf_def)

lemma vm_wf_hw_register: "vm_wf vm \<Longrightarrow> vm_wf (snd (vm_hw_register vm d))"
  by (simp add: vm_hw_register_def Let_def vm_halt_def vm_wf_def)

lemma vm_wf_hook_unregister: "vm_wf vm \<Longrightarrow> vm_hook_unregister vm i = Some vm' \<Longrightarrow> vm_wf vm'"
  by (auto simp: vm_hook_unregister_def vm_wf_def split: if_splits)

lemma hook_put_free:
  assumes "vm_wf vm" and "k < 50" and "hook_slots vm ! k = None"
    and "\<forall>j < k. hook_slots vm ! j \<noteq> None"
  shows "fst (hook_put vm x) = of_nat k \<and> hook_slots (snd (hook_put vm x)) = (hook_slots vm)[k := Some x]"
proof -
  obtain h m u where x: "x = (h, m, u)" by (cases x)
  have "hook_list vm ! k = None" and "\<forall>j < k. hook_list vm ! j \<noteq> None"
    using assms(2-4) by (auto simp: hook_slots_nth)
  then have f: "find_slot (hook_list vm) 50 0 = k"
    by (rule find_slot_eq [OF assms(2)])
  have "hook_slots (snd (hook_put vm x)) = (hook_slots vm)[k := Some x]"
    using vm_wf_lengths [OF assms(1)] assms(2)
    by (intro nth_equalityI)
      (auto simp: hook_put_def x vm_hook_register_def f hook_slots_nth nth_list_update)
  then show ?thesis
    using assms(2) by (simp add: hook_put_def x vm_hook_register_def f)
qed

lemma hook_put_full:
  assumes "vm_wf vm" and "None \<notin> set (hook_slots vm)"
  shows "vm_hook_register vm h m u = (0, vm_halt vm)"
proof -
  have "\<forall>j < 50. hook_list vm ! j \<noteq> None"
    using assms(2) by (force simp: in_set_conv_nth hook_slots_nth)
  then have "find_slot (hook_list vm) 50 0 = 50" by (rule find_slot_full)
  then show ?thesis by (simp add: vm_hook_register_def)
qed

interpretation hooks: slot_table hook_slots vm_wf 50 hook_put
proof
  fix s :: "'a vm_t" and x assume wf: "vm_wf s"
  show "vm_wf (snd (hook_put s x))"
    using wf by (simp add: hook_put_def vm_wf_hook_register split: prod.splits)
  assume "None \<notin> set (hook_slots s)"
  with wf show "fst (hook_put s x) = 0 \<and> hook_slots (snd (hook_put s x)) = hook_slots s"
    by (simp add: hook_put_def hook_put_full vm_halt_def hook_slots_def split: prod.splits)
qed (simp_all add: hook_put_free)

lemma hw_put_free:
  assumes "vm_wf vm" and "k < 32" and "hw_list vm ! k = None"
    and "\<forall>j < k. hw_list vm ! j \<noteq> None"
  shows "fst (vm_hw_register vm d) = of_nat k \<and>
    hw_list (snd (vm_hw_register vm d)) = (hw_list vm)[k := Some d]"
  using find_slot_eq [OF assms(2-4)] assms(2) by (simp add: vm_hw_register_def)

lemma hw_put_full:
  assumes "vm_wf vm" and "None \<notin> set (hw_list vm)"
  shows "vm_hw_register vm d = (0, vm_halt vm)"
proof -
  have "\<forall>j < 32. hw_list vm ! j \<noteq> None"
    using assms by (metis nth_mem vm_wf_lengths(7))
  then have "find_slot (hw_list vm) 32 0 = 32" by (rule find_slot_full)
  then show ?thesis by (simp add: vm_hw_register_def)
qed

interpretation devices: slot_table hw_list vm_wf 32 vm_hw_register
proof
  fix s :: "'a vm_t" and x assume wf: "vm_wf s"
  show "length (hw_list s) = 32" using wf by (rule vm_wf_lengths)
  show "vm_wf (snd (vm_hw_register s x))" using wf by (rule vm_wf_hw_register)
  show "fst (vm_hw_register s x) = of_nat k \<and> hw_list (snd (vm_hw_register s x)) = (hw_list s)[k := Some x]"
    if "k < 32" "hw_list s ! k = None" "\<forall>j < k. hw_list s ! j \<noteq> None" for k
    using wf that by (rule hw_put_free)
  assume "None \<notin> set (hw_list s)"
  with wf show "fst (vm_hw_register s x) = 0 \<and> hw_list (snd (vm_hw_register s x)) = hw_list s"
    by (simp add: hw_put_full vm_halt_def)
qed simp

section \<open>Firing hooks\<close>

definition no_hook :: "'w vm_t \<Rightarrow> u16 \<Rightarrow> bool" where
  "no_hook vm mode \<longleftrightarrow> (\<forall>i < VM_HOOK_MAX. hook_list vm ! i \<noteq> None \<longrightarrow> hook_mode vm ! i \<noteq> mode)"

lemma hook_fire_loop_none:
  "\<forall>i \<in> set is. hook_list vm ! i \<noteq> None \<longrightarrow> hook_mode vm ! i \<noteq> mode \<Longrightarrow>
     vm_hook_fire_loop e is vm pos mode ud = Some vm"
  by (induction "is") (auto split: option.splits)

lemma hook_fire_none: "no_hook vm mode \<Longrightarrow> vm_hook_fire e vm pos mode ud = Some vm"
  by (simp add: vm_hook_fire_def no_hook_def hook_fire_loop_none)

lemma no_hook_init: "no_hook (vm_init vm) mode"
  by (simp add: no_hook_def vm_init_def Let_def vm_hw_initialize_def vm_hook_initialize_def)

lemma no_hook_create: "no_hook (vm_create w) mode"
  by (simp add: vm_create_def no_hook_init)

text \<open>Callbacks that do nothing, a clock that stands still and a constant random source.\<close>

definition idle_code :: "'w vm_code" where
  "idle_code =
     \<lparr>hook_code = (\<lambda>h vm pos ud. Some vm), handler_code = (\<lambda>h vm ud. Some vm),
      free_code = (\<lambda>h vm ud. Some vm), time_usec = (\<lambda>_. 0), rand_value = (\<lambda>_. 50)\<rparr>"

text \<open>
  What the machine relies on from the code behind its function pointers: a callback that
  returns leaves a well-formed machine behind.
\<close>

locale callbacks =
  fixes e :: "'w vm_code"
  assumes hook_code_wf: "vm_wf vm \<Longrightarrow> pred_option vm_wf (hook_code e h vm pos ud)"
    and handler_code_wf: "vm_wf vm \<Longrightarrow> pred_option vm_wf (handler_code e h vm ud)"
    and free_code_wf: "vm_wf vm \<Longrightarrow> pred_option vm_wf (free_code e h vm ud)"
begin

lemma hook_fire_loop_wf: "vm_wf vm \<Longrightarrow> pred_option vm_wf (vm_hook_fire_loop e is vm pos mode ud)"
proof (induction "is" arbitrary: vm)
  case Nil
  then show ?case by simp
next
  case (Cons i "is")
  then show ?case
    by (auto split: option.splits intro!: pred_option_bind intro: hook_code_wf)
qed

lemma hook_fire_wf [wf_intros]: "vm_wf vm \<Longrightarrow> pred_option vm_wf (vm_hook_fire e vm pos mode ud)"
  by (simp add: vm_hook_fire_def hook_fire_loop_wf)

lemma hook_break_wf: "vm_wf vm \<Longrightarrow> pred_option vm_wf (vm_hook_break e vm)"
  by (simp add: vm_hook_break_def hook_fire_wf)

lemma hw_interrupt_wf [wf_intros]: "vm_wf vm \<Longrightarrow> pred_option vm_wf (vm_hw_interrupt e vm index)"
  by (simp add: vm_hw_interrupt_def handler_code_wf split: option.splits)

lemma hw_free_loop_wf: "vm_wf vm \<Longrightarrow> pred_option vm_wf (vm_hw_free_loop e is vm)"
proof (induction "is" arbitrary: vm)
  case Nil
  then show ?case by simp
next
  case (Cons i "is")
  let ?vm = "vm\<lparr>hw_list := (hw_list vm)[i := None]\<rparr>"
  have "vm_wf ?vm" using Cons.prems by (simp add: vm_wf_def)
  then show ?case
    using Cons.IH
    by (auto simp: Let_def split: option.splits intro!: pred_option_bind intro: free_code_wf)
qed

lemma close_wf: "vm_wf vm \<Longrightarrow> pred_option vm_wf (vm_close e vm)"
  by (simp add: vm_close_def vm_hw_free_all_def hw_free_loop_wf)

end

end
