(* ===== verification/Fifo.thy ===== *)
theory Fifo
  imports Prelude
begin

text \<open>
  The contract of a bounded first-in first-out buffer. The interrupt queue of the machine
  and the keyboard's ring buffer are stored differently; both are proved to meet this
  contract, and order of delivery is proved once, here.
\<close>

primrec enq_all :: "('s \<Rightarrow> 'x \<Rightarrow> 's) \<Rightarrow> 'x list \<Rightarrow> 's \<Rightarrow> 's" where
  "enq_all enq [] s = s"
| "enq_all enq (x # xs) s = enq_all enq xs (enq s x)"

primrec drain :: "('s \<Rightarrow> 'x \<times> 's) \<Rightarrow> nat \<Rightarrow> 's \<Rightarrow> 'x list \<times> 's" where
  "drain deq 0 s = ([], s)"
| "drain deq (Suc n) s =
     (let (x, s') = deq s; (xs, s'') = drain deq n s' in (x # xs, s''))"

locale bounded_fifo =
  fixes items :: "'s \<Rightarrow> 'x list"
    and valid :: "'s \<Rightarrow> bool"
    and cap :: nat
    and enq :: "'s \<Rightarrow> 'x \<Rightarrow> 's"
    and deq :: "'s \<Rightarrow> 'x \<times> 's"
  assumes items_bound: "valid s \<Longrightarrow> length (items s) \<le> cap"
    and enq_items: "valid s \<Longrightarrow> length (items s) < cap \<Longrightarrow> items (enq s x) = items s @ [x]"
    and enq_valid: "valid s \<Longrightarrow> valid (enq s x)"
    and deq_items: "valid s \<Longrightarrow> items s = x # xs \<Longrightarrow> fst (deq s) = x \<and> items (snd (deq s)) = xs"
    and deq_valid: "valid s \<Longrightarrow> items s \<noteq> [] \<Longrightarrow> valid (snd (deq s))"
begin

lemma enq_all_items:
  "valid s \<Longrightarrow> length (items s) + length xs \<le> cap \<Longrightarrow>
     valid (enq_all enq xs s) \<and> items (enq_all enq xs s) = items s @ xs"
proof (induction xs arbitrary: s)
  case Nil
  then show ?case by simp
next
  case (Cons x xs)
  then have "items (enq s x) = items s @ [x]" and "valid (enq s x)"
    by (simp_all add: enq_items enq_valid)
  with Cons show ?case by simp
qed

lemma drain_items:
  "valid s \<Longrightarrow> n \<le> length (items s) \<Longrightarrow>
     fst (drain deq n s) = take n (items s) \<and> items (snd (drain deq n s)) = drop n (items s)"
proof (induction n arbitrary: s)
  case 0
  then show ?case by simp
next
  case (Suc n)
  then obtain x xs where s: "items s = x # xs" by (cases "items s") auto
  from deq_items [OF Suc.prems(1) s] deq_valid [OF Suc.prems(1)] s
  have "fst (deq s) = x" "items (snd (deq s)) = xs" "valid (snd (deq s))" by simp_all
  with Suc.IH [of "snd (deq s)"] Suc.prems(2) s show ?case
    by (simp add: split_def Let_def)
qed

text \<open>What goes in comes out, in the same order.\<close>

lemma fifo_order:
  assumes "valid s" and "items s = []" and "length xs \<le> cap"
  shows "fst (drain deq (length xs) (enq_all enq xs s)) = xs"
  using enq_all_items [of s xs] drain_items [of "enq_all enq xs s" "length xs"] assms by simp

end

end
