(* ===== verification/Vm_Operand.thy ===== *)
theory Vm_Operand
  imports Vm_State Fifo
begin

text \<open>
  Operand access and interrupts: \<open>vm_consume_word\<close>, \<open>vm_resolve_value\<close>,
  \<open>vm_interrupt\<close> of \<^verbatim>\<open>vm.c\<close> and \<open>vm_internal_get_store\<close>,
  \<open>vm_resolve_value_once\<close> of \<^verbatim>\<open>dcpuops.c\<close>. A pointer into the machine that the C code
  passes around (\<open>uint16_t*\<close>) is a value of type \<open>store\<close>.
\<close>

section \<open>Reading words and operands\<close>

definition vm_consume_word :: "'w vm_t \<Rightarrow> u16 \<times> 'w vm_t" where
  "vm_consume_word vm = (ram vm (pc vm), vm\<lparr>pc := pc vm + 1\<rparr>)"

definition vm_resolve_value :: "'w vm_t \<Rightarrow> u16 \<Rightarrow> u8 \<Rightarrow> u16 \<times> 'w vm_t" where
  "vm_resolve_value vm val pos =
     (if val \<le> REG_J then (reg_get vm val, vm)
      else if VAL_A \<le> val \<and> val \<le> VAL_J then (ram vm (reg_get vm (val - VAL_A)), vm)
      else if NXT_VAL_A \<le> val \<and> val \<le> NXT_VAL_J then
        (let vm = vm\<lparr>sleep_cycles := sleep_cycles vm + 1\<rparr>;
             (w, vm') = vm_consume_word vm
         in (ram vm' (reg_get vm (val - NXT_VAL_A) + w), vm'))
      else if val = PUSH_POP then
        (if skip vm then (dummy vm, vm)
         else if pos = POS_A then (ram vm (sp vm), vm\<lparr>sp := sp vm + 1\<rparr>)
         else if pos = POS_B then (ram vm (sp vm - 1), vm\<lparr>sp := sp vm - 1\<rparr>)
         else (ram vm (sp vm), vm))
      else if val = PEEK then (ram vm (sp vm), vm)
      else if val = PICK then
        (let t = sp vm;
             vm = vm\<lparr>sleep_cycles := sleep_cycles vm + 1\<rparr>;
             (w, vm') = vm_consume_word vm
         in (ram vm' (t + w), vm'))
      else if val = IA_val then (ia vm, vm)
      else if val = SP_val then (sp vm, vm)
      else if val = PC_val then (pc vm, vm)
      else if val = EX_val then (ex vm, vm)
      else if val = NXT then
        (let (w, vm') = vm_consume_word vm
         in (ram vm' w, vm'\<lparr>sleep_cycles := sleep_cycles vm' + 1\<rparr>))
      else if val = NXT_LIT then
        (let (w, vm') = vm_consume_word vm
         in (w, vm'\<lparr>sleep_cycles := sleep_cycles vm' + 1\<rparr>))
      else (val - 0x21, vm))"

section \<open>Locations\<close>

datatype store = SReg u16 | SRam u16 | SIa | SSp | SPc | SEx | SDummy

fun store_read :: "'w vm_t \<Rightarrow> store \<Rightarrow> u16" where
  "store_read vm (SReg r) = reg_get vm r"
| "store_read vm (SRam a) = ram vm a"
| "store_read vm SIa = ia vm"
| "store_read vm SSp = sp vm"
| "store_read vm SPc = pc vm"
| "store_read vm SEx = ex vm"
| "store_read vm SDummy = dummy vm"

fun store_write :: "'w vm_t \<Rightarrow> store \<Rightarrow> u16 \<Rightarrow> 'w vm_t" where
  "store_write vm (SReg r) v = reg_set vm r v"
| "store_write vm (SRam a) v = vm\<lparr>ram := (ram vm)(a := v)\<rparr>"
| "store_write vm SIa v = vm\<lparr>ia := v\<rparr>"
| "store_write vm SSp v = vm\<lparr>sp := v\<rparr>"
| "store_write vm SPc v = vm\<lparr>pc := v\<rparr>"
| "store_write vm SEx v = vm\<lparr>ex := v\<rparr>"
| "store_write vm SDummy v = vm\<lparr>dummy := v\<rparr>"

definition vm_internal_get_store :: "'w vm_t \<Rightarrow> u16 \<Rightarrow> u8 \<Rightarrow> store \<times> 'w vm_t" where
  "vm_internal_get_store vm loc pos =
     (if skip vm then
        (if (NXT_VAL_A \<le> loc \<and> loc \<le> NXT_VAL_J) \<or> loc = NXT \<or> loc = PICK
         then (SDummy, snd (vm_consume_word vm))
         else (SDummy, vm))
      else if loc \<le> REG_J then (SReg loc, vm)
      else if VAL_A \<le> loc \<and> loc \<le> VAL_J then (SRam (reg_get vm (loc - VAL_A)), vm)
      else if NXT_VAL_A \<le> loc \<and> loc \<le> NXT_VAL_J then
        (let vm = vm\<lparr>sleep_cycles := sleep_cycles vm + 1\<rparr>;
             (w, vm') = vm_consume_word vm
         in (SRam (reg_get vm (loc - NXT_VAL_A) + w), vm'))
      else if loc = PUSH_POP then
        (if pos = POS_A then (SRam (sp vm), vm\<lparr>sp := sp vm + 1\<rparr>)
         else if pos = POS_B then (SRam (sp vm - 1), vm\<lparr>sp := sp vm - 1\<rparr>)
         else (SRam (sp vm), vm))
      else if loc = PEEK then (SRam (sp vm), vm)
      else if loc = PICK then
        (let vm = vm\<lparr>sleep_cycles := sleep_cycles vm + 1\<rparr>;
             (w, vm') = vm_consume_word vm
         in (SRam (sp vm + w), vm'))
      else if loc = IA_val then (SIa, vm)
      else if loc = SP_val then (SSp, vm)
      else if loc = PC_val then (SPc, vm)
      else if loc = EX_val then (SEx, vm)
      else if loc = NXT then
        (let vm = vm\<lparr>sleep_cycles := sleep_cycles vm + 1\<rparr>;
             (w, vm') = vm_consume_word vm
         in (SRam w, vm'))
      else (SDummy, vm))"

definition vm_resolve_value_once :: "'w vm_t \<Rightarrow> u16 \<Rightarrow> u8 \<Rightarrow> u16 \<times> 'w vm_t" where
  "vm_resolve_value_once vm val pos =
     (if val = NXT then (ram vm (ram vm (pc vm - 1)), vm)
      else if val = PUSH_POP then (ram vm (sp vm), vm)
      else if val = PICK then (ram vm (sp vm + ram vm (pc vm - 1)), vm)
      else if NXT_VAL_A \<le> val \<and> val \<le> NXT_VAL_J
        then (ram vm (reg_get vm (val - NXT_VAL_A) + ram vm (pc vm - 1)), vm)
      else vm_resolve_value vm val pos)"

section \<open>Interrupts\<close>

definition is_branching :: "u16 \<Rightarrow> bool" where
  "is_branching op \<longleftrightarrow>
     op = OP_IFB \<or> op = OP_IFC \<or> op = OP_IFE \<or> op = OP_IFN \<or>
     op = OP_IFG \<or> op = OP_IFA \<or> op = OP_IFL \<or> op = OP_IFU"

text \<open>
  The \<open>while (1)\<close> loop of \<open>vm_interrupt\<close>: it passes over the instruction the machine was
  about to skip, and over the one after it as long as the one just passed is a conditional.
  It has no bound of its own; \<open>None\<close> is the run that never leaves it.
\<close>

definition vm_interrupt_skip_step :: "'w vm_t \<Rightarrow> bool \<times> 'w vm_t" where
  "vm_interrupt_skip_step vm =
     (let (instruction, vm) = vm_consume_word vm;
          op = INSTRUCTION_GET_OP instruction;
          a = INSTRUCTION_GET_A instruction;
          b = INSTRUCTION_GET_B instruction;
          (_, vm) = vm_resolve_value vm a POS_A;
          (_, vm) = vm_resolve_value vm b POS_B;
          vm = vm\<lparr>sleep_cycles := sleep_cycles vm + 1\<rparr>
      in (is_branching op, vm))"

partial_function (option) vm_interrupt_skip :: "'w vm_t \<Rightarrow> 'w vm_t option" where
  "vm_interrupt_skip vm =
     (case vm_interrupt_skip_step vm of
        (again, vm') \<Rightarrow> if again then vm_interrupt_skip vm' else Some vm')"

definition vm_interrupt_enter :: "'w vm_code \<Rightarrow> u16 \<Rightarrow> u16 \<Rightarrow> 'w vm_t \<Rightarrow> 'w vm_t option" where
  "vm_interrupt_enter e save msgid vm =
     (let vm = vm\<lparr>sp := sp vm - 1\<rparr>;
          vm = vm\<lparr>ram := (ram vm)(sp vm := save)\<rparr>;
          vm = vm\<lparr>sp := sp vm - 1\<rparr>;
          vm = vm\<lparr>ram := (ram vm)(sp vm := reg_get vm REG_A)\<rparr>;
          vm = reg_set vm REG_A msgid;
          vm = vm\<lparr>pc := ia vm\<rparr>;
          vm = vm\<lparr>queue_interrupts := True\<rparr>
      in vm_hook_fire e vm save HOOK_ON_INTERRUPT 0)"

definition vm_irq_append :: "'w vm_t \<Rightarrow> u16 \<Rightarrow> 'w vm_t" where
  "vm_irq_append vm msgid =
     (if unat (irq_count vm) \<ge> INTERRUPT_MAX then vm_halt vm
      else vm\<lparr>irq := (irq vm)[unat (irq_count vm) := msgid], irq_count := irq_count vm + 1\<rparr>)"

definition vm_interrupt :: "'w vm_code \<Rightarrow> 'w vm_t \<Rightarrow> u16 \<Rightarrow> 'w vm_t option" where
  "vm_interrupt e vm msgid =
     (if queue_interrupts vm then Some (vm_irq_append vm msgid)
      else if ia vm = 0 then Some vm
      else
        (let save = pc vm
         in (if skip vm
             then map_option (\<lambda>vm. vm\<lparr>skip := False\<rparr>) (vm_interrupt_skip vm)
             else Some vm) \<bind> vm_interrupt_enter e save msgid))"

text \<open>
  Taking the oldest queued interrupt, as \<open>vm_cycle\<close> does. The C code moves the array
  down with an overlapping \<open>memcpy\<close>; the copy modelled is the intended one.
\<close>

definition vm_irq_take :: "'w vm_t \<Rightarrow> u16 \<times> 'w vm_t" where
  "vm_irq_take vm =
     (let a = irq vm ! 0;
          vm = vm\<lparr>irq := take INTERRUPT_MAX (drop 1 (irq vm)) @ drop INTERRUPT_MAX (irq vm)\<rparr>;
          vm = vm\<lparr>irq := (irq vm)[INTERRUPT_MAX := 0]\<rparr>;
          vm = vm\<lparr>irq_count := irq_count vm - 1\<rparr>
      in (a, vm))"

section \<open>What operand access changes\<close>

text \<open>
  Words an operand takes from the instruction stream: when its value is resolved, and when
  its location is taken (a literal second operand has no location, and its word is left in
  the stream).
\<close>

definition takes_word :: "u16 \<Rightarrow> bool" where
  "takes_word v \<longleftrightarrow> (NXT_VAL_A \<le> v \<and> v \<le> NXT_VAL_J) \<or> v = PICK \<or> v = NXT \<or> v = NXT_LIT"

definition store_takes_word :: "u16 \<Rightarrow> bool" where
  "store_takes_word v \<longleftrightarrow> takes_word v \<and> v \<noteq> NXT_LIT"

definition operand_sp :: "'w vm_t \<Rightarrow> u16 \<Rightarrow> u8 \<Rightarrow> u16" where
  "operand_sp vm v pos =
     (if v = PUSH_POP \<and> \<not> skip vm
      then if pos = POS_A then sp vm + 1 else if pos = POS_B then sp vm - 1 else sp vm
      else sp vm)"

lemma resolve_state:
  "snd (vm_resolve_value vm v pos) =
     vm\<lparr>pc := pc vm + of_bool (takes_word v), sp := operand_sp vm v pos,
        sleep_cycles := sleep_cycles vm + of_bool (takes_word v)\<rparr>"
  by (cases vm)
    (simp add: vm_resolve_value_def vm_consume_word_def takes_word_def operand_sp_def
      split_def Let_def, auto simp: word_le_nat_alt)

lemma get_store_state:
  "snd (vm_internal_get_store vm v pos) =
     vm\<lparr>pc := pc vm + of_bool (store_takes_word v), sp := operand_sp vm v pos,
        sleep_cycles := sleep_cycles vm + of_bool (store_takes_word v \<and> \<not> skip vm)\<rparr>"
  by (cases vm)
    (simp add: vm_internal_get_store_def vm_consume_word_def takes_word_def operand_sp_def
      store_takes_word_def split_def Let_def, auto simp: word_le_nat_alt)

lemma resolve_wf [simp]: "vm_wf (snd (vm_resolve_value vm v pos)) = vm_wf vm"
  by (simp add: resolve_state)

lemma get_store_wf [simp]: "vm_wf (snd (vm_internal_get_store vm v pos)) = vm_wf vm"
  by (simp add: get_store_state)

lemma consume_word_wf [simp]: "vm_wf (snd (vm_consume_word vm)) = vm_wf vm"
  by (simp add: vm_consume_word_def)

lemma store_write_wf [simp]: "vm_wf (store_write vm s v) = vm_wf vm"
  by (cases s) simp_all

text \<open>A register location names one of the eight registers.\<close>

fun store_ok :: "store \<Rightarrow> bool" where
  "store_ok (SReg r) = (r < 8)"
| "store_ok _ = True"

lemma get_store_ok: "store_ok (fst (vm_internal_get_store vm v pos))"
proof -
  have "v \<le> 7 \<Longrightarrow> v < 8" by (simp add: word_le_nat_alt word_less_nat_alt)
  then show ?thesis
    by (simp add: vm_internal_get_store_def split_def Let_def)
qed

lemma store_read_write:
  assumes "vm_wf vm" and "store_ok s" and "store_ok t"
  shows "store_read (store_write vm s v) t = (if t = s then v else store_read vm t)"
proof (cases s)
  case (SReg r)
  then show ?thesis using assms by (cases t) auto
qed (cases t, use assms in auto)+

section \<open>The interrupt queue is a bounded first-in first-out buffer\<close>

definition irq_queue :: "'w vm_t \<Rightarrow> u16 list" where
  "irq_queue vm = take (unat (irq_count vm)) (irq vm)"

lemma irq_queue_length: "vm_wf vm \<Longrightarrow> length (irq_queue vm) = unat (irq_count vm)"
  by (simp add: irq_queue_def vm_wf_def)

lemma irq_count_Suc: "vm_wf vm \<Longrightarrow> unat (irq_count vm + 1) = Suc (unat (irq_count vm))"
  using vm_wf_lengths(3) [of vm] by (simp add: unat_word_ariths)

lemma irq_append_queue:
  assumes "vm_wf vm" and "length (irq_queue vm) < 255"
  shows "irq_queue (vm_irq_append vm m) = irq_queue vm @ [m]"
proof -
  have "unat (irq_count vm) < 255" using assms by (simp add: irq_queue_length)
  then show ?thesis
    using vm_wf_lengths(2) [OF assms(1)] assms(1)
    by (simp add: vm_irq_append_def irq_queue_def irq_count_Suc take_Suc_list_update)
qed

lemma irq_append_wf: "vm_wf vm \<Longrightarrow> vm_wf (vm_irq_append vm m)"
  using irq_count_Suc [of vm] by (simp add: vm_irq_append_def vm_wf_def vm_halt_def)

lemma irq_take_queue:
  assumes "vm_wf vm" and "irq_queue vm = x # xs"
  shows "fst (vm_irq_take vm) = x \<and> irq_queue (snd (vm_irq_take vm)) = xs"
proof -
  have len: "length (irq vm) = 256" and c: "unat (irq_count vm) \<le> 255"
    using assms(1) by (simp_all add: vm_wf_def)
  obtain n where n: "unat (irq_count vm) = Suc n" and xs: "irq vm ! 0 = x" "xs = take n (tl (irq vm))"
    using assms(2) len unfolding irq_queue_def
    by (cases "unat (irq_count vm)"; cases "irq vm") auto
  have "irq_count vm \<noteq> 0" using n by auto
  then have m: "unat (irq_count vm - 1) = n"
    using n by (simp add: unat_minus_one)
  have "n \<le> 254" using c n by simp
  then have "take n ((take 255 (drop 1 (irq vm)) @ drop 255 (irq vm))[255 := 0]) = take n (tl (irq vm))"
    using len by (simp add: take_list_update_ge drop_Suc)
  with m xs show ?thesis
    by (simp add: vm_irq_take_def Let_def irq_queue_def)
qed

lemma irq_take_wf:
  assumes "vm_wf vm" and "irq_queue vm \<noteq> []"
  shows "vm_wf (snd (vm_irq_take vm))"
proof -
  have "irq_count vm \<noteq> 0" using assms(2) by (auto simp: irq_queue_def)
  then have "unat (irq_count vm - 1) \<le> unat (irq_count vm)"
    by (simp add: unat_minus_one)
  then show ?thesis
    using assms(1) by (auto simp: vm_irq_take_def Let_def vm_wf_def)
qed

interpretation irqs: bounded_fifo irq_queue vm_wf 255 vm_irq_append vm_irq_take
proof
  fix s :: "'a vm_t" and x xs assume wf: "vm_wf s"
  show "length (irq_queue s) \<le> 255"
    using irq_queue_length [OF wf] vm_wf_lengths(3) [OF wf] by simp
qed (simp_all add: irq_append_queue irq_append_wf irq_take_queue irq_take_wf)

section \<open>Entering an interrupt handler\<close>

definition skip_pc :: "(u16 \<Rightarrow> u16) \<Rightarrow> u16 \<Rightarrow> u16" where
  "skip_pc m p =
     p + 1 + of_bool (takes_word (INSTRUCTION_GET_A (m p)))
           + of_bool (takes_word (INSTRUCTION_GET_B (m p)))"

definition branching_at :: "(u16 \<Rightarrow> u16) \<Rightarrow> u16 \<Rightarrow> bool" where
  "branching_at m p \<longleftrightarrow> is_branching (INSTRUCTION_GET_OP (m p))"

lemma skip_step:
  assumes "skip vm"
  shows "\<exists>s. vm_interrupt_skip_step vm =
    (branching_at (ram vm) (pc vm), vm\<lparr>pc := skip_pc (ram vm) (pc vm), sleep_cycles := s\<rparr>)"
  using assms
  by (simp add: vm_interrupt_skip_step_def vm_consume_word_def split_def Let_def resolve_state
      operand_sp_def skip_pc_def branching_at_def)
    (cases vm, auto)

lemma skip_returns:
  assumes "skip vm" and "\<not> branching_at (ram vm) ((skip_pc (ram vm) ^^ n) (pc vm))"
  shows "\<exists>vm'. vm_interrupt_skip vm = Some vm'"
  using assms
proof (induction n arbitrary: vm)
  case 0
  obtain s where "vm_interrupt_skip_step vm =
      (branching_at (ram vm) (pc vm), vm\<lparr>pc := skip_pc (ram vm) (pc vm), sleep_cycles := s\<rparr>)"
    using skip_step [OF 0(1)] by blast
  with 0 show ?case by (simp add: vm_interrupt_skip.simps)
next
  case (Suc n)
  obtain s where st: "vm_interrupt_skip_step vm =
      (branching_at (ram vm) (pc vm), vm\<lparr>pc := skip_pc (ram vm) (pc vm), sleep_cycles := s\<rparr>)"
    using skip_step [OF Suc.prems(1)] by blast
  let ?vm = "vm\<lparr>pc := skip_pc (ram vm) (pc vm), sleep_cycles := s\<rparr>"
  have "\<exists>vm'. vm_interrupt_skip ?vm = Some vm'"
    using Suc.prems by (intro Suc.IH) (simp_all add: funpow_swap1)
  with st show ?case
    by (cases "branching_at (ram vm) (pc vm)") (simp_all add: vm_interrupt_skip.simps [of vm])
qed

lemma skip_result:
  assumes "vm_interrupt_skip vm = Some vm'" and "skip vm"
  shows "\<exists>p s n. vm' = vm\<lparr>pc := p, sleep_cycles := s\<rparr> \<and>
    \<not> branching_at (ram vm) ((skip_pc (ram vm) ^^ n) (pc vm))"
proof -
  let ?P = "\<lambda>vm vm'. skip vm \<longrightarrow> (\<exists>p s n. vm' = vm\<lparr>pc := p, sleep_cycles := s\<rparr> \<and>
    \<not> branching_at (ram vm) ((skip_pc (ram vm) ^^ n) (pc vm)))"
  have "?P vm vm'"
  proof (rule vm_interrupt_skip.raw_induct [where P = ?P, OF _ assms(1)], intro impI)
    fix f and vm vm' :: "'a vm_t"
    assume IH: "\<And>vm vm'. f vm = Some vm' \<Longrightarrow> ?P vm vm'" and sk: "skip vm"
      and eq: "(case vm_interrupt_skip_step vm of (again, vm') \<Rightarrow> if again then f vm' else Some vm') = Some vm'"
    obtain s where st: "vm_interrupt_skip_step vm =
        (branching_at (ram vm) (pc vm), vm\<lparr>pc := skip_pc (ram vm) (pc vm), sleep_cycles := s\<rparr>)"
      using skip_step [OF sk] by blast
    let ?vm = "vm\<lparr>pc := skip_pc (ram vm) (pc vm), sleep_cycles := s\<rparr>"
    show "\<exists>p s n. vm' = vm\<lparr>pc := p, sleep_cycles := s\<rparr> \<and>
      \<not> branching_at (ram vm) ((skip_pc (ram vm) ^^ n) (pc vm))"
    proof (cases "branching_at (ram vm) (pc vm)")
      case True
      with eq st have "f ?vm = Some vm'" by simp
      from IH [OF this] sk obtain p s' n where
        r: "vm' = ?vm\<lparr>pc := p, sleep_cycles := s'\<rparr>"
          "\<not> branching_at (ram vm) ((skip_pc (ram vm) ^^ n) (skip_pc (ram vm) (pc vm)))"
        by auto
      then have "vm' = vm\<lparr>pc := p, sleep_cycles := s'\<rparr>"
        and "\<not> branching_at (ram vm) ((skip_pc (ram vm) ^^ Suc n) (pc vm))"
        by (simp_all add: funpow_swap1)
      then show ?thesis by blast
    next
      case False
      with eq st have "vm' = ?vm" by simp
      moreover have "\<not> branching_at (ram vm) ((skip_pc (ram vm) ^^ 0) (pc vm))" using False by simp
      ultimately show ?thesis by blast
    qed
  qed
  with assms(2) show ?thesis by blast
qed

lemma skip_terminates_iff:
  assumes "skip vm"
  shows "vm_interrupt_skip vm \<noteq> None \<longleftrightarrow>
    (\<exists>n. \<not> branching_at (ram vm) ((skip_pc (ram vm) ^^ n) (pc vm)))"
  using skip_returns [OF assms] skip_result [OF _ assms] by (cases "vm_interrupt_skip vm") auto

text \<open>
  The state in which the handler starts, before the interrupt hooks see it. The saved
  program counter is the one the machine had when the interrupt arrived.
\<close>

definition interrupt_entered :: "'w vm_t \<Rightarrow> u16 \<Rightarrow> u16 \<Rightarrow> 'w vm_t" where
  "interrupt_entered vm save msgid =
     (reg_set (vm\<lparr>sp := sp vm - 2,
        ram := (ram vm)(sp vm - 1 := save, sp vm - 2 := reg_get vm REG_A)\<rparr>) REG_A msgid)
        \<lparr>pc := ia vm, queue_interrupts := True\<rparr>"

lemma interrupt_enter_eq:
  "vm_interrupt_enter e save msgid vm =
     vm_hook_fire e (interrupt_entered vm save msgid) save HOOK_ON_INTERRUPT 0"
  by (simp add: vm_interrupt_enter_def Let_def interrupt_entered_def reg_set_def)

lemma interrupt_entered_wf [simp]: "vm_wf (interrupt_entered vm save m) = vm_wf vm"
  by (simp add: interrupt_entered_def)

lemma no_hook_entered [simp]: "no_hook (interrupt_entered vm save m) mode = no_hook vm mode"
  by (simp add: no_hook_def interrupt_entered_def)

lemma interrupt_direct:
  assumes "\<not> queue_interrupts vm" and "ia vm \<noteq> 0" and "\<not> skip vm" and "no_hook vm HOOK_ON_INTERRUPT"
  shows "vm_interrupt e vm m = Some (interrupt_entered vm (pc vm) m)"
  using assms by (simp add: vm_interrupt_def interrupt_enter_eq hook_fire_none)

context callbacks
begin

lemma interrupt_skip_wf: "vm_wf vm \<Longrightarrow> skip vm \<Longrightarrow> pred_option vm_wf (vm_interrupt_skip vm)"
  by (rule pred_optionI) (auto dest!: skip_result)

lemma interrupt_wf [wf_intros]: "vm_wf vm \<Longrightarrow> pred_option vm_wf (vm_interrupt e vm m)"
  using interrupt_skip_wf [of vm]
  by (auto simp: vm_interrupt_def irq_append_wf interrupt_enter_eq Let_def map_option_case
      split: option.splits intro!: pred_option_bind hook_fire_wf)

end

end
