(* ===== verification/Vm_Ops.thy ===== *)
theory Vm_Ops
  imports Vm_Operand "HOL-Library.Signed_Division"
begin

text \<open>
  The instruction routines of \<^verbatim>\<open>libdcpu-vm/dcpuops.c\<close>, one definition per routine.
  Values that C computes in \<open>int\<close> are 32-bit words; the overflow of a signed product or
  of \<open>val_b << 16\<close> wraps. A shift by 32 or more (or by a negative count) has no defined
  result, and the routine returns \<open>None\<close>.
\<close>

section \<open>Helpers (macros)\<close>

definition OP_NUM_CYCLES :: "u16 \<Rightarrow> 'w vm_t \<Rightarrow> 'w vm_t" where
  "OP_NUM_CYCLES count vm = vm\<lparr>sleep_cycles := sleep_cycles vm + (count - 1)\<rparr>"

text \<open>\<open>VM_CHECK_ARITHMETIC_FLOW\<close> and its variant with EX: the result is computed in 32 bits.\<close>

definition flow_ex :: "int \<Rightarrow> u16" where
  "flow_ex r = (if r < 0 then AR_UNDERFLOW else if r > 65535 then AR_OVERFLOW else AR_NOFLOW)"

fun VM_HOOK_FIRE :: "'w vm_code \<Rightarrow> 'w vm_t \<Rightarrow> store \<Rightarrow> 'w vm_t option" where
  "VM_HOOK_FIRE e vm (SRam a) = vm_hook_fire e vm a HOOK_ON_WRITE 0"
| "VM_HOOK_FIRE e vm _ = Some vm"

text \<open>Shifts of an \<open>int\<close>: defined for counts below 32.\<close>

definition c_shl :: "u32 \<Rightarrow> int \<Rightarrow> u32 option" where
  "c_shl x n = (if 0 \<le> n \<and> n < 32 then Some (push_bit (nat n) x) else None)"

definition c_sar :: "u32 \<Rightarrow> int \<Rightarrow> u32 option" where
  "c_sar x n = (if 0 \<le> n \<and> n < 32 then Some (signed_drop_bit (nat n) x) else None)"

definition high16 :: "u32 \<Rightarrow> u16" where
  "high16 x = ucast (signed_drop_bit 16 x AND 0xffff)"

section \<open>Fire and radiation\<close>

definition vm_rand :: "'w vm_code \<Rightarrow> 'w vm_t \<Rightarrow> nat \<times> 'w vm_t" where
  "vm_rand e vm = (rand_value e (rand_calls vm), vm\<lparr>rand_calls := Suc (rand_calls vm)\<rparr>)"

fun vm_op_fire_find :: "'w vm_code \<Rightarrow> nat list \<Rightarrow> 'w vm_t \<Rightarrow> 'w vm_t option" where
  "vm_op_fire_find e [] vm = Some vm"
| "vm_op_fire_find e (i # is) vm =
     vm_hw_get_device vm (of_nat i) \<bind> (\<lambda>device.
       if device \<noteq> None \<and> hw_device_id (the device) = 0x7349F615 then
         do {
           let vm = reg_set (reg_set vm REG_A 0) REG_B 0x1000;
           vm \<leftarrow> vm_hw_interrupt e vm (of_nat i);
           let vm = reg_set (reg_set vm REG_A 1) REG_B (0x1000 + 0x17f);
           vm \<leftarrow> vm_hw_interrupt e vm (of_nat i);
           Some (vm\<lparr>static_screen_id := int i\<rparr>)
         }
       else vm_op_fire_find e is vm)"

text \<open>The inner loop: \<open>pos + idx\<close> is an \<open>int\<close>, and stays below 0x1400.\<close>

fun vm_op_fire_fill :: "'w vm_code \<Rightarrow> nat list \<Rightarrow> u16 \<Rightarrow> u16 \<Rightarrow> 'w vm_t \<Rightarrow> 'w vm_t option" where
  "vm_op_fire_fill e [] pos fill vm = Some vm"
| "vm_op_fire_fill e (idx # idxs) pos fill vm =
     vm_hook_fire e (vm\<lparr>ram := (ram vm)(pos + of_nat idx := fill)\<rparr>) (pos + of_nat idx)
       HOOK_ON_WRITE 0 \<bind> vm_op_fire_fill e idxs pos fill"

text \<open>The outer loop ends when the random lengths have filled the region; \<open>None\<close> otherwise.\<close>

partial_function (option) vm_op_fire_loop :: "'w vm_code \<Rightarrow> u16 \<Rightarrow> 'w vm_t \<Rightarrow> 'w vm_t option" where
  "vm_op_fire_loop e pos vm =
     (if unat pos < 0x1300 then
        (let (r1, vm) = vm_rand e vm; len = r1 mod 100;
             (r2, vm) = vm_rand e vm; fill = of_nat (r2 mod 0x10000)
         in vm_op_fire_fill e [0..<len] pos fill vm \<bind> vm_op_fire_loop e (pos + of_nat len))
      else Some vm)"

definition vm_op_fire :: "'w vm_code \<Rightarrow> 'w vm_t \<Rightarrow> 'w vm_t option" where
  "vm_op_fire e vm =
     (if static_screen_id vm = -1
      then vm_op_fire_find e [0..<unat (vm_hw_count vm)] vm else Some vm) \<bind>
     (\<lambda>vm. if fire_cycles vm < fire_cycles_target vm
        then Some (vm\<lparr>fire_cycles := fire_cycles vm + 1\<rparr>)
        else vm_op_fire_loop e 0x1000
          (vm\<lparr>fire_cycles := 0, fire_cycles_target := DCPU_TICKS_KHZ * 1000\<rparr>))"

definition vm_op_radiation :: "'w vm_code \<Rightarrow> 'w vm_t \<Rightarrow> 'w vm_t option" where
  "vm_op_radiation e vm =
     (if radiation_cycles vm < radiation_cycles_target vm
      then Some (vm\<lparr>radiation_cycles := radiation_cycles vm + 1\<rparr>)
      else
        (let (r1, vm) = vm_rand e vm; pos = of_nat (r1 mod 0x10000);
             (r2, vm) = vm_rand e vm; bit_no = r2 mod 15;
             (r3, vm) = vm_rand e vm;
             vm = vm\<lparr>radiation_cycles := 0,
                     radiation_cycles_target :=
                       DCPU_TICKS_KHZ * radiation_factor vm * int (r3 mod 10)\<rparr>;
             vm = vm\<lparr>ram := (ram vm)(pos := ram vm pos XOR push_bit bit_no 1)\<rparr>
         in vm_hook_fire e vm pos HOOK_ON_WRITE 0))"

section \<open>Basic instructions\<close>

definition vm_op_set :: "'w vm_code \<Rightarrow> 'w vm_t \<Rightarrow> u16 \<Rightarrow> u16 \<Rightarrow> 'w vm_t option" where
  "vm_op_set e vm b a =
     (let (val_a, vm) = vm_resolve_value vm a POS_A;
          (store_b, vm) = vm_internal_get_store vm b POS_B;
          vm = OP_NUM_CYCLES 1 vm
      in if skip vm then Some (vm\<lparr>skip := False\<rparr>)
         else
           (let vm = store_write vm store_b (val_a)
            in VM_HOOK_FIRE e vm store_b))"

definition vm_op_add :: "'w vm_code \<Rightarrow> 'w vm_t \<Rightarrow> u16 \<Rightarrow> u16 \<Rightarrow> 'w vm_t option" where
  "vm_op_add e vm b a =
     (let (val_a, vm) = vm_resolve_value vm a POS_A;
          (store_b, vm) = vm_internal_get_store vm b POS_B;
          val_b = store_read vm store_b;
          vm = OP_NUM_CYCLES 2 vm
      in if skip vm then Some (vm\<lparr>skip := False\<rparr>)
         else
           (let vm = store_write vm store_b (val_b + val_a);
                vm = vm\<lparr>ex := flow_ex (uint val_b + uint val_a)\<rparr>
            in VM_HOOK_FIRE e vm store_b))"

definition vm_op_sub :: "'w vm_code \<Rightarrow> 'w vm_t \<Rightarrow> u16 \<Rightarrow> u16 \<Rightarrow> 'w vm_t option" where
  "vm_op_sub e vm b a =
     (let (val_a, vm) = vm_resolve_value vm a POS_A;
          (store_b, vm) = vm_internal_get_store vm b POS_B;
          val_b = store_read vm store_b;
          vm = OP_NUM_CYCLES 2 vm
      in if skip vm then Some (vm\<lparr>skip := False\<rparr>)
         else
           (let vm = store_write vm store_b (val_b - val_a);
                vm = vm\<lparr>ex := flow_ex (uint val_b - uint val_a)\<rparr>
            in VM_HOOK_FIRE e vm store_b))"

definition vm_op_mul :: "'w vm_code \<Rightarrow> 'w vm_t \<Rightarrow> u16 \<Rightarrow> u16 \<Rightarrow> 'w vm_t option" where
  "vm_op_mul e vm b a =
     (let (val_a, vm) = vm_resolve_value vm a POS_A;
          (store_b, vm) = vm_internal_get_store vm b POS_B;
          val_b = store_read vm store_b;
          vm = OP_NUM_CYCLES 2 vm
      in if skip vm then Some (vm\<lparr>skip := False\<rparr>)
         else
           (let vm = store_write vm store_b (ucast (ucast val_b * ucast val_a :: u32));
                vm = vm\<lparr>ex := high16 (ucast val_b * ucast val_a)\<rparr>
            in VM_HOOK_FIRE e vm store_b))"

definition vm_op_mli :: "'w vm_code \<Rightarrow> 'w vm_t \<Rightarrow> u16 \<Rightarrow> u16 \<Rightarrow> 'w vm_t option" where
  "vm_op_mli e vm b a =
     (let (val_a, vm) = vm_resolve_value vm a POS_A;
          (store_b, vm) = vm_internal_get_store vm b POS_B;
          val_b = store_read vm store_b;
          vm = OP_NUM_CYCLES 2 vm
      in if skip vm then Some (vm\<lparr>skip := False\<rparr>)
         else
           (let vm = store_write vm store_b (ucast (scast val_b * scast val_a :: u32));
                vm = vm\<lparr>ex := high16 (scast val_b * scast val_a)\<rparr>
            in VM_HOOK_FIRE e vm store_b))"

definition vm_op_div :: "'w vm_code \<Rightarrow> 'w vm_t \<Rightarrow> u16 \<Rightarrow> u16 \<Rightarrow> 'w vm_t option" where
  "vm_op_div e vm b a =
     (let (val_a, vm) = vm_resolve_value vm a POS_A;
          (store_b, vm) = vm_internal_get_store vm b POS_B;
          val_b = store_read vm store_b;
          vm = OP_NUM_CYCLES 3 vm
      in if skip vm then Some (vm\<lparr>skip := False\<rparr>)
         else
           (let vm =
                  (if val_a \<noteq> 0
                   then (store_write vm store_b (val_b div val_a))
                     \<lparr>ex := ucast (push_bit 16 (ucast val_b :: u32) div ucast val_a AND 0xffff)\<rparr>
                   else (store_write vm store_b 0)\<lparr>ex := 0\<rparr>)
            in VM_HOOK_FIRE e vm store_b))"

definition vm_op_dvi :: "'w vm_code \<Rightarrow> 'w vm_t \<Rightarrow> u16 \<Rightarrow> u16 \<Rightarrow> 'w vm_t option" where
  "vm_op_dvi e vm b a =
     (let (val_a, vm) = vm_resolve_value vm a POS_A;
          (store_b, vm) = vm_internal_get_store vm b POS_B;
          val_b = store_read vm store_b;
          vm = OP_NUM_CYCLES 3 vm
      in if skip vm then Some (vm\<lparr>skip := False\<rparr>)
         else
           (let vm =
                  (if val_a \<noteq> 0
                   then (store_write vm store_b (word_of_int (sint val_b sdiv sint val_a)))
                     \<lparr>ex := ucast (push_bit 16 (scast val_b :: u64) div scast val_a AND 0xffff)\<rparr>
                   else (store_write vm store_b 0)\<lparr>ex := 0\<rparr>)
            in VM_HOOK_FIRE e vm store_b))"

definition vm_op_mdi :: "'w vm_code \<Rightarrow> 'w vm_t \<Rightarrow> u16 \<Rightarrow> u16 \<Rightarrow> 'w vm_t option" where
  "vm_op_mdi e vm b a =
     (let (val_a, vm) = vm_resolve_value vm a POS_A;
          (store_b, vm) = vm_internal_get_store vm b POS_B;
          val_b = store_read vm store_b;
          vm = OP_NUM_CYCLES 3 vm
      in if skip vm then Some (vm\<lparr>skip := False\<rparr>)
         else
           (let result = (if val_a = 0 then 0 else word_of_int (sint val_b smod uint val_a));
                result = (if sint result < 0 then result + val_a else result);
                vm = store_write vm store_b result
            in VM_HOOK_FIRE e vm store_b))"

definition vm_op_mod :: "'w vm_code \<Rightarrow> 'w vm_t \<Rightarrow> u16 \<Rightarrow> u16 \<Rightarrow> 'w vm_t option" where
  "vm_op_mod e vm b a =
     (let (val_a, vm) = vm_resolve_value vm a POS_A;
          (store_b, vm) = vm_internal_get_store vm b POS_B;
          val_b = store_read vm store_b;
          vm = OP_NUM_CYCLES 3 vm
      in if skip vm then Some (vm\<lparr>skip := False\<rparr>)
         else
           (let vm = store_write vm store_b (if val_a \<noteq> 0 then val_b mod val_a else 0)
            in VM_HOOK_FIRE e vm store_b))"

definition vm_op_and :: "'w vm_code \<Rightarrow> 'w vm_t \<Rightarrow> u16 \<Rightarrow> u16 \<Rightarrow> 'w vm_t option" where
  "vm_op_and e vm b a =
     (let (val_a, vm) = vm_resolve_value vm a POS_A;
          (store_b, vm) = vm_internal_get_store vm b POS_B;
          val_b = store_read vm store_b;
          vm = OP_NUM_CYCLES 1 vm
      in if skip vm then Some (vm\<lparr>skip := False\<rparr>)
         else
           (let vm = store_write vm store_b (val_b AND val_a)
            in VM_HOOK_FIRE e vm store_b))"

definition vm_op_bor :: "'w vm_code \<Rightarrow> 'w vm_t \<Rightarrow> u16 \<Rightarrow> u16 \<Rightarrow> 'w vm_t option" where
  "vm_op_bor e vm b a =
     (let (val_a, vm) = vm_resolve_value vm a POS_A;
          (store_b, vm) = vm_internal_get_store vm b POS_B;
          val_b = store_read vm store_b;
          vm = OP_NUM_CYCLES 1 vm
      in if skip vm then Some (vm\<lparr>skip := False\<rparr>)
         else
           (let vm = store_write vm store_b (val_b OR val_a)
            in VM_HOOK_FIRE e vm store_b))"

definition vm_op_xor :: "'w vm_code \<Rightarrow> 'w vm_t \<Rightarrow> u16 \<Rightarrow> u16 \<Rightarrow> 'w vm_t option" where
  "vm_op_xor e vm b a =
     (let (val_a, vm) = vm_resolve_value vm a POS_A;
          (store_b, vm) = vm_internal_get_store vm b POS_B;
          val_b = store_read vm store_b;
          vm = OP_NUM_CYCLES 1 vm
      in if skip vm then Some (vm\<lparr>skip := False\<rparr>)
         else
           (let vm = store_write vm store_b (val_b XOR val_a)
            in VM_HOOK_FIRE e vm store_b))"

definition vm_op_shr :: "'w vm_code \<Rightarrow> 'w vm_t \<Rightarrow> u16 \<Rightarrow> u16 \<Rightarrow> 'w vm_t option" where
  "vm_op_shr e vm b a =
     (let (val_a, vm) = vm_resolve_value vm a POS_A;
          (store_b, vm) = vm_internal_get_store vm b POS_B;
          val_b = store_read vm store_b;
          vm = OP_NUM_CYCLES 1 vm
      in if skip vm then Some (vm\<lparr>skip := False\<rparr>)
         else
           do {
             r \<leftarrow> c_sar (ucast val_b) (uint val_a);
             let vm = store_write vm store_b (ucast r);
             x \<leftarrow> c_sar (push_bit 16 (ucast val_b)) (uint val_a);
             let vm = vm\<lparr>ex := ucast (x AND 0xffff)\<rparr>;
             VM_HOOK_FIRE e vm store_b
           })"

definition vm_op_asr :: "'w vm_code \<Rightarrow> 'w vm_t \<Rightarrow> u16 \<Rightarrow> u16 \<Rightarrow> 'w vm_t option" where
  "vm_op_asr e vm b a =
     (let (val_a, vm) = vm_resolve_value vm a POS_A;
          (store_b, vm) = vm_internal_get_store vm b POS_B;
          val_b = store_read vm store_b;
          vm = OP_NUM_CYCLES 1 vm
      in if skip vm then Some (vm\<lparr>skip := False\<rparr>)
         else
           do {
             r \<leftarrow> c_sar (scast val_b) (sint val_a);
             let vm = store_write vm store_b (ucast r);
             x \<leftarrow> c_sar (push_bit 16 (scast val_b)) (sint val_a);
             let vm = vm\<lparr>ex := ucast (x AND 0xffff)\<rparr>;
             VM_HOOK_FIRE e vm store_b
           })"

definition vm_op_shl :: "'w vm_code \<Rightarrow> 'w vm_t \<Rightarrow> u16 \<Rightarrow> u16 \<Rightarrow> 'w vm_t option" where
  "vm_op_shl e vm b a =
     (let (val_a, vm) = vm_resolve_value vm a POS_A;
          (store_b, vm) = vm_internal_get_store vm b POS_B;
          val_b = store_read vm store_b;
          vm = OP_NUM_CYCLES 1 vm
      in if skip vm then Some (vm\<lparr>skip := False\<rparr>)
         else
           do {
             r \<leftarrow> c_shl (ucast val_b) (uint val_a);
             let vm = store_write vm store_b (ucast r);
             let vm = vm\<lparr>ex := high16 r\<rparr>;
             VM_HOOK_FIRE e vm store_b
           })"

definition vm_op_ifb :: "'w vm_t \<Rightarrow> u16 \<Rightarrow> u16 \<Rightarrow> 'w vm_t" where
  "vm_op_ifb vm b a =
     (let (val_a, vm) = vm_resolve_value vm a POS_A;
          (val_b, vm) = vm_resolve_value vm b POS_B
      in if skip vm then vm else vm\<lparr>skip := \<not> ((val_b AND val_a) \<noteq> 0)\<rparr>)"

definition vm_op_ifc :: "'w vm_t \<Rightarrow> u16 \<Rightarrow> u16 \<Rightarrow> 'w vm_t" where
  "vm_op_ifc vm b a =
     (let (val_a, vm) = vm_resolve_value vm a POS_A;
          (val_b, vm) = vm_resolve_value vm b POS_B
      in if skip vm then vm else vm\<lparr>skip := \<not> ((val_b AND val_a) = 0)\<rparr>)"

definition vm_op_ife :: "'w vm_t \<Rightarrow> u16 \<Rightarrow> u16 \<Rightarrow> 'w vm_t" where
  "vm_op_ife vm b a =
     (let (val_a, vm) = vm_resolve_value vm a POS_A;
          (val_b, vm) = vm_resolve_value vm b POS_B
      in if skip vm then vm else vm\<lparr>skip := \<not> (val_b = val_a)\<rparr>)"

definition vm_op_ifn :: "'w vm_t \<Rightarrow> u16 \<Rightarrow> u16 \<Rightarrow> 'w vm_t" where
  "vm_op_ifn vm b a =
     (let (val_a, vm) = vm_resolve_value vm a POS_A;
          (val_b, vm) = vm_resolve_value vm b POS_B
      in if skip vm then vm else vm\<lparr>skip := \<not> (val_b \<noteq> val_a)\<rparr>)"

definition vm_op_ifg :: "'w vm_t \<Rightarrow> u16 \<Rightarrow> u16 \<Rightarrow> 'w vm_t" where
  "vm_op_ifg vm b a =
     (let (val_a, vm) = vm_resolve_value vm a POS_A;
          (val_b, vm) = vm_resolve_value vm b POS_B
      in if skip vm then vm else vm\<lparr>skip := \<not> (val_b > val_a)\<rparr>)"

definition vm_op_ifa :: "'w vm_t \<Rightarrow> u16 \<Rightarrow> u16 \<Rightarrow> 'w vm_t" where
  "vm_op_ifa vm b a =
     (let (val_a, vm) = vm_resolve_value vm a POS_A;
          (val_b, vm) = vm_resolve_value vm b POS_B
      in if skip vm then vm else vm\<lparr>skip := \<not> (sint val_b > sint val_a)\<rparr>)"

definition vm_op_ifl :: "'w vm_t \<Rightarrow> u16 \<Rightarrow> u16 \<Rightarrow> 'w vm_t" where
  "vm_op_ifl vm b a =
     (let (val_a, vm) = vm_resolve_value vm a POS_A;
          (val_b, vm) = vm_resolve_value vm b POS_B
      in if skip vm then vm else vm\<lparr>skip := \<not> (val_b < val_a)\<rparr>)"

definition vm_op_ifu :: "'w vm_t \<Rightarrow> u16 \<Rightarrow> u16 \<Rightarrow> 'w vm_t" where
  "vm_op_ifu vm b a =
     (let (val_a, vm) = vm_resolve_value vm a POS_A;
          (val_b, vm) = vm_resolve_value vm b POS_B
      in if skip vm then vm else vm\<lparr>skip := \<not> (sint val_b < sint val_a)\<rparr>)"

definition vm_op_adx :: "'w vm_code \<Rightarrow> 'w vm_t \<Rightarrow> u16 \<Rightarrow> u16 \<Rightarrow> 'w vm_t option" where
  "vm_op_adx e vm b a =
     (let (val_a, vm) = vm_resolve_value vm a POS_A;
          (store_b, vm) = vm_internal_get_store vm b POS_B;
          val_b = store_read vm store_b;
          vm = OP_NUM_CYCLES 3 vm;
          val_ex = ex vm
      in if skip vm then Some (vm\<lparr>skip := False\<rparr>)
         else
           (let vm = store_write vm store_b (val_b + val_a + val_ex);
                vm = vm\<lparr>ex := flow_ex (uint val_b + uint val_a + sint val_ex)\<rparr>
            in VM_HOOK_FIRE e vm store_b))"

definition vm_op_sbx :: "'w vm_code \<Rightarrow> 'w vm_t \<Rightarrow> u16 \<Rightarrow> u16 \<Rightarrow> 'w vm_t option" where
  "vm_op_sbx e vm b a =
     (let (val_a, vm) = vm_resolve_value vm a POS_A;
          (store_b, vm) = vm_internal_get_store vm b POS_B;
          val_b = store_read vm store_b;
          vm = OP_NUM_CYCLES 3 vm;
          val_ex = ex vm
      in if skip vm then Some (vm\<lparr>skip := False\<rparr>)
         else
           (let vm = store_write vm store_b (val_b - val_a + val_ex);
                vm = vm\<lparr>ex := flow_ex (uint val_b - uint val_a + sint val_ex)\<rparr>
            in VM_HOOK_FIRE e vm store_b))"

definition vm_op_sti :: "'w vm_code \<Rightarrow> 'w vm_t \<Rightarrow> u16 \<Rightarrow> u16 \<Rightarrow> 'w vm_t option" where
  "vm_op_sti e vm b a =
     (let (val_a, vm) = vm_resolve_value vm a POS_A;
          (store_b, vm) = vm_internal_get_store vm b POS_B
      in if skip vm then Some (vm\<lparr>skip := False\<rparr>)
         else
           do {
             vm \<leftarrow> VM_HOOK_FIRE e (store_write vm store_b val_a) store_b;
             let vm = reg_set vm REG_I (reg_get vm REG_I + 1);
             let vm = reg_set vm REG_J (reg_get vm REG_J + 1);
             vm \<leftarrow> VM_HOOK_FIRE e vm (SReg REG_I);
             VM_HOOK_FIRE e vm (SReg REG_J)
           })"

definition vm_op_std :: "'w vm_code \<Rightarrow> 'w vm_t \<Rightarrow> u16 \<Rightarrow> u16 \<Rightarrow> 'w vm_t option" where
  "vm_op_std e vm b a =
     (let (val_a, vm) = vm_resolve_value vm a POS_A;
          (store_b, vm) = vm_internal_get_store vm b POS_B
      in if skip vm then Some (vm\<lparr>skip := False\<rparr>)
         else
           do {
             vm \<leftarrow> VM_HOOK_FIRE e (store_write vm store_b val_a) store_b;
             let vm = reg_set vm REG_I (reg_get vm REG_I - 1);
             let vm = reg_set vm REG_J (reg_get vm REG_J - 1);
             vm \<leftarrow> VM_HOOK_FIRE e vm (SReg REG_I);
             VM_HOOK_FIRE e vm (SReg REG_J)
           })"

section \<open>Non-basic instructions\<close>

definition vm_op_jsr :: "'w vm_t \<Rightarrow> u16 \<Rightarrow> 'w vm_t" where
  "vm_op_jsr vm a =
     (let (val_a, vm) = vm_resolve_value vm a POS_A;
          vm = OP_NUM_CYCLES 3 vm
      in if skip vm then vm\<lparr>skip := False\<rparr>
         else
           (let vm = vm\<lparr>sp := sp vm - 1\<rparr>;
                vm = vm\<lparr>ram := (ram vm)(sp vm := pc vm)\<rparr>
            in vm\<lparr>pc := val_a\<rparr>))"

definition vm_op_hcf :: "'w vm_t \<Rightarrow> u16 \<Rightarrow> 'w vm_t" where
  "vm_op_hcf vm a =
     (let (_, vm) = vm_resolve_value vm a POS_A;
          vm = OP_NUM_CYCLES 9 vm
      in vm\<lparr>halted := True\<rparr>)"

definition vm_op_int :: "'w vm_code \<Rightarrow> 'w vm_t \<Rightarrow> u16 \<Rightarrow> 'w vm_t option" where
  "vm_op_int e vm a =
     (let (val_a, vm) = vm_resolve_value vm a POS_A;
          vm = OP_NUM_CYCLES 4 vm
      in vm_interrupt e vm val_a)"

definition vm_op_iag :: "'w vm_code \<Rightarrow> 'w vm_t \<Rightarrow> u16 \<Rightarrow> 'w vm_t option" where
  "vm_op_iag e vm a =
     (let (store_a, vm) = vm_internal_get_store vm a POS_A
      in if skip vm then Some (vm\<lparr>skip := False\<rparr>)
         else VM_HOOK_FIRE e (store_write vm store_a (ia vm)) store_a)"

definition vm_op_ias :: "'w vm_t \<Rightarrow> u16 \<Rightarrow> 'w vm_t" where
  "vm_op_ias vm a =
     (let (val_a, vm) = vm_resolve_value vm a POS_A
      in if skip vm then vm\<lparr>skip := False\<rparr> else vm\<lparr>ia := val_a\<rparr>)"

definition vm_op_rfi :: "'w vm_code \<Rightarrow> 'w vm_t \<Rightarrow> u16 \<Rightarrow> 'w vm_t option" where
  "vm_op_rfi e vm a =
     (let (_, vm) = vm_resolve_value vm a POS_A;
          vm = OP_NUM_CYCLES 3 vm
      in if skip vm then Some (vm\<lparr>skip := False\<rparr>)
         else
           (let vm = (reg_set vm REG_A (ram vm (sp vm)))\<lparr>sp := sp vm + 1\<rparr>;
                vm = vm\<lparr>pc := ram vm (sp vm), sp := sp vm + 1\<rparr>;
                vm = vm\<lparr>queue_interrupts := False\<rparr>
            in VM_HOOK_FIRE e vm (SReg REG_A)))"

definition vm_op_iaq :: "'w vm_t \<Rightarrow> u16 \<Rightarrow> 'w vm_t" where
  "vm_op_iaq vm a =
     (let (val_a, vm) = vm_resolve_value vm a POS_A;
          vm = OP_NUM_CYCLES 2 vm
      in if skip vm then vm\<lparr>skip := False\<rparr>
         else if val_a = 0 then vm\<lparr>queue_interrupts := False\<rparr>
         else vm\<lparr>queue_interrupts := True\<rparr>)"

definition vm_op_hwn :: "'w vm_code \<Rightarrow> 'w vm_t \<Rightarrow> u16 \<Rightarrow> 'w vm_t option" where
  "vm_op_hwn e vm a =
     (let (store_a, vm) = vm_internal_get_store vm a POS_A;
          vm = OP_NUM_CYCLES 2 vm
      in if skip vm then Some (vm\<lparr>skip := False\<rparr>)
         else map_option (\<lambda>vm. vm\<lparr>skip := False\<rparr>)
           (VM_HOOK_FIRE e (store_write vm store_a (vm_hw_count vm)) store_a))"

definition vm_op_hwq :: "'w vm_code \<Rightarrow> 'w vm_t \<Rightarrow> u16 \<Rightarrow> 'w vm_t option" where
  "vm_op_hwq e vm a =
     (let (store_a, vm) = vm_internal_get_store vm REG_A POS_none;
          (store_b, vm) = vm_internal_get_store vm REG_B POS_none;
          (store_c, vm) = vm_internal_get_store vm REG_C POS_none;
          (store_x, vm) = vm_internal_get_store vm REG_X POS_none;
          (store_y, vm) = vm_internal_get_store vm REG_Y POS_none;
          (val_a, vm) = vm_resolve_value vm a POS_A;
          vm = OP_NUM_CYCLES 4 vm
      in if skip vm then Some (vm\<lparr>skip := False\<rparr>)
         else if val_a < vm_hw_count vm then
           vm_hw_get_device vm val_a \<bind> (\<lambda>device.
             case device of
               None \<Rightarrow> Some ((vm_halt vm)\<lparr>skip := False\<rparr>)
             | Some d \<Rightarrow>
                 do {
                   let vm = store_write vm store_a (ucast (hw_device_id d AND 0x0000FFFF));
                   let vm = store_write vm store_b
                     (ucast (drop_bit 16 (hw_device_id d AND 0xFFFF0000)));
                   let vm = store_write vm store_c (hw_version d);
                   let vm = store_write vm store_x (ucast (hw_manufacturer d AND 0x0000FFFF));
                   let vm = store_write vm store_y
                     (ucast (drop_bit 16 (hw_manufacturer d AND 0xFFFF0000)));
                   vm \<leftarrow> VM_HOOK_FIRE e vm store_a;
                   vm \<leftarrow> VM_HOOK_FIRE e vm store_b;
                   vm \<leftarrow> VM_HOOK_FIRE e vm store_c;
                   vm \<leftarrow> VM_HOOK_FIRE e vm store_x;
                   vm \<leftarrow> VM_HOOK_FIRE e vm store_y;
                   Some (vm\<lparr>skip := False\<rparr>)
                 })
         else Some (vm\<lparr>skip := False\<rparr>))"

definition vm_op_hwi :: "'w vm_code \<Rightarrow> 'w vm_t \<Rightarrow> u16 \<Rightarrow> 'w vm_t option" where
  "vm_op_hwi e vm a =
     (let (val_a, vm) = vm_resolve_value vm a POS_A;
          vm = OP_NUM_CYCLES 4 vm
      in if skip vm then Some (vm\<lparr>skip := False\<rparr>)
         else vm_hw_interrupt e vm val_a)"

section \<open>The shape the value instructions share\<close>

definition set_ex :: "u16 option \<Rightarrow> 'w vm_t \<Rightarrow> 'w vm_t" where
  "set_ex x vm = (case x of None \<Rightarrow> vm | Some v \<Rightarrow> vm\<lparr>ex := v\<rparr>)"

text \<open>The operands of an instruction: value of a, location of b, state after fetching both.\<close>

definition fetch_operands :: "'w vm_t \<Rightarrow> u16 \<Rightarrow> u16 \<Rightarrow> u16 \<times> store \<times> 'w vm_t" where
  "fetch_operands vm b a =
     (let (val_a, vm) = vm_resolve_value vm a POS_A;
          (store_b, vm) = vm_internal_get_store vm b POS_B
      in (val_a, store_b, vm))"

definition alu ::
    "'w vm_code \<Rightarrow> u16 \<Rightarrow> (u16 \<Rightarrow> u16 \<Rightarrow> u16 \<Rightarrow> (u16 \<times> u16 option) option) \<Rightarrow>
     'w vm_t \<Rightarrow> u16 \<Rightarrow> u16 \<Rightarrow> 'w vm_t option" where
  "alu e n f vm b a =
     (let (val_a, s, vm) = fetch_operands vm b a;
          vm = OP_NUM_CYCLES n vm
      in if skip vm then Some (vm\<lparr>skip := False\<rparr>)
         else f (store_read vm s) val_a (ex vm) \<bind>
           (\<lambda>(r, x). VM_HOOK_FIRE e (set_ex x (store_write vm s r)) s))"

lemma store_read_cycles [simp]: "store_read (OP_NUM_CYCLES n vm) s = store_read vm s"
  by (cases s) (simp_all add: OP_NUM_CYCLES_def)

lemma cycles_frame [simp]:
  "skip (OP_NUM_CYCLES n vm) = skip vm" "ex (OP_NUM_CYCLES n vm) = ex vm"
  "vm_wf (OP_NUM_CYCLES n vm) = vm_wf vm" "pc (OP_NUM_CYCLES n vm) = pc vm"
  "hook_list (OP_NUM_CYCLES n vm) = hook_list vm" "hook_mode (OP_NUM_CYCLES n vm) = hook_mode vm"
  by (simp_all add: OP_NUM_CYCLES_def)

lemma alu_forms:
  "vm_op_set e = alu e 1 (\<lambda>b a x. Some (a, None))"
  "vm_op_add e = alu e 2 (\<lambda>b a x. Some (b + a, Some (flow_ex (uint b + uint a))))"
  "vm_op_sub e = alu e 2 (\<lambda>b a x. Some (b - a, Some (flow_ex (uint b - uint a))))"
  "vm_op_mul e = alu e 2 (\<lambda>b a x. Some (ucast (ucast b * ucast a :: u32),
     Some (high16 (ucast b * ucast a))))"
  "vm_op_mli e = alu e 2 (\<lambda>b a x. Some (ucast (scast b * scast a :: u32),
     Some (high16 (scast b * scast a))))"
  "vm_op_mod e = alu e 3 (\<lambda>b a x. Some (if a \<noteq> 0 then b mod a else 0, None))"
  "vm_op_and e = alu e 1 (\<lambda>b a x. Some (b AND a, None))"
  "vm_op_bor e = alu e 1 (\<lambda>b a x. Some (b OR a, None))"
  "vm_op_xor e = alu e 1 (\<lambda>b a x. Some (b XOR a, None))"
  "vm_op_adx e = alu e 3 (\<lambda>b a x. Some (b + a + x, Some (flow_ex (uint b + uint a + sint x))))"
  "vm_op_sbx e = alu e 3 (\<lambda>b a x. Some (b - a + x, Some (flow_ex (uint b - uint a + sint x))))"
  by (simp_all add: fun_eq_iff alu_def fetch_operands_def set_ex_def split_def Let_def
      vm_op_set_def vm_op_add_def vm_op_sub_def vm_op_mul_def vm_op_mli_def vm_op_mod_def
      vm_op_and_def vm_op_bor_def vm_op_xor_def vm_op_adx_def vm_op_sbx_def)

lemma alu_forms_div:
  "vm_op_div e = alu e 3 (\<lambda>b a x. Some (if a \<noteq> 0 then b div a else 0,
     Some (if a \<noteq> 0 then ucast (push_bit 16 (ucast b :: u32) div ucast a AND 0xffff) else 0)))"
  "vm_op_dvi e = alu e 3 (\<lambda>b a x. Some (if a \<noteq> 0 then word_of_int (sint b sdiv sint a) else 0,
     Some (if a \<noteq> 0 then ucast (push_bit 16 (scast b :: u64) div scast a AND 0xffff) else 0)))"
  "vm_op_mdi e = alu e 3 (\<lambda>b a x.
     let r = (if a = 0 then 0 else word_of_int (sint b smod uint a))
     in Some (if sint r < 0 then r + a else r, None))"
  by (simp_all add: fun_eq_iff alu_def fetch_operands_def set_ex_def split_def Let_def
      vm_op_div_def vm_op_dvi_def vm_op_mdi_def)

lemma alu_forms_shift:
  "vm_op_shr e = alu e 1 (\<lambda>b a x. do {
     r \<leftarrow> c_sar (ucast b) (uint a);
     y \<leftarrow> c_sar (push_bit 16 (ucast b)) (uint a);
     Some (ucast r, Some (ucast (y AND 0xffff)))})"
  "vm_op_asr e = alu e 1 (\<lambda>b a x. do {
     r \<leftarrow> c_sar (scast b) (sint a);
     y \<leftarrow> c_sar (push_bit 16 (scast b)) (sint a);
     Some (ucast r, Some (ucast (y AND 0xffff)))})"
  "vm_op_shl e = alu e 1 (\<lambda>b a x. do {
     r \<leftarrow> c_shl (ucast b) (uint a);
     Some (ucast r, Some (high16 r))})"
  by (simp_all add: fun_eq_iff alu_def fetch_operands_def set_ex_def split_def Let_def
      vm_op_shr_def vm_op_asr_def vm_op_shl_def)

lemmas all_alu_forms = alu_forms alu_forms_div alu_forms_shift

section \<open>Effect of a value instruction\<close>

lemma fetch_frame:
  assumes "fetch_operands vm b a = (va, s, vm2)"
  shows "vm_wf vm2 = vm_wf vm" "skip vm2 = skip vm" "no_hook vm2 m = no_hook vm m"
    "store_ok s" "registers vm2 = registers vm" "ram vm2 = ram vm" "ex vm2 = ex vm" "ia vm2 = ia vm"
    "irq vm2 = irq vm" "irq_count vm2 = irq_count vm" "halted vm2 = halted vm"
    "queue_interrupts vm2 = queue_interrupts vm"
proof -
  let ?vm1 = "snd (vm_resolve_value vm a POS_A)"
  have s: "s = fst (vm_internal_get_store ?vm1 b POS_B)"
    and v: "vm2 = snd (vm_internal_get_store ?vm1 b POS_B)"
    using assms by (auto simp: fetch_operands_def split_def Let_def)
  show "store_ok s" unfolding s by (rule get_store_ok)
  show "vm_wf vm2 = vm_wf vm" "skip vm2 = skip vm" "no_hook vm2 m = no_hook vm m"
    "registers vm2 = registers vm" "ram vm2 = ram vm" "ex vm2 = ex vm" "ia vm2 = ia vm"
    "irq vm2 = irq vm" "irq_count vm2 = irq_count vm" "halted vm2 = halted vm"
    "queue_interrupts vm2 = queue_interrupts vm"
    unfolding v by (simp_all add: get_store_state resolve_state no_hook_def)
qed

lemma hook_fire_store:
  "no_hook vm HOOK_ON_WRITE \<Longrightarrow> VM_HOOK_FIRE e vm s = Some vm"
  by (cases s) (simp_all add: hook_fire_none)

lemma no_hook_frame [simp]:
  "no_hook (store_write vm s v) m = no_hook vm m" "no_hook (set_ex x vm) m = no_hook vm m"
  "no_hook (OP_NUM_CYCLES n vm) m = no_hook vm m" "no_hook (reg_set vm r v) m = no_hook vm m"
  "no_hook (vm\<lparr>skip := k\<rparr>) m = no_hook vm m" "no_hook (vm\<lparr>ex := w\<rparr>) m = no_hook vm m"
  "no_hook (vm\<lparr>ram := mm\<rparr>) m = no_hook vm m"
  by (cases s; simp add: no_hook_def set_ex_def OP_NUM_CYCLES_def split: option.split)+

lemma alu_result:
  assumes "fetch_operands vm b a = (va, s, vm2)" and "vm_wf vm" and "\<not> skip vm"
    and "no_hook vm HOOK_ON_WRITE" and "f (store_read vm2 s) va (ex vm) = Some (r, x)"
  shows "alu e n f vm b a = Some (set_ex x (store_write (OP_NUM_CYCLES n vm2) s r))"
  using assms fetch_frame [OF assms(1)] by (simp add: alu_def hook_fire_store)

lemma set_ex_read:
  "store_read (set_ex x vm) t =
     (if t = SEx then (case x of None \<Rightarrow> ex vm | Some v \<Rightarrow> v) else store_read vm t)"
  by (cases t; cases x) (simp_all add: set_ex_def)

lemma alu_effect:
  assumes "fetch_operands vm b a = (va, s, vm2)" and "vm_wf vm" and "\<not> skip vm"
    and "no_hook vm HOOK_ON_WRITE" and "f (store_read vm2 s) va (ex vm) = Some (r, x)"
    and "s \<noteq> SEx" and "alu e n f vm b a = Some vm'"
  shows "store_read vm' s = r"
    and "ex vm' = (case x of None \<Rightarrow> ex vm | Some v \<Rightarrow> v)"
    and "store_ok t \<Longrightarrow> t \<noteq> s \<Longrightarrow> t \<noteq> SEx \<Longrightarrow> store_read vm' t = store_read vm2 t"
proof -
  note fr = fetch_frame [OF assms(1)]
  have vm': "vm' = set_ex x (store_write (OP_NUM_CYCLES n vm2) s r)"
    using alu_result [where f = f, OF assms(1-5)] assms(7) by simp
  have wf: "vm_wf (OP_NUM_CYCLES n vm2)" using fr assms(2) by simp
  show "store_read vm' s = r"
    using store_read_write [OF wf fr(4) fr(4)] assms(6) by (simp add: vm' set_ex_read)
  have "ex vm' = store_read vm' SEx" by simp
  also have "\<dots> = (case x of None \<Rightarrow> ex vm | Some v \<Rightarrow> v)"
    using store_read_write [OF wf fr(4), of SEx r] assms(6) fr(7)
    by (simp add: vm' set_ex_def split: option.split)
  finally show "ex vm' = (case x of None \<Rightarrow> ex vm | Some v \<Rightarrow> v)" .
  show "store_read vm' t = store_read vm2 t" if "store_ok t" "t \<noteq> s" "t \<noteq> SEx"
    using store_read_write [OF wf fr(4) that(1)] that by (simp add: vm' set_ex_read)
qed

section \<open>Every routine keeps the machine well-formed\<close>

lemma set_ex_wf [simp]: "vm_wf (set_ex x vm) = vm_wf vm"
  by (simp add: set_ex_def split: option.split)

lemma fetch_wf: "vm_wf vm \<Longrightarrow> vm_wf (snd (snd (fetch_operands vm b a)))"
  by (simp add: fetch_operands_def split_def Let_def)

context callbacks
begin

lemma hook_fire_store_wf [wf_intros]: "vm_wf vm \<Longrightarrow> pred_option vm_wf (VM_HOOK_FIRE e vm s)"
  by (cases s) (simp_all add: hook_fire_wf)

lemma alu_wf: "vm_wf vm \<Longrightarrow> pred_option vm_wf (alu e n f vm b a)"
  using fetch_wf [of vm b a]
  by (auto simp: alu_def split_def Let_def bind_eq_None_conv
      intro!: hook_fire_store_wf pred_optionI elim!: bind_eq_SomeE
      dest!: pred_option_SomeD [OF hook_fire_store_wf, rotated])

lemma sti_std_wf:
  assumes "vm_wf vm"
  shows "pred_option vm_wf (vm_op_sti e vm b a)" "pred_option vm_wf (vm_op_std e vm b a)"
  using assms
  by (auto simp: vm_op_sti_def vm_op_std_def split_def Let_def
      intro!: pred_option_bind [OF hook_fire_store_wf])

lemma nonbasic_wf:
  assumes "vm_wf vm"
  shows "pred_option vm_wf (vm_op_int e vm a)" "pred_option vm_wf (vm_op_iag e vm a)"
    "pred_option vm_wf (vm_op_rfi e vm a)" "pred_option vm_wf (vm_op_hwn e vm a)"
    "pred_option vm_wf (vm_op_hwi e vm a)"
  using assms
  by (auto simp: vm_op_int_def vm_op_iag_def vm_op_rfi_def vm_op_hwn_def vm_op_hwi_def
      split_def Let_def option.pred_map o_def
      intro!: interrupt_wf hook_fire_store_wf hw_interrupt_wf)

lemma hwq_wf: "vm_wf vm \<Longrightarrow> pred_option vm_wf (vm_op_hwq e vm a)"
  by (auto simp: vm_op_hwq_def split_def Let_def vm_hw_get_device_def
      intro!: pred_option_bind [OF hook_fire_store_wf] split: option.splits)

end

lemma pure_ops_wf:
  "vm_wf vm \<Longrightarrow> vm_wf (vm_op_ifb vm b a)" "vm_wf vm \<Longrightarrow> vm_wf (vm_op_ifc vm b a)"
  "vm_wf vm \<Longrightarrow> vm_wf (vm_op_ife vm b a)" "vm_wf vm \<Longrightarrow> vm_wf (vm_op_ifn vm b a)"
  "vm_wf vm \<Longrightarrow> vm_wf (vm_op_ifg vm b a)" "vm_wf vm \<Longrightarrow> vm_wf (vm_op_ifa vm b a)"
  "vm_wf vm \<Longrightarrow> vm_wf (vm_op_ifl vm b a)" "vm_wf vm \<Longrightarrow> vm_wf (vm_op_ifu vm b a)"
  "vm_wf vm \<Longrightarrow> vm_wf (vm_op_jsr vm a)" "vm_wf vm \<Longrightarrow> vm_wf (vm_op_ias vm a)"
  "vm_wf vm \<Longrightarrow> vm_wf (vm_op_iaq vm a)" "vm_wf vm \<Longrightarrow> vm_wf (vm_op_hcf vm a)"
  by (simp_all add: vm_op_ifb_def vm_op_ifc_def vm_op_ife_def vm_op_ifn_def vm_op_ifg_def
      vm_op_ifa_def vm_op_ifl_def vm_op_ifu_def vm_op_jsr_def vm_op_ias_def vm_op_iaq_def
      vm_op_hcf_def split_def Let_def)

context callbacks
begin

lemma fire_find_wf: "vm_wf vm \<Longrightarrow> pred_option vm_wf (vm_op_fire_find e is vm)"
proof (induction "is" arbitrary: vm)
  case Nil
  then show ?case by simp
next
  case (Cons i "is")
  then show ?case
    by (auto simp: vm_hw_get_device_def intro!: pred_option_bind [OF hw_interrupt_wf])
qed

lemma fire_fill_wf: "vm_wf vm \<Longrightarrow> pred_option vm_wf (vm_op_fire_fill e is pos fill vm)"
  by (induction "is" arbitrary: vm) (auto intro!: pred_option_bind [OF hook_fire_wf])

lemma fire_loop_wf:
  assumes "vm_op_fire_loop e pos vm = Some vm'" and "vm_wf vm"
  shows "vm_wf vm'"
proof -
  let ?P = "\<lambda>f (pos :: u16) (vm :: 'w vm_t) vm'. f = e \<longrightarrow> vm_wf vm \<longrightarrow> vm_wf vm'"
  have "?P e pos vm vm'"
  proof (rule vm_op_fire_loop.raw_induct [where P = ?P, OF _ assms(1)], intro impI)
    fix F :: "'w vm_code \<Rightarrow> u16 \<Rightarrow> 'w vm_t \<Rightarrow> 'w vm_t option" and d pos vm vm'
    assume IH: "\<And>d pos vm vm'. F d pos vm = Some vm' \<Longrightarrow> ?P d pos vm vm'"
      and d: "d = e" and wf: "vm_wf vm"
      and eq: "(if unat pos < 0x1300 then
        (let (r1, vm) = vm_rand d vm; len = r1 mod 100;
             (r2, vm) = vm_rand d vm; fill = of_nat (r2 mod 0x10000)
         in vm_op_fire_fill d [0..<len] pos fill vm \<bind> F d (pos + of_nat len))
        else Some vm) = Some vm'"
    show "vm_wf vm'"
    proof (cases "unat pos < 0x1300")
      case True
      let ?len = "rand_value e (rand_calls vm) mod 100"
      let ?vm = "vm\<lparr>rand_calls := Suc (Suc (rand_calls vm))\<rparr>"
      obtain fill vm1 where f: "vm_op_fire_fill e [0..<?len] pos fill ?vm = Some vm1"
          and g: "F e (pos + of_nat ?len) vm1 = Some vm'"
        using eq True d by (auto simp: vm_rand_def Let_def elim!: bind_eq_SomeE)
      have "vm_wf vm1"
        using fire_fill_wf [of ?vm "[0..<?len]" pos fill] f wf by simp
      with IH [OF g] show ?thesis by simp
    next
      case False
      with eq wf show ?thesis by simp
    qed
  qed
  with assms(2) show ?thesis by simp
qed

lemma op_fire_wf: "vm_wf vm \<Longrightarrow> pred_option vm_wf (vm_op_fire e vm)"
  unfolding vm_op_fire_def
  by (rule pred_option_bind [where P = vm_wf])
    (auto simp: fire_find_wf intro!: pred_optionI dest: fire_loop_wf)

lemma op_radiation_wf: "vm_wf vm \<Longrightarrow> pred_option vm_wf (vm_op_radiation e vm)"
  by (simp add: vm_op_radiation_def vm_rand_def Let_def hook_fire_wf)

end

section \<open>Skipped instructions\<close>

text \<open>
  The state after passing over an instruction: only the program counter, the cycle count
  and the skip flag differ.
\<close>

definition skipped :: "'w vm_t \<Rightarrow> u16 \<Rightarrow> u16 \<Rightarrow> bool \<Rightarrow> 'w vm_t" where
  "skipped vm words cycles still =
     vm\<lparr>pc := pc vm + words, sleep_cycles := sleep_cycles vm + cycles, skip := still\<rparr>"

lemma resolve_skip:
  "skip vm \<Longrightarrow> snd (vm_resolve_value vm v pos) =
     vm\<lparr>pc := pc vm + of_bool (takes_word v), sleep_cycles := sleep_cycles vm + of_bool (takes_word v)\<rparr>"
  by (cases vm) (simp add: resolve_state operand_sp_def)

lemma get_store_skip:
  "skip vm \<Longrightarrow> snd (vm_internal_get_store vm v pos) = vm\<lparr>pc := pc vm + of_bool (store_takes_word v)\<rparr>"
  by (cases vm) (simp add: get_store_state operand_sp_def)

lemmas skip_defs = split_def Let_def resolve_skip get_store_skip skipped_def OP_NUM_CYCLES_def
  add.assoc

lemma alu_skip:
  assumes "skip vm"
  shows "alu e n f vm b a =
    Some (skipped vm (of_bool (takes_word a) + of_bool (store_takes_word b))
      (of_bool (takes_word a) + (n - 1)) False)"
  using assms by (simp add: alu_def fetch_operands_def skip_defs)

lemma branch_skip:
  assumes "skip vm"
  shows "vm_op_ifb vm b a = skipped vm (of_bool (takes_word a) + of_bool (takes_word b))
    (of_bool (takes_word a) + of_bool (takes_word b)) True"
    and "vm_op_ifc vm b a = vm_op_ifb vm b a" "vm_op_ife vm b a = vm_op_ifb vm b a"
    "vm_op_ifn vm b a = vm_op_ifb vm b a" "vm_op_ifg vm b a = vm_op_ifb vm b a"
    "vm_op_ifa vm b a = vm_op_ifb vm b a" "vm_op_ifl vm b a = vm_op_ifb vm b a"
    "vm_op_ifu vm b a = vm_op_ifb vm b a"
proof -
  show "vm_op_ifb vm b a = skipped vm (of_bool (takes_word a) + of_bool (takes_word b))
      (of_bool (takes_word a) + of_bool (takes_word b)) True"
    using assms by (cases vm) (simp add: vm_op_ifb_def skip_defs)
qed (use assms in \<open>simp_all add: vm_op_ifb_def vm_op_ifc_def vm_op_ife_def vm_op_ifn_def
    vm_op_ifg_def vm_op_ifa_def vm_op_ifl_def vm_op_ifu_def split_def Let_def resolve_skip\<close>)

lemma nonbasic_skip:
  assumes "skip vm"
  shows "vm_op_jsr vm a = skipped vm (of_bool (takes_word a)) (of_bool (takes_word a) + 2) False"
    and "vm_op_ias vm a = skipped vm (of_bool (takes_word a)) (of_bool (takes_word a)) False"
    and "vm_op_iaq vm a = skipped vm (of_bool (takes_word a)) (of_bool (takes_word a) + 1) False"
    and "vm_op_rfi e vm a =
      Some (skipped vm (of_bool (takes_word a)) (of_bool (takes_word a) + 2) False)"
    and "vm_op_hwi e vm a =
      Some (skipped vm (of_bool (takes_word a)) (of_bool (takes_word a) + 3) False)"
    and "vm_op_iag e vm a = Some (skipped vm (of_bool (store_takes_word a)) 0 False)"
    and "vm_op_hwn e vm a = Some (skipped vm (of_bool (store_takes_word a)) 1 False)"
  using assms
  by (simp_all add: vm_op_jsr_def vm_op_ias_def vm_op_iaq_def vm_op_rfi_def vm_op_hwi_def
      vm_op_hwn_def vm_op_iag_def skip_defs)

lemma hwq_skip:
  assumes "skip vm"
  shows "vm_op_hwq e vm a =
    Some (skipped vm (of_bool (takes_word a)) (of_bool (takes_word a) + 3) False)"
proof -
  have "snd (vm_internal_get_store vm r POS_none) = vm" if "r \<le> 7" for r
  proof -
    have "\<not> store_takes_word r"
      using that by (auto simp: store_takes_word_def takes_word_def word_le_nat_alt)
    then show ?thesis using assms by (simp add: get_store_skip)
  qed
  then show ?thesis using assms by (simp add: vm_op_hwq_def skip_defs)
qed

lemma sti_std_skip:
  assumes "skip vm"
  shows "vm_op_sti e vm b a =
      Some (skipped vm (of_bool (takes_word a) + of_bool (store_takes_word b))
        (of_bool (takes_word a)) False)"
    and "vm_op_std e vm b a = vm_op_sti e vm b a"
  using assms by (simp_all add: vm_op_sti_def vm_op_std_def skip_defs)

end
