(* ===== verification/Vm_Arith.thy ===== *)
theory Vm_Arith
  imports Vm_Ops
begin

text \<open>
  The arithmetic of the instruction routines: what the stored result and EX together mean as
  integers, for every value instruction of \<^verbatim>\<open>dcpuops.c\<close>, and the theorems that state it
  for the routines themselves, with operands of every addressing mode.
\<close>

section \<open>Arithmetic of the results\<close>

lemma uint_u16_of_int: "uint (word_of_int k :: u16) = k mod 65536"
  by (simp add: uint_word_of_int)

lemma uint_ucast_u16: "uint (ucast (x :: u32) :: u16) = uint x mod 65536"
  by (simp add: unsigned_ucast_eq take_bit_eq_mod)

lemma uint_ucast_u32: "uint (ucast (w :: u16) :: u32) = uint w"
proof -
  have "uint w < 2 ^ 32" by (rule order.strict_trans [OF uint_less_65536]) simp
  then show ?thesis by (simp add: unsigned_ucast_eq take_bit_int_eq_self)
qed

lemma sint_scast_u32: "sint (scast (w :: u16) :: u32) = sint w"
proof -
  have "- (2 ^ 31) \<le> sint w" "sint w < 2 ^ 31"
    using sint_u16_bounds [of w] by simp_all
  then show ?thesis by (simp add: signed_scast_eq signed_take_bit_int_eq_self)
qed

lemma uint_ucast_and_ffff: "uint (ucast ((x :: u32) AND 0xffff) :: u16) = uint x mod 65536"
proof -
  have "uint (x AND mask 16) = uint x mod 65536"
    by (simp only: take_bit_eq_mask [symmetric] unsigned_take_bit_eq) (simp add: take_bit_eq_mod)
  then show ?thesis by (simp add: uint_ucast_u16 mask_eq_exp_minus_1)
qed

lemma uint_mod_sint: "uint (x :: u32) mod 65536 = sint x mod 65536"
proof -
  have "uint x mod 65536 = (sint x mod 4294967296) mod 65536"
    using uint_sint [of x] by (simp add: take_bit_eq_mod)
  then show ?thesis by (simp add: mod_mod_cancel)
qed

lemma uint_sar: "uint (ucast (signed_drop_bit n (x :: u32) AND 0xffff) :: u16) = (sint x div 2 ^ n) mod 65536"
  by (simp add: uint_ucast_and_ffff uint_mod_sint sint_signed_drop_bit_eq drop_bit_eq_div)

lemma uint_high16: "uint (high16 x) = (sint x div 65536) mod 65536"
  using uint_sar [of 16 x] by (simp add: high16_def)

lemma uint_u32_split: "uint (x :: u32) = uint x mod 65536 + 65536 * ((sint x div 65536) mod 65536)"
proof -
  have "uint x = sint x mod 4294967296" using uint_sint [of x] by (simp add: take_bit_eq_mod)
  also have "\<dots> = sint x mod (65536 * 65536)" by simp
  also have "\<dots> = sint x mod 65536 + 65536 * (sint x div 65536 mod 65536)"
    by (subst zmod_zmult2_eq) simp_all
  finally show ?thesis by (simp add: uint_mod_sint)
qed

text \<open>The low word of a 32-bit value and its high word as EX make up the value.\<close>

lemma low_high16: "uint (ucast x :: u16) + 65536 * uint (high16 x) = uint x"
  using uint_u32_split [of x] by (simp add: uint_high16 uint_ucast_u16)

lemma low_shigh16: "uint (ucast x :: u16) + 65536 * sint (high16 x) = sint x"
proof -
  have b: "- 2147483648 \<le> sint x" "sint x < 2147483648"
    using sint_ge [of x] sint_lt [of x] by simp_all
  define h where "h = sint x div 65536"
  have h: "- 32768 \<le> h" "h < 32768" using zdiv_mono1 [OF b(1), of 65536] zdiv_mono1 [of "sint x" 2147483647 65536] b(2)
    by (simp_all add: h_def)
  have "sint (high16 x) = h"
  proof (cases "h < 0")
    case True
    have "h mod 65536 = (h + 65536) mod 65536" by simp
    also have "\<dots> = h + 65536" using True h by (intro mod_pos_pos_trivial) auto
    finally have "uint (high16 x) = h + 65536" by (simp add: uint_high16 h_def)
    then show ?thesis using h True by (simp add: sint_u16_eq)
  next
    case False
    then have "uint (high16 x) = h" using h by (simp add: uint_high16 h_def [symmetric])
    then show ?thesis using h by (simp add: sint_u16_eq)
  qed
  moreover have "uint (ucast x :: u16) = sint x mod 65536" by (simp add: uint_ucast_u16 uint_mod_sint)
  ultimately show ?thesis by (simp add: h_def)
qed

text \<open>EX after an addition or subtraction is the exact carry, read as a signed word.\<close>

lemma flow_ex_exact:
  assumes "- 65536 \<le> r" and "r < 131072"
  shows "r mod 65536 + 65536 * sint (flow_ex r) = r"
proof -
  consider "r < 0" | "0 \<le> r" "r \<le> 65535" | "65535 < r" by linarith
  then show ?thesis
  proof cases
    case 1
    have "r mod 65536 = (r + 65536) mod 65536" by simp
    also have "\<dots> = r + 65536" using 1 assms by (intro mod_pos_pos_trivial) auto
    finally show ?thesis using 1 by (simp add: flow_ex_def)
  next
    case 2
    then show ?thesis by (simp add: flow_ex_def)
  next
    case 3
    have "r mod 65536 = (r - 65536 + 65536) mod 65536" by simp
    also have "\<dots> = (r - 65536) mod 65536" by (simp only: mod_add_self2)
    also have "\<dots> = r - 65536" using 3 assms by (intro mod_pos_pos_trivial) auto
    finally show ?thesis using 3 by (simp add: flow_ex_def)
  qed
qed

lemma uint_add_sub_ex:
  "uint (b + a) = (uint b + uint a) mod 65536" "uint (b - a) = (uint b - uint a) mod 65536"
  "uint (b + a + x) = (uint b + uint a + sint x) mod 65536"
  "uint (b - a + x) = (uint b - uint a + sint x) mod 65536" for a b x :: u16
proof -
  have x: "uint x mod 65536 = sint x mod 65536" by (simp add: sint_u16_eq)
  show "uint (b + a) = (uint b + uint a) mod 65536" "uint (b - a) = (uint b - uint a) mod 65536"
    by (simp_all add: uint_word_ariths)
  show "uint (b + a + x) = (uint b + uint a + sint x) mod 65536"
    using mod_add_cong [OF refl x, of "uint b + uint a"] by (simp add: uint_word_ariths mod_simps)
  show "uint (b - a + x) = (uint b - uint a + sint x) mod 65536"
    using mod_add_cong [OF refl x, of "uint b - uint a"] by (simp add: uint_word_ariths mod_simps)
qed

lemma uint_push16: "uint (push_bit 16 (ucast (w :: u16) :: u32)) = uint w * 65536"
proof -
  have "uint w * 65536 < 4294967296" using uint_bounded [of w] by simp
  then show ?thesis
    by (simp add: push_bit_eq_mult uint_word_ariths uint_ucast_u32 mod_pos_pos_trivial)
qed

lemma div_exact:
  assumes "(a :: u16) \<noteq> 0"
  shows "uint (b div a) * 65536 +
      uint (ucast (push_bit 16 (ucast b :: u32) div ucast a AND 0xffff) :: u16) =
    uint b * 65536 div uint a"
proof -
  let ?q = "uint b * 65536 div uint a"
  have "?q div 65536 = uint b * 65536 div (uint a * 65536)"
    by (rule zdiv_zmult2_eq [symmetric]) simp
  also have "\<dots> = uint (b div a)" by (simp add: uint_div)
  finally have "uint (b div a) = ?q div 65536" ..
  moreover have "uint (ucast (push_bit 16 (ucast b :: u32) div ucast a AND 0xffff) :: u16) = ?q mod 65536"
    by (simp only: uint_ucast_and_ffff uint_div uint_push16 uint_ucast_u32)
  ultimately show ?thesis by simp
qed

lemma smod_small:
  assumes "0 < (l :: int)"
  shows "k smod l = (if 0 \<le> k then k mod l else - ((- k) mod l))"
  using assms by (auto simp: signed_modulo_int_def sgn_if)

lemma mdi_exact:
  fixes a b :: u16
  assumes "a \<noteq> 0"
  defines "r \<equiv> word_of_int (sint b smod uint a) :: u16"
  shows "uint (if sint r < 0 then r + a else r) = sint b mod uint a"
proof -
  have "uint a \<noteq> 0" using assms(1) by (simp add: unsigned_eq_0_iff)
  moreover have "0 \<le> uint a" by simp
  ultimately have a: "0 < uint a" by linarith
  have sb: "- 32768 \<le> sint b" "sint b \<le> 32767" by (rule sint_u16_bounds)+
  show ?thesis
  proof (cases "0 \<le> sint b")
    case True
    then have s: "sint b smod uint a = sint b mod uint a" using a by (simp add: smod_small)
    have "0 \<le> sint b mod uint a" "sint b mod uint a \<le> 32767"
      using a True sb zmod_le_nonneg_dividend [of "sint b" "uint a"] by auto
    then have "uint r = sint b mod uint a" by (simp add: r_def s uint_u16_of_int)
    moreover from this \<open>sint b mod uint a \<le> 32767\<close> have "0 \<le> sint r"
      using \<open>0 \<le> sint b mod uint a\<close> by (simp add: sint_u16_eq [of r])
    ultimately show ?thesis by simp
  next
    case False
    define m where "m = (- sint b) mod uint a"
    have m: "0 \<le> m" "m < uint a" "m \<le> 32768"
      using a False sb zmod_le_nonneg_dividend [of "- sint b" "uint a"] by (auto simp: m_def)
    have s: "sint b smod uint a = - m" using a False by (simp add: smod_small m_def)
    have e: "sint b mod uint a = (if m = 0 then 0 else uint a - m)"
      using zmod_zminus1_eq_if [of "- sint b" "uint a"] by (simp add: m_def)
    show ?thesis
    proof (cases "m = 0")
      case True
      then show ?thesis by (simp add: r_def s e)
    next
      case False
      have "- m mod 65536 = (65536 - m) mod 65536" using mod_add_self2 [of "- m" 65536] by simp
      also have "\<dots> = 65536 - m" using m False by (intro mod_pos_pos_trivial) auto
      finally have ur: "uint r = 65536 - m" unfolding r_def s uint_u16_of_int .
      then have "sint r < 0" using m False by (simp add: sint_u16_eq)
      moreover have "uint (r + a) = uint a - m"
      proof -
        have "uint (r + a) = (uint a - m + 65536) mod 65536" 
          unfolding uint_word_ariths ur by (simp add: algebra_simps)
        also have "\<dots> = (uint a - m) mod 65536" by (rule mod_add_self2)
        also have "\<dots> = uint a - m" using m uint_less_65536 [of a] by (intro mod_pos_pos_trivial) linarith+
        finally show ?thesis .
      qed
      ultimately show ?thesis using False e by simp
    qed
  qed
qed

lemma sint_of_small:
  assumes "uint (w :: u16) = k mod 65536" and "- 32768 \<le> k" and "k \<le> 32767"
  shows "sint w = k"
proof (cases "k < 0")
  case True
  have "k mod 65536 = (k + 65536) mod 65536" by simp
  also have "\<dots> = k + 65536" using True assms by (intro mod_pos_pos_trivial) auto
  finally show ?thesis using assms True by (simp add: sint_u16_eq)
next
  case False
  then show ?thesis using assms by (simp add: sint_u16_eq)
qed

lemma dvi_exact:
  fixes a b :: u16
  assumes "\<not> (b = 0x8000 \<and> a = 0xffff)"
  shows "sint (word_of_int (sint b sdiv sint a) :: u16) = sint b sdiv sint a"
proof -
  have sb: "\<bar>sint b\<bar> \<le> 32768" "sint b \<le> 32767" using sint_u16_bounds [of b] by auto
  have edge: "sint a = -1 \<Longrightarrow> sint b \<noteq> - 32768"
  proof
    assume "sint a = -1" "sint b = - 32768"
    moreover have "a = word_of_int (sint a)" "b = word_of_int (sint b)" by simp_all
    ultimately have "a = word_of_int (-1)" "b = word_of_int (- 32768)" by argo+
    with assms show False by simp
  qed
  consider "\<bar>sint a\<bar> \<ge> 2" | "sint a = 0" | "sint a = 1" | "sint a = -1" by linarith
  then have "- 32768 \<le> sint b sdiv sint a \<and> sint b sdiv sint a \<le> 32767"
  proof cases
    case 1
    have "\<bar>sint b\<bar> div \<bar>sint a\<bar> \<le> 32768 div 2"
      using 1 sb by (intro order.trans [OF zdiv_mono1 zdiv_mono2]) auto
    moreover have "0 \<le> \<bar>sint b\<bar> div \<bar>sint a\<bar>" by (simp add: div_int_pos_iff)
    ultimately show ?thesis by (auto simp: signed_divide_int_def sgn_if)
  qed (use sb edge sint_u16_bounds [of b] in \<open>auto simp: signed_divide_int_def sgn_if\<close>)
  then show ?thesis by (intro sint_of_small) (simp_all add: uint_u16_of_int)
qed

lemma shl_exact:
  assumes "0 \<le> n" and "n < 32" and "c_shl (ucast (b :: u16)) n = Some r"
  shows "uint (ucast r :: u16) + 65536 * uint (high16 r) = (uint b * 2 ^ nat n) mod 2 ^ 32"
proof -
  have "r = push_bit (nat n) (ucast b)" using assms by (simp add: c_shl_def)
  then have "uint r = take_bit 32 (push_bit (nat n) (uint b))"
    by (simp only: unsigned_push_bit_eq uint_ucast_u32) simp
  then have "uint r = (uint b * 2 ^ nat n) mod 2 ^ 32"
    by (simp add: push_bit_eq_mult take_bit_eq_mod)
  then show ?thesis using low_high16 [of r] by simp
qed

lemma div_between:
  assumes "(1::int) \<le> p" and "- c \<le> k" and "k < c" and "0 < c"
  shows "- c \<le> k div p \<and> k div p < c"
proof (cases "0 \<le> k")
  case True
  have "k div p \<le> k div 1" by (rule zdiv_mono2) (use assms True in auto)
  moreover have "0 \<le> k div p" using assms True by (simp add: pos_imp_zdiv_nonneg_iff)
  ultimately show ?thesis using assms by simp
next
  case False
  have "k div 1 \<le> k div p" by (rule zdiv_mono2_neg) (use assms False in auto)
  moreover have "k div p < 0" using assms(1) False pos_imp_zdiv_neg_iff [of p k] by linarith
  ultimately show ?thesis using assms by simp
qed

lemma sar_signed:
  assumes "c_sar (scast (b :: u16)) n = Some r"
  shows "sint (ucast r :: u16) = sint b div 2 ^ nat n"
proof (rule sint_of_small)
  have "sint r = sint b div 2 ^ nat n"
    using assms by (auto simp: c_sar_def sint_signed_drop_bit_eq drop_bit_eq_div sint_scast_u32
        split: if_splits)
  then show "uint (ucast r :: u16) = (sint b div 2 ^ nat n) mod 65536"
    by (simp add: uint_ucast_u16 uint_mod_sint)
  have "(1::int) \<le> 2 ^ nat n" by simp
  from div_between [OF this, of 32768 "sint b"] sint_u16_bounds [of b]
  show "- 32768 \<le> sint b div 2 ^ nat n" "sint b div 2 ^ nat n \<le> 32767" by simp_all
qed

text \<open>A logical right shift by at most 16 splits the fixed-point value \<open>b * 65536 / 2^n\<close>.\<close>

lemma shr_exact:
  fixes b :: u16
  assumes "0 \<le> n" and "n \<le> 16" and "c_sar (ucast b) n = Some r"
    and "c_sar (push_bit 16 (ucast b)) n = Some y"
  shows "uint (ucast r :: u16) * 65536 + uint (ucast (y AND 0xffff) :: u16) = uint b * 65536 div 2 ^ nat n"
proof -
  let ?p = "2 ^ nat n :: int"
  have n: "n < 32" using assms by simp
  have "sint (ucast b :: u32) = uint b"
    using order.trans [of "- (2 ^ 31)" 0 "uint b"] order.strict_trans [OF uint_less_65536, of "2 ^ 31" b]
    by (simp add: signed_ucast_eq signed_take_bit_int_eq_self)
  then have r: "uint (ucast r :: u16) = (uint b div ?p) mod 65536"
    using assms n
    by (auto simp: c_sar_def uint_ucast_u16 uint_mod_sint sint_signed_drop_bit_eq drop_bit_eq_div)
  have "0 \<le> uint b div ?p" by (simp add: pos_imp_zdiv_nonneg_iff)
  moreover have "uint b div ?p \<le> uint b div 1" by (rule zdiv_mono2) simp_all
  ultimately have r': "uint (ucast r :: u16) = uint b div ?p"
    using r uint_less_65536 [of b] by (simp add: mod_pos_pos_trivial)
  let ?x = "push_bit 16 (ucast b :: u32)"
  define t where "t = sint ?x div 4294967296"
  have "sint ?x = sint ?x mod 4294967296 + 4294967296 * t"
    by (simp add: t_def)
  also have "sint ?x mod 4294967296 = uint b * 65536"
    using uint_sint [of ?x] uint_push16 [of b] by (simp add: take_bit_eq_mod)
  also have "(4294967296 :: int) = ?p * 2 ^ (16 - nat n) * 65536"
  proof -
    have "?p * 2 ^ (16 - nat n) = (2::int) ^ 16"
      using assms(1,2) by (simp add: power_add [symmetric] nat_le_iff)
    then show ?thesis by simp
  qed
  finally have sx: "sint ?x = uint b * 65536 + ?p * (2 ^ (16 - nat n) * t * 65536)"
    by (simp add: algebra_simps)
  have "sint ?x div ?p = uint b * 65536 div ?p + 2 ^ (16 - nat n) * t * 65536"
    unfolding sx by (subst div_mult_self2) simp_all
  then have y: "uint (ucast (y AND 0xffff) :: u16) = (uint b * 65536 div ?p) mod 65536"
    using assms n by (auto simp: c_sar_def uint_sar)
  have "uint b * 65536 div ?p div 65536 = uint b * 65536 div (?p * 65536)"
    by (rule zdiv_zmult2_eq [symmetric]) simp
  also have "\<dots> = uint b div ?p" by simp
  finally have "uint b div ?p = uint b * 65536 div ?p div 65536" ..
  then show ?thesis unfolding r' y by (simp only: div_mult_mod_eq)
qed

section \<open>The routines compute what EX and the result say\<close>

lemma uint_u16_le: "uint (w :: u16) \<le> 65535"
  using uint_less_65536 [of w] by linarith

lemma uint_u16_ge: "0 \<le> uint (w :: u16)"
  by simp

lemma flow_words:
  fixes a b x :: u16
  shows "uint (b + a) + 65536 * sint (flow_ex (uint b + uint a)) = uint b + uint a"
    and "uint (b - a) + 65536 * sint (flow_ex (uint b - uint a)) = uint b - uint a"
    and "- 1 \<le> sint x \<Longrightarrow> sint x \<le> 1 \<Longrightarrow>
      uint (b + a + x) + 65536 * sint (flow_ex (uint b + uint a + sint x)) = uint b + uint a + sint x"
    and "- 1 \<le> sint x \<Longrightarrow> sint x \<le> 1 \<Longrightarrow>
      uint (b - a + x) + 65536 * sint (flow_ex (uint b - uint a + sint x)) = uint b - uint a + sint x"
  unfolding uint_add_sub_ex(3,4) unfolding uint_add_sub_ex(1,2)
  by (rule flow_ex_exact;
      insert uint_u16_le [of a] uint_u16_le [of b] uint_u16_ge [of a] uint_u16_ge [of b];
      linarith)+

lemma uint_u32_product: "uint (ucast (b :: u16) * ucast (a :: u16) :: u32) = uint b * uint a"
proof -
  have "uint b * uint a \<le> 65535 * 65535" by (rule mult_mono) (simp_all add: uint_u16_le)
  then show ?thesis by (simp add: uint_word_ariths uint_ucast_u32 mod_pos_pos_trivial)
qed

lemma sint_u32_product: "sint (scast (b :: u16) * scast (a :: u16) :: u32) = sint b * sint a"
proof -
  have "\<bar>sint b * sint a\<bar> \<le> 32768 * 32768"
    unfolding abs_mult using sint_u16_bounds [of a] sint_u16_bounds [of b] by (intro mult_mono) auto
  then show ?thesis
    by (simp add: sint_word_ariths sint_scast_u32 signed_take_bit_int_eq_self)
qed

text \<open>
  The situation all statements below start from: the machine is not skipping, nobody
  observes writes, and the operands have been fetched.
\<close>

definition runs_op :: "'w vm_t \<Rightarrow> u16 \<Rightarrow> u16 \<Rightarrow> u16 \<Rightarrow> store \<Rightarrow> 'w vm_t \<Rightarrow> bool" where
  "runs_op vm b a va s vm2 \<longleftrightarrow>
     vm_wf vm \<and> \<not> skip vm \<and> no_hook vm HOOK_ON_WRITE \<and> s \<noteq> SEx \<and>
     fetch_operands vm b a = (va, s, vm2)"

definition keeps_others :: "'w vm_t \<Rightarrow> store \<Rightarrow> 'w vm_t \<Rightarrow> bool" where
  "keeps_others vm2 s vm' \<longleftrightarrow>
     (\<forall>t. store_ok t \<longrightarrow> t \<noteq> s \<longrightarrow> t \<noteq> SEx \<longrightarrow> store_read vm' t = store_read vm2 t)"

lemma alu_runs:
  assumes "runs_op vm b a va s vm2" and "f (store_read vm2 s) va (ex vm) = Some (r, x)"
    and "P r (case x of None \<Rightarrow> ex vm | Some v \<Rightarrow> v)"
  shows "\<exists>vm'. alu e n f vm b a = Some vm' \<and> keeps_others vm2 s vm' \<and>
    P (store_read vm' s) (ex vm')"
proof -
  have a: "fetch_operands vm b a = (va, s, vm2)" "vm_wf vm" "\<not> skip vm"
      "no_hook vm HOOK_ON_WRITE" "s \<noteq> SEx"
    using assms(1) by (simp_all add: runs_op_def)
  let ?vm = "set_ex x (store_write (OP_NUM_CYCLES n vm2) s r)"
  have r: "alu e n f vm b a = Some ?vm" by (rule alu_result [OF a(1-4), where f = f, OF assms(2)])
  note eff = alu_effect [OF a(1-4), where f = f, OF assms(2) a(5) r]
  have "keeps_others vm2 s ?vm" using eff(3) by (simp add: keeps_others_def)
  moreover have "P (store_read ?vm s) (ex ?vm)" using assms(3) by (simp add: eff(1,2))
  ultimately show ?thesis using r by blast
qed

text \<open>A machine on which the statements are exercised: A holds -13, B holds 5.\<close>

definition demo_vm :: "unit vm_t" where
  "demo_vm = reg_set (reg_set (vm_create ()) REG_A 0xfff3) REG_B 5"

lemma demo_vm_wf: "vm_wf demo_vm"
  by (simp add: demo_vm_def vm_wf_create)

lemma demo_vm_regs: "reg_get demo_vm 0 = 0xfff3" "reg_get demo_vm 1 = 5"
  by (simp_all add: demo_vm_def vm_wf_create)

lemma demo_vm_fields: "\<not> skip demo_vm" "ex demo_vm = 0" "no_hook demo_vm m"
  by (simp_all add: demo_vm_def vm_create_fields no_hook_create)

lemma demo_runs: "runs_op demo_vm REG_A REG_B 5 (SReg REG_A) demo_vm"
  by (simp add: runs_op_def demo_vm_wf demo_vm_fields fetch_operands_def vm_resolve_value_def
      vm_internal_get_store_def demo_vm_regs)



text \<open>
  ADX and SBX propagate a carry: when EX holds what an addition or subtraction leaves
  there (0, 1 or \<open>0xffff\<close>), the stored word and the new EX together are the exact integer
  result with the incoming carry, read as a signed word, added in.
\<close>

theorem adx_sbx_exact:
  assumes "runs_op vm b a va s vm2" and "ex vm \<in> {0, 1, 0xffff}"
  shows "(\<exists>vm'. vm_op_adx e vm b a = Some vm' \<and> keeps_others vm2 s vm' \<and>
      uint (store_read vm' s) + 65536 * sint (ex vm') =
      uint (store_read vm2 s) + uint va + sint (ex vm)) \<and>
    (\<exists>vm'. vm_op_sbx e vm b a = Some vm' \<and> keeps_others vm2 s vm' \<and>
      uint (store_read vm' s) + 65536 * sint (ex vm') =
      uint (store_read vm2 s) - uint va + sint (ex vm))"
proof -
  have x: "- 1 \<le> sint (ex vm)" "sint (ex vm) \<le> 1" using assms(2) by auto
  show ?thesis
    unfolding alu_forms
    by (intro conjI; rule alu_runs [OF assms(1), where P = "\<lambda>r y. uint r + 65536 * sint y = _"])
      (auto simp: flow_words(3,4) [OF x])
qed

theorem adx_sbx_exact_witness:
  "runs_op demo_vm REG_A REG_B 5 (SReg REG_A) demo_vm \<and> ex demo_vm \<in> {0, 1, 0xffff} \<and>
   (\<exists>vm'. vm_op_adx idle_code demo_vm REG_A REG_B = Some vm' \<and>
     uint (reg_get vm' REG_A) + 65536 * sint (ex vm') = 65528)"
  using adx_sbx_exact [OF demo_runs, of idle_code] demo_runs
  by (auto simp: demo_vm_regs demo_vm_fields)



text \<open>
  C36. DIV and MOD: with a non-zero divisor the stored word and EX are the integer and the
  fractional part of the quotient, in 16.16 fixed point, and MOD stores the remainder and
  leaves EX alone; with a zero divisor both store 0, and DIV clears EX.
\<close>

theorem div_mod_exact:
  assumes "runs_op vm b a va s vm2"
  shows "(\<exists>vm'. vm_op_div e vm b a = Some vm' \<and> keeps_others vm2 s vm' \<and>
      uint (store_read vm' s) * 65536 + uint (ex vm') =
        (if va = 0 then 0 else uint (store_read vm2 s) * 65536 div uint va)) \<and>
    (\<exists>vm'. vm_op_mod e vm b a = Some vm' \<and> keeps_others vm2 s vm' \<and>
      uint (store_read vm' s) = (if va = 0 then 0 else uint (store_read vm2 s) mod uint va) \<and>
      ex vm' = ex vm)"
  unfolding alu_forms alu_forms_div
proof (intro conjI)
  show "\<exists>vm'. alu e 3 (\<lambda>b a x. Some (if a \<noteq> 0 then b div a else 0,
        Some (if a \<noteq> 0 then ucast (push_bit 16 (ucast b :: u32) div ucast a AND 0xffff) else 0)))
      vm b a = Some vm' \<and> keeps_others vm2 s vm' \<and>
      uint (store_read vm' s) * 65536 + uint (ex vm') =
        (if va = 0 then 0 else uint (store_read vm2 s) * 65536 div uint va)"
    by (rule alu_runs [OF assms, where P = "\<lambda>r y. uint r * 65536 + uint y = _"])
      (auto simp: div_exact)
  show "\<exists>vm'. alu e 3 (\<lambda>b a x. Some (if a \<noteq> 0 then b mod a else 0, None)) vm b a = Some vm' \<and>
      keeps_others vm2 s vm' \<and>
      uint (store_read vm' s) = (if va = 0 then 0 else uint (store_read vm2 s) mod uint va) \<and>
      ex vm' = ex vm"
    by (rule alu_runs [OF assms, where P = "\<lambda>r y. uint r = _ \<and> y = _"]) (auto simp: uint_mod)
qed

theorem div_mod_exact_witness:
  "runs_op demo_vm REG_A REG_B 5 (SReg REG_A) demo_vm \<and>
   (\<exists>vm'. vm_op_div idle_code demo_vm REG_A REG_B = Some vm' \<and>
     uint (reg_get vm' REG_A) * 65536 + uint (ex vm') = 858823065) \<and>
   (\<exists>vm'. vm_op_mod idle_code demo_vm REG_A REG_B = Some vm' \<and> uint (reg_get vm' REG_A) = 3)"
  using div_mod_exact [OF demo_runs, of idle_code] demo_runs by (auto simp: demo_vm_regs)

text \<open>
  MDI stores the non-negative remainder of the signed value b by the unsigned value a
  (0 when a is 0), for every pair of operands.
\<close>

theorem mdi_remainder:
  assumes "runs_op vm b a va s vm2"
  shows "\<exists>vm'. vm_op_mdi e vm b a = Some vm' \<and> keeps_others vm2 s vm' \<and>
    uint (store_read vm' s) = (if va = 0 then 0 else sint (store_read vm2 s) mod uint va)"
  unfolding alu_forms_div
proof (rule alu_runs [OF assms, where P = "\<lambda>r y. uint r = _"])
  let ?r = "if va = 0 then 0 else word_of_int (sint (store_read vm2 s) smod uint va) :: u16"
  show "(let r = ?r in Some (if sint r < 0 then r + va else r, None :: u16 option)) =
      Some (if sint ?r < 0 then ?r + va else ?r, None)"
    by (simp only: Let_def)
  show "uint (if sint ?r < 0 then ?r + va else ?r) =
      (if va = 0 then 0 else sint (store_read vm2 s) mod uint va)"
    using mdi_exact [of va "store_read vm2 s"]
    by (cases "va = 0") (simp_all split: if_split_asm)
qed

theorem mdi_remainder_witness:
  "runs_op demo_vm REG_A REG_B 5 (SReg REG_A) demo_vm \<and>
   (\<exists>vm'. vm_op_mdi idle_code demo_vm REG_A REG_B = Some vm' \<and> uint (reg_get vm' REG_A) = 2)"
  using mdi_remainder [OF demo_runs, of idle_code] demo_runs by (auto simp: demo_vm_regs)

text \<open>
  DVI stores the quotient of the signed operands, rounded towards zero, except for the
  one pair whose quotient does not fit (-32768 by -1); a zero divisor stores 0 and clears EX.
\<close>

theorem dvi_quotient:
  assumes "runs_op vm b a va s vm2" and "\<not> (store_read vm2 s = 0x8000 \<and> va = 0xffff)"
  shows "\<exists>vm'. vm_op_dvi e vm b a = Some vm' \<and> keeps_others vm2 s vm' \<and>
    sint (store_read vm' s) = (if va = 0 then 0 else sint (store_read vm2 s) sdiv sint va) \<and>
    (va = 0 \<longrightarrow> ex vm' = 0)"
  unfolding alu_forms_div
  by (rule alu_runs [OF assms(1), where P = "\<lambda>r y. sint r = _ \<and> (va = 0 \<longrightarrow> y = 0)"])
    (auto simp: dvi_exact [OF assms(2)])

theorem dvi_quotient_witness:
  "runs_op demo_vm REG_A REG_B 5 (SReg REG_A) demo_vm \<and>
   (\<exists>vm'. vm_op_dvi idle_code demo_vm REG_A REG_B = Some vm' \<and> sint (reg_get vm' REG_A) = - 2)"
  using dvi_quotient [OF demo_runs, of idle_code] demo_runs
  by (auto simp: demo_vm_regs signed_divide_int_def)



section \<open>Multi-word arithmetic\<close>

lemma fetch_registers: "r < 8 \<Longrightarrow> t < 8 \<Longrightarrow> fetch_operands vm r t = (reg_get vm t, SReg r, vm)"
  if "\<not> skip vm" for r t :: u16
  using that
  by (simp add: fetch_operands_def vm_resolve_value_def vm_internal_get_store_def
      word_le_nat_alt word_less_nat_alt)

lemma flow_ex_range: "flow_ex r \<in> {0, 1, 0xffff}"
  by (simp add: flow_ex_def)

lemma register_alu:
  assumes "vm_wf vm" "\<not> skip vm" "no_hook vm HOOK_ON_WRITE" "r < 8" "t < 8"
    and "f (reg_get vm r) (reg_get vm t) (ex vm) = Some (res, Some x)"
  shows "\<exists>vm'. alu e n f vm r t = Some vm' \<and> vm_wf vm' \<and> \<not> skip vm' \<and> no_hook vm' HOOK_ON_WRITE \<and>
    ex vm' = x \<and> reg_get vm' r = res \<and> (\<forall>i < 8. i \<noteq> r \<longrightarrow> reg_get vm' i = reg_get vm i)"
proof (intro exI conjI)
  let ?v = "set_ex (Some x) (store_write (OP_NUM_CYCLES n vm) (SReg r) res)"
  show "alu e n f vm r t = Some ?v"
    using assms by (intro alu_result [OF fetch_registers]) simp_all
  have u: "unat r < 8" using assms(4) by (simp add: word_less_nat_alt)
  show "vm_wf ?v" "\<not> skip ?v" "no_hook ?v HOOK_ON_WRITE" "ex ?v = x"
    using assms(1-3) by (simp_all add: set_ex_def)
  show "reg_get ?v r = res" "\<forall>i < 8. i \<noteq> r \<longrightarrow> reg_get ?v i = reg_get vm i"
    using vm_wf_lengths(1) [OF assms(1)] u
    by (auto simp: set_ex_def reg_get_def reg_set_def OP_NUM_CYCLES_def nth_list_update word_unat_eq_iff)
qed

definition reg_pair :: "'w vm_t \<Rightarrow> u16 \<Rightarrow> u16 \<Rightarrow> int" where
  "reg_pair vm hi lo = uint (reg_get vm hi) * 65536 + uint (reg_get vm lo)"

text \<open>
  C2. The two-instruction idioms for 32-bit numbers held in register pairs, \<open>ADD\<close> then
  \<open>ADX\<close> and \<open>SUB\<close> then \<open>SBX\<close>, compute the exact 32-bit sum and difference; the final EX is
  the signed carry out of the whole pair.
\<close>

theorem wide_add_sub:
  assumes "vm_wf vm" and "\<not> skip vm" and "no_hook vm HOOK_ON_WRITE"
    and "hi < 8" and "lo < 8" and "hi' < 8" and "lo' < 8" and "hi \<noteq> lo" and "hi' \<noteq> lo"
  shows "(\<exists>vm1 vm2. vm_op_add e vm lo lo' = Some vm1 \<and> vm_op_adx e vm1 hi hi' = Some vm2 \<and>
      reg_pair vm2 hi lo + 2 ^ 32 * sint (ex vm2) = reg_pair vm hi lo + reg_pair vm hi' lo') \<and>
    (\<exists>vm1 vm2. vm_op_sub e vm lo lo' = Some vm1 \<and> vm_op_sbx e vm1 hi hi' = Some vm2 \<and>
      reg_pair vm2 hi lo + 2 ^ 32 * sint (ex vm2) = reg_pair vm hi lo - reg_pair vm hi' lo')"
proof -
  note regs = assms(1-3)
  let ?l = "reg_get vm lo" and ?l' = "reg_get vm lo'" and ?h = "reg_get vm hi" and ?h' = "reg_get vm hi'"
  have step: "\<exists>vm1 vm2. alu e n f vm lo lo' = Some vm1 \<and> alu e k g vm1 hi hi' = Some vm2 \<and>
      reg_pair vm2 hi lo = uint r' * 65536 + uint r \<and> ex vm2 = x'"
    if f: "f ?l ?l' (ex vm) = Some (r, Some x)" and g: "g ?h ?h' x = Some (r', Some x')" for f g n k r x r' x'
  proof -
    obtain vm1 where 1: "alu e n f vm lo lo' = Some vm1" "vm_wf vm1" "\<not> skip vm1"
        "no_hook vm1 HOOK_ON_WRITE" "ex vm1 = x" "reg_get vm1 lo = r"
        "\<forall>i < 8. i \<noteq> lo \<longrightarrow> reg_get vm1 i = reg_get vm i"
      using register_alu [where f = f, OF regs assms(5,7) f] by blast
    then have g1: "g (reg_get vm1 hi) (reg_get vm1 hi') (ex vm1) = Some (r', Some x')"
      using g assms(4,6,8,9) by simp
    obtain vm2 where "alu e k g vm1 hi hi' = Some vm2" "ex vm2 = x'" "reg_get vm2 hi = r'"
        "\<forall>i < 8. i \<noteq> hi \<longrightarrow> reg_get vm2 i = reg_get vm1 i"
      using register_alu [where f = g, OF 1(2-4) assms(4,6) g1] by blast
    with 1 assms(5,8) show ?thesis by (auto simp: reg_pair_def)
  qed
  have x: "- 1 \<le> sint (flow_ex z)" "sint (flow_ex z) \<le> 1" for z
    using flow_ex_range [of z] by auto
  note fl = flow_words(1,2) [of ?l ?l'] flow_words(3,4) [OF x, of ?h ?h']
  have "\<exists>vm1 vm2. vm_op_add e vm lo lo' = Some vm1 \<and> vm_op_adx e vm1 hi hi' = Some vm2 \<and>
      reg_pair vm2 hi lo + 2 ^ 32 * sint (ex vm2) = reg_pair vm hi lo + reg_pair vm hi' lo'"
    using step [of "\<lambda>b a x. Some (b + a, Some (flow_ex (uint b + uint a)))" _ _
        "\<lambda>b a x. Some (b + a + x, Some (flow_ex (uint b + uint a + sint x)))" _ _ 2 3, OF refl refl]
      fl(1) fl(3) [of "uint ?l + uint ?l'"]
    by (fastforce simp: alu_forms reg_pair_def)
  moreover have "\<exists>vm1 vm2. vm_op_sub e vm lo lo' = Some vm1 \<and> vm_op_sbx e vm1 hi hi' = Some vm2 \<and>
      reg_pair vm2 hi lo + 2 ^ 32 * sint (ex vm2) = reg_pair vm hi lo - reg_pair vm hi' lo'"
    using step [of "\<lambda>b a x. Some (b - a, Some (flow_ex (uint b - uint a)))" _ _
        "\<lambda>b a x. Some (b - a + x, Some (flow_ex (uint b - uint a + sint x)))" _ _ 2 3, OF refl refl]
      fl(2) fl(4) [of "uint ?l - uint ?l'"]
    by (fastforce simp: alu_forms reg_pair_def)
  ultimately show ?thesis by blast
qed

theorem wide_add_sub_witness:
  "\<exists>vm1 vm2. vm_op_add idle_code demo_vm REG_A REG_A = Some vm1 \<and>
     vm_op_adx idle_code vm1 REG_B REG_B = Some vm2 \<and>
     reg_pair vm2 REG_B REG_A + 2 ^ 32 * sint (ex vm2) = 786406"
  using wide_add_sub [OF demo_vm_wf demo_vm_fields(1) demo_vm_fields(3), of 1 0 1 0 idle_code]
  by (simp add: reg_pair_def demo_vm_regs)

end
