(* ===== verification/Vm_Cycle.thy ===== *)
theory Vm_Cycle
  imports Vm_Ops
begin

text \<open>
  The machine cycle (\<open>vm_cycle\<close> of \<^verbatim>\<open>vm.c\<close>) and the run loop (\<open>vm_execute\<close> of
  \<^verbatim>\<open>dcpuexec.c\<close>). The opcode \<open>switch\<close> and the nested one for non-basic instructions
  are definitions of their own. Printing, the dump file's contents and the pacing of the
  run loop against the wall clock are not modelled: they do not change the machine.
\<close>

section \<open>Dispatch\<close>

definition vm_invalid :: "'w vm_t \<Rightarrow> 'w vm_t" where
  "vm_invalid vm = (if can_fire vm then vm\<lparr>on_fire := True\<rparr> else vm_halt vm)"

definition vm_exec_nonbasic :: "'w vm_code \<Rightarrow> 'w vm_t \<Rightarrow> u16 \<Rightarrow> u16 \<Rightarrow> 'w vm_t option" where
  "vm_exec_nonbasic e vm b a =
     (if b = NBOP_JSR then Some (vm_op_jsr vm a)
      else if b = NBOP_INT then vm_op_int e vm a
      else if b = NBOP_IAG then vm_op_iag e vm a
      else if b = NBOP_IAS then Some (vm_op_ias vm a)
      else if b = NBOP_RFI then vm_op_rfi e vm a
      else if b = NBOP_IAQ then Some (vm_op_iaq vm a)
      else if b = NBOP_HWN then vm_op_hwn e vm a
      else if b = NBOP_HWQ then vm_op_hwq e vm a
      else if b = NBOP_HWI then vm_op_hwi e vm a
      else Some (vm_invalid vm))"

definition vm_exec :: "'w vm_code \<Rightarrow> 'w vm_t \<Rightarrow> u16 \<Rightarrow> u16 \<Rightarrow> u16 \<Rightarrow> 'w vm_t option" where
  "vm_exec e vm op b a =
     (if op = OP_SET then vm_op_set e vm b a
      else if op = OP_ADD then vm_op_add e vm b a
      else if op = OP_SUB then vm_op_sub e vm b a
      else if op = OP_MUL then vm_op_mul e vm b a
      else if op = OP_MLI then vm_op_mli e vm b a
      else if op = OP_DIV then vm_op_div e vm b a
      else if op = OP_DVI then vm_op_dvi e vm b a
      else if op = OP_MOD then vm_op_mod e vm b a
      else if op = OP_MDI then vm_op_mdi e vm b a
      else if op = OP_AND then vm_op_and e vm b a
      else if op = OP_BOR then vm_op_bor e vm b a
      else if op = OP_XOR then vm_op_xor e vm b a
      else if op = OP_SHR then vm_op_shr e vm b a
      else if op = OP_ASR then vm_op_asr e vm b a
      else if op = OP_SHL then vm_op_shl e vm b a
      else if op = OP_IFB then Some (vm_op_ifb vm b a)
      else if op = OP_IFC then Some (vm_op_ifc vm b a)
      else if op = OP_IFE then Some (vm_op_ife vm b a)
      else if op = OP_IFN then Some (vm_op_ifn vm b a)
      else if op = OP_IFG then Some (vm_op_ifg vm b a)
      else if op = OP_IFA then Some (vm_op_ifa vm b a)
      else if op = OP_IFL then Some (vm_op_ifl vm b a)
      else if op = OP_IFU then Some (vm_op_ifu vm b a)
      else if op = OP_ADX then vm_op_adx e vm b a
      else if op = OP_SBX then vm_op_sbx e vm b a
      else if op = OP_STI then vm_op_sti e vm b a
      else if op = OP_STD then vm_op_std e vm b a
      else if op = OP_NONBASIC then vm_exec_nonbasic e vm b a
      else Some (vm_invalid vm))"

section \<open>One cycle\<close>

definition vm_cycle_60hz :: "'w vm_code \<Rightarrow> 'w vm_t \<Rightarrow> 'w vm_t option" where
  "vm_cycle_60hz e vm =
     (let t = time_usec e (time_calls vm);
          vm = vm\<lparr>time_calls := Suc (time_calls vm)\<rparr>;
          usec = static_usec vm
      in if (if t - usec < 0 then usec - t > 10000 else t - usec > 10000)
         then vm_hook_fire e (vm\<lparr>static_usec := t\<rparr>) 0 HOOK_ON_60HZ 0
         else Some vm)"

definition vm_cycle_irq :: "'w vm_code \<Rightarrow> 'w vm_t \<Rightarrow> 'w vm_t option" where
  "vm_cycle_irq e vm =
     (if \<not> queue_interrupts vm \<and> irq_count vm > 0
      then (let (a, vm) = vm_irq_take vm in vm_interrupt e vm a)
      else Some vm)"

definition vm_cycle_instruction :: "'w vm_code \<Rightarrow> 'w vm_t \<Rightarrow> 'w vm_t option" where
  "vm_cycle_instruction e vm =
     (let (instruction, vm) = vm_consume_word vm;
          op = INSTRUCTION_GET_OP instruction;
          b = INSTRUCTION_GET_B instruction;
          a = INSTRUCTION_GET_A instruction
      in vm_exec e vm op b a)"

definition vm_cycle :: "'w vm_code \<Rightarrow> 'w vm_t \<Rightarrow> 'w vm_t option" where
  "vm_cycle e vm =
     (if sleep_cycles vm > 0 then Some (vm\<lparr>sleep_cycles := sleep_cycles vm - 1\<rparr>)
      else
        do {
          vm \<leftarrow> vm_cycle_60hz e vm;
          vm \<leftarrow> vm_cycle_irq e vm;
          vm \<leftarrow> vm_hook_fire e vm 0 HOOK_ON_PRE_CYCLE 0;
          if halted vm then Some vm
          else if on_fire vm then vm_op_fire e vm
          else
            do {
              vm \<leftarrow> (if radiation vm then vm_op_radiation e vm else Some vm);
              vm \<leftarrow> vm_cycle_instruction e vm;
              vm_hook_fire e vm 0 HOOK_ON_POST_CYCLE 0
            }
        })"

section \<open>The run loop\<close>

partial_function (option) vm_execute_loop :: "'w vm_code \<Rightarrow> 'w vm_t \<Rightarrow> 'w vm_t option" where
  "vm_execute_loop e vm =
     (if \<not> halted vm \<and> \<not> exit vm then vm_cycle e vm \<bind> vm_execute_loop e else Some vm)"

text \<open>
  \<open>execution_dump\<close> is \<open>None\<close> when no file name is given, and otherwise what \<open>fopen\<close>
  returns for it.
\<close>

definition vm_execute :: "'w vm_code \<Rightarrow> 'w vm_t \<Rightarrow> ptr option option \<Rightarrow> 'w vm_t option" where
  "vm_execute e vm execution_dump =
     (let vm = (case execution_dump of None \<Rightarrow> vm | Some f \<Rightarrow> vm\<lparr>dump := f\<rparr>)
      in map_option (\<lambda>vm. if dump vm \<noteq> None then vm\<lparr>dump := None\<rparr> else vm)
           (vm_execute_loop e vm))"

section \<open>Well-formedness of every reachable machine\<close>

lemma invalid_wf [simp]: "vm_wf (vm_invalid vm) = vm_wf vm"
  by (simp add: vm_invalid_def)

context callbacks
begin

lemma exec_nonbasic_wf: "vm_wf vm \<Longrightarrow> pred_option vm_wf (vm_exec_nonbasic e vm b a)"
  by (simp add: vm_exec_nonbasic_def nonbasic_wf hwq_wf pure_ops_wf)

lemma exec_wf: "vm_wf vm \<Longrightarrow> pred_option vm_wf (vm_exec e vm op b a)"
  by (simp add: vm_exec_def exec_nonbasic_wf all_alu_forms alu_wf sti_std_wf pure_ops_wf)

lemma cycle_instruction_wf: "vm_wf vm \<Longrightarrow> pred_option vm_wf (vm_cycle_instruction e vm)"
  by (simp add: vm_cycle_instruction_def vm_consume_word_def Let_def exec_wf)

lemma cycle_60hz_wf: "vm_wf vm \<Longrightarrow> pred_option vm_wf (vm_cycle_60hz e vm)"
  by (simp add: vm_cycle_60hz_def Let_def hook_fire_wf)

lemma cycle_irq_wf:
  assumes "vm_wf vm"
  shows "pred_option vm_wf (vm_cycle_irq e vm)"
proof (cases "\<not> queue_interrupts vm \<and> irq_count vm > 0")
  case True
  then have "irq_queue vm \<noteq> []"
    using vm_wf_lengths(2) [OF assms] by (auto simp: irq_queue_def word_gt_0 unsigned_eq_0_iff)
  with irq_take_wf [OF assms] True show ?thesis
    by (simp add: vm_cycle_irq_def split_def Let_def interrupt_wf)
next
  case False
  with assms show ?thesis by (auto simp: vm_cycle_irq_def)
qed

lemma cycle_wf: "vm_wf vm \<Longrightarrow> pred_option vm_wf (vm_cycle e vm)"
  unfolding vm_cycle_def
  by (auto intro!: pred_option_bind [OF cycle_60hz_wf] pred_option_bind [OF cycle_irq_wf]
      pred_option_bind [OF hook_fire_wf] pred_option_bind [OF cycle_instruction_wf]
      op_fire_wf hook_fire_wf pred_option_bind [where P = vm_wf] op_radiation_wf
      cycle_60hz_wf cycle_irq_wf cycle_instruction_wf)

end

text \<open>
  A machine is driven by its run loop and by the program around it: cycles, interrupts
  raised by devices, registrations, resets and reflashing, in any order.
\<close>

inductive vm_step :: "'w vm_code \<Rightarrow> 'w vm_t \<Rightarrow> 'w vm_t \<Rightarrow> bool" for e where
  cycle: "vm_cycle e vm = Some vm' \<Longrightarrow> vm_step e vm vm'"
| interrupt: "vm_interrupt e vm m = Some vm' \<Longrightarrow> vm_step e vm vm'"
| hw_interrupt: "vm_hw_interrupt e vm i = Some vm' \<Longrightarrow> vm_step e vm vm'"
| register_hook: "vm_hook_register vm h mode ud = (i, vm') \<Longrightarrow> vm_step e vm vm'"
| unregister_hook: "vm_hook_unregister vm i = Some vm' \<Longrightarrow> vm_step e vm vm'"
| register_hw: "vm_hw_register vm d = (i, vm') \<Longrightarrow> vm_step e vm vm'"
| reset: "vm_step e vm (vm_reset vm m)"
| flash: "vm_step e vm (vm_flash vm mem)"
| close: "vm_close e vm = Some vm' \<Longrightarrow> vm_step e vm vm'"

inductive vm_reachable :: "'w vm_code \<Rightarrow> 'w vm_t \<Rightarrow> bool" for e where
  create: "vm_reachable e (vm_create w)"
| step: "vm_reachable e vm \<Longrightarrow> vm_step e vm vm' \<Longrightarrow> vm_reachable e vm'"

lemma vm_step_wf:
  assumes "callbacks e" and "vm_step e vm vm'" and "vm_wf vm"
  shows "vm_wf vm'"
  using assms(2,3)
proof cases
  case cycle
  then show ?thesis by (rule pred_option_SomeD [OF callbacks.cycle_wf [OF assms(1,3)]])
next
  case interrupt
  then show ?thesis by (rule pred_option_SomeD [OF callbacks.interrupt_wf [OF assms(1,3)]])
next
  case hw_interrupt
  then show ?thesis by (rule pred_option_SomeD [OF callbacks.hw_interrupt_wf [OF assms(1,3)]])
next
  case close
  then show ?thesis by (rule pred_option_SomeD [OF callbacks.close_wf [OF assms(1,3)]])
next
  case register_hook
  then show ?thesis using vm_wf_hook_register [OF assms(3)] by (metis snd_conv)
next
  case register_hw
  then show ?thesis using vm_wf_hw_register [OF assms(3)] by (metis snd_conv)
qed (use assms(3) in \<open>auto intro: vm_wf_hook_unregister vm_wf_reset vm_wf_flash\<close>)

lemma vm_reachable_wf:
  assumes "callbacks e" and "vm_reachable e vm"
  shows "vm_wf vm"
  using assms(2) by induction (auto intro: vm_wf_create vm_step_wf [OF assms(1)])

lemma execute_loop_wf:
  assumes "callbacks e" and "vm_execute_loop e vm = Some vm'" and "vm_wf vm"
  shows "vm_wf vm' \<and> (halted vm' \<or> exit vm')"
proof -
  let ?P = "\<lambda>vm vm'. vm_wf vm \<longrightarrow> vm_wf vm' \<and> (halted vm' \<or> exit vm')"
  have "?P vm vm'"
  proof (rule vm_execute_loop.raw_induct [where P = "\<lambda>e' vm vm'. e' = e \<longrightarrow> ?P vm vm'", THEN mp, OF _ assms(2) refl], intro impI)
    fix f e' and vm vm' :: "'a vm_t"
    assume IH: "\<And>e' vm vm'. f e' vm = Some vm' \<Longrightarrow> e' = e \<longrightarrow> ?P vm vm'" and wf: "vm_wf vm" and e': "e' = e"
      and eq: "(if \<not> halted vm \<and> \<not> exit vm then vm_cycle e' vm \<bind> f e' else Some vm) = Some vm'"
    show "vm_wf vm' \<and> (halted vm' \<or> exit vm')"
      using eq wf IH pred_option_SomeD [OF callbacks.cycle_wf [OF assms(1) wf]] e'
      by (auto split: if_splits elim!: bind_eq_SomeE)
  qed
  with assms(3) show ?thesis by blast
qed

end
