(* ===== verification/Vm_Control.thy ===== *)
theory Vm_Control
  imports Vm_Cycle
begin

text \<open>
  Control flow of the machine: the countdown of a long instruction, skipping after a false
  conditional, subroutine calls, and the life of an interrupt from the moment it is raised
  to the return from its handler.
\<close>

section \<open>Quiet cycles\<close>

primrec vm_cycles :: "'w vm_code \<Rightarrow> nat \<Rightarrow> 'w vm_t \<Rightarrow> 'w vm_t option" where
  "vm_cycles e 0 vm = Some vm"
| "vm_cycles e (Suc n) vm = vm_cycle e vm \<bind> vm_cycles e n"

text \<open>The clock reading at the start of a cycle, when no hook listens to it.\<close>

definition clock_tick :: "'w vm_code \<Rightarrow> 'w vm_t \<Rightarrow> 'w vm_t" where
  "clock_tick e vm =
     (let t = time_usec e (time_calls vm);
          vm = vm\<lparr>time_calls := Suc (time_calls vm)\<rparr>
      in if \<bar>t - static_usec vm\<bar> > 10000 then vm\<lparr>static_usec := t\<rparr> else vm)"

text \<open>
  A machine whose next cycle executes an instruction and whose per-cycle hooks are unused.
\<close>

definition quiet :: "'w vm_t \<Rightarrow> bool" where
  "quiet vm \<longleftrightarrow> sleep_cycles vm = 0 \<and> (queue_interrupts vm \<or> irq_count vm = 0) \<and>
     \<not> halted vm \<and> \<not> on_fire vm \<and> \<not> radiation vm \<and>
     no_hook vm HOOK_ON_60HZ \<and> no_hook vm HOOK_ON_PRE_CYCLE \<and> no_hook vm HOOK_ON_POST_CYCLE"

lemma no_hook_updates [simp]:
  "no_hook (vm\<lparr>pc := w\<rparr>) m = no_hook vm m" "no_hook (vm\<lparr>sp := w\<rparr>) m = no_hook vm m"
  "no_hook (vm\<lparr>sleep_cycles := w\<rparr>) m = no_hook vm m" "no_hook (vm\<lparr>time_calls := k\<rparr>) m = no_hook vm m"
  "no_hook (vm\<lparr>static_usec := n\<rparr>) m = no_hook vm m" "no_hook (clock_tick e vm) m = no_hook vm m"
  "no_hook (skipped vm ws cs sk) m = no_hook vm m" "no_hook (vm\<lparr>ia := w\<rparr>) m = no_hook vm m"
  "no_hook (vm\<lparr>queue_interrupts := k'\<rparr>) m = no_hook vm m"
  by (simp_all add: no_hook_def clock_tick_def skipped_def Let_def)

lemma clock_tick_frame [simp]:
  "skip (clock_tick e vm) = skip vm" "pc (clock_tick e vm) = pc vm" "sp (clock_tick e vm) = sp vm"
  "ram (clock_tick e vm) = ram vm" "registers (clock_tick e vm) = registers vm"
  "ia (clock_tick e vm) = ia vm" "ex (clock_tick e vm) = ex vm"
  "queue_interrupts (clock_tick e vm) = queue_interrupts vm"
  "irq_count (clock_tick e vm) = irq_count vm" "irq (clock_tick e vm) = irq vm"
  "halted (clock_tick e vm) = halted vm" "on_fire (clock_tick e vm) = on_fire vm"
  "radiation (clock_tick e vm) = radiation vm" "sleep_cycles (clock_tick e vm) = sleep_cycles vm"
  "vm_wf (clock_tick e vm) = vm_wf vm" "reg_get (clock_tick e vm) r = reg_get vm r"
  by (simp_all add: clock_tick_def Let_def reg_get_def)

lemma cycle_60hz_none: "no_hook vm HOOK_ON_60HZ \<Longrightarrow> vm_cycle_60hz e vm = Some (clock_tick e vm)"
  by (auto simp: vm_cycle_60hz_def Let_def hook_fire_none clock_tick_def)

lemma quiet_cycle:
  assumes "quiet vm"
  shows "vm_cycle e vm =
    vm_cycle_instruction e (clock_tick e vm) \<bind> (\<lambda>vm. vm_hook_fire e vm 0 HOOK_ON_POST_CYCLE 0)"
proof -
  have "vm_cycle_irq e (clock_tick e vm) = Some (clock_tick e vm)"
    using assms by (auto simp: vm_cycle_irq_def quiet_def)
  then show ?thesis
    using assms
    by (simp add: vm_cycle_def cycle_60hz_none quiet_def hook_fire_none)
qed

lemma cycles_add: "vm_cycles e (m + n) vm = vm_cycles e m vm \<bind> vm_cycles e n"
  by (induction m arbitrary: vm) (auto split: bind_splits)

lemma sleep_cycles_countdown:
  "n \<le> unat (sleep_cycles vm) \<Longrightarrow>
     vm_cycles e n vm = Some (vm\<lparr>sleep_cycles := sleep_cycles vm - of_nat n\<rparr>)"
proof (induction n arbitrary: vm)
  case 0
  then show ?case by simp
next
  case (Suc n)
  then have "sleep_cycles vm \<noteq> 0" by auto
  then have u: "unat (sleep_cycles vm - 1) = unat (sleep_cycles vm) - 1" and pos: "sleep_cycles vm > 0"
    by (simp_all add: unat_minus_one word_gt_0)
  have "vm_cycles e (Suc n) vm = vm_cycles e n (vm\<lparr>sleep_cycles := sleep_cycles vm - 1\<rparr>)"
    using pos by (simp add: vm_cycle_def)
  also have "\<dots> = Some (vm\<lparr>sleep_cycles := sleep_cycles vm - 1 - of_nat n\<rparr>)"
    using Suc.IH [of "vm\<lparr>sleep_cycles := sleep_cycles vm - 1\<rparr>"] Suc.prems u by simp
  finally show ?case by (simp add: algebra_simps)
qed

section \<open>Skipping\<close>

text \<open>The instructions of the machine; the rest is an invalid opcode.\<close>

definition basic_ops :: "u16 list" where
  "basic_ops = [OP_SET, OP_ADD, OP_SUB, OP_MUL, OP_MLI, OP_DIV, OP_DVI, OP_MOD, OP_MDI, OP_AND,
     OP_BOR, OP_XOR, OP_SHR, OP_ASR, OP_SHL, OP_ADX, OP_SBX, OP_STI, OP_STD]"

definition nonbasic_ops :: "u16 list" where
  "nonbasic_ops = [NBOP_JSR, NBOP_IAG, NBOP_IAS, NBOP_RFI, NBOP_IAQ, NBOP_HWN, NBOP_HWQ, NBOP_HWI]"

definition skippable :: "u16 \<Rightarrow> u16 \<Rightarrow> bool" where
  "skippable op b \<longleftrightarrow> op \<in> set basic_ops \<or> is_branching op \<or> op = OP_NONBASIC \<and> b \<in> set nonbasic_ops"

text \<open>Number of words of an instruction when it is passed over.\<close>

definition skip_words :: "u16 \<Rightarrow> u16 \<Rightarrow> u16 \<Rightarrow> u16" where
  "skip_words op b a =
     1 + (if op = OP_NONBASIC
          then of_bool (if b = NBOP_IAG \<or> b = NBOP_HWN then store_takes_word a else takes_word a)
          else of_bool (takes_word a) +
               of_bool (if is_branching op then takes_word b else store_takes_word b))"

lemma exec_skip:
  assumes "skip vm" and "skippable op b"
  shows "\<exists>cs. vm_exec e vm op b a = Some (skipped vm (skip_words op b a - 1) cs (is_branching op))"
  using assms(2) unfolding skippable_def
proof (elim disjE conjE)
  assume "op \<in> set basic_ops"
  then show ?thesis
    unfolding basic_ops_def
    by (simp, elim disjE)
      (simp_all add: vm_exec_def all_alu_forms alu_skip [OF assms(1)] sti_std_skip [OF assms(1)]
        skip_words_def is_branching_def exI)
next
  assume "is_branching op"
  then show ?thesis
    unfolding is_branching_def
    by (elim disjE)
      (simp_all add: vm_exec_def branch_skip [OF assms(1)] skip_words_def is_branching_def exI)
next
  assume "op = OP_NONBASIC" "b \<in> set nonbasic_ops"
  then show ?thesis
    unfolding nonbasic_ops_def
    by (simp, elim disjE)
      (simp_all add: vm_exec_def vm_exec_nonbasic_def nonbasic_skip [OF assms(1)]
        hwq_skip [OF assms(1)] skip_words_def is_branching_def exI)
qed


text \<open>A machine about to skip the two-word instruction \<open>SET A, 5\<close>.\<close>

definition skip_demo :: "unit vm_t" where
  "skip_demo = (vm_create ())\<lparr>skip := True, ram := (\<lambda>_. 0)(0 := 0x7c01, 1 := 5)\<rparr>"

lemma skip_demo_quiet: "quiet skip_demo" "skip skip_demo" "pc skip_demo = 0" "ram skip_demo 0 = 0x7c01"
  by (simp_all add: quiet_def skip_demo_def vm_create_fields no_hook_create)


section \<open>Long instructions\<close>

text \<open>
  An instruction that costs n further cycles keeps the machine asleep for exactly n
  cycles: until then every cycle only counts down, and no instruction, hook or pending
  interrupt is looked at.
\<close>

theorem long_instruction_sleeps:
  assumes "n \<le> unat (sleep_cycles vm)"
  shows "vm_cycles e n vm = Some (vm\<lparr>sleep_cycles := sleep_cycles vm - of_nat n\<rparr>)"
  using assms by (rule sleep_cycles_countdown)

theorem long_instruction_sleeps_witness:
  "3 \<le> unat (sleep_cycles (skip_demo\<lparr>sleep_cycles := 3\<rparr>)) \<and>
   vm_cycles idle_code 3 (skip_demo\<lparr>sleep_cycles := 3\<rparr>) = Some (skip_demo\<lparr>sleep_cycles := 0\<rparr>)"
  using long_instruction_sleeps [of 3 "skip_demo\<lparr>sleep_cycles := 3\<rparr>" idle_code] by simp

section \<open>Subroutines\<close>

lemma resolve_frame [simp]:
  "skip (snd (vm_resolve_value vm v p)) = skip vm" "ram (snd (vm_resolve_value vm v p)) = ram vm"
  "no_hook (snd (vm_resolve_value vm v p)) m = no_hook vm m"
  "registers (snd (vm_resolve_value vm v p)) = registers vm"
  by (simp_all add: resolve_state no_hook_def)

text \<open>
  C33. \<open>JSR\<close> transfers control to its operand, and \<open>SET PC, POP\<close> executed with the same
  stack pointer and an intact return address continues after the \<open>JSR\<close> (after the words of
  its operand), with the stack pointer as it was.
\<close>

theorem jsr_return:
  assumes "\<not> skip vm"
  shows "pc (vm_op_jsr vm a) = fst (vm_resolve_value vm a POS_A) \<and>
    (\<forall>vm2. \<not> skip vm2 \<and> no_hook vm2 HOOK_ON_WRITE \<and> sp vm2 = sp (vm_op_jsr vm a) \<and>
       ram vm2 (sp vm2) = ram (vm_op_jsr vm a) (sp vm2) \<longrightarrow>
       (\<exists>vm3. vm_op_set e vm2 PC_val PUSH_POP = Some vm3 \<and>
          pc vm3 = pc vm + of_bool (takes_word a) \<and> sp vm3 = operand_sp vm a POS_A))"
proof -
  have j: "vm_op_jsr vm a = (OP_NUM_CYCLES 3 (snd (vm_resolve_value vm a POS_A)))
      \<lparr>sp := operand_sp vm a POS_A - 1,
       ram := (ram vm)(operand_sp vm a POS_A - 1 := pc vm + of_bool (takes_word a)),
       pc := fst (vm_resolve_value vm a POS_A)\<rparr>"
    using assms
    by (simp add: vm_op_jsr_def split_def Let_def) (simp add: resolve_state OP_NUM_CYCLES_def)
  have "\<exists>vm3. vm_op_set e vm2 PC_val PUSH_POP = Some vm3 \<and>
      pc vm3 = pc vm + of_bool (takes_word a) \<and> sp vm3 = operand_sp vm a POS_A"
    if "\<not> skip vm2" "no_hook vm2 HOOK_ON_WRITE" "sp vm2 = sp (vm_op_jsr vm a)"
      "ram vm2 (sp vm2) = ram (vm_op_jsr vm a) (sp vm2)" for vm2
    using that j
    by (simp add: vm_op_set_def vm_resolve_value_def vm_internal_get_store_def OP_NUM_CYCLES_def
        word_le_nat_alt)
  then show ?thesis using j by simp
qed

theorem jsr_return_witness:
  "\<not> skip (vm_create ()) \<and> pc (vm_op_jsr (vm_create ()) 0x25) = 4 \<and>
   (\<exists>vm3. vm_op_set idle_code (vm_op_jsr (vm_create ()) 0x25) PC_val PUSH_POP = Some vm3 \<and>
      pc vm3 = 0 \<and> sp vm3 = 0)"
proof -
  let ?v = "vm_op_jsr (vm_create ()) 0x25"
  have r: "fst (vm_resolve_value (vm_create ()) 0x25 POS_A) = 4" "\<not> takes_word 0x25"
    "operand_sp (vm_create ()) 0x25 POS_A = 0"
    by (simp_all add: vm_resolve_value_def takes_word_def operand_sp_def vm_create_fields word_le_nat_alt)
  have v: "\<not> skip ?v" "no_hook ?v HOOK_ON_WRITE"
    using no_hook_create
    by (simp_all add: vm_op_jsr_def split_def Let_def resolve_state vm_create_fields OP_NUM_CYCLES_def)
  show ?thesis
    using jsr_return [OF vm_create_fields(1) [of "()"], where a = "0x25" and e = idle_code] r v by (auto simp: vm_create_fields)
qed

section \<open>The life of an interrupt\<close>

text \<open>
  C6. An interrupt taken by a machine with a handler enters it with the message in A and
  further interrupts queued. When the handler executes \<open>RFI\<close> (with an operand that neither
  takes a word nor touches the stack) with the stack pointer it started with and the two
  stack words intact, the interrupted program gets back its program counter, A and stack
  pointer, and interrupts are delivered again.
\<close>

theorem interrupt_round_trip:
  assumes "vm_wf vm" and "\<not> queue_interrupts vm" and "ia vm \<noteq> 0" and "\<not> skip vm"
    and "no_hook vm HOOK_ON_INTERRUPT"
  shows "\<exists>vm1. vm_interrupt e vm m = Some vm1 \<and> pc vm1 = ia vm \<and> reg_get vm1 REG_A = m \<and>
    queue_interrupts vm1 \<and> vm_wf vm1 \<and>
    (\<forall>vm2 a. vm_wf vm2 \<and> \<not> skip vm2 \<and> sp vm2 = sp vm1 \<and> \<not> takes_word a \<and> a \<noteq> PUSH_POP \<and>
       ram vm2 (sp vm1) = ram vm1 (sp vm1) \<and> ram vm2 (sp vm1 + 1) = ram vm1 (sp vm1 + 1) \<longrightarrow>
       (\<exists>vm3. vm_op_rfi e vm2 a = Some vm3 \<and> pc vm3 = pc vm \<and> sp vm3 = sp vm \<and>
          reg_get vm3 REG_A = reg_get vm REG_A \<and> \<not> queue_interrupts vm3))"
proof (rule exI [of _ "interrupt_entered vm (pc vm) m"], intro conjI allI impI)
  let ?vm1 = "interrupt_entered vm (pc vm) m"
  show "vm_interrupt e vm m = Some ?vm1" using assms by (simp add: interrupt_direct)
  show "pc ?vm1 = ia vm" "queue_interrupts ?vm1" "vm_wf ?vm1" "reg_get ?vm1 REG_A = m"
    using assms(1) by (simp_all add: interrupt_entered_def reg_get_def reg_set_def vm_wf_def)
  fix vm2 :: "'a vm_t" and a
  assume h: "vm_wf vm2 \<and> \<not> skip vm2 \<and> sp vm2 = sp ?vm1 \<and> \<not> takes_word a \<and> a \<noteq> PUSH_POP \<and>
    ram vm2 (sp ?vm1) = ram ?vm1 (sp ?vm1) \<and> ram vm2 (sp ?vm1 + 1) = ram ?vm1 (sp ?vm1 + 1)"
  have s1: "sp ?vm1 = sp vm - 2" "ram ?vm1 (sp vm - 2) = reg_get vm REG_A" "ram ?vm1 (sp vm - 1) = pc vm"
    by (simp_all add: interrupt_entered_def)
  have st: "snd (vm_resolve_value vm2 a POS_A) = vm2"
    using h by (cases vm2) (simp add: resolve_state operand_sp_def)
  show "\<exists>vm3. vm_op_rfi e vm2 a = Some vm3 \<and> pc vm3 = pc vm \<and> sp vm3 = sp vm \<and>
      reg_get vm3 REG_A = reg_get vm REG_A \<and> \<not> queue_interrupts vm3"
    using h s1
    by (simp add: vm_op_rfi_def split_def Let_def st OP_NUM_CYCLES_def reg_get_def reg_set_def vm_wf_def)
qed

definition irq_demo :: "unit vm_t" where
  "irq_demo = (vm_create ())\<lparr>ia := 0x40, pc := 7\<rparr>"

lemma irq_demo_ok: "vm_wf irq_demo" "\<not> queue_interrupts irq_demo" "ia irq_demo \<noteq> 0"
  "\<not> skip irq_demo" "no_hook irq_demo m" "irq_queue irq_demo = []" "pc irq_demo = 7"
  by (simp_all add: irq_demo_def vm_wf_create vm_create_fields no_hook_create irq_queue_def)

theorem interrupt_round_trip_witness:
  "vm_wf irq_demo \<and> \<not> queue_interrupts irq_demo \<and> ia irq_demo \<noteq> 0 \<and> \<not> skip irq_demo \<and>
   no_hook irq_demo HOOK_ON_INTERRUPT \<and>
   (\<exists>vm1 vm3. vm_interrupt idle_code irq_demo 3 = Some vm1 \<and> reg_get vm1 REG_A = 3 \<and>
      pc vm1 = 0x40 \<and> vm_op_rfi idle_code vm1 REG_A = Some vm3 \<and> pc vm3 = 7)"
proof -
  obtain vm1 where v: "vm_interrupt idle_code irq_demo 3 = Some vm1" "pc vm1 = ia irq_demo"
      "reg_get vm1 REG_A = 3" "vm_wf vm1"
    and r: "\<forall>(vm2 :: unit vm_t) a. vm_wf vm2 \<and> \<not> skip vm2 \<and> sp vm2 = sp vm1 \<and> \<not> takes_word a \<and> a \<noteq> PUSH_POP \<and>
       ram vm2 (sp vm1) = ram vm1 (sp vm1) \<and> ram vm2 (sp vm1 + 1) = ram vm1 (sp vm1 + 1) \<longrightarrow>
       (\<exists>vm3. vm_op_rfi idle_code vm2 a = Some vm3 \<and> pc vm3 = pc irq_demo \<and>
          sp vm3 = sp irq_demo \<and> reg_get vm3 REG_A = reg_get irq_demo REG_A \<and> \<not> queue_interrupts vm3)"
    using interrupt_round_trip [OF irq_demo_ok(1-5), of idle_code 3] by blast
  have "\<not> skip vm1"
    using v(1) irq_demo_ok interrupt_direct [OF irq_demo_ok(2-5), of idle_code 3]
    by (auto simp: interrupt_entered_def)
  moreover have "\<not> takes_word REG_A" by code_simp
  ultimately show ?thesis
    using r [rule_format, of vm1 REG_A] v irq_demo_ok by (auto simp: irq_demo_def)
qed

text \<open>
  C31. An interrupt that arrives while the machine is skipping: the search for the end of
  the skipped chain leaves memory, registers and stack as they were, the skip flag is
  cleared, and the program counter saved for the return is the one of the instruction that
  was to be skipped. After the handler returns, that instruction is executed.
\<close>

theorem interrupt_during_skip:
  assumes "\<not> queue_interrupts vm" and "ia vm \<noteq> 0" and "skip vm" and "no_hook vm HOOK_ON_INTERRUPT"
    and "vm_interrupt e vm m = Some vm'"
  shows "\<not> skip vm' \<and> pc vm' = ia vm \<and> sp vm' = sp vm - 2 \<and> ram vm' (sp vm - 1) = pc vm \<and>
    ram vm' (sp vm - 2) = reg_get vm REG_A \<and> registers vm' = (registers vm)[0 := m] \<and>
    (\<forall>x. x \<noteq> sp vm - 1 \<and> x \<noteq> sp vm - 2 \<longrightarrow> ram vm' x = ram vm x)"
proof -
  obtain v where v: "vm_interrupt_skip vm = Some v"
    and vm': "vm_interrupt_enter e (pc vm) m (v\<lparr>skip := False\<rparr>) = Some vm'"
    using assms(1-3,5) by (auto simp: vm_interrupt_def elim!: bind_eq_SomeE)
  obtain p s where "v = vm\<lparr>pc := p, sleep_cycles := s\<rparr>"
    using skip_result [OF v assms(3)] by blast
  then have "v\<lparr>skip := False\<rparr> = vm\<lparr>pc := p, sleep_cycles := s, skip := False\<rparr>" by simp
  with vm' assms(4) have "vm' = interrupt_entered (vm\<lparr>pc := p, sleep_cycles := s, skip := False\<rparr>) (pc vm) m"
    by (simp add: interrupt_enter_eq hook_fire_none)
  then show ?thesis by (simp add: interrupt_entered_def reg_set_def reg_get_def)
qed

text \<open>A skipping machine at address 7, where a one-word \<open>SET A, B\<close> is to be skipped.\<close>

definition irq_skip_demo :: "unit vm_t" where
  "irq_skip_demo = irq_demo\<lparr>skip := True, ram := (\<lambda>_. 0)(7 := 0x401)\<rparr>"

lemma irq_skip_demo_ok: "\<not> queue_interrupts irq_skip_demo" "ia irq_skip_demo \<noteq> 0" "skip irq_skip_demo"
  "no_hook irq_skip_demo m" "pc irq_skip_demo = 7" "ram irq_skip_demo 7 = 0x401"
  using irq_demo_ok by (simp_all add: irq_skip_demo_def no_hook_def)

lemma irq_skip_demo_runs: "\<exists>vm'. vm_interrupt idle_code irq_skip_demo 3 = Some vm'"
proof -
  have "\<not> branching_at (ram irq_skip_demo) 7"
    unfolding branching_at_def irq_skip_demo_ok by code_simp
  then obtain v where v: "vm_interrupt_skip irq_skip_demo = Some v"
    using skip_returns [OF irq_skip_demo_ok(3), of 0] irq_skip_demo_ok by auto
  obtain p s where "v = irq_skip_demo\<lparr>pc := p, sleep_cycles := s\<rparr>"
    using skip_result [OF v irq_skip_demo_ok(3)] by blast
  then have "no_hook v HOOK_ON_INTERRUPT" using irq_skip_demo_ok by simp
  with v irq_skip_demo_ok show ?thesis
    by (simp add: vm_interrupt_def interrupt_enter_eq hook_fire_none)
qed

theorem interrupt_during_skip_witness:
  "\<not> queue_interrupts irq_skip_demo \<and> ia irq_skip_demo \<noteq> 0 \<and> skip irq_skip_demo \<and>
   no_hook irq_skip_demo HOOK_ON_INTERRUPT \<and>
   (\<exists>vm'. vm_interrupt idle_code irq_skip_demo 3 = Some vm' \<and> \<not> skip vm' \<and>
      ram vm' (sp irq_skip_demo - 1) = 7)"
  using irq_skip_demo_runs irq_skip_demo_ok
    interrupt_during_skip [OF irq_skip_demo_ok(1-4), of idle_code 3] by auto

text \<open>
  C30. Taking an interrupt while skipping returns exactly when the chain of instructions to
  be skipped ends, that is, when some instruction reached by passing over conditionals is
  not itself a conditional. A memory full of conditionals makes \<open>vm_interrupt\<close> loop for ever.
\<close>

theorem interrupt_skip_returns_iff:
  assumes "\<not> queue_interrupts vm" and "ia vm \<noteq> 0" and "skip vm" and "no_hook vm HOOK_ON_INTERRUPT"
  shows "vm_interrupt e vm m \<noteq> None \<longleftrightarrow>
    (\<exists>n. \<not> branching_at (ram vm) ((skip_pc (ram vm) ^^ n) (pc vm)))"
proof -
  have "vm_interrupt e vm m \<noteq> None \<longleftrightarrow> vm_interrupt_skip vm \<noteq> None"
  proof (cases "vm_interrupt_skip vm")
    case None
    then show ?thesis using assms by (simp add: vm_interrupt_def)
  next
    case (Some v)
    obtain p s where "v = vm\<lparr>pc := p, sleep_cycles := s\<rparr>"
      using skip_result [OF Some assms(3)] by blast
    then have "no_hook v HOOK_ON_INTERRUPT" using assms(4) by simp
    with Some assms show ?thesis
      by (simp add: vm_interrupt_def interrupt_enter_eq hook_fire_none)
  qed
  with skip_terminates_iff [OF assms(3)] show ?thesis by simp
qed

theorem interrupt_skip_returns_iff_witness:
  "\<not> queue_interrupts irq_skip_demo \<and> ia irq_skip_demo \<noteq> 0 \<and> skip irq_skip_demo \<and>
   no_hook irq_skip_demo HOOK_ON_INTERRUPT \<and>
   (\<exists>n. \<not> branching_at (ram irq_skip_demo) ((skip_pc (ram irq_skip_demo) ^^ n) (pc irq_skip_demo)))"
  using irq_skip_demo_ok irq_skip_demo_runs
    interrupt_skip_returns_iff [OF irq_skip_demo_ok(1-4), of idle_code 3] by simp

section \<open>The interrupt queue\<close>

primrec vm_interrupts :: "'w vm_code \<Rightarrow> u16 list \<Rightarrow> 'w vm_t \<Rightarrow> 'w vm_t option" where
  "vm_interrupts e [] vm = Some vm"
| "vm_interrupts e (m # ms) vm = vm_interrupt e vm m \<bind> vm_interrupts e ms"

lemma interrupts_queued:
  assumes "queue_interrupts vm"
  shows "vm_interrupts e ms vm = Some (enq_all vm_irq_append ms vm)"
  using assms
proof (induction ms arbitrary: vm)
  case Nil
  then show ?case by simp
next
  case (Cons m ms)
  have "queue_interrupts (vm_irq_append vm m)"
    using Cons.prems by (simp add: vm_irq_append_def vm_halt_def)
  with Cons show ?case by (simp add: vm_interrupt_def)
qed



text \<open>
  C32. With 255 interrupts waiting, one more does not overwrite any of them: it is dropped
  and the machine is halted.
\<close>

theorem interrupt_overflow_halts:
  assumes "vm_wf vm" and "queue_interrupts vm" and "length (irq_queue vm) = 255"
  shows "vm_interrupt e vm m = Some (vm\<lparr>halted := True\<rparr>)"
  using assms irq_queue_length [OF assms(1)]
  by (simp add: vm_interrupt_def vm_irq_append_def vm_halt_def)

theorem interrupt_overflow_halts_witness:
  "vm_interrupt idle_code (irq_demo\<lparr>queue_interrupts := True, irq_count := 255\<rparr>) 1 =
     Some (irq_demo\<lparr>queue_interrupts := True, irq_count := 255, halted := True\<rparr>)"
proof -
  let ?v = "irq_demo\<lparr>queue_interrupts := True, irq_count := 255\<rparr>"
  have "vm_wf ?v" using irq_demo_ok(1) by (simp add: vm_wf_def)
  moreover have "length (irq_queue ?v) = 255"
    using vm_wf_lengths(2) [OF irq_demo_ok(1)] by (simp add: irq_queue_def)
  ultimately show ?thesis using interrupt_overflow_halts [of ?v idle_code 1] by simp
qed

end
