(* ===== verification/Vm_Disasm.thy ===== *)
theory Vm_Disasm
  imports Vm_Control
begin

text \<open>
  The disassembler (\<^verbatim>\<open>libdcpu-vm/dcpudis.c\<close>). It borrows the machine: it moves the
  program counter, resolves the operands with \<open>vm_resolve_value\<close> and puts the saved
  registers back. The reads of the extra words use an \<open>int\<close> index, so at the very top of
  memory they leave the RAM array; \<open>None\<close> is that case.
\<close>

section \<open>Formatting\<close>

definition hex_digit :: "nat \<Rightarrow> char" where
  "hex_digit n = (if n < 10 then char_of (48 + n) else char_of (55 + n))"

text \<open>The \<^verbatim>\<open>0x%04X\<close> conversion of a 16-bit value.\<close>

definition hex4 :: "u16 \<Rightarrow> string" where
  "hex4 w = ''0x'' @ [hex_digit (unat w div 4096 mod 16), hex_digit (unat w div 256 mod 16),
     hex_digit (unat w div 16 mod 16), hex_digit (unat w mod 16)]"

section \<open>The disassembler\<close>

record inst =
  original_full :: u16
  original_op :: u8
  original_a :: u8
  original_b :: u8
  pretty_op :: "string option"
  pretty_a :: "string option"
  pretty_b :: "string option"
  inst_op :: u8
  inst_a :: u16
  inst_b :: u16
  inst_size :: u16
  inst_extra :: "u16 \<times> u16"
  inst_next :: "u16 \<times> u16"
  inst_used :: "bool \<times> bool"

text \<open>\<open>vm->ram[pos + k]\<close> with the index computed as an \<open>int\<close>.\<close>

definition ram_at :: "'w vm_t \<Rightarrow> nat \<Rightarrow> u16 option" where
  "ram_at vm i = (if i < 0x10000 then Some (ram vm (of_nat i)) else None)"

text \<open>The text of an operand; \<open>stack_name\<close> is POP for operand a and PUSH for operand b.\<close>

definition pretty_operand :: "string \<Rightarrow> u16 \<Rightarrow> u16 \<Rightarrow> string option" where
  "pretty_operand stack_name v nxt =
     (let regmap = get_register_by_value v in
      if REG_A \<le> v \<and> v \<le> REG_J then map_option rm_name regmap
      else if VAL_A \<le> v \<and> v \<le> VAL_J then map_option (\<lambda>m. ''['' @ rm_name m @ '']'') regmap
      else if NXT_VAL_A \<le> v \<and> v \<le> NXT_VAL_J
        then map_option (\<lambda>m. ''['' @ rm_name m @ ''+'' @ hex4 nxt @ '']'') regmap
      else if v = PUSH_POP then Some stack_name
      else if v = PEEK then Some ''[SP]''
      else if v = PICK then Some (''[SP+'' @ hex4 nxt @ '']'')
      else if SP_val \<le> v \<and> v \<le> EX_val then map_option rm_name regmap
      else if v = NXT then Some (''['' @ hex4 nxt @ '']'')
      else if v = NXT_LIT then Some (hex4 nxt)
      else if 0x20 \<le> v \<and> v \<le> 0x3f then Some (hex4 (v - 0x21))
      else Some ''???'')"

definition operand_extra :: "u16 \<Rightarrow> bool" where
  "operand_extra v \<longleftrightarrow> v = NXT \<or> v = NXT_LIT \<or> v = PICK \<or> (NXT_VAL_A \<le> v \<and> v \<le> NXT_VAL_J)"

text \<open>Which extra word belongs to which operand: \<open>next\<close> and \<open>used\<close>.\<close>

definition vm_disassemble_next ::
    "nat \<Rightarrow> u16 \<Rightarrow> u16 \<Rightarrow> u16 \<Rightarrow> u16 \<Rightarrow> u16 \<times> u16 \<times> bool \<times> bool" where
  "vm_disassemble_next extra_words a b e0 e1 =
     (if extra_words \<ge> 2 then (e0, e1, True, True)
      else if extra_words \<ge> 1 \<and> operand_extra a then (e0, 0, True, False)
      else if extra_words \<ge> 1 \<and> operand_extra b then (0, e0, False, True)
      else (0, 0, False, False))"

definition vm_disassemble_resolve ::
    "'w vm_t \<Rightarrow> u16 \<Rightarrow> u16 \<Rightarrow> u16 \<Rightarrow> u16 \<times> u16 \<times> u16 \<times> 'w vm_t" where
  "vm_disassemble_resolve vm op b a =
     (if op = OP_NONBASIC
      then (let (va, vm) = vm_resolve_value vm a POS_A in (b, va, 0, vm))
      else (let (va, vm) = vm_resolve_value vm a POS_A;
                (vb, vm) = vm_resolve_value vm b POS_B in (op, va, vb, vm)))"

text \<open>
  The condition on the b text compares the string pointer with the opcode constant 0; the
  pointer has just been set, so the text of b is filled in for every known instruction.
\<close>

definition vm_disassemble :: "'w vm_t \<Rightarrow> u16 \<Rightarrow> bool \<Rightarrow> (inst \<times> 'w vm_t) option" where
  "vm_disassemble vm pos pretty = do {
     let pc_store = pc vm;
     let sp_store = sp vm;
     let debug_store = debug vm;
     let vm = vm\<lparr>pc := pos, debug := False\<rparr>;
     let full = ram vm (pc vm);
     let vm = vm\<lparr>pc := pc vm + 1\<rparr>;
     let op = INSTRUCTION_GET_OP full;
     let a = INSTRUCTION_GET_A full;
     let b = INSTRUCTION_GET_B full;
     let (r_op, r_a, r_b, vm) = vm_disassemble_resolve vm op b a;
     let size = pc vm - pos;
     let extra_words = unat size - 1;
     e0 \<leftarrow> (if extra_words \<ge> 1 then ram_at vm (unat pos + 1) else Some 0);
     e1 \<leftarrow> (if extra_words \<ge> 2 then ram_at vm (unat pos + 2) else Some 0);
     let (n0, n1, u0, u1) = vm_disassemble_next extra_words a b e0 e1;
     (p_op, p_a, p_b) \<leftarrow>
       (case get_instruction_by_value op b of
          Some instmap \<Rightarrow>
            if pretty then do {
              ta \<leftarrow> pretty_operand ''POP'' a n0;
              tb \<leftarrow> pretty_operand ''PUSH'' b n1;
              Some (Some (im_name instmap), Some ta, Some tb)
            } else Some (None, None, None)
        | None \<Rightarrow> Some (None, None, None));
     Some (\<lparr>original_full = full, original_op = ucast op, original_a = ucast a, original_b = ucast b,
            pretty_op = p_op, pretty_a = p_a, pretty_b = p_b,
            inst_op = ucast r_op, inst_a = r_a, inst_b = r_b, inst_size = size,
            inst_extra = (e0, e1), inst_next = (n0, n1), inst_used = (u0, u1)\<rparr>,
           vm\<lparr>pc := pc_store, sp := sp_store, debug := debug_store\<rparr>)
   }"

section \<open>What it does to the machine and how it measures instructions\<close>

text \<open>Number of extra words the disassembler reads for an instruction word.\<close>

definition dis_extra :: "u16 \<Rightarrow> nat" where
  "dis_extra w = of_bool (takes_word (INSTRUCTION_GET_A w)) +
     (if INSTRUCTION_GET_OP w = OP_NONBASIC then 0 else of_bool (takes_word (INSTRUCTION_GET_B w)))"

lemma takes_word_split:
  "(of_bool (takes_word v) :: u16) = of_bool (store_takes_word v) + of_bool (v = NXT_LIT)"
  by (simp add: store_takes_word_def) (simp add: takes_word_def)

lemma operand_extra_takes: "operand_extra v = takes_word v"
  by (auto simp: operand_extra_def takes_word_def)

text \<open>Every operand code has a text.\<close>

lemma pretty_operand_defined: "v \<le> 0x3f \<Longrightarrow> \<exists>t. pretty_operand s v n = Some t"
proof -
  have all: "list_all (\<lambda>i. get_register_by_value (word_of_nat i) \<noteq> None) ([0..<24] @ [27, 28, 29])"
    by code_simp
  have some: "\<exists>m. get_register_by_value v = Some m" if "unat v \<in> set ([0..<24] @ [27, 28, 29])"
  proof -
    have "get_register_by_value (word_of_nat (unat v)) \<noteq> None"
      using all that unfolding list_all_iff by blast
    then show ?thesis by simp
  qed
  show ?thesis
    using some by (force simp: pretty_operand_def Let_def word_le_nat_alt)
qed

lemma dis_extra_le: "dis_extra w \<le> 2"
  by (simp add: dis_extra_def)

lemma dis_size: "unat (1 + of_nat (dis_extra w) :: u16) = 1 + dis_extra w"
  using dis_extra_le [of w] by (simp add: unat_word_ariths unat_of_nat_u16)

lemma resolve_both:
  assumes "w = ram vm pos"
    and "vm_disassemble_resolve (vm\<lparr>debug := False, pc := pos + 1\<rparr>) (INSTRUCTION_GET_OP w)
      (INSTRUCTION_GET_B w) (INSTRUCTION_GET_A w) = (r_op, r_a, r_b, vm2)"
  shows "pc vm2 = pos + (1 + of_nat (dis_extra w))" "ram vm2 = ram vm"
    "vm2\<lparr>pc := pc vm, sp := sp vm, debug := debug vm\<rparr> =
       vm\<lparr>sleep_cycles := sleep_cycles vm + of_nat (dis_extra w)\<rparr>"
proof -
  have v: "vm2 = snd (snd (snd (vm_disassemble_resolve (vm\<lparr>debug := False, pc := pos + 1\<rparr>)
      (INSTRUCTION_GET_OP w) (INSTRUCTION_GET_B w) (INSTRUCTION_GET_A w))))"
    using assms(2) by simp
  show "pc vm2 = pos + (1 + of_nat (dis_extra w))" "ram vm2 = ram vm"
    "vm2\<lparr>pc := pc vm, sp := sp vm, debug := debug vm\<rparr> =
       vm\<lparr>sleep_cycles := sleep_cycles vm + of_nat (dis_extra w)\<rparr>"
    unfolding v
    by (simp_all add: vm_disassemble_resolve_def split_def Let_def resolve_state dis_extra_def add.assoc)
qed

lemma disassemble_result:
  assumes "unat pos + dis_extra (ram vm pos) < 0x10000"
  shows "\<exists>i. vm_disassemble vm pos pretty =
      Some (i, vm\<lparr>sleep_cycles := sleep_cycles vm + of_nat (dis_extra (ram vm pos))\<rparr>) \<and>
    original_full i = ram vm pos \<and> unat (inst_size i) = 1 + dis_extra (ram vm pos) \<and>
    pretty_op i = (if pretty then map_option im_name (get_instruction_by_value
      (INSTRUCTION_GET_OP (ram vm pos)) (INSTRUCTION_GET_B (ram vm pos))) else None) \<and>
    original_a i = ucast (INSTRUCTION_GET_A (ram vm pos)) \<and> original_b i = ucast (INSTRUCTION_GET_B (ram vm pos)) \<and>
    (\<exists>u. vm_disassemble_next (dis_extra (ram vm pos)) (INSTRUCTION_GET_A (ram vm pos)) (INSTRUCTION_GET_B (ram vm pos))
       (if dis_extra (ram vm pos) \<ge> 1 then ram vm (pos + 1) else 0)
       (if dis_extra (ram vm pos) \<ge> 2 then ram vm (pos + 2) else 0) = (fst (inst_next i), snd (inst_next i), u))"
proof -
  let ?w = "ram vm pos"
  let ?op = "INSTRUCTION_GET_OP ?w" and ?b = "INSTRUCTION_GET_B ?w" and ?a = "INSTRUCTION_GET_A ?w"
  obtain r_op r_a r_b vm2 where r: "vm_disassemble_resolve (vm\<lparr>debug := False, pc := pos + 1\<rparr>) ?op ?b ?a
      = (r_op, r_a, r_b, vm2)" by (metis prod_cases4)
  note f = resolve_both [OF refl r]
  have rd: "ram_at vm2 (unat pos + k) = Some (ram vm (pos + of_nat k))" if "k \<le> dis_extra ?w" for k
    using that assms f(2) by (simp add: ram_at_def)
  have pr: "\<exists>t. pretty_operand s v n = Some t" if "v = ?a \<or> v = ?b" for s v n
    using that decode_ranges [of ?w] by (intro pretty_operand_defined) (auto simp: word_le_nat_alt)
  let ?e0 = "if dis_extra ?w \<ge> 1 then ram vm (pos + 1) else 0" and ?e1 = "if dis_extra ?w \<ge> 2 then ram vm (pos + 2) else 0"
  have e0: "(if dis_extra ?w \<ge> 1 then ram_at vm2 (unat pos + 1) else Some 0) = Some ?e0"
    using rd [of 1] by (simp del: One_nat_def)
  have e1: "(if dis_extra ?w \<ge> 2 then ram_at vm2 (unat pos + 2) else Some 0) = Some ?e1"
    using rd [of 2] by simp
  have sz: "unat (1 + of_nat (dis_extra ?w) :: u16) - 1 = dis_extra ?w" by (simp add: dis_size)
  obtain n0 n1 u0 u1 where n: "vm_disassemble_next (dis_extra ?w) ?a ?b ?e0 ?e1 = (n0, n1, u0, u1)"
    by (metis prod_cases4)
  obtain ta tb where t: "pretty_operand ''POP'' ?a n0 = Some ta" "pretty_operand ''PUSH'' ?b n1 = Some tb"
    using pr by metis
  show ?thesis
    unfolding vm_disassemble_def Let_def
    by (simp add: r f sz e0 e1 n t dis_size del: One_nat_def split: option.split)
qed

text \<open>Every instruction the machine can pass over has an entry in the name table.\<close>

lemma known_instruction:
  assumes "skippable op b"
  shows "\<exists>m. get_instruction_by_value op b = Some m"
proof -
  let ?ifs = "[OP_IFB, OP_IFC, OP_IFE, OP_IFN, OP_IFG, OP_IFA, OP_IFL, OP_IFU]"
  have basic: "list_all (\<lambda>p. p \<noteq> 0 \<and> get_instruction_by_value p 0 \<noteq> None) (basic_ops @ ?ifs)"
    and nonbasic: "list_all (\<lambda>b. get_instruction_by_value 0 b \<noteq> None) nonbasic_ops"
    by code_simp+
  consider "op \<in> set (basic_ops @ ?ifs)" | "op = OP_NONBASIC" "b \<in> set nonbasic_ops"
    using assms unfolding skippable_def is_branching_def by auto
  then have "get_instruction_by_value op b \<noteq> None"
  proof cases
    case 1
    then have "op \<noteq> 0" "get_instruction_by_value op 0 \<noteq> None"
      using basic unfolding list_all_iff by blast+
    then show ?thesis by (simp add: get_instruction_by_value_def)
  next
    case 2
    then show ?thesis using nonbasic unfolding list_all_iff by blast
  qed
  then show ?thesis by blast
qed

text \<open>
  C28. Disassembling any instruction that does not run over the end of memory succeeds and
  leaves the machine as it was, registers, stack pointer, memory, devices and debug flag
  included, except that the cycles an execution would spend on the operand words are added
  to the machine's pending sleep cycles. The size it reports is one plus the number of
  operand words.
\<close>

theorem disassemble_restores:
  assumes "unat pos + dis_extra (ram vm pos) < 0x10000"
  shows "\<exists>i. vm_disassemble vm pos pretty =
      Some (i, vm\<lparr>sleep_cycles := sleep_cycles vm + of_nat (dis_extra (ram vm pos))\<rparr>) \<and>
    original_full i = ram vm pos \<and> unat (inst_size i) = 1 + dis_extra (ram vm pos)"
  using disassemble_result [OF assms] by blast

theorem disassemble_restores_witness:
  "\<exists>i. vm_disassemble skip_demo 0 True = Some (i, skip_demo\<lparr>sleep_cycles := 1\<rparr>) \<and>
     original_full i = 0x7c01 \<and> unat (inst_size i) = 2"
proof -
  have d: "dis_extra 0x7c01 = 1" by code_simp
  have "sleep_cycles skip_demo = 0" by (simp add: skip_demo_def vm_create_fields)
  then show ?thesis
    using disassemble_restores [of 0 skip_demo True] d skip_demo_quiet by (simp add: numeral_2_eq_2)
qed



text \<open>
  The mnemonic the disassembler prints, looked up in the assembler's instruction table,
  gives back the opcode that was disassembled (for a non-basic instruction, its non-basic
  opcode).
\<close>

theorem disassemble_mnemonic_reassembles:
  assumes "unat pos + dis_extra (ram vm pos) < 0x10000" and "w = ram vm pos"
    and "skippable (INSTRUCTION_GET_OP w) (INSTRUCTION_GET_B w)"
  shows "\<exists>i vm' nm m. vm_disassemble vm pos True = Some (i, vm') \<and> pretty_op i = Some nm \<and>
    get_instruction_by_name nm = Some m \<and> im_opcode m = INSTRUCTION_GET_OP w \<and>
    (im_opcode m = OP_NONBASIC \<longrightarrow> im_nbopcode m = INSTRUCTION_GET_B w)"
proof -
  let ?op = "INSTRUCTION_GET_OP w" and ?b = "INSTRUCTION_GET_B w"
  obtain m where m: "get_instruction_by_value ?op ?b = Some m"
    using known_instruction [OF assms(3)] by blast
  then have mem: "m \<in> set instruction_name_map" and op: "im_opcode m = ?op"
      "im_opcode m = OP_NONBASIC \<longrightarrow> im_nbopcode m = ?b"
    by (auto simp: get_instruction_by_value_def find_Some_iff)
  obtain i vm' where i: "vm_disassemble vm pos True = Some (i, vm')" "pretty_op i = Some (im_name m)"
    using disassemble_result [OF assms(1), of True] assms(2) m by auto
  have "get_instruction_by_name (im_name m) = Some m"
    using instruction_lookup mem by blast
  with i op show ?thesis by blast
qed

theorem disassemble_mnemonic_reassembles_witness:
  "\<exists>i vm' nm m. vm_disassemble skip_demo 0 True = Some (i, vm') \<and> pretty_op i = Some nm \<and>
     get_instruction_by_name nm = Some m \<and> im_opcode m = OP_SET"
proof -
  have d: "dis_extra 0x7c01 = 1" "INSTRUCTION_GET_OP 0x7c01 = OP_SET" "INSTRUCTION_GET_B 0x7c01 = REG_A"
    "skippable OP_SET REG_A" by code_simp+
  show ?thesis
    using disassemble_mnemonic_reassembles [of 0 skip_demo, OF _ refl] d skip_demo_quiet by simp blast
qed

end
