(* ===== verification/Iio.thy ===== *)
theory Iio
  imports Prelude
begin

text \<open>
  Reading and writing 16-bit words in a chosen byte order (\<^verbatim>\<open>libdcpu/iio.c\<close>), over a
  model of the C stream operations it uses: a file is its bytes and a position.

  The byte order of the host is a parameter. A read at the end of the file leaves the
  destination as it was; a read that finds half a word leaves it indeterminate, which is
  \<open>None\<close>.
\<close>

section \<open>Streams\<close>

record cfile =
  fcontent :: "u8 list"
  fpos :: nat

definition fseek_set :: "cfile \<Rightarrow> nat \<Rightarrow> cfile" where
  "fseek_set f n = f\<lparr>fpos := n\<rparr>"

text \<open>Writing at the position; a gap behind the end is filled with zero bytes.\<close>

definition fwrite_bytes :: "u8 list \<Rightarrow> cfile \<Rightarrow> cfile" where
  "fwrite_bytes bs f =
     (let c = fcontent f; p = fpos f
      in f\<lparr>fcontent := take p c @ replicate (p - length c) 0 @ bs @ drop (p + length bs) c,
          fpos := p + length bs\<rparr>)"

text \<open>
  Reading one element of two bytes: the bytes when both are there, nothing at the end of
  the file. With one byte left the element is partially read.
\<close>

datatype read2 = Read2 u8 u8 | AtEnd | Partial

definition fread_2 :: "cfile \<Rightarrow> read2 \<times> cfile" where
  "fread_2 f =
     (case drop (fpos f) (fcontent f) of
        [] \<Rightarrow> (AtEnd, f)
      | [x] \<Rightarrow> (Partial, f\<lparr>fpos := fpos f + 1\<rparr>)
      | x # y # _ \<Rightarrow> (Read2 x y, f\<lparr>fpos := fpos f + 2\<rparr>))"

section \<open>Byte order\<close>

abbreviation (input) IMODE_UNKNOWN :: int where "IMODE_UNKNOWN \<equiv> 0"
abbreviation (input) IMODE_LITTLE :: int where "IMODE_LITTLE \<equiv> 1"
abbreviation (input) IMODE_BIG :: int where "IMODE_BIG \<equiv> 2"

record iio_state =
  icpumode :: int
  iwritemode :: int

definition iio_initial :: iio_state where
  "iio_initial = \<lparr>icpumode = IMODE_UNKNOWN, iwritemode = IMODE_BIG\<rparr>"

text \<open>The bytes of a \<open>uint16_t\<close> in memory, on a big-endian or a little-endian host.\<close>

definition host_bytes :: "bool \<Rightarrow> u16 \<Rightarrow> u8 \<times> u8" where
  "host_bytes big w =
     (if big then (ucast (drop_bit 8 w), ucast w) else (ucast w, ucast (drop_bit 8 w)))"

definition host_word :: "bool \<Rightarrow> u8 \<Rightarrow> u8 \<Rightarrow> u16" where
  "host_word big x y =
     (if big then push_bit 8 (ucast x) + ucast y else push_bit 8 (ucast y) + ucast x)"

definition icpudetect :: "bool \<Rightarrow> iio_state \<Rightarrow> iio_state" where
  "icpudetect big st =
     (if icpumode st \<noteq> IMODE_UNKNOWN then st
      else if fst (host_bytes big 0x7C01) = 0x7C then st\<lparr>icpumode := IMODE_BIG\<rparr>
      else st\<lparr>icpumode := IMODE_LITTLE\<rparr>)"

text \<open>The assertion on the mode is \<open>None\<close> when it fails.\<close>

definition isetmode :: "int \<Rightarrow> iio_state \<Rightarrow> iio_state option" where
  "isetmode mode st = (if mode \<noteq> IMODE_UNKNOWN then Some (st\<lparr>iwritemode := mode\<rparr>) else None)"

definition iflip :: "u16 \<Rightarrow> u16" where
  "iflip s =
     (let c1 = s AND 255; c2 = drop_bit 8 s AND 255 in push_bit 8 c1 + c2)"

definition iwrite :: "bool \<Rightarrow> iio_state \<Rightarrow> u16 \<Rightarrow> cfile \<Rightarrow> iio_state \<times> cfile" where
  "iwrite big st src out =
     (let st = icpudetect big st;
          inst = (if icpumode st \<noteq> iwritemode st then iflip src else src);
          (x, y) = host_bytes big inst
      in (st, fwrite_bytes [x, y] out))"

definition iread :: "bool \<Rightarrow> iio_state \<Rightarrow> u16 \<Rightarrow> cfile \<Rightarrow> (nat \<times> u16 \<times> iio_state \<times> cfile) option" where
  "iread big st dest f =
     (let st = icpudetect big st in
      case fread_2 f of
        (Partial, _) \<Rightarrow> None
      | (AtEnd, f) \<Rightarrow>
          Some (0, if icpumode st \<noteq> iwritemode st then iflip dest else dest, st, f)
      | (Read2 x y, f) \<Rightarrow>
          (let dest = host_word big x y
           in Some (1, if icpumode st \<noteq> iwritemode st then iflip dest else dest, st, f)))"

section \<open>Correctness\<close>

definition iio_ok :: "bool \<Rightarrow> iio_state \<Rightarrow> bool" where
  "iio_ok big st \<longleftrightarrow> icpumode st \<in> {IMODE_UNKNOWN, if big then IMODE_BIG else IMODE_LITTLE} \<and>
     iwritemode st \<in> {IMODE_BIG, IMODE_LITTLE}"

lemma iio_initial_ok: "iio_ok big iio_initial"
  by (simp add: iio_ok_def iio_initial_def)

lemma detect_mode:
  assumes "iio_ok big st"
  shows "icpudetect big st = st\<lparr>icpumode := if big then IMODE_BIG else IMODE_LITTLE\<rparr>"
proof -
  have "fst (host_bytes True 0x7C01) = 0x7C" "fst (host_bytes False 0x7C01) \<noteq> 0x7C" by code_simp+
  with assms show ?thesis by (cases st; cases big) (auto simp: icpudetect_def iio_ok_def)
qed

lemma unat_ucast_u8: "unat (ucast (w :: u16) :: u8) = unat w mod 256"
  by (simp add: unsigned_ucast_eq take_bit_eq_mod)

lemma unat_ucast_u16: "unat (ucast (x :: u8) :: u16) = unat x"
  using unsigned_less [of x, where ?'a = nat] by (simp add: unsigned_ucast_eq take_bit_eq_mod)

lemma unat_bytes_word: "unat (push_bit 8 (ucast (x :: u8)) + ucast (y :: u8) :: u16) = unat x * 256 + unat y"
proof -
  have "unat x < 256" "unat y < 256" using unsigned_less [of x, where ?'a = nat] unsigned_less [of y, where ?'a = nat] by simp_all
  then show ?thesis
    by (simp add: push_bit_eq_mult unat_word_ariths unat_ucast_u16)
qed

lemma unat_iflip: "unat (iflip w) = unat w mod 256 * 256 + unat w div 256"
proof -
  have a: "unat (w AND 255) = unat w mod 256" using unat_and_mask [of w 8] by (simp add: mask_eq_exp_minus_1)
  have b: "unat (drop_bit 8 w AND 255) = unat w div 256"
    using unat_and_mask [of "drop_bit 8 w" 8] unat_less_65536 [of w]
    by (simp add: mask_eq_exp_minus_1 unat_drop_bit less_mult_imp_div_less)
  have "unat w mod 256 < 256" "unat w div 256 < 256"
    using unat_less_65536 [of w] by (simp_all add: less_mult_imp_div_less)
  then show ?thesis
    by (simp add: iflip_def Let_def push_bit_eq_mult unat_word_ariths a b)
qed

lemma iflip_bytes:
  "(ucast (iflip w) :: u8) = ucast (drop_bit 8 w)" "(ucast (drop_bit 8 (iflip w)) :: u8) = ucast w"
proof -
  have d: "unat w div 256 < 256" using unat_less_65536 [of w] by (simp add: less_mult_imp_div_less)
  show "(ucast (iflip w) :: u8) = ucast (drop_bit 8 w)" "(ucast (drop_bit 8 (iflip w)) :: u8) = ucast w"
    using d by (simp_all add: word_unat_eq_iff unat_ucast_u8 unat_drop_bit unat_iflip)
qed

lemma word_of_bytes: "push_bit 8 (ucast (ucast (drop_bit 8 w) :: u8)) + ucast (ucast w :: u8) = (w :: u16)"
proof -
  have d: "unat w div 256 < 256" using unat_less_65536 [of w] by (simp add: less_mult_imp_div_less)
  then show ?thesis
    unfolding word_unat_eq_iff unat_bytes_word by (simp add: unat_ucast_u8 unat_drop_bit)
qed

lemma iflip_iflip [simp]: "iflip (iflip w) = w"
proof -
  have d: "unat w div 256 < 256" using unat_less_65536 [of w] by (simp add: less_mult_imp_div_less)
  then show ?thesis by (simp add: word_unat_eq_iff unat_iflip)
qed

lemma host_round_trip: "host_bytes big w = (x, y) \<Longrightarrow> host_word big x y = w"
  by (auto simp: host_bytes_def host_word_def word_of_bytes split: if_splits)

text \<open>The bytes of a word in a file: high byte first in big-endian mode.\<close>

definition file_bytes :: "int \<Rightarrow> u16 \<Rightarrow> u8 list" where
  "file_bytes mode w =
     (if mode = IMODE_BIG then [ucast (drop_bit 8 w), ucast w] else [ucast w, ucast (drop_bit 8 w)])"

lemma iwrite_eq:
  assumes "iio_ok big st"
  shows "iwrite big st w f = (icpudetect big st, fwrite_bytes (file_bytes (iwritemode st) w) f)"
  using assms
  by (auto simp: iwrite_def Let_def split_def detect_mode [OF assms] file_bytes_def host_bytes_def
      iflip_bytes iio_ok_def)

lemma iread_eq:
  assumes "iio_ok big st" and "drop (fpos f) (fcontent f) = file_bytes (iwritemode st) w @ rest"
  shows "iread big st d f = Some (1, w, icpudetect big st, f\<lparr>fpos := fpos f + 2\<rparr>)"
proof -
  have m: "iwritemode st = 1 \<or> iwritemode st = 2" using assms(1) by (auto simp: iio_ok_def)
  have fl: "push_bit 8 (ucast (ucast w :: u8)) + ucast (ucast (drop_bit 8 w) :: u8) = iflip w"
    using word_of_bytes [of "iflip w"] by (simp add: iflip_bytes)
  show ?thesis
    using assms m
    by (auto simp: iread_def Let_def fread_2_def detect_mode file_bytes_def host_word_def
        word_of_bytes fl split: if_splits)
qed

text \<open>
  C40. What \<open>iwrite\<close> stores depends on the chosen byte order and not on the machine it runs
  on, and \<open>iread\<close> at the same position on any machine with the same mode gives the word
  back, whatever was in the file before.
\<close>

theorem iio_round_trip:
  assumes "iio_ok big st" and "iio_ok big' st'" and "iwritemode st' = iwritemode st"
    and "iwrite big st w f = (st2, f2)"
  shows "fcontent f2 = take (fpos f) (fcontent f) @ replicate (fpos f - length (fcontent f)) 0 @
      file_bytes (iwritemode st) w @ drop (fpos f + 2) (fcontent f) \<and>
    iread big' st' d (fseek_set f2 (fpos f)) = Some (1, w, icpudetect big' st', f2)"
proof -
  have len: "length (file_bytes m w) = 2" for m by (simp add: file_bytes_def)
  have f2: "f2 = fwrite_bytes (file_bytes (iwritemode st) w) f"
    using assms(4) iwrite_eq [OF assms(1)] by simp
  then have c: "fcontent f2 = take (fpos f) (fcontent f) @ replicate (fpos f - length (fcontent f)) 0 @
      file_bytes (iwritemode st) w @ drop (fpos f + 2) (fcontent f)"
    and p: "fpos f2 = fpos f + 2"
    by (simp_all add: fwrite_bytes_def Let_def len)
  have "drop (fpos f) (fcontent f2) = file_bytes (iwritemode st) w @ drop (fpos f + 2) (fcontent f)"
    unfolding c by (cases "fpos f \<le> length (fcontent f)") simp_all
  with assms(3) have "iread big' st' d (fseek_set f2 (fpos f)) = Some (1, w, icpudetect big' st', f2)"
    using iread_eq [OF assms(2), of "fseek_set f2 (fpos f)" w] p by (simp add: fseek_set_def)
  with c show ?thesis by simp
qed

theorem iio_round_trip_witness:
  "iio_ok False iio_initial \<and> iio_ok True iio_initial \<and>
   fcontent (snd (iwrite False iio_initial 0x7c01 \<lparr>fcontent = [], fpos = 0\<rparr>)) = [0x7c, 1] \<and>
   iread True iio_initial 0 (fseek_set (snd (iwrite False iio_initial 0x7c01 \<lparr>fcontent = [], fpos = 0\<rparr>)) 0)
     = Some (1, 0x7c01, icpudetect True iio_initial,
         snd (iwrite False iio_initial 0x7c01 \<lparr>fcontent = [], fpos = 0\<rparr>))"
proof -
  have b: "file_bytes IMODE_BIG 0x7c01 = [0x7c, 1]" by code_simp
  show ?thesis
    using iio_round_trip [OF iio_initial_ok [of False] iio_initial_ok [of True] refl,
        where w = "0x7c01" and f = "\<lparr>fcontent = [], fpos = 0\<rparr>" and d = "0",
        OF prod.collapse [symmetric]] b
    by (simp add: iio_initial_ok) (simp add: iio_initial_def)
qed

end
