(* ===== verification/Hw_World.thy ===== *)
theory Hw_World
  imports Vm_Cycle Iio
begin

text \<open>
  The memory the in-tree hardware devices own: one structure per device instance, found
  through the userdata pointer of its hooks and of its entry in the hardware table. A
  pointer that does not lead to a structure of the expected type makes the operation that
  follows it undefined (\<open>None\<close>).

  Left out of the structures are the machine pointer (there is one machine), the copy of
  the hardware description (it is the entry of the machine's hardware table) and the
  graphics handles, which only the graphics library reads.
\<close>

section \<open>Device structures\<close>

record clock_hardware =
  clk_hook_id :: u16
  clk_hw_id :: u16
  cycles_per_tick :: u32
  clock_ticks :: u16
  clock_cycles :: u32
  clk_message :: u16

record keyboard_hardware =
  kb_hw_id :: u16
  kb_buffer :: "u16 list"
  buffer_idx_r :: u16
  buffer_idx_w :: u16
  pressed :: "bool list"
  control_left :: bool
  control_right :: bool
  shift_left :: bool
  shift_right :: bool
  kb_cycle_id :: u16
  pending_interrupt :: bool
  interrupt_message :: u16
  lowercase :: bool

record m35fd_hardware =
  fd_hw_hook :: u16
  fd_hw_id :: u16
  fd_interrupt_msg :: u16
  fd_state :: u16
  last_error :: u16
  disk :: "cfile option"
  fd_sector :: u16
  fd_position :: u16
  reading :: bool
  writing :: bool
  write_protected :: bool

record lem1802_hardware =
  lem_cycle_hook :: u16
  lem_write_hook :: u16
  lem_break_hook :: u16
  lem_hw_id :: u16
  palette_location :: u16
  font_location :: u16
  screen_location :: u16
  border_color :: u16
  border_was_updated :: bool
  screen_was_updated :: bool
  blink_status :: u16
  blink_tick :: u32
  glfw_texture :: "u8 list"
  texture_has_changed :: bool
  lem_window_closed :: bool

datatype device =
    DClock clock_hardware
  | DKeyboard keyboard_hardware
  | DM35fd m35fd_hardware
  | DLem lem1802_hardware

text \<open>
  Besides the heap: the keyboard the window callbacks feed, the state of the word reader,
  the byte order and the files of the host, and the two font globals of the display, with
  what the image library returns for the embedded font.
\<close>

record hw_world =
  hw_heap :: "ptr \<Rightarrow> device option"
  next_ptr :: ptr
  g_hw :: ptr
  iio :: iio_state
  host_big :: bool
  files :: "string \<Rightarrow> u8 list option"
  font_image :: "u8 list option"
  font_default :: "u16 list"
  embedded_font :: "u8 list option"

type_synonym dvm = "hw_world vm_t"
type_synonym dcode = "hw_world vm_code"

section \<open>Following and allocating pointers\<close>

definition dev_get :: "dvm \<Rightarrow> ptr \<Rightarrow> device option" where
  "dev_get vm p = hw_heap (world vm) p"

definition dev_put :: "dvm \<Rightarrow> ptr \<Rightarrow> device \<Rightarrow> dvm" where
  "dev_put vm p d = vm\<lparr>world := (world vm)\<lparr>hw_heap := (hw_heap (world vm))(p := Some d)\<rparr>\<rparr>"

definition dev_free :: "dvm \<Rightarrow> ptr \<Rightarrow> dvm" where
  "dev_free vm p = vm\<lparr>world := (world vm)\<lparr>hw_heap := (hw_heap (world vm))(p := None)\<rparr>\<rparr>"

definition dev_alloc :: "dvm \<Rightarrow> device \<Rightarrow> ptr \<times> dvm" where
  "dev_alloc vm d =
     (let p = next_ptr (world vm)
      in (p, dev_put (vm\<lparr>world := (world vm)\<lparr>next_ptr := Suc p\<rparr>\<rparr>) p d))"

definition get_clock :: "dvm \<Rightarrow> ptr \<Rightarrow> clock_hardware option" where
  "get_clock vm p = (case dev_get vm p of Some (DClock h) \<Rightarrow> Some h | _ \<Rightarrow> None)"

definition get_keyboard :: "dvm \<Rightarrow> ptr \<Rightarrow> keyboard_hardware option" where
  "get_keyboard vm p = (case dev_get vm p of Some (DKeyboard h) \<Rightarrow> Some h | _ \<Rightarrow> None)"

definition get_m35fd :: "dvm \<Rightarrow> ptr \<Rightarrow> m35fd_hardware option" where
  "get_m35fd vm p = (case dev_get vm p of Some (DM35fd h) \<Rightarrow> Some h | _ \<Rightarrow> None)"

definition get_lem :: "dvm \<Rightarrow> ptr \<Rightarrow> lem1802_hardware option" where
  "get_lem vm p = (case dev_get vm p of Some (DLem h) \<Rightarrow> Some h | _ \<Rightarrow> None)"

text \<open>The addresses of the callback functions.\<close>

abbreviation (input) FN_clock_cycle :: fnptr where "FN_clock_cycle \<equiv> 1"
abbreviation (input) FN_clock_interrupt :: fnptr where "FN_clock_interrupt \<equiv> 2"
abbreviation (input) FN_clock_free :: fnptr where "FN_clock_free \<equiv> 3"
abbreviation (input) FN_keyboard_cycle :: fnptr where "FN_keyboard_cycle \<equiv> 4"
abbreviation (input) FN_keyboard_interrupt :: fnptr where "FN_keyboard_interrupt \<equiv> 5"
abbreviation (input) FN_m35fd_cycle :: fnptr where "FN_m35fd_cycle \<equiv> 6"
abbreviation (input) FN_m35fd_interrupt :: fnptr where "FN_m35fd_interrupt \<equiv> 7"
abbreviation (input) FN_lem1802_cycle :: fnptr where "FN_lem1802_cycle \<equiv> 8"
abbreviation (input) FN_lem1802_write :: fnptr where "FN_lem1802_write \<equiv> 9"
abbreviation (input) FN_lem1802_break :: fnptr where "FN_lem1802_break \<equiv> 10"
abbreviation (input) FN_lem1802_interrupt :: fnptr where "FN_lem1802_interrupt \<equiv> 11"
abbreviation (input) FN_lem1802_free :: fnptr where "FN_lem1802_free \<equiv> 12"

section \<open>Heap laws\<close>

lemma dev_get_put [simp]: "dev_get (dev_put vm p d) q = (if q = p then Some d else dev_get vm q)"
  by (simp add: dev_get_def dev_put_def)

lemma dev_put_frame [simp]:
  "vm_wf (dev_put vm p d) = vm_wf vm" "registers (dev_put vm p d) = registers vm"
  "ram (dev_put vm p d) = ram vm" "pc (dev_put vm p d) = pc vm" "sp (dev_put vm p d) = sp vm"
  "ia (dev_put vm p d) = ia vm" "ex (dev_put vm p d) = ex vm" "skip (dev_put vm p d) = skip vm"
  "halted (dev_put vm p d) = halted vm" "no_hook (dev_put vm p d) m = no_hook vm m"
  "irq_queue (dev_put vm p d) = irq_queue vm" "queue_interrupts (dev_put vm p d) = queue_interrupts vm"
  "hook_list (dev_put vm p d) = hook_list vm" "hw_list (dev_put vm p d) = hw_list vm"
  by (simp_all add: dev_put_def no_hook_def irq_queue_def)

lemma dev_free_wf [simp]: "vm_wf (dev_free vm p) = vm_wf vm"
  by (simp add: dev_free_def)

lemma dev_get_updates [simp]:
  "dev_get (reg_set vm r v) p = dev_get vm p" "dev_get (vm\<lparr>ram := m\<rparr>) p = dev_get vm p"
  "dev_get (vm\<lparr>sleep_cycles := w\<rparr>) p = dev_get vm p"
  by (simp_all add: dev_get_def)

lemma get_put [simp]:
  "get_clock (dev_put vm p (DClock h)) p = Some h"
  "get_keyboard (dev_put vm p (DKeyboard k)) p = Some k"
  "get_m35fd (dev_put vm p (DM35fd f)) p = Some f"
  "get_lem (dev_put vm p (DLem l)) p = Some l"
  by (simp_all add: get_clock_def get_keyboard_def get_m35fd_def get_lem_def)

lemma dev_put_put [simp]: "dev_put (dev_put vm p d) p d' = dev_put vm p d'"
  by (simp add: dev_put_def)

lemma dev_put_same: "dev_get vm p = Some d \<Longrightarrow> dev_put vm p d = vm"
  by (simp add: dev_get_def dev_put_def fun_upd_idem)

lemma dev_put_globals [simp]:
  "g_hw (world (dev_put vm p d)) = g_hw (world vm)" "iio (world (dev_put vm p d)) = iio (world vm)"
  "host_big (world (dev_put vm p d)) = host_big (world vm)"
  "font_default (world (dev_put vm p d)) = font_default (world vm)"
  by (simp_all add: dev_put_def)

lemma get_iff:
  "get_clock vm p = Some h \<longleftrightarrow> dev_get vm p = Some (DClock h)"
  "get_keyboard vm p = Some k \<longleftrightarrow> dev_get vm p = Some (DKeyboard k)"
  "get_m35fd vm p = Some f \<longleftrightarrow> dev_get vm p = Some (DM35fd f)"
  "get_lem vm p = Some l \<longleftrightarrow> dev_get vm p = Some (DLem l)"
  by (auto simp: get_clock_def get_keyboard_def get_m35fd_def get_lem_def
      split: option.splits device.splits)

lemma get_of:
  "dev_get vm p = Some (DClock h) \<Longrightarrow> get_clock vm p = Some h"
  "dev_get vm p = Some (DKeyboard k) \<Longrightarrow> get_keyboard vm p = Some k"
  "dev_get vm p = Some (DM35fd f) \<Longrightarrow> get_m35fd vm p = Some f"
  "dev_get vm p = Some (DLem l) \<Longrightarrow> get_lem vm p = Some l"
  by (simp_all add: get_clock_def get_keyboard_def get_m35fd_def get_lem_def)

lemma dev_alloc_wf [simp]: "vm_wf (snd (dev_alloc vm d)) = vm_wf vm"
  by (simp add: dev_alloc_def Let_def)

end
