(* ===== verification/Hw_Clock.thy ===== *)
theory Hw_Clock
  imports Hw_World "HOL-Library.Signed_Division"
begin

text \<open>
  The generic clock (\<^verbatim>\<open>libdcpu-vm/hwclock.c\<close>): it counts machine cycles, ticks at a rate
  the program chooses and may raise an interrupt at every tick.
\<close>

abbreviation (input) CLOCK_HARDWARE_ID :: u32 where "CLOCK_HARDWARE_ID \<equiv> 0x12D0B402"
abbreviation (input) CLOCK_VERSION :: u16 where "CLOCK_VERSION \<equiv> 1"
abbreviation (input) CLOCK_MANUFACTURER :: u32 where "CLOCK_MANUFACTURER \<equiv> 0"
abbreviation (input) TIMER_SET_ENABLED :: u16 where "TIMER_SET_ENABLED \<equiv> 0"
abbreviation (input) TIMER_GET_ELAPSED :: u16 where "TIMER_GET_ELAPSED \<equiv> 1"
abbreviation (input) TIMER_SET_INTERRUPT :: u16 where "TIMER_SET_INTERRUPT \<equiv> 2"

section \<open>Operations\<close>

definition vm_hw_clock_cycle :: "dcode \<Rightarrow> dvm \<Rightarrow> u16 \<Rightarrow> ptr \<Rightarrow> dvm option" where
  "vm_hw_clock_cycle e vm pos ud = do {
     hw \<leftarrow> get_clock vm ud;
     if cycles_per_tick hw \<noteq> 0 then
       (let hw = hw\<lparr>clock_cycles := clock_cycles hw + 1\<rparr>
        in if clock_cycles hw \<ge> cycles_per_tick hw then
             (let hw = hw\<lparr>clock_ticks := clock_ticks hw + 1, clock_cycles := 0\<rparr>;
                  vm = dev_put vm ud (DClock hw)
              in if clk_message hw \<noteq> 0 then vm_interrupt e vm (clk_message hw) else Some vm)
           else Some (dev_put vm ud (DClock hw)))
     else Some vm
   }"

text \<open>
  The number of cycles per tick: \<open>(DCPU_TICKS_KHZ * 1000 * B) / 60\<close> in \<open>int\<close>. The product
  exceeds the range of \<open>int\<close> from B = 21475 on; it wraps.
\<close>

definition clock_rate :: "u16 \<Rightarrow> u32" where
  "clock_rate b =
     word_of_int (sint (word_of_int (DCPU_TICKS_KHZ * 1000 * uint b) :: u32) sdiv 60)"

definition vm_hw_clock_interrupt :: "dcode \<Rightarrow> dvm \<Rightarrow> ptr \<Rightarrow> dvm option" where
  "vm_hw_clock_interrupt e vm ud = do {
     hw \<leftarrow> get_clock vm ud;
     if reg_get vm REG_A = TIMER_SET_ENABLED then
       (let hw = hw\<lparr>cycles_per_tick := clock_rate (reg_get vm REG_B), clock_ticks := 0,
                    clock_cycles := 0\<rparr>
        in vm_hook_fire e (dev_put vm ud (DClock hw)) (clk_hw_id hw) HOOK_ON_HARDWARE_CHANGE ud)
     else if reg_get vm REG_A = TIMER_GET_ELAPSED then
       Some (reg_set vm REG_C (clock_ticks hw))
     else if reg_get vm REG_A = TIMER_SET_INTERRUPT then
       (let hw = hw\<lparr>clk_message := reg_get vm REG_B\<rparr>
        in vm_hook_fire e (dev_put vm ud (DClock hw)) (clk_hw_id hw) HOOK_ON_HARDWARE_CHANGE ud)
     else Some vm
   }"

definition vm_hw_clock_init :: "dcode \<Rightarrow> dvm \<Rightarrow> dvm option" where
  "vm_hw_clock_init e vm =
     (let hw = \<lparr>clk_hook_id = 0, clk_hw_id = 0, cycles_per_tick = 0, clock_ticks = 0,
                clock_cycles = 0, clk_message = 0\<rparr>;
          (ud, vm) = dev_alloc vm (DClock hw);
          device = \<lparr>hw_device_id = CLOCK_HARDWARE_ID, hw_version = CLOCK_VERSION,
                    hw_manufacturer = CLOCK_MANUFACTURER, hw_handler = Some FN_clock_interrupt,
                    hw_free_handler = Some FN_clock_free, hw_userdata = ud\<rparr>;
          (hook_id, vm) = vm_hook_register vm FN_clock_cycle HOOK_ON_PRE_CYCLE ud;
          (hw_id, vm) = vm_hw_register vm device;
          vm = dev_put vm ud (DClock (hw\<lparr>clk_hook_id := hook_id, clk_hw_id := hw_id\<rparr>))
      in vm_hook_fire e vm hw_id HOOK_ON_HARDWARE_CHANGE ud)"

definition vm_hw_clock_free :: "dvm \<Rightarrow> ptr \<Rightarrow> dvm option" where
  "vm_hw_clock_free vm ud = do {
     hw \<leftarrow> get_clock vm ud;
     vm \<leftarrow> vm_hook_unregister vm (clk_hook_id hw);
     Some (dev_free vm ud)
   }"

section \<open>Well-formedness\<close>


lemma clock_wf:
  assumes "callbacks e" and "vm_wf vm"
  shows "pred_option vm_wf (vm_hw_clock_cycle e vm pos ud)"
    and "pred_option vm_wf (vm_hw_clock_interrupt e vm ud)"
    and "pred_option vm_wf (vm_hw_clock_init e vm)"
    and "pred_option vm_wf (vm_hw_clock_free vm ud)"
proof -
  note wf = callbacks.interrupt_wf [OF assms(1)] callbacks.hook_fire_wf [OF assms(1)]
  show "pred_option vm_wf (vm_hw_clock_cycle e vm pos ud)"
    using assms(2) by (cases "get_clock vm ud") (simp_all add: vm_hw_clock_cycle_def Let_def wf)
  show "pred_option vm_wf (vm_hw_clock_interrupt e vm ud)"
    using assms(2) by (cases "get_clock vm ud") (simp_all add: vm_hw_clock_interrupt_def Let_def wf)
  show "pred_option vm_wf (vm_hw_clock_init e vm)"
    using assms(2)
    by (simp add: vm_hw_clock_init_def Let_def split_def wf vm_wf_hook_register vm_wf_hw_register)
  show "pred_option vm_wf (vm_hw_clock_free vm ud)"
    using assms(2)
    by (intro pred_optionI)
      (auto simp: vm_hw_clock_free_def elim!: bind_eq_SomeE dest: vm_wf_hook_unregister)
qed

section \<open>Counting\<close>

primrec clock_run :: "dcode \<Rightarrow> nat \<Rightarrow> ptr \<Rightarrow> dvm \<Rightarrow> dvm option" where
  "clock_run e 0 ud vm = Some vm"
| "clock_run e (Suc n) ud vm = clock_run e n ud vm \<bind> (\<lambda>vm. vm_hw_clock_cycle e vm 0 ud)"

lemma clock_run_silent:
  assumes "get_clock vm ud = Some hw" and "clock_cycles hw = 0" and "clk_message hw = 0"
    and "cycles_per_tick hw \<noteq> 0"
  shows "clock_run e k ud vm = Some (dev_put vm ud (DClock (hw\<lparr>
     clock_ticks := clock_ticks hw + of_nat (k div unat (cycles_per_tick hw)),
     clock_cycles := of_nat (k mod unat (cycles_per_tick hw))\<rparr>)))"
proof (induction k)
  case 0
  have "dev_put vm ud (DClock hw) = vm"
    using assms(1) by (intro dev_put_same) (simp add: get_iff)
  moreover have "hw\<lparr>clock_cycles := 0\<rparr> = hw" using assms(2) by (cases hw) simp
  ultimately show ?case by simp
next
  case (Suc k)
  define r where "r = unat (cycles_per_tick hw)"
  have r: "0 < r" "r < 2 ^ 32"
    using assms(4) unsigned_less [of "cycles_per_tick hw", where ?'a = nat]
    by (simp_all add: r_def unat_gt_0)
  let ?c = "of_nat (k mod r) + 1 :: u32"
  have m: "k mod r < r" using r(1) by simp
  then have c: "unat ?c = Suc (k mod r)"
    using r(2) by (simp add: unat_word_ariths unat_of_nat)
  have ge: "cycles_per_tick hw \<le> ?c \<longleftrightarrow> Suc (k mod r) = r"
    using m c by (auto simp: word_le_nat_alt r_def [symmetric])
  have "Suc (k mod r) \<noteq> r \<Longrightarrow> of_nat (Suc k mod r) = ?c"
    "Suc (k mod r) \<noteq> r \<Longrightarrow> Suc k div r = k div r"
    "Suc (k mod r) = r \<Longrightarrow> Suc k mod r = 0 \<and> Suc k div r = Suc (k div r)"
    by (simp_all add: mod_Suc div_Suc)
  with Suc.IH assms(3,4) ge show ?case
    by (cases "Suc (k mod r) = r")
      (simp_all add: vm_hw_clock_cycle_def Let_def r_def [symmetric] add.assoc add.commute [of 1])
qed

lemma clock_rate_exact:
  assumes "unat b \<le> 21474"
  shows "unat (clock_rate b) = 100000 * unat b div 60"
proof -
  define n where "n = unat b"
  have u: "uint b = int n" by (simp add: n_def)
  have n: "n \<le> 21474" using assms by (simp add: n_def)
  have "sint (word_of_int (100000 * uint b) :: u32) = 100000 * uint b"
    unfolding sint_sbintrunc' u using n by (intro signed_take_bit_int_eq_self) simp_all
  moreover have "100000 * int n sdiv 60 = int (100000 * n div 60)"
    by (simp add: signed_divide_int_def sgn_if zdiv_int)
  ultimately have "clock_rate b = of_nat (100000 * n div 60)"
    by (simp add: clock_rate_def u)
  moreover have "100000 * n div 60 < 2 ^ 32"
    using n by (intro div_less_dividend [THEN less_le_trans] le_less_trans [OF div_le_dividend]) simp
  ultimately show ?thesis by (simp add: n_def [symmetric] unat_of_nat)
qed


definition clock_world :: hw_world where
  "clock_world = \<lparr>hw_heap = (\<lambda>_. None)(7 := Some (DClock \<lparr>clk_hook_id = 0, clk_hw_id = 0,
       cycles_per_tick = 0, clock_ticks = 0, clock_cycles = 0, clk_message = 0\<rparr>)),
     next_ptr = 8, g_hw = 0, iio = iio_initial, host_big = False, files = (\<lambda>_. None),
     font_image = None, font_default = replicate 256 0, embedded_font = None\<rparr>"


section \<open>The tick interrupt arrives\<close>

text \<open>
  A run of the machine as the clock sees it: in every cycle the hook of the clock fires first
  and the rest of the cycle \<open>f i\<close> (the other devices, the instruction) follows.
\<close>

primrec clock_cycles_with ::
  "dcode \<Rightarrow> (nat \<Rightarrow> dvm \<Rightarrow> dvm option) \<Rightarrow> ptr \<Rightarrow> nat \<Rightarrow> dvm \<Rightarrow> dvm option" where
  "clock_cycles_with e f ud 0 vm = Some vm"
| "clock_cycles_with e f ud (Suc n) vm =
     clock_cycles_with e f ud n vm \<bind> (\<lambda>vm. vm_hw_clock_cycle e vm 0 ud) \<bind> f n"

definition leaves_clock :: "ptr \<Rightarrow> (nat \<Rightarrow> dvm \<Rightarrow> dvm option) \<Rightarrow> bool" where
  "leaves_clock ud f \<longleftrightarrow> (\<forall>i vm. \<exists>vm'. f i vm = Some vm' \<and>
     get_clock vm' ud = get_clock vm ud \<and> (vm_wf vm \<longrightarrow> vm_wf vm'))"

lemma clock_counts:
  assumes "vm_wf vm" and "get_clock vm ud = Some hw" and "leaves_clock ud f"
    and "unat (clock_cycles hw) + n < unat (cycles_per_tick hw)"
  shows "\<exists>vm'. clock_cycles_with e f ud n vm = Some vm' \<and> vm_wf vm' \<and>
    get_clock vm' ud = Some (hw\<lparr>clock_cycles := clock_cycles hw + of_nat n\<rparr>)"
  using assms(4)
proof (induction n)
  case 0
  show ?case using assms(1,2) by simp
next
  case (Suc n)
  let ?c = "clock_cycles hw + of_nat n"
  have r: "unat (cycles_per_tick hw) < 2 ^ 32"
    using unsigned_less [of "cycles_per_tick hw", where ?'a = nat] by simp
  have "?c + 1 = clock_cycles hw + of_nat (Suc n)" by (simp add: algebra_simps)
  moreover have "unat (clock_cycles hw + of_nat (Suc n)) = unat (clock_cycles hw) + Suc n"
    using Suc.prems r by (simp add: unat_word_ariths unat_of_nat)
  ultimately have "unat (?c + 1) = unat (clock_cycles hw) + Suc n" by metis
  then have c: "\<not> cycles_per_tick hw \<le> ?c + 1"
    using Suc.prems by (simp add: word_le_nat_alt)
  obtain vm1 where 1: "clock_cycles_with e f ud n vm = Some vm1" "vm_wf vm1"
    "get_clock vm1 ud = Some (hw\<lparr>clock_cycles := ?c\<rparr>)"
    using Suc by auto
  let ?hw = "hw\<lparr>clock_cycles := ?c + 1\<rparr>"
  have "cycles_per_tick hw \<noteq> 0" using Suc.prems by auto
  with 1 c have 2: "vm_hw_clock_cycle e vm1 0 ud = Some (dev_put vm1 ud (DClock ?hw))"
    by (simp add: vm_hw_clock_cycle_def Let_def)
  obtain vm2 where "f n (dev_put vm1 ud (DClock ?hw)) = Some vm2"
    "get_clock vm2 ud = get_clock (dev_put vm1 ud (DClock ?hw)) ud"
    "vm_wf (dev_put vm1 ud (DClock ?hw)) \<longrightarrow> vm_wf vm2"
    using assms(3) unfolding leaves_clock_def by blast
  with 1 2 show ?case by (simp add: algebra_simps)
qed


text \<open>A rest of the cycle that consumes a word of the program and leaves the clock alone.\<close>

definition word_steps :: "nat \<Rightarrow> dvm \<Rightarrow> dvm option" where
  "word_steps i vm = Some (snd (vm_consume_word vm))"

definition ticking_vm :: dvm where
  "ticking_vm = dev_put ((vm_create clock_world)\<lparr>ia := 0x40\<rparr>) 7 (DClock \<lparr>clk_hook_id = 0, clk_hw_id = 0,
     cycles_per_tick = 3, clock_ticks = 0, clock_cycles = 0, clk_message = 9\<rparr>)"


end
