(* ===== verification/Hw_M35fd.thy ===== *)
theory Hw_M35fd
  imports Hw_World
begin

text \<open>
  The floppy drive (\<^verbatim>\<open>libdcpu-vm/hwm35fd.c\<close>): a state machine driven by requests from the
  program and by a periodic hook that performs the transfer of one 512-word sector between
  the disk image and memory.

  The memory index \<open>position + i\<close> is an \<open>int\<close>; a transfer that leaves the 64K words is
  undefined, and so is one with no image open (\<open>None\<close>).
\<close>

abbreviation (input) M35FD_STATE_NO_MEDIA :: u16 where "M35FD_STATE_NO_MEDIA \<equiv> 0"
abbreviation (input) M35FD_STATE_READY :: u16 where "M35FD_STATE_READY \<equiv> 1"
abbreviation (input) M35FD_STATE_READY_WP :: u16 where "M35FD_STATE_READY_WP \<equiv> 2"
abbreviation (input) M35FD_STATE_BUSY :: u16 where "M35FD_STATE_BUSY \<equiv> 3"
abbreviation (input) M35FD_ERROR_NONE :: u16 where "M35FD_ERROR_NONE \<equiv> 0"
abbreviation (input) M35FD_ERROR_BUSY :: u16 where "M35FD_ERROR_BUSY \<equiv> 1"
abbreviation (input) M35FD_ERROR_NO_MEDIA :: u16 where "M35FD_ERROR_NO_MEDIA \<equiv> 2"
abbreviation (input) M35FD_ERROR_EJECT :: u16 where "M35FD_ERROR_EJECT \<equiv> 4"
abbreviation (input) M35FD_INTERRUPT_POLL :: u16 where "M35FD_INTERRUPT_POLL \<equiv> 0"
abbreviation (input) M35FD_INTERRUPT_MSG :: u16 where "M35FD_INTERRUPT_MSG \<equiv> 1"
abbreviation (input) M35FD_INTERRUPT_READ :: u16 where "M35FD_INTERRUPT_READ \<equiv> 2"
abbreviation (input) M35FD_INTERRUPT_WRITE :: u16 where "M35FD_INTERRUPT_WRITE \<equiv> 3"

section \<open>Operations\<close>

definition vm_hw_m35fd_set_state :: "dcode \<Rightarrow> dvm \<Rightarrow> ptr \<Rightarrow> u16 \<Rightarrow> dvm option" where
  "vm_hw_m35fd_set_state e vm p state = do {
     hw \<leftarrow> get_m35fd vm p;
     let hw = hw\<lparr>fd_state := state\<rparr>;
     let vm = dev_put vm p (DM35fd hw);
     if fd_interrupt_msg hw \<noteq> 0 then vm_interrupt e vm (fd_interrupt_msg hw) else Some vm
   }"

definition vm_hw_m35fd_set_error :: "dcode \<Rightarrow> dvm \<Rightarrow> ptr \<Rightarrow> u16 \<Rightarrow> dvm option" where
  "vm_hw_m35fd_set_error e vm p error = do {
     hw \<leftarrow> get_m35fd vm p;
     let hw = hw\<lparr>last_error := error\<rparr>;
     let vm = dev_put vm p (DM35fd hw);
     if fd_interrupt_msg hw \<noteq> 0 then vm_interrupt e vm (fd_interrupt_msg hw) else Some vm
   }"

text \<open>
  The requests. \<open>POLL\<close> has no \<open>break\<close> and goes on into \<open>MSG\<close>, so polling also sets the
  interrupt message from X.
\<close>

definition vm_hw_m35fd_interrupt :: "dcode \<Rightarrow> dvm \<Rightarrow> ptr \<Rightarrow> dvm option" where
  "vm_hw_m35fd_interrupt e vm ud = do {
     hw \<leftarrow> get_m35fd vm ud;
     let a = reg_get vm REG_A;
     if a = M35FD_INTERRUPT_POLL then
       (let vm = reg_set (reg_set vm REG_B (fd_state hw)) REG_C (last_error hw);
            hw = hw\<lparr>last_error := M35FD_ERROR_NONE\<rparr>;
            hw = hw\<lparr>fd_interrupt_msg := reg_get vm REG_X\<rparr>
        in Some (dev_put vm ud (DM35fd hw)))
     else if a = M35FD_INTERRUPT_MSG then
       Some (dev_put vm ud (DM35fd (hw\<lparr>fd_interrupt_msg := reg_get vm REG_X\<rparr>)))
     else if a = M35FD_INTERRUPT_READ then
       (if (fd_state hw = M35FD_STATE_READY \<or> fd_state hw = M35FD_STATE_READY_WP) \<and>
           \<not> reading hw \<and> \<not> writing hw
        then
          (let hw = hw\<lparr>reading := True, fd_sector := reg_get vm REG_X, fd_position := reg_get vm REG_Y\<rparr>
           in map_option (\<lambda>vm. reg_set vm REG_B 1)
                (vm_hw_m35fd_set_state e (dev_put vm ud (DM35fd hw)) ud M35FD_STATE_BUSY))
        else vm_hw_m35fd_set_error e (reg_set vm REG_B 0) ud M35FD_ERROR_BUSY)
     else if a = M35FD_INTERRUPT_WRITE then
       (if fd_state hw = M35FD_STATE_READY \<and> \<not> reading hw \<and> \<not> writing hw
        then
          (let hw = hw\<lparr>writing := True, fd_sector := reg_get vm REG_X, fd_position := reg_get vm REG_Y\<rparr>
           in map_option (\<lambda>vm. reg_set vm REG_B 1)
                (vm_hw_m35fd_set_state e (dev_put vm ud (DM35fd hw)) ud M35FD_STATE_BUSY))
        else vm_hw_m35fd_set_error e (reg_set vm REG_B 0) ud M35FD_ERROR_BUSY)
     else Some vm
   }"

definition vm_hw_m35fd_reset_state :: "dcode \<Rightarrow> dvm \<Rightarrow> ptr \<Rightarrow> dvm option" where
  "vm_hw_m35fd_reset_state e vm p = do {
     hw \<leftarrow> get_m35fd vm p;
     let hw = hw\<lparr>fd_sector := 0, reading := False, writing := False, fd_position := 0\<rparr>;
     vm_hw_m35fd_set_state e (dev_put vm p (DM35fd hw)) p
       (if write_protected hw then M35FD_STATE_READY_WP else M35FD_STATE_READY)
   }"

text \<open>The two transfer loops, over the word indices.\<close>

primrec fd_read_loop ::
    "bool \<Rightarrow> nat list \<Rightarrow> u16 \<Rightarrow> u16 \<Rightarrow> iio_state \<Rightarrow> cfile \<Rightarrow> (u16 \<Rightarrow> u16) \<Rightarrow>
     (iio_state \<times> cfile \<times> (u16 \<Rightarrow> u16)) option" where
  "fd_read_loop big [] pos word st f m = Some (st, f, m)"
| "fd_read_loop big (i # is) pos word st f m = do {
     (_, word, st, f) \<leftarrow> iread big st word f;
     if unat pos + i < 0x10000
     then fd_read_loop big is pos word st f (m(of_nat (unat pos + i) := word))
     else None
   }"

primrec fd_write_loop ::
    "bool \<Rightarrow> nat list \<Rightarrow> u16 \<Rightarrow> iio_state \<Rightarrow> cfile \<Rightarrow> (u16 \<Rightarrow> u16) \<Rightarrow> (iio_state \<times> cfile) option" where
  "fd_write_loop big [] pos st f m = Some (st, f)"
| "fd_write_loop big (i # is) pos st f m =
     (if unat pos + i < 0x10000
      then (let (st, f) = iwrite big st (m (of_nat (unat pos + i))) f
            in fd_write_loop big is pos st f m)
      else None)"

definition fd_do_read :: "dcode \<Rightarrow> dvm \<Rightarrow> ptr \<Rightarrow> dvm option" where
  "fd_do_read e vm ud = do {
     hw \<leftarrow> get_m35fd vm ud;
     if reading hw then do {
       f \<leftarrow> disk hw;
       let f = fseek_set f (unat (fd_sector hw) * 1024);
       (st, f, m) \<leftarrow> fd_read_loop (host_big (world vm)) [0..<512] (fd_position hw) 0 (iio (world vm)) f (ram vm);
       let vm = vm\<lparr>ram := m, world := (world vm)\<lparr>iio := st\<rparr>\<rparr>;
       vm_hw_m35fd_reset_state e (dev_put vm ud (DM35fd (hw\<lparr>disk := Some f\<rparr>))) ud
     } else Some vm
   }"

definition fd_do_write :: "dcode \<Rightarrow> dvm \<Rightarrow> ptr \<Rightarrow> dvm option" where
  "fd_do_write e vm ud = do {
     hw \<leftarrow> get_m35fd vm ud;
     if writing hw then do {
       f \<leftarrow> disk hw;
       let f = fseek_set f (unat (fd_sector hw) * 1024);
       (st, f) \<leftarrow> fd_write_loop (host_big (world vm)) [0..<512] (fd_position hw) (iio (world vm)) f (ram vm);
       let vm = vm\<lparr>world := (world vm)\<lparr>iio := st\<rparr>\<rparr>;
       vm_hw_m35fd_reset_state e (dev_put vm ud (DM35fd (hw\<lparr>disk := Some f\<rparr>))) ud
     } else Some vm
   }"

definition vm_hw_m35fd_cycle :: "dcode \<Rightarrow> dvm \<Rightarrow> u16 \<Rightarrow> ptr \<Rightarrow> dvm option" where
  "vm_hw_m35fd_cycle e vm pos ud = do {
     hw \<leftarrow> get_m35fd vm ud;
     if fd_state hw = M35FD_STATE_NO_MEDIA \<and> (reading hw \<or> writing hw) then do {
       vm \<leftarrow> vm_hw_m35fd_set_error e vm ud M35FD_ERROR_NO_MEDIA;
       vm_hw_m35fd_reset_state e vm ud
     } else do {
       vm \<leftarrow> (if disk hw = None \<and> (fd_state hw = M35FD_STATE_READY_WP \<or> fd_state hw = M35FD_STATE_READY)
             then do {
               vm \<leftarrow> vm_hw_m35fd_set_error e vm ud M35FD_ERROR_EJECT;
               vm_hw_m35fd_reset_state e vm ud
             } else Some vm);
       hw \<leftarrow> get_m35fd vm ud;
       vm \<leftarrow> (if unat (fd_sector hw) > 1440 then vm_hw_m35fd_reset_state e vm ud else Some vm);
       vm \<leftarrow> fd_do_read e vm ud;
       fd_do_write e vm ud
     }
   }"

definition vm_hw_m35fd_load_disk :: "dcode \<Rightarrow> dvm \<Rightarrow> ptr \<Rightarrow> string \<Rightarrow> dvm option" where
  "vm_hw_m35fd_load_disk e vm p path = do {
     hw \<leftarrow> get_m35fd vm p;
     let d = map_option (\<lambda>c. \<lparr>fcontent = c, fpos = 0\<rparr>) (files (world vm) path);
     let vm = dev_put vm p (DM35fd (hw\<lparr>disk := d\<rparr>));
     if d \<noteq> None
     then vm_hw_m35fd_set_state e vm p (if write_protected hw then M35FD_STATE_READY_WP else M35FD_STATE_READY)
     else Some vm
   }"

definition vm_hw_m35fd_init :: "dcode \<Rightarrow> dvm \<Rightarrow> dvm option" where
  "vm_hw_m35fd_init e vm =
     (let hw = \<lparr>fd_hw_hook = 0, fd_hw_id = 0, fd_interrupt_msg = 0,
                fd_state = M35FD_STATE_NO_MEDIA, last_error = M35FD_ERROR_NONE, disk = None,
                fd_sector = 0, fd_position = 0, reading = False, writing = False,
                write_protected = False\<rparr>;
          (ud, vm) = dev_alloc vm (DM35fd hw);
          device = \<lparr>hw_device_id = 0x4fd524c5, hw_version = 0x000b, hw_manufacturer = 0x1eb37e91,
                    hw_handler = Some FN_m35fd_interrupt, hw_free_handler = None, hw_userdata = ud\<rparr>;
          (hook, vm) = vm_hook_register vm FN_m35fd_cycle HOOK_ON_60HZ ud;
          (hw_id, vm) = vm_hw_register vm device;
          vm = dev_put vm ud (DM35fd (hw\<lparr>fd_hw_hook := hook, fd_hw_id := hw_id\<rparr>))
      in vm_hw_m35fd_load_disk e vm ud ''m35fd.bin'')"

section \<open>Well-formedness\<close>

context callbacks
begin

lemmas step_wf = pred_option_SomeD [OF interrupt_wf, rotated]

end

lemma fd_set_wf:
  assumes "callbacks e" and "vm_wf vm"
  shows "vm_hw_m35fd_set_state e vm p s = Some vm' \<Longrightarrow> vm_wf vm'"
    and "vm_hw_m35fd_set_error e vm p s = Some vm' \<Longrightarrow> vm_wf vm'"
    and "vm_hw_m35fd_reset_state e vm p = Some vm' \<Longrightarrow> vm_wf vm'"
proof -
  note st = callbacks.step_wf [OF assms(1)]
  have 1: "vm_wf vm'" if "vm_hw_m35fd_set_state e vm p s = Some vm'" "vm_wf vm" for vm s vm'
    using that by (auto simp: vm_hw_m35fd_set_state_def Let_def elim!: bind_eq_SomeE split: if_splits dest!: st)
  show "vm_wf vm'" if "vm_hw_m35fd_set_state e vm p s = Some vm'"
    using that assms(2) by (rule 1)
  show "vm_wf vm'" if "vm_hw_m35fd_set_error e vm p s = Some vm'"
    using that assms(2)
    by (auto simp: vm_hw_m35fd_set_error_def Let_def elim!: bind_eq_SomeE split: if_splits dest!: st)
  show "vm_wf vm'" if "vm_hw_m35fd_reset_state e vm p = Some vm'"
    using that assms(2)
    by (auto simp: vm_hw_m35fd_reset_state_def Let_def elim!: bind_eq_SomeE dest!: 1)
qed

lemma m35fd_interrupt_wf:
  assumes "callbacks e" and "vm_wf vm" and "vm_hw_m35fd_interrupt e vm ud = Some vm'"
  shows "vm_wf vm'"
  using assms(2,3)
  by (auto simp: vm_hw_m35fd_interrupt_def Let_def elim!: bind_eq_SomeE split: if_splits
      dest!: fd_set_wf [OF assms(1), rotated])

lemma fd_transfer_wf:
  assumes "callbacks e" and "vm_wf vm"
  shows "fd_do_read e vm ud = Some vm' \<Longrightarrow> vm_wf vm'" and "fd_do_write e vm ud = Some vm' \<Longrightarrow> vm_wf vm'"
  using assms(2)
  by (auto simp: fd_do_read_def fd_do_write_def Let_def elim!: bind_eq_SomeE split: if_splits
      dest!: fd_set_wf(3) [OF assms(1), rotated])

lemma m35fd_cycle_wf:
  assumes "callbacks e" and "vm_wf vm" and "vm_hw_m35fd_cycle e vm pos ud = Some vm'"
  shows "vm_wf vm'"
  using assms(2,3)
  by (auto simp: vm_hw_m35fd_cycle_def Let_def elim!: bind_eq_SomeE split: if_splits
      dest!: fd_set_wf [OF assms(1), rotated] fd_transfer_wf [OF assms(1), rotated])

lemma m35fd_init_wf:
  assumes "callbacks e" and "vm_wf vm" and "vm_hw_m35fd_init e vm = Some vm'"
  shows "vm_wf vm'"
  using assms(2,3)
  by (auto simp: vm_hw_m35fd_init_def vm_hw_m35fd_load_disk_def Let_def split_def
      vm_wf_hook_register vm_wf_hw_register elim!: bind_eq_SomeE
      split: if_splits dest!: fd_set_wf(1) [OF assms(1), rotated])

section \<open>Transfers\<close>

definition words_bytes :: "int \<Rightarrow> u16 list \<Rightarrow> u8 list" where
  "words_bytes mode ws = concat (map (file_bytes mode) ws)"

lemma words_bytes_simps [simp]:
  "words_bytes m [] = []" "words_bytes m (w # ws) = file_bytes m w @ words_bytes m ws"
  "length (words_bytes m ws) = 2 * length ws" "length (file_bytes m w) = 2"
  by (simp_all add: words_bytes_def file_bytes_def) (induction ws, simp_all add: file_bytes_def)

lemma detect_ok: "iio_ok big st \<Longrightarrow> iio_ok big (icpudetect big st)"
  "iio_ok big st \<Longrightarrow> icpudetect big (icpudetect big st) = icpudetect big st"
  "iwritemode (icpudetect big st) = iwritemode st"
proof -
  assume "iio_ok big st"
  note d = detect_mode [OF this]
  show ok: "iio_ok big (icpudetect big st)" using \<open>iio_ok big st\<close> by (simp add: d iio_ok_def)
  show "icpudetect big (icpudetect big st) = icpudetect big st"
    using detect_mode [OF ok] by (simp add: d)
qed (simp add: icpudetect_def)

text \<open>Memory after \<open>ws\<close> has been stored from address \<open>p\<close> on.\<close>

definition mem_put :: "(u16 \<Rightarrow> u16) \<Rightarrow> nat \<Rightarrow> u16 list \<Rightarrow> u16 \<Rightarrow> u16" where
  "mem_put m p ws a = (if p \<le> unat a \<and> unat a < p + length ws then ws ! (unat a - p) else m a)"

lemma mem_put_Nil [simp]: "mem_put m p [] = m"
  by (rule ext) (auto simp: mem_put_def)

lemma mem_put_Cons:
  assumes "p < 0x10000"
  shows "mem_put (m(of_nat p := w)) (Suc p) ws = mem_put m p (w # ws)"
proof
  fix a :: u16
  have "a = of_nat p \<longleftrightarrow> unat a = p"
    using assms by (metis unat_of_nat_u16 word_unat_eq_iff)
  then show "mem_put (m(of_nat p := w)) (Suc p) ws a = mem_put m p (w # ws) a"
    by (auto simp: mem_put_def nth_Cons')
qed

lemma read_loop:
  assumes "iio_ok big st" and "drop (fpos f) (fcontent f) = words_bytes (iwritemode st) ws @ rest"
    and "unat pos + k + length ws \<le> 0x10000" and "ws \<noteq> []"
  shows "fd_read_loop big [k..<k + length ws] pos word st f m =
    Some (icpudetect big st, f\<lparr>fpos := fpos f + 2 * length ws\<rparr>, mem_put m (unat pos + k) ws)"
  using assms
proof (induction ws arbitrary: k word st f m)
  case Nil
  then show ?case by simp
next
  case (Cons w ws)
  let ?st = "icpudetect big st" and ?f = "f\<lparr>fpos := fpos f + 2\<rparr>" and ?m = "m(of_nat (unat pos + k) := w)"
  have r: "iread big st word f = Some (1, w, ?st, ?f)"
    using iread_eq [OF Cons.prems(1), of f w] Cons.prems(2) by simp
  have up: "[k..<k + length (w # ws)] = k # [Suc k..<Suc k + length ws]" by (simp add: upt_rec)
  have lt: "unat pos + k < 0x10000" using Cons.prems(3) by simp
  have step: "fd_read_loop big [k..<k + length (w # ws)] pos word st f m =
      fd_read_loop big [Suc k..<Suc k + length ws] pos w ?st ?f ?m"
    unfolding up using lt by (simp add: r)
  have mp: "mem_put ?m (unat pos + Suc k) ws = mem_put m (unat pos + k) (w # ws)"
    using mem_put_Cons [OF lt] by simp
  show ?case
  proof (cases "ws = []")
    case True
    with mp step show ?thesis by simp
  next
    case False
    have "drop (fpos ?f) (fcontent ?f) = words_bytes (iwritemode ?st) ws @ rest"
      using arg_cong [OF Cons.prems(2), of "drop 2"] by (simp add: detect_ok(3) add.commute)
    then have "fd_read_loop big [Suc k..<Suc k + length ws] pos w ?st ?f ?m =
        Some (icpudetect big ?st, ?f\<lparr>fpos := fpos ?f + 2 * length ws\<rparr>, mem_put ?m (unat pos + Suc k) ws)"
      by (intro Cons.IH [OF detect_ok(1) [OF Cons.prems(1)] _ _ False]) (use Cons.prems(3) in simp_all)
    then show ?thesis
      unfolding step mp detect_ok(2) [OF Cons.prems(1)] by simp
  qed
qed

lemma fwrite_append: "fwrite_bytes ys (fwrite_bytes xs f) = fwrite_bytes (xs @ ys) f"
proof (cases "fpos f \<le> length (fcontent f)")
  case True
  then show ?thesis by (cases f) (simp add: fwrite_bytes_def Let_def ac_simps)
next
  case False
  then show ?thesis by (cases f) (simp add: fwrite_bytes_def Let_def)
qed

lemma write_loop:
  assumes "iio_ok big st" and "unat pos + k + n \<le> 0x10000" and "0 < n"
  shows "fd_write_loop big [k..<k + n] pos st f m = Some (icpudetect big st,
    fwrite_bytes (words_bytes (iwritemode st) (map (\<lambda>i. m (of_nat (unat pos + i))) [k..<k + n])) f)"
  using assms
proof (induction n arbitrary: k st f)
  case 0
  then show ?case by simp
next
  case (Suc n)
  let ?w = "m (of_nat (unat pos + k))" and ?st = "icpudetect big st"
  have up: "[k..<k + Suc n] = k # [Suc k..<Suc k + n]" by (simp add: upt_rec)
  have step: "fd_write_loop big [k..<k + Suc n] pos st f m =
      fd_write_loop big [Suc k..<Suc k + n] pos ?st (fwrite_bytes (file_bytes (iwritemode st) ?w) f) m"
    unfolding up using Suc.prems(2) by (simp add: iwrite_eq [OF Suc.prems(1)])
  show ?case
  proof (cases "n = 0")
    case True
    with step up show ?thesis by simp
  next
    case False
    with Suc.IH [OF detect_ok(1) [OF Suc.prems(1)], of "Suc k"] Suc.prems(2) step up show ?thesis
      by (simp add: detect_ok(1,2) [OF Suc.prems(1)] detect_ok(3) fwrite_append)
  qed
qed

text \<open>A drive with a disk, and the drive after a transfer.\<close>

definition fd_ready :: "m35fd_hardware \<Rightarrow> bool" where
  "fd_ready hw \<longleftrightarrow> fd_state hw = M35FD_STATE_READY \<and> \<not> reading hw \<and> \<not> writing hw \<and>
     fd_interrupt_msg hw = 0 \<and> \<not> write_protected hw \<and> disk hw \<noteq> None"

definition fd_done :: "m35fd_hardware \<Rightarrow> cfile \<Rightarrow> m35fd_hardware" where
  "fd_done hw f = hw\<lparr>disk := Some f, fd_sector := 0, reading := False, writing := False,
     fd_position := 0, fd_state := if write_protected hw then M35FD_STATE_READY_WP else M35FD_STATE_READY\<rparr>"

lemma set_state_quiet:
  "get_m35fd vm p = Some hw \<Longrightarrow> fd_interrupt_msg hw = 0 \<Longrightarrow>
     vm_hw_m35fd_set_state e vm p s = Some (dev_put vm p (DM35fd (hw\<lparr>fd_state := s\<rparr>)))"
  by (simp add: vm_hw_m35fd_set_state_def Let_def)

lemma reset_quiet:
  "fd_interrupt_msg hw = 0 \<Longrightarrow>
     vm_hw_m35fd_reset_state e (dev_put vm p (DM35fd (hw\<lparr>disk := Some f\<rparr>))) p =
     Some (dev_put vm p (DM35fd (fd_done hw f)))"
  by (simp add: vm_hw_m35fd_reset_state_def Let_def set_state_quiet fd_done_def)

definition fd_sector_words :: "(u16 \<Rightarrow> u16) \<Rightarrow> u16 \<Rightarrow> u16 list" where
  "fd_sector_words m p = map (\<lambda>i. m (of_nat (unat p + i))) [0..<512]"

lemma cycle_write:
  assumes "get_m35fd vm ud = Some hw" and "fd_state hw = M35FD_STATE_BUSY" and "writing hw" and "\<not> reading hw"
    and "fd_interrupt_msg hw = 0" and "disk hw = Some f" and "unat (fd_sector hw) \<le> 1440"
    and "iio_ok (host_big (world vm)) (iio (world vm))" and "unat (fd_position hw) + 512 \<le> 0x10000"
  shows "vm_hw_m35fd_cycle e vm pos ud = Some (dev_put
    (vm\<lparr>world := (world vm)\<lparr>iio := icpudetect (host_big (world vm)) (iio (world vm))\<rparr>\<rparr>) ud
    (DM35fd (fd_done hw (fwrite_bytes (words_bytes (iwritemode (iio (world vm)))
       (fd_sector_words (ram vm) (fd_position hw))) (fseek_set f (unat (fd_sector hw) * 1024))))))"
  using assms write_loop [OF assms(8), of "fd_position hw" 0 512 "fseek_set f (unat (fd_sector hw) * 1024)" "ram vm"]
  by (simp add: vm_hw_m35fd_cycle_def fd_do_read_def fd_do_write_def Let_def reset_quiet fd_sector_words_def)

lemma cycle_read:
  assumes "get_m35fd vm ud = Some hw" and "fd_state hw = M35FD_STATE_BUSY" and "reading hw" and "\<not> writing hw"
    and "fd_interrupt_msg hw = 0" and "disk hw = Some f" and "unat (fd_sector hw) \<le> 1440"
    and "iio_ok (host_big (world vm)) (iio (world vm))" and "unat (fd_position hw) + 512 \<le> 0x10000"
    and "drop (unat (fd_sector hw) * 1024) (fcontent f) = words_bytes (iwritemode (iio (world vm))) ws @ rest"
    and "length ws = 512"
  shows "vm_hw_m35fd_cycle e vm pos ud = Some (dev_put
    (vm\<lparr>ram := mem_put (ram vm) (unat (fd_position hw)) ws,
        world := (world vm)\<lparr>iio := icpudetect (host_big (world vm)) (iio (world vm))\<rparr>\<rparr>) ud
    (DM35fd (fd_done hw (f\<lparr>fpos := unat (fd_sector hw) * 1024 + 1024\<rparr>))))"
proof -
  have "ws \<noteq> []" using assms(11) by auto
  then have "fd_read_loop (host_big (world vm)) [0..<512] (fd_position hw) 0 (iio (world vm))
      (fseek_set f (unat (fd_sector hw) * 1024)) (ram vm) =
      Some (icpudetect (host_big (world vm)) (iio (world vm)), f\<lparr>fpos := unat (fd_sector hw) * 1024 + 1024\<rparr>,
        mem_put (ram vm) (unat (fd_position hw)) ws)"
    using read_loop [OF assms(8), of "fseek_set f (unat (fd_sector hw) * 1024)" ws rest "fd_position hw" 0 0 "ram vm"]
      assms(9-11) by (simp add: fseek_set_def)
  moreover have "\<not> writing (fd_done hw g)" for g by (simp add: fd_done_def)
  ultimately show ?thesis
    using assms(1-7)
    by (simp add: vm_hw_m35fd_cycle_def fd_do_read_def fd_do_write_def Let_def reset_quiet)
qed

section \<open>A sector written is the sector read back\<close>

text \<open>The program's request: operation, sector and memory address in A, X and Y.\<close>

definition fd_request :: "u16 \<Rightarrow> u16 \<Rightarrow> u16 \<Rightarrow> dvm \<Rightarrow> dvm" where
  "fd_request a s p vm = reg_set (reg_set (reg_set vm REG_A a) REG_X s) REG_Y p"

lemma request_regs:
  assumes "vm_wf vm"
  shows "reg_get (fd_request a s p vm) REG_A = a" "reg_get (fd_request a s p vm) REG_X = s"
    "reg_get (fd_request a s p vm) REG_Y = p" "vm_wf (fd_request a s p vm)"
    "get_m35fd (fd_request a s p vm) ud = get_m35fd vm ud" "ram (fd_request a s p vm) = ram vm"
    "world (fd_request a s p vm) = world vm"
  using assms by (simp_all add: fd_request_def get_m35fd_def)

lemma request_write:
  assumes "vm_wf vm" and "get_m35fd vm ud = Some hw" and "fd_ready hw"
  shows "vm_hw_m35fd_interrupt e (fd_request M35FD_INTERRUPT_WRITE s p vm) ud =
    Some (reg_set (dev_put (fd_request M35FD_INTERRUPT_WRITE s p vm) ud (DM35fd (hw\<lparr>writing := True,
      fd_sector := s, fd_position := p, fd_state := M35FD_STATE_BUSY\<rparr>))) REG_B 1)"
  using assms
  by (simp add: vm_hw_m35fd_interrupt_def Let_def request_regs fd_ready_def set_state_quiet)

lemma request_read:
  assumes "vm_wf vm" and "get_m35fd vm ud = Some hw" and "fd_ready hw"
  shows "vm_hw_m35fd_interrupt e (fd_request M35FD_INTERRUPT_READ s p vm) ud =
    Some (reg_set (dev_put (fd_request M35FD_INTERRUPT_READ s p vm) ud (DM35fd (hw\<lparr>reading := True,
      fd_sector := s, fd_position := p, fd_state := M35FD_STATE_BUSY\<rparr>))) REG_B 1)"
  using assms
  by (simp add: vm_hw_m35fd_interrupt_def Let_def request_regs fd_ready_def set_state_quiet)

lemma drop_fwrite:
  "drop p (fcontent (fwrite_bytes bs (fseek_set f p))) = bs @ drop (p + length bs) (fcontent f)"
  by (cases "p \<le> length (fcontent f)") (simp_all add: fwrite_bytes_def fseek_set_def Let_def)

lemma dev_reg_set: "reg_set (dev_put vm p d) r v = dev_put (reg_set vm r v) p d"
  by (simp add: reg_set_def dev_put_def)

lemma write_sector:
  assumes "vm_wf vm" and "get_m35fd vm ud = Some hw" and "fd_ready hw" and "disk hw = Some f"
    and "iio_ok (host_big (world vm)) (iio (world vm))"
    and "unat s \<le> 1440" and "unat p + 512 \<le> 0x10000"
  shows "\<exists>vm1 vm2 hw2. vm_hw_m35fd_interrupt e (fd_request M35FD_INTERRUPT_WRITE s p vm) ud = Some vm1 \<and>
    reg_get vm1 REG_B = 1 \<and> vm_hw_m35fd_cycle e vm1 0 ud = Some vm2 \<and> vm_wf vm2 \<and>
    get_m35fd vm2 ud = Some hw2 \<and> fd_ready hw2 \<and>
    disk hw2 = Some (fwrite_bytes (words_bytes (iwritemode (iio (world vm))) (fd_sector_words (ram vm) p))
      (fseek_set f (unat s * 1024))) \<and>
    ram vm2 = ram vm \<and> host_big (world vm2) = host_big (world vm) \<and>
    iio (world vm2) = icpudetect (host_big (world vm)) (iio (world vm))"
proof -
  let ?hw = "hw\<lparr>writing := True, fd_sector := s, fd_position := p, fd_state := M35FD_STATE_BUSY\<rparr>"
  let ?v = "reg_set (fd_request M35FD_INTERRUPT_WRITE s p vm) REG_B 1"
  let ?vm1 = "dev_put ?v ud (DM35fd ?hw)"
  have 1: "vm_hw_m35fd_interrupt e (fd_request M35FD_INTERRUPT_WRITE s p vm) ud = Some ?vm1"
    using request_write [OF assms(1-3)] by (simp add: dev_reg_set)
  have b: "reg_get ?vm1 REG_B = 1"
    using assms(1) by (simp add: dev_reg_set [symmetric] request_regs)
  have w: "world ?vm1 = (world vm)\<lparr>hw_heap := (hw_heap (world vm))(ud := Some (DM35fd ?hw))\<rparr>"
    using assms(1) by (simp add: dev_put_def request_regs)
  have 2: "vm_hw_m35fd_cycle e ?vm1 0 ud = Some (dev_put (?vm1\<lparr>world := (world ?vm1)\<lparr>iio :=
      icpudetect (host_big (world vm)) (iio (world vm))\<rparr>\<rparr>) ud (DM35fd (fd_done ?hw
        (fwrite_bytes (words_bytes (iwritemode (iio (world vm))) (fd_sector_words (ram vm) p))
          (fseek_set f (unat s * 1024))))))"
    using cycle_write [of ?vm1 ud ?hw f e 0] assms by (simp add: w fd_ready_def request_regs)
  show ?thesis
    using 1 b 2 assms(1,3) by (simp add: request_regs w fd_ready_def fd_done_def)
qed

lemma read_sector:
  assumes "vm_wf vm" and "get_m35fd vm ud = Some hw" and "fd_ready hw" and "disk hw = Some f"
    and "iio_ok (host_big (world vm)) (iio (world vm))"
    and "unat s \<le> 1440" and "unat p + 512 \<le> 0x10000"
    and "drop (unat s * 1024) (fcontent f) = words_bytes (iwritemode (iio (world vm))) ws @ rest"
    and "length ws = 512"
  shows "\<exists>vm1 vm2. vm_hw_m35fd_interrupt e (fd_request M35FD_INTERRUPT_READ s p vm) ud = Some vm1 \<and>
    reg_get vm1 REG_B = 1 \<and> vm_hw_m35fd_cycle e vm1 0 ud = Some vm2 \<and>
    ram vm2 = mem_put (ram vm) (unat p) ws"
proof -
  let ?hw = "hw\<lparr>reading := True, fd_sector := s, fd_position := p, fd_state := M35FD_STATE_BUSY\<rparr>"
  let ?v = "reg_set (fd_request M35FD_INTERRUPT_READ s p vm) REG_B 1"
  let ?vm1 = "dev_put ?v ud (DM35fd ?hw)"
  have 1: "vm_hw_m35fd_interrupt e (fd_request M35FD_INTERRUPT_READ s p vm) ud = Some ?vm1"
    using request_read [OF assms(1-3)] by (simp add: dev_reg_set)
  have b: "reg_get ?vm1 REG_B = 1"
    using assms(1) by (simp add: dev_reg_set [symmetric] request_regs)
  have w: "world ?vm1 = (world vm)\<lparr>hw_heap := (hw_heap (world vm))(ud := Some (DM35fd ?hw))\<rparr>"
    using assms(1) by (simp add: dev_put_def request_regs)
  show ?thesis
    using 1 b cycle_read [of ?vm1 ud ?hw f ws rest e 0] assms by (simp add: w fd_ready_def request_regs)
qed

text \<open>
  C9. The drive stores what it is given: on a ready, unprotected drive, a program that
  requests the write of 512 words of memory to a sector and, after the drive has done it,
  the read of that sector to any other place finds exactly those words there and the rest of
  memory untouched. Both requests are accepted (B = 1), whatever the byte order of the host
  and whether the image already reaches that sector or has to be extended.
\<close>

theorem m35fd_write_then_read:
  assumes "vm_wf vm" and "get_m35fd vm ud = Some hw" and "fd_ready hw"
    and "iio_ok (host_big (world vm)) (iio (world vm))"
    and "unat s \<le> 1440" and "unat src + 512 \<le> 0x10000" and "unat dst + 512 \<le> 0x10000"
  shows "\<exists>vm1 vm2 vm3 vm4.
    vm_hw_m35fd_interrupt e (fd_request M35FD_INTERRUPT_WRITE s src vm) ud = Some vm1 \<and>
    reg_get vm1 REG_B = 1 \<and> vm_hw_m35fd_cycle e vm1 0 ud = Some vm2 \<and>
    vm_hw_m35fd_interrupt e (fd_request M35FD_INTERRUPT_READ s dst vm2) ud = Some vm3 \<and>
    reg_get vm3 REG_B = 1 \<and> vm_hw_m35fd_cycle e vm3 0 ud = Some vm4 \<and>
    ram vm4 = mem_put (ram vm) (unat dst) (fd_sector_words (ram vm) src)"
proof -
  let ?ws = "fd_sector_words (ram vm) src" and ?m = "iwritemode (iio (world vm))"
  obtain f where f: "disk hw = Some f" using assms(3) by (auto simp: fd_ready_def)
  obtain vm1 vm2 hw2 where v: "vm_hw_m35fd_interrupt e (fd_request M35FD_INTERRUPT_WRITE s src vm) ud = Some vm1"
      "reg_get vm1 REG_B = 1" "vm_hw_m35fd_cycle e vm1 0 ud = Some vm2" "vm_wf vm2"
      "get_m35fd vm2 ud = Some hw2" "fd_ready hw2"
      "disk hw2 = Some (fwrite_bytes (words_bytes ?m ?ws) (fseek_set f (unat s * 1024)))"
      "ram vm2 = ram vm" "host_big (world vm2) = host_big (world vm)"
      "iio (world vm2) = icpudetect (host_big (world vm)) (iio (world vm))"
    using write_sector [OF assms(1-3) f assms(4-6)] by blast
  have "\<exists>vm3 vm4. vm_hw_m35fd_interrupt e (fd_request M35FD_INTERRUPT_READ s dst vm2) ud = Some vm3 \<and>
    reg_get vm3 REG_B = 1 \<and> vm_hw_m35fd_cycle e vm3 0 ud = Some vm4 \<and> ram vm4 = mem_put (ram vm2) (unat dst) ?ws"
    by (rule read_sector [OF v(4-7) _ assms(5,7)])
      (simp_all add: v detect_ok assms(4) drop_fwrite fd_sector_words_def)
  with v show ?thesis by auto
qed

definition fd_world :: hw_world where
  "fd_world = \<lparr>hw_heap = (\<lambda>_. None)(7 := Some (DM35fd \<lparr>fd_hw_hook = 0, fd_hw_id = 0,
       fd_interrupt_msg = 0, fd_state = M35FD_STATE_READY, last_error = 0,
       disk = Some \<lparr>fcontent = [], fpos = 0\<rparr>, fd_sector = 0, fd_position = 0, reading = False,
       writing = False, write_protected = False\<rparr>)),
     next_ptr = 8, g_hw = 0, iio = iio_initial, host_big = False, files = (\<lambda>_. None),
     font_image = None, font_default = replicate 256 0, embedded_font = None\<rparr>"

theorem m35fd_write_then_read_witness:
  "\<exists>vm1 vm2 vm3 vm4.
     vm_hw_m35fd_interrupt idle_code (fd_request M35FD_INTERRUPT_WRITE 3 0 (vm_create fd_world)) 7 = Some vm1 \<and>
     vm_hw_m35fd_cycle idle_code vm1 0 7 = Some vm2 \<and>
     vm_hw_m35fd_interrupt idle_code (fd_request M35FD_INTERRUPT_READ 3 0x1000 vm2) 7 = Some vm3 \<and>
     vm_hw_m35fd_cycle idle_code vm3 0 7 = Some vm4 \<and>
     ram vm4 = mem_put (\<lambda>_. 0) 0x1000 (fd_sector_words (\<lambda>_. 0) 0)"
proof -
  let ?vm = "vm_create fd_world"
  obtain hw where hw: "get_m35fd ?vm 7 = Some hw" "fd_ready hw"
    by (simp add: get_m35fd_def dev_get_def vm_create_fields fd_world_def fd_ready_def)
  have i: "iio_ok (host_big (world ?vm)) (iio (world ?vm))"
    by (simp add: vm_create_fields fd_world_def iio_initial_ok)
  show ?thesis
    using m35fd_write_then_read [OF vm_wf_create hw i, of 3 0 "0x1000" idle_code] by (auto simp: vm_create_fields)
qed

end
