(* ===== verification/Hw_Lem1802_Mem.thy ===== *)
theory Hw_Lem1802_Mem
  imports Hw_World
begin

text \<open>
  Colours, fonts and drawing of the LEM1802 display (\<^verbatim>\<open>libdcpu-vm/hwlem1802mem.c\<close> and the
  conversions of \<^verbatim>\<open>hwlem1802util.c\<close>). The texture is the byte array handed to the graphics
  library: 140 by 108 pixels of three bytes, a 6-pixel border around 32 by 12 characters of
  4 by 8 pixels.

  Indices into memory (\<open>palette_location + idx\<close>, \<open>fontloc + 2 * chr\<close>) are \<open>int\<close>s; one that
  passes the end of memory is undefined (\<open>None\<close>).
\<close>

abbreviation (input) HW_LEM1802_DISCONNECTED :: u16 where "HW_LEM1802_DISCONNECTED \<equiv> 0"
abbreviation (input) HW_LEM1802_DEFAULT_FONT_LOC :: u16 where "HW_LEM1802_DEFAULT_FONT_LOC \<equiv> 0"
abbreviation (input) HW_LEM1802_DEFAULT_PALETTE_LOC :: u16 where "HW_LEM1802_DEFAULT_PALETTE_LOC \<equiv> 0"
abbreviation (input) HW_LEM1802_SCREEN_WIDTH :: nat where "HW_LEM1802_SCREEN_WIDTH \<equiv> 32"
abbreviation (input) HW_LEM1802_SCREEN_HEIGHT :: nat where "HW_LEM1802_SCREEN_HEIGHT \<equiv> 12"
abbreviation (input) HW_LEM1802_SCREEN_BORDER_WIDTH :: nat where "HW_LEM1802_SCREEN_BORDER_WIDTH \<equiv> 6"
abbreviation (input) HW_LEM1802_SCREEN_BORDER_HEIGHT :: nat where "HW_LEM1802_SCREEN_BORDER_HEIGHT \<equiv> 6"
abbreviation (input) HW_LEM1802_FONT_NUM_CHARS :: nat where "HW_LEM1802_FONT_NUM_CHARS \<equiv> 128"
abbreviation (input) HW_LEM1802_FONT_CHAR_ADDRESSABLE_WIDTH :: nat where
  "HW_LEM1802_FONT_CHAR_ADDRESSABLE_WIDTH \<equiv> 4"
abbreviation (input) HW_LEM1802_FONT_CHAR_ADDRESSABLE_HEIGHT :: nat where
  "HW_LEM1802_FONT_CHAR_ADDRESSABLE_HEIGHT \<equiv> 8"
abbreviation (input) HW_LEM1802_SCREEN_TEXTURE_HEIGHT :: nat where "HW_LEM1802_SCREEN_TEXTURE_HEIGHT \<equiv> 108"
abbreviation (input) HW_LEM1802_SCREEN_TEXTURE_WIDTH :: nat where "HW_LEM1802_SCREEN_TEXTURE_WIDTH \<equiv> 140"
abbreviation (input) HW_LEM1802_SCREEN_TEXTURE_MEM_SIZE :: nat where
  "HW_LEM1802_SCREEN_TEXTURE_MEM_SIZE \<equiv> 45360"
abbreviation (input) HW_LEM1802_FONT_IMG_COLS :: nat where "HW_LEM1802_FONT_IMG_COLS \<equiv> 32"
abbreviation (input) HW_LEM1802_FONT_IMG_WIDTH :: nat where "HW_LEM1802_FONT_IMG_WIDTH \<equiv> 128"

definition HW_LEM1802_FONT_RGB_COOR :: "nat \<Rightarrow> nat \<Rightarrow> nat" where
  "HW_LEM1802_FONT_RGB_COOR x y = 3 * (y * HW_LEM1802_FONT_IMG_WIDTH + x)"

definition HW_LEM1802_TEXTURE_RGB_COOR :: "nat \<Rightarrow> nat \<Rightarrow> nat" where
  "HW_LEM1802_TEXTURE_RGB_COOR x y = 3 * (y * HW_LEM1802_SCREEN_TEXTURE_WIDTH + x)"

definition HW_LEM1802_SCREEN_RGB_COOR :: "nat \<Rightarrow> nat \<Rightarrow> nat" where
  "HW_LEM1802_SCREEN_RGB_COOR x y =
     3 * ((y + HW_LEM1802_SCREEN_BORDER_HEIGHT) * HW_LEM1802_SCREEN_TEXTURE_WIDTH +
          (x + HW_LEM1802_SCREEN_BORDER_WIDTH))"

type_synonym rgb = "u8 \<times> u8 \<times> u8"

section \<open>Colours\<close>

definition vm_hw_lem1802_util_raw2rgb :: "u16 \<Rightarrow> rgb" where
  "vm_hw_lem1802_util_raw2rgb raw =
     (ucast (drop_bit 8 (raw AND 0xF00) * 17), ucast (drop_bit 4 (raw AND 0x0F0) * 17),
      ucast (drop_bit 0 (raw AND 0x00F) * 17))"

definition vm_hw_lem1802_util_rgb2raw :: "rgb \<Rightarrow> u16" where
  "vm_hw_lem1802_util_rgb2raw c =
     (case c of (r, g, b) \<Rightarrow>
        (let lem_color = 0 OR push_bit 8 (ucast (drop_bit 4 r));
             lem_color = lem_color OR push_bit 4 (ucast (drop_bit 4 g))
         in lem_color OR ucast (drop_bit 4 b)))"

definition palette_internal :: "u16 list" where
  "palette_internal = [0x0000, 0x000A, 0x00A0, 0x00AA, 0x0A00, 0x0A0A, 0x0A50, 0x0AAA,
     0x0555, 0x055F, 0x05F5, 0x05FF, 0x0F55, 0x0F5F, 0x0FF5, 0x0FFF]"

text \<open>A memory read with an \<open>int\<close> index.\<close>

definition lem_ram :: "(u16 \<Rightarrow> u16) \<Rightarrow> nat \<Rightarrow> u16 option" where
  "lem_ram m i = (if i < 0x10000 then Some (m (of_nat i)) else None)"

definition vm_hw_lem1802_mem_set_palette :: "lem1802_hardware \<Rightarrow> u16 \<Rightarrow> lem1802_hardware" where
  "vm_hw_lem1802_mem_set_palette hw pos = hw\<lparr>palette_location := pos\<rparr>"

fun lem_store_list :: "(u16 \<Rightarrow> u16) \<Rightarrow> nat \<Rightarrow> u16 list \<Rightarrow> (u16 \<Rightarrow> u16) option" where
  "lem_store_list m i [] = Some m"
| "lem_store_list m i (w # ws) =
     (if i < 0x10000 then lem_store_list (m(of_nat i := w)) (Suc i) ws else None)"

definition vm_hw_lem1802_mem_dump_default_palette :: "dvm \<Rightarrow> u16 \<Rightarrow> dvm option" where
  "vm_hw_lem1802_mem_dump_default_palette vm pos =
     map_option (\<lambda>m. vm\<lparr>ram := m\<rparr>) (lem_store_list (ram vm) (unat pos) palette_internal)"

definition vm_hw_lem1802_mem_get_palette_color :: "dvm \<Rightarrow> lem1802_hardware \<Rightarrow> u16 \<Rightarrow> rgb option" where
  "vm_hw_lem1802_mem_get_palette_color vm hw idx =
     (if palette_location hw = HW_LEM1802_DEFAULT_PALETTE_LOC
      then Some (vm_hw_lem1802_util_raw2rgb (palette_internal ! unat idx))
      else map_option vm_hw_lem1802_util_raw2rgb
             (lem_ram (ram vm) (unat (palette_location hw) + unat idx)))"

definition vm_hw_lem1802_mem_get_default_palette_color :: "u16 \<Rightarrow> rgb" where
  "vm_hw_lem1802_mem_get_default_palette_color idx =
     vm_hw_lem1802_util_raw2rgb (palette_internal ! unat idx)"

section \<open>Locations\<close>

definition vm_hw_lem1802_mem_get_font :: "lem1802_hardware \<Rightarrow> u16" where
  "vm_hw_lem1802_mem_get_font hw = font_location hw"

definition vm_hw_lem1802_mem_set_screen :: "lem1802_hardware \<Rightarrow> u16 \<Rightarrow> lem1802_hardware" where
  "vm_hw_lem1802_mem_set_screen hw pos =
     (let hw = hw\<lparr>screen_location := pos\<rparr>
      in if pos = 0 then hw\<lparr>screen_location := HW_LEM1802_DISCONNECTED\<rparr> else hw)"

definition vm_hw_lem1802_mem_get_screen :: "lem1802_hardware \<Rightarrow> u16" where
  "vm_hw_lem1802_mem_get_screen hw = screen_location hw"

text \<open>The write hook: which writes make the picture stale.\<close>

definition vm_hw_lem1802_write_flags :: "lem1802_hardware \<Rightarrow> u16 \<Rightarrow> lem1802_hardware" where
  "vm_hw_lem1802_write_flags hw pos =
     (let location_screen = vm_hw_lem1802_mem_get_screen hw;
          location_font = vm_hw_lem1802_mem_get_font hw;
          location_palette = palette_location hw
      in if location_screen \<noteq> HW_LEM1802_DISCONNECTED \<and> pos \<ge> location_screen \<and>
            unat pos \<le> unat location_screen + 0x17F
         then hw\<lparr>screen_was_updated := True\<rparr>
         else if location_font \<noteq> HW_LEM1802_DEFAULT_FONT_LOC \<and> pos \<ge> location_font \<and>
            unat pos < unat location_font + 0x100
         then hw\<lparr>screen_was_updated := True\<rparr>
         else if location_palette \<noteq> HW_LEM1802_DEFAULT_PALETTE_LOC \<and> pos \<ge> location_palette \<and>
            unat pos < unat location_palette + 0x10
         then hw\<lparr>screen_was_updated := True, border_was_updated := True\<rparr>
         else hw)"

definition vm_hw_lem1802_mem_set_font :: "lem1802_hardware \<Rightarrow> u16 \<Rightarrow> lem1802_hardware" where
  "vm_hw_lem1802_mem_set_font hw pos =
     (let hw = hw\<lparr>font_location := pos\<rparr>
      in if font_location hw \<noteq> HW_LEM1802_DEFAULT_FONT_LOC
         then fold (\<lambda>i hw. vm_hw_lem1802_write_flags hw (font_location hw + of_nat i)) [0..<0x100] hw
         else hw)"

section \<open>The default font\<close>

text \<open>One of the two words of a glyph: two columns of the image, the right one in the low byte.\<close>

definition font_word :: "u8 list \<Rightarrow> nat \<Rightarrow> nat \<Rightarrow> u16" where
  "font_word img x_first y_first =
     fold (\<lambda>(shift, x, y) word.
         if unat (img ! HW_LEM1802_FONT_RGB_COOR x y) > 128 then word OR push_bit shift 1 else word)
       (zip [0..<16] [(x, y). x \<leftarrow> [x_first + 1, x_first], y \<leftarrow> [y_first..<y_first + 8]]) 0"

text \<open>The image must cover four rows of glyphs.\<close>

definition vm_hw_lem1802_mem_load_default_font :: "u8 list \<Rightarrow> u16 list option" where
  "vm_hw_lem1802_mem_load_default_font img =
     (if length img < 3 * 128 * 32 then None
      else Some (concat (map (\<lambda>character.
          (let font_row = character div HW_LEM1802_FONT_IMG_COLS;
               font_col = character mod HW_LEM1802_FONT_IMG_COLS;
               x = font_col * HW_LEM1802_FONT_CHAR_ADDRESSABLE_WIDTH;
               y = font_row * HW_LEM1802_FONT_CHAR_ADDRESSABLE_HEIGHT
           in [font_word img x y, font_word img (x + 2) y]))
        [0..<HW_LEM1802_FONT_NUM_CHARS])))"

definition vm_hw_lem1802_mem_get_font_default_representation :: "u16 list \<Rightarrow> nat \<Rightarrow> u32" where
  "vm_hw_lem1802_mem_get_font_default_representation font idx =
     push_bit 16 (ucast (font ! (2 * idx))) + ucast (font ! (2 * idx + 1))"

text \<open>Initial locations, and the default font loaded once.\<close>

definition vm_hw_lem1802_mem_init :: "dvm \<Rightarrow> lem1802_hardware \<Rightarrow> (lem1802_hardware \<times> dvm) option" where
  "vm_hw_lem1802_mem_init vm hw =
     (let hw = hw\<lparr>palette_location := HW_LEM1802_DEFAULT_PALETTE_LOC,
                  font_location := HW_LEM1802_DEFAULT_FONT_LOC,
                  screen_location := HW_LEM1802_DISCONNECTED\<rparr>
      in if font_image (world vm) = None then
           (case embedded_font (world vm) of
              None \<Rightarrow> Some (hw, vm)
            | Some img \<Rightarrow>
                map_option (\<lambda>font.
                    (hw, vm\<lparr>world := (world vm)\<lparr>font_image := Some img, font_default := font\<rparr>\<rparr>))
                  (vm_hw_lem1802_mem_load_default_font img))
         else Some (hw, vm))"

section \<open>Drawing\<close>

definition put_pixel :: "u8 list \<Rightarrow> nat \<Rightarrow> rgb \<Rightarrow> u8 list" where
  "put_pixel t i c = (case c of (r, g, b) \<Rightarrow> t[i := r, i + 1 := g, i + 2 := b])"

text \<open>The pixels of a character in the order of the loops: columns rightwards, rows upwards.\<close>

definition char_coords :: "nat \<Rightarrow> nat \<Rightarrow> (nat \<times> nat) list" where
  "char_coords x0 y0 = [(x, y). x \<leftarrow> [x0..<x0 + 4], y \<leftarrow> rev [y0..<y0 + 8]]"

primrec put_char_pixels ::
    "(nat \<times> nat) list \<Rightarrow> nat \<Rightarrow> u32 \<Rightarrow> bool \<Rightarrow> rgb \<Rightarrow> rgb \<Rightarrow> u8 list \<Rightarrow> u8 list" where
  "put_char_pixels [] shift font show fore back t = t"
| "put_char_pixels (p # ps) shift font show fore back t =
     put_char_pixels ps (shift - 1) font show fore back
       (put_pixel t (HW_LEM1802_SCREEN_RGB_COOR (fst p) (snd p))
         (if bit font shift \<and> show then fore else back))"

definition lem_glyph :: "dvm \<Rightarrow> lem1802_hardware \<Rightarrow> u16 \<Rightarrow> u32 option" where
  "lem_glyph vm hw chr =
     (let fontloc = vm_hw_lem1802_mem_get_font hw
      in if fontloc = HW_LEM1802_DEFAULT_FONT_LOC
         then Some (push_bit 16 (ucast (font_default (world vm) ! (2 * unat chr))) OR
                    ucast (font_default (world vm) ! (2 * unat chr + 1)))
         else do {
           w1 \<leftarrow> lem_ram (ram vm) (unat fontloc + 2 * unat chr);
           w2 \<leftarrow> lem_ram (ram vm) (unat fontloc + 2 * unat chr + 1);
           Some (push_bit 16 (ucast w1) OR ucast w2)
         })"

definition vm_hw_lem1802_mem_put_char_to_screen ::
    "dvm \<Rightarrow> lem1802_hardware \<Rightarrow> u16 \<Rightarrow> nat \<Rightarrow> nat \<Rightarrow> lem1802_hardware option" where
  "vm_hw_lem1802_mem_put_char_to_screen vm hw val screenX screenY = do {
     let fore = drop_bit 12 (val AND 0xF000);
     let back = drop_bit 8 (val AND 0x0F00);
     let chr = val AND 0x007F;
     let blink_bit = drop_bit 7 (val AND 0x0080);
     let show_foreground = (blink_bit AND blink_status hw) OR (1 - blink_bit);
     foreclr \<leftarrow> vm_hw_lem1802_mem_get_palette_color vm hw fore;
     backclr \<leftarrow> vm_hw_lem1802_mem_get_palette_color vm hw back;
     fontval32bit \<leftarrow> lem_glyph vm hw chr;
     let top_left_x = screenX * HW_LEM1802_FONT_CHAR_ADDRESSABLE_WIDTH;
     let top_left_y = screenY * HW_LEM1802_FONT_CHAR_ADDRESSABLE_HEIGHT;
     Some (hw\<lparr>glfw_texture := put_char_pixels (char_coords top_left_x top_left_y) 31 fontval32bit
       (bit show_foreground 0) foreclr backclr (glfw_texture hw)\<rparr>)
   }"

text \<open>The border pixels in the order of the loops.\<close>

definition border_coords :: "(nat \<times> nat) list" where
  "border_coords =
     [(x, y). y \<leftarrow> [0..<6], x \<leftarrow> [0..<140]] @
     [(x, y). y \<leftarrow> [6..<102], x \<leftarrow> [0..<6] @ [134..<140]] @
     [(x, y). y \<leftarrow> [102..<108], x \<leftarrow> [0..<140]]"

definition vm_hw_lem1802_mem_draw_border :: "dvm \<Rightarrow> lem1802_hardware \<Rightarrow> lem1802_hardware option" where
  "vm_hw_lem1802_mem_draw_border vm hw =
     map_option (\<lambda>c. hw\<lparr>glfw_texture :=
         fold (\<lambda>(x, y) t. put_pixel t (HW_LEM1802_TEXTURE_RGB_COOR x y) c) border_coords (glfw_texture hw)\<rparr>)
       (vm_hw_lem1802_mem_get_palette_color vm hw (border_color hw))"

section \<open>Colours\<close>

lemma nibble_17:
  assumes "unat (n :: u16) < 16"
  shows "ucast (drop_bit 4 (ucast (n * 17) :: u8)) = n"
proof -
  have "unat (n * 17) = unat n * 17" using assms by (simp add: unat_word_ariths)
  moreover have "unat (drop_bit 4 (ucast (n * 17) :: u8)) = unat (ucast (n * 17) :: u8) div 16"
    unfolding unat_drop_bit_eq by (simp add: drop_bit_eq_div)
  ultimately have "unat (drop_bit 4 (ucast (n * 17) :: u8)) = unat n"
    using assms by (simp add: unat_ucast_u8)
  then show ?thesis by (simp add: word_unat_eq_iff unat_ucast_u16)
qed

lemma nibble_lt: "unat (drop_bit k (raw :: u16) AND mask 4) < 16"
  by (simp add: unat_and_mask)

text \<open>
  Converting a 12-bit colour to RGB and back is the identity; the top four bits of the
  raw word, which carry no colour, are cleared.
\<close>

theorem colour_round_trip:
  "vm_hw_lem1802_util_rgb2raw (vm_hw_lem1802_util_raw2rgb raw) = raw AND 0x0FFF"
proof -
  have n: "drop_bit 8 (raw AND 0xF00) = drop_bit 8 raw AND mask 4"
    "drop_bit 4 (raw AND 0x0F0) = drop_bit 4 raw AND mask 4"
    "drop_bit 0 (raw AND 0x00F) = drop_bit 0 raw AND mask 4"
    by (simp_all add: drop_bit_and mask_eq_exp_minus_1)
  have m: "(0xfff :: u16) = mask 12" by (simp add: mask_eq_exp_minus_1)
  have "push_bit 8 (drop_bit 8 raw AND mask 4) OR push_bit 4 (drop_bit 4 raw AND mask 4) OR
      (drop_bit 0 raw AND mask 4) = raw AND mask 12"
  proof (rule bit_word_eqI)
    fix n assume "n < LENGTH(16)"
    then consider "n < 4" | "4 \<le> n" "n < 8" | "8 \<le> n" "n < 12" | "12 \<le> n" by linarith
    then show "bit (push_bit 8 (drop_bit 8 raw AND mask 4) OR push_bit 4 (drop_bit 4 raw AND mask 4) OR
        (drop_bit 0 raw AND mask 4)) n = bit (raw AND mask 12) n"
      by cases (auto simp: bit_simps)
  qed
  then show ?thesis
    unfolding vm_hw_lem1802_util_rgb2raw_def vm_hw_lem1802_util_raw2rgb_def n prod.case
      nibble_17 [OF nibble_lt] Let_def m
    by (simp only: or.assoc or.left_neutral)
qed

section \<open>Pixels\<close>

definition get_pixel :: "u8 list \<Rightarrow> nat \<Rightarrow> rgb" where
  "get_pixel t i = (t ! i, t ! (i + 1), t ! (i + 2))"

definition texture_ok :: "u8 list \<Rightarrow> bool" where
  "texture_ok t \<longleftrightarrow> length t = HW_LEM1802_SCREEN_TEXTURE_MEM_SIZE"

text \<open>Drawing a list of pixels, each given by its number and colour.\<close>

definition draw :: "(nat \<times> rgb) list \<Rightarrow> u8 list \<Rightarrow> u8 list" where
  "draw ps t = fold (\<lambda>(p, c) t. put_pixel t (3 * p) c) ps t"

lemma put_pixel_length [simp]: "length (put_pixel t i c) = length t"
  by (simp add: put_pixel_def split: prod.split)

lemma get_put_pixel:
  assumes "texture_ok t" "p < 15120" "q < 15120"
  shows "get_pixel (put_pixel t (3 * p) c) (3 * q) = (if q = p then c else get_pixel t (3 * q))"
  using assms
  by (cases c) (auto simp: get_pixel_def put_pixel_def texture_ok_def nth_list_update)

lemma draw_ok [simp]: "texture_ok (draw ps t) = texture_ok t"
  by (induction ps arbitrary: t) (auto simp: draw_def texture_ok_def split: prod.splits)

lemma draw_append: "draw (ps @ qs) t = draw qs (draw ps t)"
  by (simp add: draw_def)

lemma draw_miss:
  "texture_ok t \<Longrightarrow> \<forall>p \<in> fst ` set ps. p < 15120 \<Longrightarrow> q < 15120 \<Longrightarrow> q \<notin> fst ` set ps \<Longrightarrow>
     get_pixel (draw ps t) (3 * q) = get_pixel t (3 * q)"
proof (induction ps rule: rev_induct)
  case Nil
  then show ?case by (simp add: draw_def)
next
  case (snoc x ps)
  obtain p c where x: "x = (p, c)" by (cases x)
  have "draw (ps @ [x]) t = put_pixel (draw ps t) (3 * p) c" by (simp add: draw_def x)
  with snoc x show ?case by (auto simp: get_put_pixel)
qed

lemma draw_hit:
  "texture_ok t \<Longrightarrow> \<forall>p \<in> fst ` set ps. p < 15120 \<Longrightarrow> (q, c) \<in> set ps \<Longrightarrow>
     \<forall>c'. (q, c') \<in> set ps \<longrightarrow> c' = c \<Longrightarrow> get_pixel (draw ps t) (3 * q) = c"
proof (induction ps rule: rev_induct)
  case Nil
  then show ?case by simp
next
  case (snoc x ps)
  obtain p d where x: "x = (p, d)" by (cases x)
  have dr: "draw (ps @ [x]) t = put_pixel (draw ps t) (3 * p) d" by (simp add: draw_def x)
  have lt: "q < 15120" "p < 15120" using snoc.prems(2,3) x by force+
  have g: "get_pixel (draw (ps @ [x]) t) (3 * q) = (if q = p then d else get_pixel (draw ps t) (3 * q))"
    unfolding dr using lt snoc.prems(1) by (intro get_put_pixel) simp_all
  show ?case
  proof (cases "q = p")
    case True
    then have "(q, d) \<in> set (ps @ [x])" using x by simp
    then have "d = c" using snoc.prems(4) by blast
    with True g show ?thesis by simp
  next
    case False
    then have mem: "(q, c) \<in> set ps" using snoc.prems(3) x by simp
    have "get_pixel (draw ps t) (3 * q) = c"
      by (rule snoc.IH [OF snoc.prems(1) _ mem])
        (use snoc.prems(2,4) in \<open>simp_all del: split_paired_All\<close>)
    with False g show ?thesis by simp
  qed
qed

lemma screen_coor: "HW_LEM1802_SCREEN_RGB_COOR x y = 3 * ((y + 6) * 140 + (x + 6))"
  by (simp add: HW_LEM1802_SCREEN_RGB_COOR_def)

definition char_draw :: "nat \<Rightarrow> nat \<Rightarrow> u32 \<Rightarrow> bool \<Rightarrow> rgb \<Rightarrow> rgb \<Rightarrow> (nat \<times> rgb) list" where
  "char_draw x0 y0 font show fore back =
     map (\<lambda>k. ((y0 + (7 - k mod 8) + 6) * 140 + (x0 + k div 8 + 6),
               if bit font (31 - k) \<and> show then fore else back)) [0..<32]"

lemma put_pixels_draw:
  "put_char_pixels ps s font show fore back t =
     draw (map (\<lambda>k. ((snd (ps ! k) + 6) * 140 + (fst (ps ! k) + 6),
       if bit font (s - k) \<and> show then fore else back)) [0..<length ps]) t"
proof (induction ps arbitrary: s t)
  case Nil
  then show ?case by (simp add: draw_def)
next
  case (Cons p ps)
  then show ?case by (simp add: map_upt_Suc draw_def screen_coor del: upt_Suc)
qed

lemma put_char_draw:
  "put_char_pixels (char_coords x0 y0) 31 font show fore back t =
     draw (char_draw x0 y0 font show fore back) t"
proof -
  have u: "[0..<32] = [0,1,2,3,4,5,6,7,8,9,10,11,12,13,14,15,16,17,18,19,20,21,22,23,24,25,26,27,28,29,30,31::nat]"
    by code_simp
  have "[x0..<x0 + 4] = [x0, x0 + 1, x0 + 2, x0 + 3]"
    "rev [y0..<y0 + 8] = [y0 + 7, y0 + 6, y0 + 5, y0 + 4, y0 + 3, y0 + 2, y0 + 1, y0]"
    by (simp_all add: upt_rec)
  then have c: "char_coords x0 y0 = map (\<lambda>k. (x0 + k div 8, y0 + (7 - k mod 8))) [0..<32]"
    unfolding char_coords_def u by simp
  show ?thesis
    unfolding put_pixels_draw c char_draw_def
    by (intro arg_cong [where f = "\<lambda>ps. draw ps t"] map_cong) simp_all
qed

section \<open>The pixels of a character\<close>

definition pixel_no :: "nat \<Rightarrow> nat \<Rightarrow> nat" where
  "pixel_no x y = (y + 6) * 140 + (x + 6)"

lemma pixel_no_inj:
  assumes "x < 134" "x' < 134"
  shows "pixel_no x y = pixel_no x' y' \<longleftrightarrow> x = x' \<and> y = y'"
proof
  assume e: "pixel_no x y = pixel_no x' y'"
  have row: "(q * 140 + a) mod 140 = a" "(q * 140 + a) div 140 = q" if "a < 140" for q a :: nat
    using that by simp_all
  have "x + 6 < 140" "x' + 6 < 140" using assms by simp_all
  then have "pixel_no x y mod 140 = x + 6" "pixel_no x' y' mod 140 = x' + 6"
    "pixel_no x y div 140 = y + 6" "pixel_no x' y' div 140 = y' + 6"
    unfolding pixel_no_def by (simp_all only: row)
  with e show "x = x' \<and> y = y'" by simp
qed simp

text \<open>What a screen word shows: glyph, whether the foreground is visible, and the two colours.\<close>

definition lem_cell :: "dvm \<Rightarrow> lem1802_hardware \<Rightarrow> u16 \<Rightarrow> (u32 \<times> bool \<times> rgb \<times> rgb) option" where
  "lem_cell vm hw val = do {
     fore \<leftarrow> vm_hw_lem1802_mem_get_palette_color vm hw (drop_bit 12 (val AND 0xF000));
     back \<leftarrow> vm_hw_lem1802_mem_get_palette_color vm hw (drop_bit 8 (val AND 0x0F00));
     font \<leftarrow> lem_glyph vm hw (val AND 0x007F);
     Some (font, bit (drop_bit 7 (val AND 0x0080) AND blink_status hw OR (1 - drop_bit 7 (val AND 0x0080))) 0,
       fore, back)
   }"

lemma put_char_eq:
  "vm_hw_lem1802_mem_put_char_to_screen vm hw val cx cy =
     map_option (\<lambda>(font, show, fore, back).
         hw\<lparr>glfw_texture := draw (char_draw (cx * 4) (cy * 8) font show fore back) (glfw_texture hw)\<rparr>)
       (lem_cell vm hw val)"
  by (simp add: vm_hw_lem1802_mem_put_char_to_screen_def lem_cell_def Let_def put_char_draw
      map_option_bind o_def)

definition cell_colour :: "u32 \<times> bool \<times> rgb \<times> rgb \<Rightarrow> nat \<Rightarrow> nat \<Rightarrow> rgb" where
  "cell_colour cell dx dy =
     (case cell of (font, show, fore, back) \<Rightarrow>
        if bit font (24 - 8 * dx + dy) \<and> show then fore else back)"

definition cell_draw :: "nat \<Rightarrow> nat \<Rightarrow> u32 \<times> bool \<times> rgb \<times> rgb \<Rightarrow> (nat \<times> rgb) list" where
  "cell_draw cx cy cell =
     (case cell of (font, show, fore, back) \<Rightarrow> char_draw (cx * 4) (cy * 8) font show fore back)"

lemma cell_draw_iff:
  "(p, c) \<in> set (cell_draw cx cy cell) \<longleftrightarrow>
     (\<exists>dx < 4. \<exists>dy < 8. p = pixel_no (cx * 4 + dx) (cy * 8 + dy) \<and> c = cell_colour cell dx dy)"
    (is "?l \<longleftrightarrow> ?r")
proof
  obtain font sh fc bc where cell: "cell = (font, sh, fc, bc)" by (cases cell)
  assume ?l
  then obtain k where k: "k < 32" "p = pixel_no (cx * 4 + k div 8) (cy * 8 + (7 - k mod 8))"
      "c = (if bit font (31 - k) \<and> sh then fc else bc)"
    by (auto simp: cell_draw_def char_draw_def cell pixel_no_def add.assoc)
  have "k = 8 * (k div 8) + k mod 8" "k mod 8 < 8" "k div 8 < 4" using k(1) by simp_all
  then have "31 - k = 24 - 8 * (k div 8) + (7 - k mod 8)" by linarith
  with k(3) have c: "c = cell_colour cell (k div 8) (7 - k mod 8)" by (simp add: cell_colour_def cell)
  have "k div 8 < 4" "7 - k mod 8 < 8" using k(1) by simp_all
  with k(2) c show ?r by blast
next
  obtain font sh fc bc where cell: "cell = (font, sh, fc, bc)" by (cases cell)
  assume ?r
  then obtain dx dy where d: "dx < 4" "dy < 8" "p = pixel_no (cx * 4 + dx) (cy * 8 + dy)"
      "c = cell_colour cell dx dy" by blast
  define k where "k = 8 * dx + (7 - dy)"
  have "7 - dy < 8" by simp
  then have m: "k mod 8 = 7 - dy" "k div 8 = dx" unfolding k_def by (simp_all only: mod_mult_self4 div_mult_self4 mod_less div_less)
  then have k: "k < 32" "k div 8 = dx" "7 - k mod 8 = dy" "31 - k = 24 - 8 * dx + dy"
    using d(1,2) by (simp_all add: k_def)
  show ?l
    unfolding cell_draw_def char_draw_def cell prod.case set_map
    by (rule image_eqI [of _ _ k]) (use d(3,4) k in \<open>simp_all add: pixel_no_def cell_colour_def cell\<close>)
qed

lemma cell_pixel:
  assumes "cx < 32" "cy < 12" "cx' < 32" "cy' < 12" "dx < 4" "dx' < 4" "dy < 8" "dy' < 8"
    and "pixel_no (cx * 4 + dx) (cy * 8 + dy) = pixel_no (cx' * 4 + dx') (cy' * 8 + dy')"
  shows "cx = cx' \<and> cy = cy' \<and> dx = dx' \<and> dy = dy'"
proof -
  have "cx * 4 + dx = cx' * 4 + dx' \<and> cy * 8 + dy = cy' * 8 + dy'"
    using assms by (subst pixel_no_inj [symmetric]) auto
  moreover have "a = a' \<and> d = d'" if "a * n + d = a' * n + d'" "d < n" "d' < n" for a a' d d' n :: nat
  proof -
    have "(a * n + d) div n = a" "(a' * n + d') div n = a'" using that(2,3) by simp_all
    with that(1) show ?thesis by auto
  qed
  ultimately show ?thesis using assms(5-8) by blast
qed

end
