(* ===== verification/Hw_Keyboard.thy ===== *)
theory Hw_Keyboard
  imports Hw_World Fifo
begin

text \<open>
  The keyboard (\<^verbatim>\<open>libdcpu-vm/hwkeyboard.c\<close>): a table of pressed keys and a ring buffer of
  typed characters that the program reads one at a time. The window system calls
  \<open>handle_key\<close> and \<open>handle_char\<close>. The ring buffer implements the \<open>bounded_fifo\<close> contract;
  when it is full the oldest character gives way.
\<close>

abbreviation (input) KB_BUFFER_COUNT :: nat where "KB_BUFFER_COUNT \<equiv> 100"
abbreviation (input) KB_PRESSED_COUNT :: int where "KB_PRESSED_COUNT \<equiv> 0x92"
abbreviation (input) KB_INTERRUPT_CLEAR :: u16 where "KB_INTERRUPT_CLEAR \<equiv> 0"
abbreviation (input) KB_INTERRUPT_STORE :: u16 where "KB_INTERRUPT_STORE \<equiv> 1"
abbreviation (input) KB_INTERRUPT_TEST :: u16 where "KB_INTERRUPT_TEST \<equiv> 2"
abbreviation (input) KB_INTERRUPT_MSG :: u16 where "KB_INTERRUPT_MSG \<equiv> 3"
abbreviation (input) KB_KEY_BACKSPACE :: int where "KB_KEY_BACKSPACE \<equiv> 0x10"
abbreviation (input) KB_KEY_ENTER :: int where "KB_KEY_ENTER \<equiv> 0x11"
abbreviation (input) KB_KEY_INSERT :: int where "KB_KEY_INSERT \<equiv> 0x12"
abbreviation (input) KB_KEY_DELETE :: int where "KB_KEY_DELETE \<equiv> 0x13"
abbreviation (input) KB_KEY_UP :: int where "KB_KEY_UP \<equiv> 0x80"
abbreviation (input) KB_KEY_DOWN :: int where "KB_KEY_DOWN \<equiv> 0x81"
abbreviation (input) KB_KEY_LEFT :: int where "KB_KEY_LEFT \<equiv> 0x82"
abbreviation (input) KB_KEY_RIGHT :: int where "KB_KEY_RIGHT \<equiv> 0x83"
abbreviation (input) KB_KEY_SHIFT :: int where "KB_KEY_SHIFT \<equiv> 0x90"
abbreviation (input) KB_KEY_CONTROL :: int where "KB_KEY_CONTROL \<equiv> 0x91"

text \<open>Key codes of the window library.\<close>

abbreviation (input) GLFW_KEY_ENTER :: int where "GLFW_KEY_ENTER \<equiv> 257"
abbreviation (input) GLFW_KEY_BACKSPACE :: int where "GLFW_KEY_BACKSPACE \<equiv> 259"
abbreviation (input) GLFW_KEY_INSERT :: int where "GLFW_KEY_INSERT \<equiv> 260"
abbreviation (input) GLFW_KEY_DELETE :: int where "GLFW_KEY_DELETE \<equiv> 261"
abbreviation (input) GLFW_KEY_RIGHT :: int where "GLFW_KEY_RIGHT \<equiv> 262"
abbreviation (input) GLFW_KEY_LEFT :: int where "GLFW_KEY_LEFT \<equiv> 263"
abbreviation (input) GLFW_KEY_DOWN :: int where "GLFW_KEY_DOWN \<equiv> 264"
abbreviation (input) GLFW_KEY_UP :: int where "GLFW_KEY_UP \<equiv> 265"
abbreviation (input) GLFW_KEY_F8 :: int where "GLFW_KEY_F8 \<equiv> 297"
abbreviation (input) GLFW_KEY_KP_ENTER :: int where "GLFW_KEY_KP_ENTER \<equiv> 335"
abbreviation (input) GLFW_KEY_LEFT_SHIFT :: int where "GLFW_KEY_LEFT_SHIFT \<equiv> 340"
abbreviation (input) GLFW_KEY_LEFT_CONTROL :: int where "GLFW_KEY_LEFT_CONTROL \<equiv> 341"
abbreviation (input) GLFW_KEY_RIGHT_SHIFT :: int where "GLFW_KEY_RIGHT_SHIFT \<equiv> 344"
abbreviation (input) GLFW_KEY_RIGHT_CONTROL :: int where "GLFW_KEY_RIGHT_CONTROL \<equiv> 345"

section \<open>Operations\<close>

definition vm_hw_keyboard_cycle :: "dcode \<Rightarrow> dvm \<Rightarrow> u16 \<Rightarrow> ptr \<Rightarrow> dvm option" where
  "vm_hw_keyboard_cycle e vm pos ud = do {
     hw \<leftarrow> get_keyboard vm ud;
     if pending_interrupt hw then do {
       vm \<leftarrow> (if interrupt_message hw \<noteq> 0 then vm_interrupt e vm (interrupt_message hw) else Some vm);
       hw \<leftarrow> get_keyboard vm ud;
       Some (dev_put vm ud (DKeyboard (hw\<lparr>pending_interrupt := False\<rparr>)))
     } else Some vm
   }"

definition vm_hw_keyboard_append_to_buffer :: "keyboard_hardware \<Rightarrow> int \<Rightarrow> keyboard_hardware" where
  "vm_hw_keyboard_append_to_buffer hw index =
     (if index \<ge> 0 then
        (let hw = hw\<lparr>kb_buffer := (kb_buffer hw)[unat (buffer_idx_w hw) := word_of_int index],
                     buffer_idx_w := buffer_idx_w hw + 1\<rparr>;
             hw = (if unat (buffer_idx_w hw) \<ge> KB_BUFFER_COUNT then hw\<lparr>buffer_idx_w := 0\<rparr> else hw)
         in if buffer_idx_r hw = buffer_idx_w hw then
              (let hw = hw\<lparr>buffer_idx_r := buffer_idx_r hw + 1\<rparr>
               in if unat (buffer_idx_r hw) \<ge> KB_BUFFER_COUNT then hw\<lparr>buffer_idx_r := 0\<rparr> else hw)
            else hw)
      else hw)"

definition vm_hw_keyboard_handle_char :: "dvm \<Rightarrow> int \<Rightarrow> dvm option" where
  "vm_hw_keyboard_handle_char vm c =
     (if 0 \<le> c \<and> c < KB_PRESSED_COUNT then do {
        let p = g_hw (world vm);
        hw \<leftarrow> get_keyboard vm p;
        Some (dev_put vm p (DKeyboard (vm_hw_keyboard_append_to_buffer hw c)))
      } else Some vm)"

text \<open>\<open>pressed[index] = key_state\<close>; a negative index is outside the table.\<close>

definition kb_set_pressed :: "keyboard_hardware \<Rightarrow> int \<Rightarrow> bool \<Rightarrow> keyboard_hardware option" where
  "kb_set_pressed hw i v =
     (if 0 \<le> i \<and> i < KB_PRESSED_COUNT then Some (hw\<lparr>pressed := (pressed hw)[nat i := v]\<rparr>) else None)"

definition c_tolower :: "int \<Rightarrow> int" where
  "c_tolower c = (if 65 \<le> c \<and> c \<le> 90 then c + 32 else c)"

text \<open>The \<open>switch\<close>: the keyboard and machine after it, and the key's index.\<close>

definition kb_handle_switch ::
    "dvm \<Rightarrow> keyboard_hardware \<Rightarrow> int \<Rightarrow> bool \<Rightarrow> (int \<times> keyboard_hardware \<times> dvm) option" where
  "kb_handle_switch vm hw key ks =
     (let plain = (\<lambda>k. map_option (\<lambda>hw. (k, hw, vm)) (kb_set_pressed hw k ks)) in
      if key = GLFW_KEY_BACKSPACE then plain KB_KEY_BACKSPACE
      else if key = GLFW_KEY_KP_ENTER \<or> key = GLFW_KEY_ENTER then plain KB_KEY_ENTER
      else if key = GLFW_KEY_INSERT then plain KB_KEY_INSERT
      else if key = GLFW_KEY_DELETE then plain KB_KEY_DELETE
      else if key = GLFW_KEY_UP then plain KB_KEY_UP
      else if key = GLFW_KEY_DOWN then plain KB_KEY_DOWN
      else if key = GLFW_KEY_LEFT then plain KB_KEY_LEFT
      else if key = GLFW_KEY_RIGHT then plain KB_KEY_RIGHT
      else if key = GLFW_KEY_LEFT_CONTROL then
        (let hw = hw\<lparr>control_left := ks\<rparr>
         in map_option (\<lambda>hw. (KB_KEY_CONTROL, hw, vm))
              (kb_set_pressed hw KB_KEY_CONTROL (control_left hw \<or> control_right hw)))
      else if key = GLFW_KEY_RIGHT_CONTROL then
        (let hw = hw\<lparr>control_right := ks\<rparr>
         in map_option (\<lambda>hw. (KB_KEY_CONTROL, hw, vm))
              (kb_set_pressed hw KB_KEY_CONTROL (control_left hw \<or> control_right hw)))
      else if key = GLFW_KEY_LEFT_SHIFT then
        (let hw = hw\<lparr>shift_left := ks\<rparr>
         in map_option (\<lambda>hw. (KB_KEY_SHIFT, hw, vm))
              (kb_set_pressed hw KB_KEY_SHIFT (shift_left hw \<or> shift_right hw)))
      else if key = GLFW_KEY_RIGHT_SHIFT then
        (let hw = hw\<lparr>shift_right := ks\<rparr>
         in map_option (\<lambda>hw. (KB_KEY_SHIFT, hw, vm))
              (kb_set_pressed hw KB_KEY_SHIFT (shift_left hw \<or> shift_right hw)))
      else if key = GLFW_KEY_F8 then
        Some (0, hw, if ks then vm\<lparr>radiation := \<not> radiation vm\<rparr> else vm)
      else do {
        hw \<leftarrow> (if key < KB_PRESSED_COUNT then kb_set_pressed hw key ks else Some hw);
        hw \<leftarrow> (if c_tolower key < KB_PRESSED_COUNT then kb_set_pressed hw (c_tolower key) ks else Some hw);
        Some (key, hw, vm)
      })"

definition vm_hw_keyboard_handle_key :: "dvm \<Rightarrow> int \<Rightarrow> int \<Rightarrow> dvm option" where
  "vm_hw_keyboard_handle_key vm key state = do {
     let key_state = (state \<noteq> 0);
     let p = g_hw (world vm);
     hw \<leftarrow> get_keyboard vm p;
     (index, hw, vm) \<leftarrow> kb_handle_switch vm hw key key_state;
     let hw = (if key_state \<and> (index < 0x20 \<or> index > 0x7f) \<and> index < KB_PRESSED_COUNT
               then vm_hw_keyboard_append_to_buffer hw index else hw);
     let hw = (if interrupt_message hw \<noteq> 0 then hw\<lparr>pending_interrupt := True\<rparr> else hw);
     Some (dev_put vm p (DKeyboard hw))
   }"

text \<open>Reading one character (the \<open>STORE\<close> request).\<close>

definition kb_take :: "keyboard_hardware \<Rightarrow> u16 \<times> keyboard_hardware" where
  "kb_take hw =
     (if buffer_idx_r hw = buffer_idx_w hw then (0, hw)
      else
        (let c = kb_buffer hw ! unat (buffer_idx_r hw);
             hw = hw\<lparr>buffer_idx_r := buffer_idx_r hw + 1\<rparr>;
             hw = (if unat (buffer_idx_r hw) \<ge> KB_BUFFER_COUNT then hw\<lparr>buffer_idx_r := 0\<rparr> else hw)
         in (c, hw)))"

definition vm_hw_keyboard_interrupt :: "dvm \<Rightarrow> ptr \<Rightarrow> dvm option" where
  "vm_hw_keyboard_interrupt vm ud = do {
     hw \<leftarrow> get_keyboard vm ud;
     if reg_get vm REG_A = KB_INTERRUPT_CLEAR then
       Some (dev_put vm ud (DKeyboard (hw\<lparr>kb_buffer := replicate KB_BUFFER_COUNT 0\<rparr>)))
     else if reg_get vm REG_A = KB_INTERRUPT_STORE then
       (let (c, hw) = kb_take hw in Some (dev_put (reg_set vm REG_C c) ud (DKeyboard hw)))
     else if reg_get vm REG_A = KB_INTERRUPT_TEST then
       (let b = uint (reg_get vm REG_B) in
        if b > 0 \<and> b \<le> KB_PRESSED_COUNT then
          (if b < KB_PRESSED_COUNT
           then Some (reg_set vm REG_C (of_bool (pressed hw ! nat b))) else None)
        else Some (reg_set vm REG_C 0))
     else if reg_get vm REG_A = KB_INTERRUPT_MSG then
       Some (dev_put vm ud (DKeyboard (hw\<lparr>interrupt_message := reg_get vm REG_B\<rparr>)))
     else Some vm
   }"

text \<open>
  Initialisation. The structure and its buffer come from \<open>malloc\<close>: \<open>junk\<close> is what that
  memory held, and the pending flag and the buffer keep it.
\<close>

definition vm_hw_keyboard_init :: "keyboard_hardware \<Rightarrow> dvm \<Rightarrow> dvm" where
  "vm_hw_keyboard_init junk vm =
     (let hw = junk\<lparr>buffer_idx_w := 0, buffer_idx_r := 0, pressed := replicate 0x92 False,
                    control_left := False, control_right := False, shift_left := False,
                    shift_right := False, interrupt_message := 0, lowercase := True\<rparr>;
          (ud, vm) = dev_alloc vm (DKeyboard hw);
          (cycle_id, vm) = vm_hook_register vm FN_keyboard_cycle HOOK_ON_POST_CYCLE ud;
          device = \<lparr>hw_device_id = 0x30cf7406, hw_version = 1, hw_manufacturer = 0,
                    hw_handler = Some FN_keyboard_interrupt, hw_free_handler = None,
                    hw_userdata = ud\<rparr>;
          (hw_id, vm) = vm_hw_register vm device;
          vm = dev_put vm ud (DKeyboard (hw\<lparr>kb_cycle_id := cycle_id, kb_hw_id := hw_id\<rparr>))
      in vm\<lparr>world := (world vm)\<lparr>g_hw := ud\<rparr>\<rparr>)"

section \<open>The ring buffer is a bounded first-in first-out buffer\<close>

definition kb_wf :: "keyboard_hardware \<Rightarrow> bool" where
  "kb_wf hw \<longleftrightarrow> length (kb_buffer hw) = KB_BUFFER_COUNT \<and> length (pressed hw) = 0x92 \<and>
     unat (buffer_idx_r hw) < KB_BUFFER_COUNT \<and> unat (buffer_idx_w hw) < KB_BUFFER_COUNT"

text \<open>Ring arithmetic on indices below 100.\<close>

definition ring_len :: "nat \<Rightarrow> nat \<Rightarrow> nat" where
  "ring_len r w = (if r \<le> w then w - r else w + 100 - r)"

definition ring_idx :: "nat \<Rightarrow> nat \<Rightarrow> nat" where
  "ring_idx r i = (if r + i < 100 then r + i else r + i - 100)"

definition ring_next :: "nat \<Rightarrow> nat" where
  "ring_next i = (if i + 1 < 100 then i + 1 else 0)"

definition ring_items :: "u16 list \<Rightarrow> nat \<Rightarrow> nat \<Rightarrow> u16 list" where
  "ring_items buf r w = map (\<lambda>i. buf ! ring_idx r i) [0..<ring_len r w]"

lemmas ring_defs = ring_len_def ring_idx_def ring_next_def

lemma ring_push:
  assumes "length buf = 100" "r < 100" "w < 100" "ring_next w \<noteq> r"
  shows "ring_items (buf[w := x]) r (ring_next w) = ring_items buf r w @ [x]"
proof -
  have len: "ring_len r (ring_next w) = Suc (ring_len r w)"
    using assms(2-4) by (auto simp: ring_defs split: if_splits)
  have "ring_idx r (ring_len r w) = w" using assms(2,3) by (auto simp: ring_defs)
  moreover have "buf[w := x] ! ring_idx r i = buf ! ring_idx r i" if "i < ring_len r w" for i
  proof -
    have "w \<noteq> ring_idx r i"
      using that assms(2,3) by (auto simp: ring_defs split: if_splits)
    then show ?thesis by (rule nth_list_update_neq)
  qed
  ultimately show ?thesis
    using assms(1,3) by (auto simp: ring_items_def len)
qed

lemma ring_pop:
  assumes "r < 100" "w < 100" "r \<noteq> w"
  shows "ring_items buf r w = buf ! r # ring_items buf (ring_next r) w"
proof -
  have len: "ring_len r w = Suc (ring_len (ring_next r) w)"
    using assms by (auto simp: ring_defs split: if_splits)
  have "ring_idx r (Suc i) = ring_idx (ring_next r) i" if "i < ring_len (ring_next r) w" for i
    using that assms(1,2) by (auto simp: ring_defs split: if_splits)
  moreover have "ring_idx r 0 = r" using assms(1) by (simp add: ring_idx_def)
  ultimately show ?thesis
    unfolding ring_items_def len by (auto simp: map_upt_Suc simp del: upt_Suc)
qed

lemma ring_full:
  assumes "length buf = 100" "r < 100" "w < 100" "ring_next w = r"
  shows "ring_items (buf[w := x]) (ring_next r) r = tl (ring_items buf r w) @ [x]"
proof -
  have ne: "r \<noteq> w" and n: "ring_next r < 100" "ring_next w \<noteq> ring_next r"
    using assms(2-4) by (auto simp: ring_defs split: if_splits)
  have "tl (ring_items buf r w) = ring_items buf (ring_next r) w"
    using ring_pop [OF assms(2,3) ne] by simp
  with ring_push [OF assms(1) n(1) assms(3) n(2)] assms(4) show ?thesis by simp
qed

definition kb_items :: "keyboard_hardware \<Rightarrow> u16 list" where
  "kb_items hw = ring_items (kb_buffer hw) (unat (buffer_idx_r hw)) (unat (buffer_idx_w hw))"

lemma unat_next:
  assumes "unat i < 100"
  shows "unat (if unat (i + 1) \<ge> 100 then 0 else i + 1 :: u16) = ring_next (unat i)"
proof -
  have "unat (i + 1) = unat i + 1" using assms by (simp add: unat_word_ariths)
  then show ?thesis by (simp add: ring_next_def)
qed

lemma ring_next_lt [simp]: "ring_next i < 100"
  by (simp add: ring_next_def)

text \<open>What appending a character does to the structure, with the wrap-around resolved.\<close>

lemma append_fields:
  assumes "kb_wf hw" and "0 \<le> c" and "hw' = vm_hw_keyboard_append_to_buffer hw c"
  shows "kb_buffer hw' = (kb_buffer hw)[unat (buffer_idx_w hw) := word_of_int c]"
    and "unat (buffer_idx_w hw') = ring_next (unat (buffer_idx_w hw))"
    and "unat (buffer_idx_r hw') = (if ring_next (unat (buffer_idx_w hw)) = unat (buffer_idx_r hw)
      then ring_next (unat (buffer_idx_r hw)) else unat (buffer_idx_r hw))"
    and "pressed hw' = pressed hw" and "interrupt_message hw' = interrupt_message hw"
proof -
  let ?w = "buffer_idx_w hw" and ?r = "buffer_idx_r hw"
  define nw where "nw = (if unat (?w + 1) \<ge> 100 then 0 else ?w + 1)"
  define nr where "nr = (if unat (?r + 1) \<ge> 100 then 0 else ?r + 1)"
  have unw: "unat nw = ring_next (unat ?w)" and unr: "unat nr = ring_next (unat ?r)"
    using assms(1) unfolding kb_wf_def nw_def nr_def by (simp_all only: unat_next)
  have f: "hw' = hw\<lparr>kb_buffer := (kb_buffer hw)[unat ?w := word_of_int c], buffer_idx_w := nw,
      buffer_idx_r := if ?r = nw then nr else ?r\<rparr>"
    using assms(2) unfolding assms(3) vm_hw_keyboard_append_to_buffer_def Let_def
    nw_def nr_def by (cases hw) auto
  show "kb_buffer hw' = (kb_buffer hw)[unat ?w := word_of_int c]" "pressed hw' = pressed hw"
    "interrupt_message hw' = interrupt_message hw"
    by (simp_all add: f)
  show "unat (buffer_idx_w hw') = ring_next (unat ?w)"
    using unw by (simp add: f)
  have "?r = nw \<longleftrightarrow> ring_next (unat ?w) = unat ?r"
    unfolding word_unat_eq_iff unw by auto
  moreover have "buffer_idx_r hw' = (if ?r = nw then nr else ?r)" by (simp add: f)
  ultimately show "unat (buffer_idx_r hw') = (if ring_next (unat ?w) = unat ?r
      then ring_next (unat ?r) else unat ?r)"
    using unr by simp
qed

lemma append_wf: "kb_wf hw \<Longrightarrow> kb_wf (vm_hw_keyboard_append_to_buffer hw c)"
  using append_fields [OF _ _ refl, of hw c]
  by (cases "0 \<le> c") (auto simp: kb_wf_def vm_hw_keyboard_append_to_buffer_def)

lemma kb_items_bound: "kb_wf hw \<Longrightarrow> length (kb_items hw) \<le> 99"
  by (auto simp: kb_items_def ring_items_def ring_len_def kb_wf_def)

lemma kb_items_full_iff:
  "kb_wf hw \<Longrightarrow> length (kb_items hw) = 99 \<longleftrightarrow> ring_next (unat (buffer_idx_w hw)) = unat (buffer_idx_r hw)"
  by (auto simp: kb_items_def ring_items_def ring_defs kb_wf_def)

lemma append_items:
  assumes "kb_wf hw" and "0 \<le> c"
  shows "kb_items (vm_hw_keyboard_append_to_buffer hw c) =
    (if length (kb_items hw) < 99 then kb_items hw else tl (kb_items hw)) @ [word_of_int c]"
proof -
  have wf: "length (kb_buffer hw) = 100" "unat (buffer_idx_r hw) < 100" "unat (buffer_idx_w hw) < 100"
    using assms(1) by (simp_all add: kb_wf_def)
  note f = append_fields [OF assms refl]
  show ?thesis
  proof (cases "ring_next (unat (buffer_idx_w hw)) = unat (buffer_idx_r hw)")
    case True
    with kb_items_full_iff [OF assms(1)] ring_full [OF wf True] f(1-3) show ?thesis
      by (simp add: kb_items_def)
  next
    case False
    with kb_items_full_iff [OF assms(1)] kb_items_bound [OF assms(1)] ring_push [OF wf False] f(1-3)
    show ?thesis by (simp add: kb_items_def)
  qed
qed

lemma take_items:
  assumes "kb_wf hw"
  shows "kb_wf (snd (kb_take hw))"
    and "kb_items hw = x # xs \<Longrightarrow> fst (kb_take hw) = x \<and> kb_items (snd (kb_take hw)) = xs"
    and "kb_items hw = [] \<Longrightarrow> kb_take hw = (0, hw)"
proof -
  let ?r = "buffer_idx_r hw" and ?w = "buffer_idx_w hw"
  have wf: "unat ?r < 100" "unat ?w < 100" using assms by (simp_all add: kb_wf_def)
  have nr: "unat (if unat (?r + 1) \<ge> 100 then 0 else ?r + 1) = ring_next (unat ?r)"
    using wf(1) by (rule unat_next)
  have t: "kb_take hw = (kb_buffer hw ! unat ?r, hw\<lparr>buffer_idx_r := if unat (?r + 1) \<ge> 100 then 0 else ?r + 1\<rparr>)"
    if "?r \<noteq> ?w"
    using that by (simp add: kb_take_def)
  show "kb_wf (snd (kb_take hw))"
    using assms t nr by (cases "?r = ?w") (auto simp: kb_take_def kb_wf_def)
  have e: "kb_items hw = [] \<longleftrightarrow> ?r = ?w"
    using wf by (auto simp: kb_items_def ring_items_def ring_len_def word_unat_eq_iff)
  then show "kb_items hw = [] \<Longrightarrow> kb_take hw = (0, hw)" by (simp add: kb_take_def)
  assume x: "kb_items hw = x # xs"
  with e have "?r \<noteq> ?w" by auto
  with x t nr ring_pop [OF wf] show "fst (kb_take hw) = x \<and> kb_items (snd (kb_take hw)) = xs"
    by (simp add: kb_items_def word_unat_eq_iff)
qed

definition kb_put :: "keyboard_hardware \<Rightarrow> u16 \<Rightarrow> keyboard_hardware" where
  "kb_put hw c = vm_hw_keyboard_append_to_buffer hw (uint c)"

interpretation kb: bounded_fifo kb_items kb_wf 99 kb_put kb_take
proof
  fix hw c x xs
  assume wf: "kb_wf hw"
  show "length (kb_items hw) \<le> 99" using wf by (rule kb_items_bound)
  show "kb_wf (kb_put hw c)" using wf by (simp add: kb_put_def append_wf)
  show "kb_items (kb_put hw c) = kb_items hw @ [c]" if "length (kb_items hw) < 99"
    using append_items [OF wf] that by (simp add: kb_put_def)
  show "fst (kb_take hw) = x \<and> kb_items (snd (kb_take hw)) = xs" if "kb_items hw = x # xs"
    using take_items(2) [OF wf that] .
  show "kb_wf (snd (kb_take hw))" if "kb_items hw \<noteq> []"
    using wf by (rule take_items(1))
qed

section \<open>Typing and reading\<close>

primrec kb_type :: "int list \<Rightarrow> dvm \<Rightarrow> dvm option" where
  "kb_type [] vm = Some vm"
| "kb_type (c # cs) vm = vm_hw_keyboard_handle_char vm c \<bind> kb_type cs"

text \<open>The program's reading loop: request \<open>STORE\<close> and look at C.\<close>

primrec kb_read :: "nat \<Rightarrow> ptr \<Rightarrow> dvm \<Rightarrow> (u16 list \<times> dvm) option" where
  "kb_read 0 ud vm = Some ([], vm)"
| "kb_read (Suc n) ud vm = do {
     vm \<leftarrow> vm_hw_keyboard_interrupt (reg_set vm REG_A KB_INTERRUPT_STORE) ud;
     (xs, vm') \<leftarrow> kb_read n ud vm;
     Some (reg_get vm REG_C # xs, vm')
   }"

text \<open>The last \<open>n\<close> elements.\<close>

definition lastn :: "nat \<Rightarrow> 'a list \<Rightarrow> 'a list" where
  "lastn n xs = drop (length xs - n) xs"

lemma put_all_items:
  "kb_wf hw \<Longrightarrow> kb_wf (enq_all kb_put xs hw) \<and> kb_items (enq_all kb_put xs hw) = lastn 99 (kb_items hw @ xs)"
proof (induction xs arbitrary: hw)
  case Nil
  then show ?case using kb_items_bound [of hw] by (simp add: lastn_def)
next
  case (Cons x xs)
  have i: "kb_items (kb_put hw x) = (if length (kb_items hw) < 99 then kb_items hw else tl (kb_items hw)) @ [x]"
    using append_items [OF Cons.prems, of "uint x"] by (simp add: kb_put_def)
  have "lastn 99 (kb_items (kb_put hw x) @ xs) = lastn 99 (kb_items hw @ x # xs)"
  proof (cases "length (kb_items hw) < 99")
    case True
    then show ?thesis by (simp add: i)
  next
    case False
    then obtain y ys where y: "kb_items hw = y # ys" "length ys = 98"
      using kb_items_bound [OF Cons.prems] by (cases "kb_items hw") auto
    with False show ?thesis by (simp add: i lastn_def)
  qed
  with Cons show ?case by (simp add: kb_put_def append_wf)
qed

lemma type_eq:
  assumes "get_keyboard vm (g_hw (world vm)) = Some hw" and "\<forall>c \<in> set cs. 0 \<le> c \<and> c < 0x92"
  shows "kb_type cs vm =
    Some (dev_put vm (g_hw (world vm)) (DKeyboard (enq_all kb_put (map word_of_int cs) hw)))"
  using assms
proof (induction cs arbitrary: vm hw)
  case Nil
  then show ?case by (simp add: dev_put_same get_iff)
next
  case (Cons c cs)
  let ?p = "g_hw (world vm)" and ?hw = "vm_hw_keyboard_append_to_buffer hw c"
  have c: "0 \<le> c" "c < 0x92" using Cons.prems(2) by simp_all
  have "uint (word_of_int c :: u16) = c" using c by (simp add: unsigned_of_int take_bit_int_eq_self)
  then have "?hw = kb_put hw (word_of_int c)" by (simp add: kb_put_def)
  moreover have "vm_hw_keyboard_handle_char vm c = Some (dev_put vm ?p (DKeyboard ?hw))"
    using c Cons.prems(1) by (simp add: vm_hw_keyboard_handle_char_def)
  ultimately show ?case
    using Cons.IH [of "dev_put vm ?p (DKeyboard ?hw)" ?hw] Cons.prems(2) by simp
qed

lemma store_request:
  assumes "vm_wf vm" and "get_keyboard vm ud = Some hw"
  shows "\<exists>vm'. vm_hw_keyboard_interrupt (reg_set vm REG_A KB_INTERRUPT_STORE) ud = Some vm' \<and>
    vm_wf vm' \<and> get_keyboard vm' ud = Some (snd (kb_take hw)) \<and> reg_get vm' REG_C = fst (kb_take hw)"
proof -
  let ?v = "reg_set vm REG_A KB_INTERRUPT_STORE"
  let ?w = "dev_put (reg_set ?v REG_C (fst (kb_take hw))) ud (DKeyboard (snd (kb_take hw)))"
  have "get_keyboard ?v ud = Some hw" using assms(2) by (simp add: get_iff)
  then have "vm_hw_keyboard_interrupt ?v ud = Some ?w"
    using assms(1) by (simp add: vm_hw_keyboard_interrupt_def split_def Let_def)
  moreover have "reg_get ?w REG_C = fst (kb_take hw)"
    using vm_wf_lengths(1) [OF assms(1)] by (simp add: reg_get_def reg_set_def)
  ultimately show ?thesis using assms(1) by simp
qed

lemma read_all:
  assumes "vm_wf vm" and "get_keyboard vm ud = Some hw" and "kb_wf hw"
  shows "\<exists>vm'. kb_read (Suc (length (kb_items hw))) ud vm = Some (kb_items hw @ [0], vm')"
  using assms
proof (induction "length (kb_items hw)" arbitrary: vm hw)
  case 0
  then have "kb_take hw = (0, hw)" using take_items(3) [OF 0(4)] by simp
  with store_request [OF 0(2,3)] show ?case using 0(1) by force
next
  case (Suc n)
  then obtain x xs where x: "kb_items hw = x # xs" by (cases "kb_items hw") auto
  note t = take_items(1,2) [OF Suc.prems(3)]
  obtain vm' where v: "vm_hw_keyboard_interrupt (reg_set vm REG_A KB_INTERRUPT_STORE) ud = Some vm'"
      "vm_wf vm'" "get_keyboard vm' ud = Some (snd (kb_take hw))" "reg_get vm' REG_C = x"
    using store_request [OF Suc.prems(1,2)] t(2) [OF x] by auto
  have xs: "kb_items (snd (kb_take hw)) = xs" using t(2) [OF x] by simp
  have "\<exists>vm''. kb_read (Suc (length xs)) ud vm' = Some (xs @ [0], vm'')"
    using Suc.hyps(1) [OF _ v(2,3) t(1)] Suc.hyps(2) x xs by simp
  then obtain vm'' where "kb_read (Suc (length xs)) ud vm' = Some (xs @ [0], vm'')" ..
  then show ?case using v x by (simp del: kb_read.simps(2) add: kb_read.simps(2) [of "Suc (length xs)"])
qed

text \<open>
  C10. Characters reach the program in the order they were typed: from an empty buffer, after
  any sequence of characters in the accepted range, the program reads exactly the last 99 of
  them (all of them when there are at most 99), oldest first, and then the value 0 that
  means no character is waiting.
\<close>

theorem keyboard_in_order:
  assumes "vm_wf vm" and "get_keyboard vm (g_hw (world vm)) = Some hw" and "kb_wf hw"
    and "kb_items hw = []" and "\<forall>c \<in> set cs. 0 \<le> c \<and> c < 0x92"
  shows "\<exists>vm1 vm2. kb_type cs vm = Some vm1 \<and>
    kb_read (min 99 (length cs) + 1) (g_hw (world vm)) vm1 = Some (map word_of_int (lastn 99 cs) @ [0], vm2)"
proof -
  let ?p = "g_hw (world vm)" and ?hw = "enq_all kb_put (map word_of_int cs) hw"
  have i: "kb_wf ?hw" "kb_items ?hw = map word_of_int (lastn 99 cs)"
    using put_all_items [OF assms(3), of "map word_of_int cs"] assms(4)
    by (simp_all add: lastn_def drop_map)
  have "length (lastn 99 cs) = min 99 (length cs)" by (simp add: lastn_def)
  moreover obtain vm2 where "kb_read (Suc (length (kb_items ?hw))) ?p (dev_put vm ?p (DKeyboard ?hw)) =
      Some (kb_items ?hw @ [0], vm2)"
    using read_all [of "dev_put vm ?p (DKeyboard ?hw)" ?p ?hw] assms(1) i(1) by auto
  ultimately show ?thesis
    using type_eq [OF assms(2,5)] i(2) by auto
qed

definition kb_blank :: keyboard_hardware where
  "kb_blank = \<lparr>kb_hw_id = 0, kb_buffer = replicate 100 0, buffer_idx_r = 0, buffer_idx_w = 0,
     pressed = replicate 0x92 False, control_left = False, control_right = False,
     shift_left = False, shift_right = False, kb_cycle_id = 0, pending_interrupt = False,
     interrupt_message = 0, lowercase = True\<rparr>"

definition kb_world :: hw_world where
  "kb_world = \<lparr>hw_heap = (\<lambda>_. None)(7 := Some (DKeyboard kb_blank)),
     next_ptr = 8, g_hw = 7, iio = iio_initial, host_big = False, files = (\<lambda>_. None),
     font_image = None, font_default = replicate 256 0, embedded_font = None\<rparr>"

theorem keyboard_in_order_witness:
  "\<exists>vm1 vm2. kb_type [72, 105] (vm_create kb_world) = Some vm1 \<and>
     kb_read 3 7 vm1 = Some ([72, 105, 0], vm2)"
proof -
  let ?vm = "vm_create kb_world"
  have g: "g_hw (world ?vm) = 7" "get_keyboard ?vm (g_hw (world ?vm)) = Some kb_blank"
    by (simp_all add: get_iff dev_get_def vm_create_fields kb_world_def)
  have k: "kb_wf kb_blank" "kb_items kb_blank = []"
    by (simp_all add: kb_wf_def kb_blank_def kb_items_def ring_items_def ring_len_def)
  show ?thesis
    using keyboard_in_order [OF vm_wf_create g(2) k, of "[72, 105]"] g(1)
    by (simp add: lastn_def numeral_3_eq_3)
qed

section \<open>Well-formedness\<close>

lemma keyboard_wf:
  assumes "callbacks e" and "vm_wf vm"
  shows "pred_option vm_wf (vm_hw_keyboard_cycle e vm pos ud)"
    and "pred_option vm_wf (vm_hw_keyboard_interrupt vm ud)"
    and "vm_wf (vm_hw_keyboard_init junk vm)"
proof -
  show "pred_option vm_wf (vm_hw_keyboard_cycle e vm pos ud)"
    using assms(2)
    by (auto simp: vm_hw_keyboard_cycle_def intro!: pred_optionI elim!: bind_eq_SomeE split: if_splits
        dest!: pred_option_SomeD [OF callbacks.interrupt_wf [OF assms(1)], rotated])
  show "pred_option vm_wf (vm_hw_keyboard_interrupt vm ud)"
    using assms(2)
    by (cases "get_keyboard vm ud") (simp_all add: vm_hw_keyboard_interrupt_def Let_def split_def)
  show "vm_wf (vm_hw_keyboard_init junk vm)"
    using assms(2)
    by (simp add: vm_hw_keyboard_init_def Let_def split_def vm_wf_hook_register vm_wf_hw_register)
qed

end
