(* ===== verification/Hw_Lem1802.thy ===== *)
theory Hw_Lem1802
  imports Hw_Lem1802_Mem Hw_Keyboard
begin

text \<open>
  The LEM1802 display (\<^verbatim>\<open>libdcpu-vm/hwlem1802.c\<close>): its hooks, its interrupt and its
  initialisation. Flags record which parts of the picture a write made stale, and the 60 Hz
  hook redraws those parts into the texture.

  The window system and the graphics library only receive the texture; of their calls the
  model keeps the reset of \<open>texture_has_changed\<close>. Memory that \<open>malloc\<close> returns is a parameter.
\<close>

abbreviation (input) LEM1802_ID :: u32 where "LEM1802_ID \<equiv> 0x7349F615"
abbreviation (input) LEM1802_VERSION :: u16 where "LEM1802_VERSION \<equiv> 0x1802"
abbreviation (input) LEM1802_MANUFACTURER :: u32 where "LEM1802_MANUFACTURER \<equiv> 0x1C6C8B36"
abbreviation (input) LEM1802_MEM_MAP_SCREEN :: u16 where "LEM1802_MEM_MAP_SCREEN \<equiv> 0"
abbreviation (input) LEM1802_MEM_MAP_FONT :: u16 where "LEM1802_MEM_MAP_FONT \<equiv> 1"
abbreviation (input) LEM1802_MEM_MAP_PALETTE :: u16 where "LEM1802_MEM_MAP_PALETTE \<equiv> 2"
abbreviation (input) LEM1802_SET_BORDER_COLOR :: u16 where "LEM1802_SET_BORDER_COLOR \<equiv> 3"
abbreviation (input) LEM1802_MEM_DUMP_FONT :: u16 where "LEM1802_MEM_DUMP_FONT \<equiv> 4"
abbreviation (input) LEM1802_MEM_DUMP_PALETTE :: u16 where "LEM1802_MEM_DUMP_PALETTE \<equiv> 5"

section \<open>Operations\<close>

definition vm_hw_lem1802_write :: "dvm \<Rightarrow> u16 \<Rightarrow> ptr \<Rightarrow> dvm option" where
  "vm_hw_lem1802_write vm pos ud = do {
     hw \<leftarrow> get_lem vm ud;
     Some (dev_put vm ud (DLem (vm_hw_lem1802_write_flags hw pos)))
   }"

definition vm_hw_lem1802_set_border :: "lem1802_hardware \<Rightarrow> u16 \<Rightarrow> lem1802_hardware" where
  "vm_hw_lem1802_set_border hw idx = hw\<lparr>border_color := idx AND 0xF, border_was_updated := True\<rparr>"

definition vm_hw_lem1802_glfw_draw :: "dvm \<Rightarrow> lem1802_hardware \<Rightarrow> lem1802_hardware" where
  "vm_hw_lem1802_glfw_draw vm hw =
     (if host vm \<noteq> None
      then (if texture_has_changed hw then hw\<lparr>texture_has_changed := False\<rparr> else hw)
      else hw)"

text \<open>
  The screen words in the order of the loop. Its counter is 16 bits wide and is compared
  with the \<open>int\<close> \<open>location_screen + 0x17F\<close>: from 0xFE80 on the comparison never fails, and
  the loop does not end.
\<close>

primrec lem_draw_cells :: "dvm \<Rightarrow> nat list \<Rightarrow> lem1802_hardware \<Rightarrow> lem1802_hardware option" where
  "lem_draw_cells vm [] hw = Some hw"
| "lem_draw_cells vm (i # is) hw = do {
     hw \<leftarrow> vm_hw_lem1802_mem_put_char_to_screen vm hw (ram vm (screen_location hw + of_nat i))
       (i mod HW_LEM1802_SCREEN_WIDTH) (i div HW_LEM1802_SCREEN_WIDTH);
     lem_draw_cells vm is hw
   }"

definition lem_update_border :: "dvm \<Rightarrow> lem1802_hardware \<Rightarrow> lem1802_hardware option" where
  "lem_update_border vm hw =
     (if border_was_updated hw
      then map_option (\<lambda>hw. hw\<lparr>border_was_updated := False, texture_has_changed := True\<rparr>)
        (vm_hw_lem1802_mem_draw_border vm hw)
      else Some hw)"

definition vm_hw_lem1802_update_texture :: "dvm \<Rightarrow> lem1802_hardware \<Rightarrow> lem1802_hardware option" where
  "vm_hw_lem1802_update_texture vm hw =
     (if vm_hw_lem1802_mem_get_screen hw \<noteq> HW_LEM1802_DISCONNECTED then do {
        hw \<leftarrow> (if screen_was_updated hw
               then if unat (screen_location hw) + 0x17F \<ge> 0xFFFF then None
                    else map_option (\<lambda>hw. hw\<lparr>screen_was_updated := False, texture_has_changed := True\<rparr>)
                      (lem_draw_cells vm [0..<0x180] hw)
               else Some hw);
        lem_update_border vm hw
      } else
        (let hw = (if screen_was_updated hw
                   then hw\<lparr>glfw_texture := replicate HW_LEM1802_SCREEN_TEXTURE_MEM_SIZE 0,
                           screen_was_updated := False, texture_has_changed := True\<rparr>
                   else hw)
         in lem_update_border vm hw))"

definition vm_hw_lem1802_cycle :: "dvm \<Rightarrow> u16 \<Rightarrow> ptr \<Rightarrow> dvm option" where
  "vm_hw_lem1802_cycle vm pos ud = do {
     hw \<leftarrow> get_lem vm ud;
     if lem_window_closed hw then Some (vm\<lparr>exit := True\<rparr>)
     else do {
       let hw = (if blink_tick hw < 60 then hw\<lparr>blink_tick := blink_tick hw + 1\<rparr>
                 else hw\<lparr>blink_tick := 0, blink_status := 1 - blink_status hw,
                         screen_was_updated := True\<rparr>);
       hw \<leftarrow> vm_hw_lem1802_update_texture vm hw;
       Some (dev_put vm ud (DLem (vm_hw_lem1802_glfw_draw vm hw)))
     }
   }"

definition vm_hw_lem1802_break :: "dvm \<Rightarrow> u16 \<Rightarrow> ptr \<Rightarrow> dvm option" where
  "vm_hw_lem1802_break vm pos ud = vm_hw_lem1802_cycle vm pos ud"

text \<open>The words the font dump stores, in order.\<close>

definition lem_font_words :: "u16 list \<Rightarrow> u16 list" where
  "lem_font_words font =
     concat (map (\<lambda>idx.
         (let store = vm_hw_lem1802_mem_get_font_default_representation font idx
          in [ucast (drop_bit 16 store), ucast (drop_bit 16 (push_bit 16 store))])) [0..<128])"

definition vm_hw_lem1802_interrupt :: "dcode \<Rightarrow> dvm \<Rightarrow> ptr \<Rightarrow> dvm option" where
  "vm_hw_lem1802_interrupt e vm ud = do {
     hw \<leftarrow> get_lem vm ud;
     let requested_action = reg_get vm REG_A;
     let val_b = reg_get vm REG_B;
     if requested_action = LEM1802_MEM_MAP_SCREEN then do {
       let hw = vm_hw_lem1802_mem_set_screen hw val_b;
       vm \<leftarrow> vm_hook_fire e (dev_put vm ud (DLem hw)) (lem_hw_id hw) HOOK_ON_HARDWARE_CHANGE ud;
       hw \<leftarrow> get_lem vm ud;
       Some (dev_put vm ud (DLem (hw\<lparr>screen_was_updated := True\<rparr>)))
     }
     else if requested_action = LEM1802_MEM_MAP_FONT then
       Some (dev_put vm ud (DLem ((vm_hw_lem1802_mem_set_font hw val_b)\<lparr>screen_was_updated := True\<rparr>)))
     else if requested_action = LEM1802_MEM_MAP_PALETTE then
       Some (dev_put vm ud (DLem ((vm_hw_lem1802_mem_set_palette hw val_b)
         \<lparr>screen_was_updated := True, border_was_updated := True\<rparr>)))
     else if requested_action = LEM1802_SET_BORDER_COLOR then
       Some (dev_put vm ud (DLem (vm_hw_lem1802_set_border hw val_b)))
     else if requested_action = LEM1802_MEM_DUMP_FONT then
       (let vm = vm\<lparr>sleep_cycles := sleep_cycles vm + 256\<rparr>
        in map_option (\<lambda>m. vm\<lparr>ram := m\<rparr>)
             (lem_store_list (ram vm) (unat val_b) (lem_font_words (font_default (world vm)))))
     else if requested_action = LEM1802_MEM_DUMP_PALETTE then
       (let vm = vm\<lparr>sleep_cycles := sleep_cycles vm + 16\<rparr>
        in vm_hw_lem1802_mem_dump_default_palette vm val_b)
     else Some vm
   }"

definition vm_hw_lem1802_close :: "dvm \<Rightarrow> ptr \<Rightarrow> dvm option" where
  "vm_hw_lem1802_close vm ud = do {
     hw \<leftarrow> get_lem vm ud;
     Some (dev_put vm ud (DLem (hw\<lparr>lem_window_closed := True\<rparr>)))
   }"

definition lem_new :: "u8 list \<Rightarrow> lem1802_hardware" where
  "lem_new texture = \<lparr>lem_cycle_hook = 0, lem_write_hook = 0, lem_break_hook = 0, lem_hw_id = 0,
     palette_location = 0, font_location = 0, screen_location = 0, border_color = 0,
     border_was_updated = True, screen_was_updated = True, blink_status = 1, blink_tick = 0,
     glfw_texture = texture, texture_has_changed = True, lem_window_closed = False\<rparr>"

definition lem_device :: "ptr \<Rightarrow> hw_t" where
  "lem_device ud = \<lparr>hw_device_id = LEM1802_ID, hw_version = LEM1802_VERSION,
     hw_manufacturer = LEM1802_MANUFACTURER, hw_handler = Some FN_lem1802_interrupt,
     hw_free_handler = Some FN_lem1802_free, hw_userdata = ud\<rparr>"

definition vm_hw_lem1802_init :: "dcode \<Rightarrow> u8 list \<Rightarrow> keyboard_hardware \<Rightarrow> dvm \<Rightarrow> dvm option" where
  "vm_hw_lem1802_init e texture junk vm = do {
     let hw = lem_new texture;
     let (ud, vm) = dev_alloc vm (DLem hw);
     let device = lem_device ud;
     let (cycle_hook, vm) = vm_hook_register vm FN_lem1802_cycle HOOK_ON_60HZ ud;
     let (write_hook, vm) = vm_hook_register vm FN_lem1802_write HOOK_ON_WRITE ud;
     let (break_hook, vm) = vm_hook_register vm FN_lem1802_break HOOK_ON_BREAK ud;
     let (hw_id, vm) = vm_hw_register vm device;
     (hw, vm) \<leftarrow> vm_hw_lem1802_mem_init vm
       (hw\<lparr>lem_cycle_hook := cycle_hook, lem_write_hook := write_hook,
           lem_break_hook := break_hook, lem_hw_id := hw_id\<rparr>);
     let vm = vm_hw_keyboard_init junk (dev_put vm ud (DLem hw));
     vm_hook_fire e vm (lem_hw_id hw) HOOK_ON_HARDWARE_CHANGE ud
   }"

definition vm_hw_lem1802_free :: "dvm \<Rightarrow> ptr \<Rightarrow> dvm option" where
  "vm_hw_lem1802_free vm ud = do {
     hw \<leftarrow> get_lem vm ud;
     vm \<leftarrow> vm_hook_unregister vm (lem_write_hook hw);
     vm \<leftarrow> vm_hook_unregister vm (lem_cycle_hook hw);
     vm \<leftarrow> vm_hook_unregister vm (lem_break_hook hw);
     Some (dev_free vm ud)
   }"

section \<open>Well-formedness\<close>

lemma mem_init_wf: "vm_wf vm \<Longrightarrow> pred_option (\<lambda>x. vm_wf (snd x)) (vm_hw_lem1802_mem_init vm h)"
  by (auto simp: vm_hw_lem1802_mem_init_def Let_def option.pred_map o_def split: option.splits
      intro!: pred_optionI)

lemma lem1802_wf:
  assumes "callbacks e" and "vm_wf vm"
  shows "pred_option vm_wf (vm_hw_lem1802_cycle vm pos ud)"
    and "pred_option vm_wf (vm_hw_lem1802_write vm pos ud)"
    and "pred_option vm_wf (vm_hw_lem1802_interrupt e vm ud)"
    and "pred_option vm_wf (vm_hw_lem1802_init e texture junk vm)"
    and "pred_option vm_wf (vm_hw_lem1802_free vm ud)"
proof -
  note fire = pred_option_SomeD [OF callbacks.hook_fire_wf [OF assms(1)], rotated]
  show "pred_option vm_wf (vm_hw_lem1802_cycle vm pos ud)"
    using assms(2)
    by (auto simp: vm_hw_lem1802_cycle_def Let_def intro!: pred_optionI elim!: bind_eq_SomeE split: if_splits)
  show "pred_option vm_wf (vm_hw_lem1802_write vm pos ud)"
    using assms(2) by (auto simp: vm_hw_lem1802_write_def intro!: pred_optionI elim!: bind_eq_SomeE)
  show "pred_option vm_wf (vm_hw_lem1802_interrupt e vm ud)"
    using assms(2)
    by (auto simp: vm_hw_lem1802_interrupt_def Let_def vm_hw_lem1802_mem_dump_default_palette_def
        intro!: pred_optionI elim!: bind_eq_SomeE split: if_splits dest!: fire)
  show "pred_option vm_wf (vm_hw_lem1802_init e texture junk vm)"
  proof -
    obtain p vm1 where 1: "dev_alloc vm (DLem (lem_new texture)) = (p, vm1)" by (meson surj_pair)
    obtain c vm2 where 2: "vm_hook_register vm1 FN_lem1802_cycle HOOK_ON_60HZ p = (c, vm2)" by (meson surj_pair)
    obtain w vm3 where 3: "vm_hook_register vm2 FN_lem1802_write HOOK_ON_WRITE p = (w, vm3)" by (meson surj_pair)
    obtain b vm4 where 4: "vm_hook_register vm3 FN_lem1802_break HOOK_ON_BREAK p = (b, vm4)" by (meson surj_pair)
    obtain d vm5 where 5: "vm_hw_register vm4 (lem_device p) = (d, vm5)" by (meson surj_pair)
    have "vm_wf vm1" using dev_alloc_wf [of vm "DLem (lem_new texture)"] 1 assms(2) by simp
    then have "vm_wf vm2" using vm_wf_hook_register [of vm1 FN_lem1802_cycle HOOK_ON_60HZ p] 2 by simp
    then have "vm_wf vm3" using vm_wf_hook_register [of vm2 FN_lem1802_write HOOK_ON_WRITE p] 3 by simp
    then have "vm_wf vm4" using vm_wf_hook_register [of vm3 FN_lem1802_break HOOK_ON_BREAK p] 4 by simp
    then have "vm_wf vm5" using vm_wf_hw_register [of vm4 "lem_device p"] 5 by simp
    then show ?thesis
      unfolding vm_hw_lem1802_init_def Let_def 1 2 3 4 5 prod.case
      by (rule pred_option_bind [OF mem_init_wf])
        (simp_all add: split_def callbacks.hook_fire_wf [OF assms(1)] keyboard_wf(3) [OF assms(1)])
  qed
  show "pred_option vm_wf (vm_hw_lem1802_free vm ud)"
  proof (rule pred_optionI)
    fix vm' assume "vm_hw_lem1802_free vm ud = Some vm'"
    then obtain h :: lem1802_hardware and vm1 vm2 vm3 where "vm_hook_unregister vm (lem_write_hook h) = Some vm1"
      "vm_hook_unregister vm1 (lem_cycle_hook h) = Some vm2"
      "vm_hook_unregister vm2 (lem_break_hook h) = Some vm3" "Some (dev_free vm3 ud) = Some vm'"
      unfolding vm_hw_lem1802_free_def by (elim bind_eq_SomeE) blast
    with assms(2) show "vm_wf vm'" by (metis vm_wf_hook_unregister dev_free_wf option.inject)
  qed
qed

section \<open>The picture\<close>

text \<open>
  What a current picture is: each of the 384 cells shows the glyph of its screen word in the
  colours of the palette; a disconnected screen is black.
\<close>

definition screen_pixel :: "lem1802_hardware \<Rightarrow> nat \<Rightarrow> nat \<Rightarrow> nat \<Rightarrow> rgb" where
  "screen_pixel hw i dx dy =
     get_pixel (glfw_texture hw) (3 * pixel_no (i mod 32 * 4 + dx) (i div 32 * 8 + dy))"

definition screen_shows :: "dvm \<Rightarrow> lem1802_hardware \<Rightarrow> bool" where
  "screen_shows vm hw \<longleftrightarrow>
     (if screen_location hw = HW_LEM1802_DISCONNECTED
      then \<forall>i < 384. \<forall>dx < 4. \<forall>dy < 8. screen_pixel hw i dx dy = (0, 0, 0)
      else \<forall>i < 384. \<exists>cell. lem_cell vm hw (ram vm (screen_location hw + of_nat i)) = Some cell \<and>
        (\<forall>dx < 4. \<forall>dy < 8. screen_pixel hw i dx dy = cell_colour cell dx dy))"

text \<open>The texture has its size and the mapped regions lie inside memory.\<close>

definition lem_layout :: "lem1802_hardware \<Rightarrow> bool" where
  "lem_layout hw \<longleftrightarrow> texture_ok (glfw_texture hw) \<and> unat (border_color hw) < 16 \<and>
     unat (palette_location hw) + 16 \<le> 0x10000 \<and> unat (font_location hw) + 256 \<le> 0x10000 \<and>
     unat (screen_location hw) + 0x180 < 0x10000"

definition lem_cells :: "dvm \<Rightarrow> lem1802_hardware \<Rightarrow> nat list \<Rightarrow> (nat \<times> rgb) list" where
  "lem_cells vm hw is = concat (map (\<lambda>i. cell_draw (i mod 32) (i div 32)
     (the (lem_cell vm hw (ram vm (screen_location hw + of_nat i))))) is)"

lemma lem_cell_texture [simp]:
  "lem_cell vm (hw\<lparr>glfw_texture := t\<rparr>) v = lem_cell vm hw v"
  "lem_cell vm (hw\<lparr>texture_has_changed := b\<rparr>) v = lem_cell vm hw v"
  "lem_cell vm (hw\<lparr>border_was_updated := b\<rparr>) v = lem_cell vm hw v"
  "lem_cell vm (hw\<lparr>screen_was_updated := b\<rparr>) v = lem_cell vm hw v"
  "lem_cell vm (hw\<lparr>blink_tick := n\<rparr>) v = lem_cell vm hw v"
  by (simp_all add: lem_cell_def vm_hw_lem1802_mem_get_palette_color_def lem_glyph_def
      vm_hw_lem1802_mem_get_font_def Let_def)

lemma lem_cell_world [simp]: "lem_cell (dev_put vm p d) hw v = lem_cell vm hw v"
  by (simp add: lem_cell_def vm_hw_lem1802_mem_get_palette_color_def lem_glyph_def Let_def)

lemma nibbles_lt:
  "unat (drop_bit 12 ((v :: u16) AND 0xF000)) < 16" "unat (drop_bit 8 (v AND 0x0F00)) < 16"
  "unat (v AND 0x007F) < 128"
proof -
  have n: "drop_bit 12 (v AND 0xF000) = drop_bit 12 v AND mask 4"
    "drop_bit 8 (v AND 0x0F00) = drop_bit 8 v AND mask 4" "v AND 0x007F = v AND mask 7"
    by (simp_all add: drop_bit_and mask_eq_exp_minus_1)
  show "unat (drop_bit 12 (v AND 0xF000)) < 16" "unat (drop_bit 8 (v AND 0x0F00)) < 16"
    unfolding n by (rule nibble_lt)+
  show "unat (v AND 0x007F) < 128" unfolding n by (simp add: unat_and_mask)
qed

lemma palette_total:
  assumes "unat (palette_location hw) + 16 \<le> 0x10000" and "unat idx < 16"
  shows "\<exists>c. vm_hw_lem1802_mem_get_palette_color vm hw idx = Some c"
  using assms by (simp add: vm_hw_lem1802_mem_get_palette_color_def lem_ram_def del: split_paired_Ex)

lemma lem_cell_total:
  assumes "lem_layout hw"
  shows "\<exists>cell. lem_cell vm hw v = Some cell"
proof -
  have "\<exists>g. lem_glyph vm hw (v AND 0x007F) = Some g"
    using assms nibbles_lt(3) [of v]
    by (simp add: lem_layout_def lem_glyph_def Let_def lem_ram_def vm_hw_lem1802_mem_get_font_def)
  moreover have "\<exists>c. vm_hw_lem1802_mem_get_palette_color vm hw (drop_bit 12 (v AND 0xF000)) = Some c"
    "\<exists>c. vm_hw_lem1802_mem_get_palette_color vm hw (drop_bit 8 (v AND 0x0F00)) = Some c"
    by (rule palette_total, use assms in \<open>simp add: lem_layout_def\<close>, rule nibbles_lt)+
  ultimately show ?thesis unfolding lem_cell_def by fastforce
qed

section \<open>Drawing the cells\<close>

lemma draw_cells_eq:
  assumes "\<And>v. \<exists>cell. lem_cell vm hw v = Some cell"
  shows "lem_draw_cells vm is (hw\<lparr>glfw_texture := t\<rparr>) = Some (hw\<lparr>glfw_texture := draw (lem_cells vm hw is) t\<rparr>)"
proof (induction "is" arbitrary: t)
  case Nil
  then show ?case by (simp add: lem_cells_def draw_def)
next
  case (Cons i "is")
  obtain cell where c: "lem_cell vm hw (ram vm (screen_location hw + of_nat i)) = Some cell"
    using assms by blast
  then show ?case
    using Cons.IH by (cases cell) (simp add: put_char_eq lem_cells_def cell_draw_def draw_append)
qed

lemma pixel_lt: "x < 128 \<Longrightarrow> y < 96 \<Longrightarrow> pixel_no x y < 15120"
  by (simp add: pixel_no_def)

lemma cell_xy: "i < 384 \<Longrightarrow> dx < 4 \<Longrightarrow> dy < 8 \<Longrightarrow> i mod 32 * 4 + dx < 128 \<and> i div 32 * 8 + dy < (96 :: nat)"
proof -
  assume "i < 384" "dx < 4" "dy < 8"
  moreover have "i mod 32 < 32" by simp
  moreover have "i div 32 < 12" using \<open>i < 384\<close> by (simp add: less_mult_imp_div_less)
  ultimately show ?thesis by linarith
qed

lemma lem_cells_iff:
  "(p, c) \<in> set (lem_cells vm hw is) \<longleftrightarrow>
     (\<exists>i \<in> set is. \<exists>dx < 4. \<exists>dy < 8. p = pixel_no (i mod 32 * 4 + dx) (i div 32 * 8 + dy) \<and>
        c = cell_colour (the (lem_cell vm hw (ram vm (screen_location hw + of_nat i)))) dx dy)"
  unfolding lem_cells_def set_concat set_map image_image UN_iff cell_draw_iff by blast

lemma draw_cells_pixel:
  assumes "texture_ok t" and "i < 384" and "dx < 4" and "dy < 8"
  shows "get_pixel (draw (lem_cells vm hw [0..<384]) t) (3 * pixel_no (i mod 32 * 4 + dx) (i div 32 * 8 + dy)) =
    cell_colour (the (lem_cell vm hw (ram vm (screen_location hw + of_nat i)))) dx dy"
proof (rule draw_hit [OF assms(1)])
  show "\<forall>p \<in> fst ` set (lem_cells vm hw [0..<384]). p < 15120"
    using cell_xy by (fastforce simp: lem_cells_iff intro!: pixel_lt)
  show "(pixel_no (i mod 32 * 4 + dx) (i div 32 * 8 + dy),
      cell_colour (the (lem_cell vm hw (ram vm (screen_location hw + of_nat i)))) dx dy)
      \<in> set (lem_cells vm hw [0..<384])"
    unfolding lem_cells_iff using assms(2-4) by force
  show "\<forall>c'. (pixel_no (i mod 32 * 4 + dx) (i div 32 * 8 + dy), c') \<in> set (lem_cells vm hw [0..<384]) \<longrightarrow>
      c' = cell_colour (the (lem_cell vm hw (ram vm (screen_location hw + of_nat i)))) dx dy"
  proof (intro allI impI)
    fix c' assume "(pixel_no (i mod 32 * 4 + dx) (i div 32 * 8 + dy), c') \<in> set (lem_cells vm hw [0..<384])"
    then obtain j dx' dy' where j: "j < 384" "dx' < 4" "dy' < 8"
      and e: "pixel_no (i mod 32 * 4 + dx) (i div 32 * 8 + dy) = pixel_no (j mod 32 * 4 + dx') (j div 32 * 8 + dy')"
      and c': "c' = cell_colour (the (lem_cell vm hw (ram vm (screen_location hw + of_nat j)))) dx' dy'"
      unfolding lem_cells_iff by auto
    have "i div 32 < 12" "j div 32 < 12" using assms(2) j(1) by (simp_all add: less_mult_imp_div_less)
    then have "i mod 32 = j mod 32 \<and> i div 32 = j div 32 \<and> dx = dx' \<and> dy = dy'"
      using assms(3,4) j(2,3) by (intro cell_pixel [OF _ _ _ _ _ _ _ _ e]) simp_all
    moreover from this have "i = j" by (metis div_mult_mod_eq)
    ultimately show "c' = cell_colour (the (lem_cell vm hw (ram vm (screen_location hw + of_nat i)))) dx dy"
      using c' by simp
  qed
qed

section \<open>Drawing the border\<close>

definition on_border :: "nat \<Rightarrow> nat \<Rightarrow> bool" where
  "on_border x y \<longleftrightarrow> x < 140 \<and> y < 108 \<and> (x < 6 \<or> 134 \<le> x \<or> y < 6 \<or> 102 \<le> y)"

lemma in_rows: "(x, y) \<in> set (concat (map (\<lambda>y. map (\<lambda>x. (x, y)) xs) ys)) \<longleftrightarrow> x \<in> set xs \<and> y \<in> set ys"
  by auto

lemma border_coords_iff: "(x, y) \<in> set border_coords \<longleftrightarrow> on_border x y"
  unfolding border_coords_def on_border_def set_append Un_iff in_rows set_upt atLeastLessThan_iff
  by linarith

lemma border_draw:
  "fold (\<lambda>(x, y) t. put_pixel t (HW_LEM1802_TEXTURE_RGB_COOR x y) c) ps t =
     draw (map (\<lambda>(x, y). (y * 140 + x, c)) ps) t"
  by (simp add: draw_def fold_map HW_LEM1802_TEXTURE_RGB_COOR_def split_def o_def)

lemma border_numbers:
  "(p, d) \<in> set (map (\<lambda>(x, y). (y * 140 + x, c)) border_coords) \<longleftrightarrow>
     d = c \<and> (\<exists>x y. on_border x y \<and> p = y * 140 + x)"
  by (force simp: border_coords_iff [symmetric] image_iff)

lemma border_lt: "on_border x y \<Longrightarrow> y * 140 + x < 15120"
  by (simp add: on_border_def)

lemma row_140:
  assumes "a < 140"
  shows "(q * 140 + a) mod 140 = (a :: nat)" "(q * 140 + a) div 140 = q"
  using assms by simp_all

lemma border_misses_cell:
  assumes "x < 128" "y < 96" "on_border x' y'"
  shows "pixel_no x y \<noteq> y' * 140 + x'"
proof
  assume e: "pixel_no x y = y' * 140 + x'"
  have "x' < 140" "x + 6 < 140" using assms by (simp_all add: on_border_def)
  then have "pixel_no x y mod 140 = x + 6 \<and> pixel_no x y div 140 = y + 6"
    "(y' * 140 + x') mod 140 = x' \<and> (y' * 140 + x') div 140 = y'"
    unfolding pixel_no_def by (simp_all only: row_140)
  with e assms show False by (simp add: on_border_def)
qed

lemma border_pixel:
  assumes "texture_ok t" and "on_border x y"
  shows "get_pixel (draw (map (\<lambda>(x, y). (y * 140 + x, c)) border_coords) t) (3 * (y * 140 + x)) = c"
proof (rule draw_hit [OF assms(1)])
  show "\<forall>p \<in> fst ` set (map (\<lambda>(x, y). (y * 140 + x, c)) border_coords). p < 15120"
    using border_lt by (auto simp: border_coords_iff)
  show "(y * 140 + x, c) \<in> set (map (\<lambda>(x, y). (y * 140 + x, c)) border_coords)"
    unfolding border_numbers using assms(2) by blast
  show "\<forall>c'. (y * 140 + x, c') \<in> set (map (\<lambda>(x, y). (y * 140 + x, c)) border_coords) \<longrightarrow> c' = c"
    unfolding border_numbers by blast
qed

lemma border_keeps_cells:
  assumes "texture_ok t" and "x < 128" and "y < 96"
  shows "get_pixel (draw (map (\<lambda>(x, y). (y * 140 + x, c)) border_coords) t) (3 * pixel_no x y) =
    get_pixel t (3 * pixel_no x y)"
  by (rule draw_miss [OF assms(1)])
    (use assms border_lt border_misses_cell pixel_lt in \<open>auto simp: border_coords_iff\<close>)

section \<open>Redrawing\<close>

lemma update_border_eq:
  assumes "lem_layout hw"
  shows "\<exists>c. vm_hw_lem1802_mem_get_palette_color vm hw (border_color hw) = Some c \<and>
    lem_update_border vm hw = Some (if border_was_updated hw
      then hw\<lparr>glfw_texture := draw (map (\<lambda>(x, y). (y * 140 + x, c)) border_coords) (glfw_texture hw),
              border_was_updated := False, texture_has_changed := True\<rparr>
      else hw)"
proof -
  obtain c where "vm_hw_lem1802_mem_get_palette_color vm hw (border_color hw) = Some c"
    using palette_total [of hw "border_color hw" vm] assms unfolding lem_layout_def by blast
  then show ?thesis
    by (simp add: lem_update_border_def vm_hw_lem1802_mem_draw_border_def border_draw)
qed

lemma screen_shows_keep:
  assumes "screen_shows vm hw"
    and "\<And>x y. x < 128 \<Longrightarrow> y < 96 \<Longrightarrow> get_pixel (glfw_texture hw') (3 * pixel_no x y) =
      get_pixel (glfw_texture hw) (3 * pixel_no x y)"
    and "screen_location hw' = screen_location hw"
    and "\<And>i. screen_location hw \<noteq> 0 \<Longrightarrow> i < 384 \<Longrightarrow>
      ram vm' (screen_location hw + of_nat i) = ram vm (screen_location hw + of_nat i)"
    and "\<And>v. lem_cell vm' hw' v = lem_cell vm hw v"
  shows "screen_shows vm' hw'"
proof -
  have "screen_pixel hw' i dx dy = screen_pixel hw i dx dy" if "i < 384" "dx < 4" "dy < 8" for i dx dy
    unfolding screen_pixel_def using cell_xy [OF that] by (intro assms(2)) simp_all
  with assms(1,3-5) show ?thesis by (auto simp: screen_shows_def split: if_splits)
qed

lemma screen_shows_drawn:
  assumes "lem_layout hw" and "screen_location hw \<noteq> 0"
  shows "screen_shows vm (hw\<lparr>glfw_texture := draw (lem_cells vm hw [0..<384]) (glfw_texture hw)\<rparr>)"
  unfolding screen_shows_def screen_pixel_def
  using assms draw_cells_pixel lem_cell_total [OF assms(1)] by (fastforce simp: lem_layout_def)

lemma screen_shows_black:
  "screen_location hw = 0 \<Longrightarrow> glfw_texture hw = replicate 45360 0 \<Longrightarrow> screen_shows vm hw"
proof -
  assume a: "screen_location hw = 0" "glfw_texture hw = replicate 45360 0"
  have "get_pixel (replicate 45360 0) (3 * p) = (0, 0, 0)" if "p < 15120" for p
    using that by (simp add: get_pixel_def)
  with a show ?thesis using cell_xy pixel_lt by (simp add: screen_shows_def screen_pixel_def)
qed

text \<open>The part of the redraw before the border.\<close>

definition lem_screen_part :: "dvm \<Rightarrow> lem1802_hardware \<Rightarrow> lem1802_hardware" where
  "lem_screen_part vm hw =
     (if screen_was_updated hw
      then hw\<lparr>glfw_texture := if screen_location hw = 0 then replicate 45360 0
                             else draw (lem_cells vm hw [0..<384]) (glfw_texture hw),
              screen_was_updated := False, texture_has_changed := True\<rparr>
      else hw)"

lemma screen_part_layout: "lem_layout hw \<Longrightarrow> lem_layout (lem_screen_part vm hw)"
  by (simp add: lem_layout_def lem_screen_part_def texture_ok_def [of "replicate 45360 0"])

lemma update_texture_eq:
  assumes "lem_layout hw"
  shows "vm_hw_lem1802_update_texture vm hw = lem_update_border vm (lem_screen_part vm hw)"
proof -
  have "lem_draw_cells vm [0..<384] hw = Some (hw\<lparr>glfw_texture := draw (lem_cells vm hw [0..<384]) (glfw_texture hw)\<rparr>)"
    using draw_cells_eq [OF lem_cell_total [OF assms], of vm "[0..<384]" "glfw_texture hw"] by simp
  moreover have "\<not> 65535 \<le> unat (screen_location hw) + 383" using assms by (simp add: lem_layout_def)
  ultimately show ?thesis
    by (simp add: vm_hw_lem1802_update_texture_def vm_hw_lem1802_mem_get_screen_def lem_screen_part_def
        Let_def del: upt_rec_numeral)
qed

lemma screen_part_shows:
  assumes "lem_layout hw" and "screen_was_updated hw \<or> screen_shows vm hw"
  shows "screen_shows vm (lem_screen_part vm hw)"
proof (cases "screen_was_updated hw")
  case True
  show ?thesis
  proof (cases "screen_location hw = 0")
    case True
    then show ?thesis using \<open>screen_was_updated hw\<close> by (intro screen_shows_black) (simp_all add: lem_screen_part_def)
  next
    case False
    then show ?thesis
      using \<open>screen_was_updated hw\<close> screen_shows_drawn [OF assms(1) False, of vm]
      by (intro screen_shows_keep [OF screen_shows_drawn [OF assms(1) False, of vm]]) (simp_all add: lem_screen_part_def)
  qed
qed (use assms in \<open>simp add: lem_screen_part_def\<close>)

text \<open>A redraw succeeds and leaves a current picture.\<close>

lemma update_texture_shows:
  assumes "lem_layout hw" and "screen_was_updated hw \<or> screen_shows vm hw"
  shows "\<exists>hw'. vm_hw_lem1802_update_texture vm hw = Some hw' \<and> screen_shows vm hw' \<and> lem_layout hw' \<and>
    lem_window_closed hw' = lem_window_closed hw \<and> screen_location hw' = screen_location hw \<and>
    palette_location hw' = palette_location hw \<and> font_location hw' = font_location hw"
proof -
  let ?hw = "lem_screen_part vm hw"
  have l: "lem_layout ?hw" and s: "screen_shows vm ?hw"
    using assms by (simp_all add: screen_part_layout screen_part_shows)
  obtain c where c: "lem_update_border vm ?hw = Some (if border_was_updated ?hw
      then ?hw\<lparr>glfw_texture := draw (map (\<lambda>(x, y). (y * 140 + x, c)) border_coords) (glfw_texture ?hw),
              border_was_updated := False, texture_has_changed := True\<rparr> else ?hw)" (is "_ = Some ?hw'")
    using update_border_eq [OF l] by blast
  have "screen_shows vm ?hw'"
    by (rule screen_shows_keep [OF s]) (use l in \<open>simp_all add: border_keeps_cells lem_layout_def\<close>)
  moreover have "lem_layout ?hw'" using l by (simp add: lem_layout_def)
  ultimately show ?thesis
    using c by (simp add: update_texture_eq [OF assms(1)] lem_screen_part_def)
qed

section \<open>Writes make the picture stale only where the hook notices\<close>

lemma lem_ram_upd: "lem_ram (m(p := v)) i = (if i < 0x10000 \<and> of_nat i = p then Some v else lem_ram m i)"
  by (simp add: lem_ram_def)

lemma of_nat_off:
  assumes "unat (l :: u16) + k < 0x10000"
  shows "(of_nat (unat l + k) = (p :: u16)) = (unat p = unat l + k)"
proof -
  have e: "unat (of_nat (unat l + k) :: u16) = unat l + k" using assms by (simp only: unat_of_nat) simp
  show ?thesis unfolding word_unat_eq_iff e by (rule eq_commute)
qed

lemma lem_ram_keep:
  "unat (l :: u16) + k < 0x10000 \<Longrightarrow> unat p \<noteq> unat l + k \<Longrightarrow> lem_ram (m(p := v)) (unat l + k) = lem_ram m (unat l + k)"
  using of_nat_off [of l k p] by (simp add: lem_ram_upd del: of_nat_add)

lemma write_flags_layout: "lem_layout (vm_hw_lem1802_write_flags hw pos) = lem_layout hw"
  by (simp add: vm_hw_lem1802_write_flags_def lem_layout_def Let_def)

lemma write_flags_fields:
  "lem_window_closed (vm_hw_lem1802_write_flags hw pos) = lem_window_closed hw"
  "screen_location (vm_hw_lem1802_write_flags hw pos) = screen_location hw"
  by (simp_all add: vm_hw_lem1802_write_flags_def Let_def)

text \<open>A cell reads sixteen palette words and two of the 256 font words.\<close>

lemma lem_cell_upd:
  assumes "lem_layout hw"
    and "palette_location hw \<noteq> 0 \<Longrightarrow> \<not> (unat (palette_location hw) \<le> unat pos \<and> unat pos < unat (palette_location hw) + 16)"
    and "font_location hw \<noteq> 0 \<Longrightarrow> \<not> (unat (font_location hw) \<le> unat pos \<and> unat pos < unat (font_location hw) + 256)"
  shows "lem_cell (vm\<lparr>ram := (ram vm)(pos := v)\<rparr>) hw w = lem_cell vm hw w"
proof -
  have p: "vm_hw_lem1802_mem_get_palette_color (vm\<lparr>ram := (ram vm)(pos := v)\<rparr>) hw idx =
      vm_hw_lem1802_mem_get_palette_color vm hw idx" if "unat idx < 16" for idx
  proof (cases "palette_location hw = 0")
    case False
    then have "lem_ram ((ram vm)(pos := v)) (unat (palette_location hw) + unat idx) =
        lem_ram (ram vm) (unat (palette_location hw) + unat idx)"
      using assms(1,2) that by (intro lem_ram_keep) (auto simp: lem_layout_def)
    then show ?thesis by (simp add: vm_hw_lem1802_mem_get_palette_color_def)
  qed (simp add: vm_hw_lem1802_mem_get_palette_color_def)
  have "lem_glyph (vm\<lparr>ram := (ram vm)(pos := v)\<rparr>) hw (w AND 0x7F) = lem_glyph vm hw (w AND 0x7F)"
  proof (cases "font_location hw = 0")
    case False
    then have "lem_ram ((ram vm)(pos := v)) (unat (font_location hw) + k) =
        lem_ram (ram vm) (unat (font_location hw) + k)" if "k < 256" for k
      using assms(1,3) that by (intro lem_ram_keep) (auto simp: lem_layout_def)
    from this [of "2 * unat (w AND 0x7F)"] this [of "2 * unat (w AND 0x7F) + 1"] show ?thesis
      using nibbles_lt(3) [of w] by (simp add: lem_glyph_def Let_def vm_hw_lem1802_mem_get_font_def)
  qed (simp add: lem_glyph_def Let_def vm_hw_lem1802_mem_get_font_def)
  then show ?thesis unfolding lem_cell_def p [OF nibbles_lt(1)] p [OF nibbles_lt(2)] by simp
qed

lemma write_keeps_picture:
  assumes "lem_layout hw" and "screen_was_updated hw \<or> screen_shows vm hw"
  shows "screen_was_updated (vm_hw_lem1802_write_flags hw pos) \<or>
    screen_shows (vm\<lparr>ram := (ram vm)(pos := v)\<rparr>) (vm_hw_lem1802_write_flags hw pos)"
proof (rule disjCI)
  assume n: "\<not> screen_shows (vm\<lparr>ram := (ram vm)(pos := v)\<rparr>) (vm_hw_lem1802_write_flags hw pos)"
  show "screen_was_updated (vm_hw_lem1802_write_flags hw pos)"
  proof (rule ccontr)
    assume f: "\<not> screen_was_updated (vm_hw_lem1802_write_flags hw pos)"
    moreover have "vm_hw_lem1802_write_flags hw pos = hw \<or> screen_was_updated (vm_hw_lem1802_write_flags hw pos)"
      by (simp add: vm_hw_lem1802_write_flags_def Let_def)
    ultimately have same: "vm_hw_lem1802_write_flags hw pos = hw" and "\<not> screen_was_updated hw" by auto
    with assms(2) have s: "screen_shows vm hw" by simp
    from f have o: "screen_location hw \<noteq> 0 \<Longrightarrow> \<not> (unat (screen_location hw) \<le> unat pos \<and> unat pos \<le> unat (screen_location hw) + 0x17F)"
      "palette_location hw \<noteq> 0 \<Longrightarrow> \<not> (unat (palette_location hw) \<le> unat pos \<and> unat pos < unat (palette_location hw) + 16)"
      "font_location hw \<noteq> 0 \<Longrightarrow> \<not> (unat (font_location hw) \<le> unat pos \<and> unat pos < unat (font_location hw) + 256)"
      by (auto simp: vm_hw_lem1802_write_flags_def Let_def vm_hw_lem1802_mem_get_screen_def
          vm_hw_lem1802_mem_get_font_def word_le_nat_alt split: if_splits)
    have "pos \<noteq> screen_location hw + of_nat i" if "screen_location hw \<noteq> 0" "i < 384" for i
      using of_nat_off [of "screen_location hw" i pos] o(1) [OF that(1)] that(2) assms(1) by (auto simp: lem_layout_def)
    then have "screen_shows (vm\<lparr>ram := (ram vm)(pos := v)\<rparr>) hw"
      by (intro screen_shows_keep [OF s]) (auto simp: lem_cell_upd [OF assms(1) o(2,3)])
    with n same show False by simp
  qed
qed

section \<open>The display shows memory\<close>

text \<open>A program stores words; every store fires the write hook of the display.\<close>

primrec lem_pokes :: "(u16 \<times> u16) list \<Rightarrow> ptr \<Rightarrow> dvm \<Rightarrow> dvm option" where
  "lem_pokes [] ud vm = Some vm"
| "lem_pokes (w # ws) ud vm =
     vm_hw_lem1802_write (vm\<lparr>ram := (ram vm)(fst w := snd w)\<rparr>) (fst w) ud \<bind> lem_pokes ws ud"

lemma screen_shows_world [simp]:
  "screen_shows (dev_put vm p d) hw = screen_shows vm hw"
  by (simp add: screen_shows_def)

lemma pokes_keep_picture:
  assumes "get_lem vm ud = Some hw" and "lem_layout hw" and "screen_was_updated hw \<or> screen_shows vm hw"
  shows "\<exists>vm' hw'. lem_pokes ws ud vm = Some vm' \<and> get_lem vm' ud = Some hw' \<and> lem_layout hw' \<and>
    (screen_was_updated hw' \<or> screen_shows vm' hw') \<and> lem_window_closed hw' = lem_window_closed hw \<and>
    screen_location hw' = screen_location hw \<and>
    ram vm' = fold (\<lambda>w m. m(fst w := snd w)) ws (ram vm)"
  using assms
proof (induction ws arbitrary: vm hw)
  case Nil
  then show ?case by simp
next
  case (Cons w ws)
  obtain a v where w: "w = (a, v)" by (cases w)
  let ?vm = "vm\<lparr>ram := (ram vm)(a := v)\<rparr>" and ?hw = "vm_hw_lem1802_write_flags hw a"
  have g: "get_lem ?vm ud = Some hw" using Cons.prems(1) by (simp add: get_lem_def)
  have "\<exists>vm' hw'. lem_pokes ws ud (dev_put ?vm ud (DLem ?hw)) = Some vm' \<and> get_lem vm' ud = Some hw' \<and> lem_layout hw' \<and>
    (screen_was_updated hw' \<or> screen_shows vm' hw') \<and> lem_window_closed hw' = lem_window_closed ?hw \<and>
    screen_location hw' = screen_location ?hw \<and>
    ram vm' = fold (\<lambda>w m. m(fst w := snd w)) ws (ram (dev_put ?vm ud (DLem ?hw)))"
    using Cons.prems(2) write_keeps_picture [OF Cons.prems(2,3)]
    by (intro Cons.IH) (simp_all add: write_flags_layout)
  with g show ?case by (simp add: w vm_hw_lem1802_write_def write_flags_fields del: fun_upd_apply)
qed


definition lem_demo :: lem1802_hardware where
  "lem_demo = (lem_new (replicate 45360 0))\<lparr>screen_location := 0x8000\<rparr>"

definition lem_world :: hw_world where
  "lem_world = \<lparr>hw_heap = (\<lambda>_. None)(7 := Some (DLem lem_demo)),
     next_ptr = 8, g_hw = 0, iio = iio_initial, host_big = False, files = (\<lambda>_. None),
     font_image = None, font_default = replicate 256 0, embedded_font = None\<rparr>"

lemma lem_demo_ok: "lem_layout lem_demo" "screen_was_updated lem_demo" "border_was_updated lem_demo"
  "\<not> lem_window_closed lem_demo" "screen_location lem_demo = 0x8000"
  "get_lem (vm_create lem_world) 7 = Some lem_demo"
  by (simp_all add: lem_demo_def lem_new_def lem_layout_def texture_ok_def get_lem_def dev_get_def
      vm_create_fields lem_world_def)


section \<open>The border\<close>

text \<open>
  A redraw paints the border when it is marked: every pixel of the 6-pixel frame around
  the characters, and no other part of the texture beside the characters, is the palette
  colour the program chose.
\<close>

theorem border_painted:
  assumes "lem_layout hw" and "border_was_updated hw"
  shows "\<exists>hw' c. vm_hw_lem1802_update_texture vm hw = Some hw' \<and> \<not> border_was_updated hw' \<and>
    vm_hw_lem1802_mem_get_palette_color vm hw (border_color hw) = Some c \<and>
    (\<forall>x y. on_border x y \<longrightarrow> get_pixel (glfw_texture hw') (HW_LEM1802_TEXTURE_RGB_COOR x y) = c)"
proof -
  let ?hw = "lem_screen_part vm hw"
  have l: "lem_layout ?hw" using assms(1) by (rule screen_part_layout)
  have b: "border_was_updated ?hw" "border_color ?hw = border_color hw"
    "vm_hw_lem1802_mem_get_palette_color vm ?hw i = vm_hw_lem1802_mem_get_palette_color vm hw i" for i
    using assms(2) by (simp_all add: lem_screen_part_def vm_hw_lem1802_mem_get_palette_color_def)
  obtain c where c: "vm_hw_lem1802_mem_get_palette_color vm hw (border_color hw) = Some c"
    and u: "lem_update_border vm ?hw = Some (?hw\<lparr>glfw_texture :=
      draw (map (\<lambda>(x, y). (y * 140 + x, c)) border_coords) (glfw_texture ?hw),
      border_was_updated := False, texture_has_changed := True\<rparr>)"
    using update_border_eq [OF l, of vm] b by auto
  have "texture_ok (glfw_texture ?hw)" using l by (simp add: lem_layout_def)
  with c u border_pixel show ?thesis
    by (simp add: update_texture_eq [OF assms(1)] HW_LEM1802_TEXTURE_RGB_COOR_def)
qed

theorem border_painted_witness:
  "\<exists>hw' c. vm_hw_lem1802_update_texture (vm_create lem_world) (vm_hw_lem1802_set_border lem_demo 4) = Some hw' \<and>
     vm_hw_lem1802_mem_get_palette_color (vm_create lem_world) (vm_hw_lem1802_set_border lem_demo 4) 4 = Some c \<and>
     get_pixel (glfw_texture hw') (HW_LEM1802_TEXTURE_RGB_COOR 139 107) = c"
proof -
  have "lem_layout (vm_hw_lem1802_set_border lem_demo 4)" "border_was_updated (vm_hw_lem1802_set_border lem_demo 4)"
    "border_color (vm_hw_lem1802_set_border lem_demo 4) = 4"
    using lem_demo_ok(1) by (simp_all add: lem_layout_def vm_hw_lem1802_set_border_def)
  with border_painted [of "vm_hw_lem1802_set_border lem_demo 4" "vm_create lem_world"] show ?thesis
    by (fastforce simp: on_border_def)
qed

section \<open>The default font\<close>

lemma fold_bits:
  "length ps = n \<Longrightarrow> n \<le> 16 \<Longrightarrow>
     bit (fold (\<lambda>(s, x, y) (w :: u16). if P x y then w OR push_bit s 1 else w) (zip [0..<n] ps) 0) k =
       (k < n \<and> P (fst (ps ! k)) (snd (ps ! k)))"
proof (induction n arbitrary: ps)
  case 0
  then show ?case by simp
next
  case (Suc n)
  then obtain qs x y where ps: "ps = qs @ [(x, y)]" "length qs = n"
    by (metis length_Suc_conv_rev surj_pair)
  have "n < 16" using Suc.prems by simp
  with Suc.IH [of qs] ps Suc.prems show ?case
    by (auto simp: bit_simps nth_append less_Suc_eq)
qed

lemma font_word_bit:
  assumes "k < 16"
  shows "bit (font_word img x y) k \<longleftrightarrow> 128 < unat (img ! HW_LEM1802_FONT_RGB_COOR (x + 1 - k div 8) (y + k mod 8))"
proof -
  let ?ps = "[(x, y). x \<leftarrow> [x + 1, x], y \<leftarrow> [y..<y + 8]]"
  have ps: "?ps = map (\<lambda>y. (x + 1, y)) [y..<y + 8] @ map (\<lambda>y. (x, y)) [y..<y + 8]" by simp
  have "?ps ! k = (x + 1 - k div 8, y + k mod 8)"
  proof (cases "k < 8")
    case True
    then show ?thesis unfolding ps by (simp add: nth_append)
  next
    case False
    then have "k div 8 = 1" "k mod 8 = k - 8" using assms by (simp_all add: div_if mod_if)
    with False assms show ?thesis unfolding ps by (simp add: nth_append)
  qed
  then show ?thesis
    using fold_bits [of ?ps 16 "\<lambda>x y. 128 < unat (img ! HW_LEM1802_FONT_RGB_COOR x y)" k] assms
    by (simp add: font_word_def)
qed

lemma font_column:
  assumes "dy < 8" and "x' = x + 1"
  shows "bit (font_word img x y) (8 + dy) \<longleftrightarrow> 128 < unat (img ! HW_LEM1802_FONT_RGB_COOR x (y + dy))"
    and "bit (font_word img x y) dy \<longleftrightarrow> 128 < unat (img ! HW_LEM1802_FONT_RGB_COOR x' (y + dy))"
proof -
  have "(8 + dy) div 8 = 1" "(8 + dy) mod 8 = dy" using assms(1) by (simp_all add: div_if mod_if)
  then show "bit (font_word img x y) (8 + dy) \<longleftrightarrow> 128 < unat (img ! HW_LEM1802_FONT_RGB_COOR x (y + dy))"
    using assms(1) by (simp add: font_word_bit)
  show "bit (font_word img x y) dy \<longleftrightarrow> 128 < unat (img ! HW_LEM1802_FONT_RGB_COOR x' (y + dy))"
    using assms by (simp add: font_word_bit)
qed

lemma concat_pairs_nth:
  "i < length xs \<Longrightarrow> concat (map (\<lambda>x. [f x, g x]) xs) ! (2 * i) = f (xs ! i) \<and>
     concat (map (\<lambda>x. [f x, g x]) xs) ! (2 * i + 1) = g (xs ! i)"
proof (induction xs arbitrary: i)
  case (Cons x xs)
  then show ?case by (cases i) simp_all
qed simp

text \<open>
  C34. The default font is the embedded image: a pixel of a glyph, as the display draws it, is
  set exactly when the red channel of the corresponding pixel of the font image, a grid of
  32 by 4 characters of 4 by 8 pixels, exceeds 128.
\<close>

theorem default_font_is_image:
  assumes "vm_hw_lem1802_mem_load_default_font img = Some (font_default (world vm))"
    and "vm_hw_lem1802_mem_get_font hw = HW_LEM1802_DEFAULT_FONT_LOC"
    and "unat chr < 128" and "dx < 4" and "dy < 8"
  shows "\<exists>glyph. lem_glyph vm hw chr = Some glyph \<and>
    (cell_colour (glyph, True, fore, back) dx dy =
      (if 128 < unat (img ! HW_LEM1802_FONT_RGB_COOR (unat chr mod 32 * 4 + dx) (unat chr div 32 * 8 + dy))
       then fore else back))"
proof -
  define c where "c = unat chr"
  let ?f = "font_default (world vm)" and ?x = "c mod 32 * 4" and ?y = "c div 32 * 8"
  have "?f ! (2 * c) = font_word img ?x ?y \<and> ?f ! (2 * c + 1) = font_word img (?x + 2) ?y"
    using assms(1,3) concat_pairs_nth [of c "[0..<128]" "\<lambda>c. font_word img (c mod 32 * 4) (c div 32 * 8)"
        "\<lambda>c. font_word img (c mod 32 * 4 + 2) (c div 32 * 8)"]
    by (simp add: vm_hw_lem1802_mem_load_default_font_def Let_def c_def split: if_splits del: upt_rec_numeral)
  then have g: "lem_glyph vm hw chr = Some (push_bit 16 (ucast (font_word img ?x ?y)) OR ucast (font_word img (?x + 2) ?y))"
    using assms(2) by (simp add: lem_glyph_def Let_def c_def)
  have "bit (push_bit 16 (ucast (font_word img ?x ?y)) OR ucast (font_word img (?x + 2) ?y) :: u32) (24 - 8 * dx + dy) \<longleftrightarrow>
      128 < unat (img ! HW_LEM1802_FONT_RGB_COOR (?x + dx) (?y + dy))"
  proof -
    consider "dx = 0" | "dx = 1" | "dx = 2" | "dx = 3" using assms(4) by linarith
    moreover have "\<not> bit (w :: u16) (16 + dy)" "\<not> bit (w :: u16) (24 + dy)" for w
      by (auto dest: bit_imp_le_length)
    moreover note font_column [OF assms(5), of "?x + 1" ?x img ?y]
      font_column [OF assms(5), of "?x + 3" "?x + 2" img ?y]
    ultimately show ?thesis
      using assms(5) by cases (simp_all add: bit_simps)
  qed
  with g show ?thesis by (simp add: cell_colour_def c_def)
qed

theorem default_font_is_image_witness:
  "\<exists>font. vm_hw_lem1802_mem_load_default_font (replicate 12288 0xFF) = Some font \<and>
     (\<exists>glyph. lem_glyph (vm_create (lem_world\<lparr>font_default := font\<rparr>)) lem_demo 65 = Some glyph \<and>
        cell_colour (glyph, True, (255, 255, 255), (0, 0, 0)) 2 3 = (255, 255, 255))"
proof -
  obtain font where f: "vm_hw_lem1802_mem_load_default_font (replicate 12288 0xFF) = Some font"
    by (simp add: vm_hw_lem1802_mem_load_default_font_def)
  have "vm_hw_lem1802_mem_get_font lem_demo = 0"
    by (simp add: vm_hw_lem1802_mem_get_font_def lem_demo_def lem_new_def)
  with f default_font_is_image [of "replicate 12288 0xFF" "vm_create (lem_world\<lparr>font_default := font\<rparr>)"
      lem_demo 65 2 3 "(255, 255, 255)" "(0, 0, 0)"]
  show ?thesis by (auto simp: vm_create_fields HW_LEM1802_FONT_RGB_COOR_def)
qed

end
