(* ===== verification/Devices.thy ===== *)
theory Devices
  imports Vm_Control Hw_Clock Hw_M35fd Hw_Lem1802
begin

text \<open>
  The machine with its in-tree devices: the function pointers in the hook table and in the
  hardware table lead to the clock, the keyboard, the floppy drive and the display, and those
  call back into the machine (a device raises an interrupt, which fires hooks, which may be
  those of devices). The nesting of such calls is bounded by a depth; a call nested deeper is
  undefined. The in-tree callbacks fire only the interrupt and hardware-change hooks, to which
  no in-tree device listens.
\<close>

section \<open>Calls through function pointers\<close>

definition dev_hook :: "dcode \<Rightarrow> fnptr \<Rightarrow> dvm \<Rightarrow> u16 \<Rightarrow> ptr \<Rightarrow> dvm option" where
  "dev_hook e f vm pos ud =
     (if f = FN_clock_cycle then vm_hw_clock_cycle e vm pos ud
      else if f = FN_keyboard_cycle then vm_hw_keyboard_cycle e vm pos ud
      else if f = FN_m35fd_cycle then vm_hw_m35fd_cycle e vm pos ud
      else if f = FN_lem1802_cycle then vm_hw_lem1802_cycle vm pos ud
      else if f = FN_lem1802_write then vm_hw_lem1802_write vm pos ud
      else if f = FN_lem1802_break then vm_hw_lem1802_break vm pos ud
      else None)"

definition dev_handler :: "dcode \<Rightarrow> fnptr \<Rightarrow> dvm \<Rightarrow> ptr \<Rightarrow> dvm option" where
  "dev_handler e f vm ud =
     (if f = FN_clock_interrupt then vm_hw_clock_interrupt e vm ud
      else if f = FN_keyboard_interrupt then vm_hw_keyboard_interrupt vm ud
      else if f = FN_m35fd_interrupt then vm_hw_m35fd_interrupt e vm ud
      else if f = FN_lem1802_interrupt then vm_hw_lem1802_interrupt e vm ud
      else None)"

definition dev_free_handler :: "fnptr \<Rightarrow> dvm \<Rightarrow> ptr \<Rightarrow> dvm option" where
  "dev_free_handler f vm ud =
     (if f = FN_clock_free then vm_hw_clock_free vm ud
      else if f = FN_lem1802_free then vm_hw_lem1802_free vm ud
      else None)"

text \<open>The clock of the host and its random numbers are parameters.\<close>

primrec dev_code :: "(nat \<Rightarrow> int) \<Rightarrow> (nat \<Rightarrow> nat) \<Rightarrow> nat \<Rightarrow> dcode" where
  "dev_code t r 0 = \<lparr>hook_code = (\<lambda>_ _ _ _. None), handler_code = (\<lambda>_ _ _. None),
     free_code = (\<lambda>_ _ _. None), time_usec = t, rand_value = r\<rparr>"
| "dev_code t r (Suc n) = \<lparr>hook_code = dev_hook (dev_code t r n), handler_code = dev_handler (dev_code t r n),
     free_code = dev_free_handler, time_usec = t, rand_value = r\<rparr>"

section \<open>The devices meet the machine's contract\<close>

lemma dev_callbacks_step:
  assumes "callbacks e"
  shows "vm_wf vm \<Longrightarrow> pred_option vm_wf (dev_hook e f vm pos ud)"
    and "vm_wf vm \<Longrightarrow> pred_option vm_wf (dev_handler e f vm ud)"
    and "vm_wf vm \<Longrightarrow> pred_option vm_wf (dev_free_handler f vm ud)"
proof -
  have "vm_wf vm \<Longrightarrow> pred_option vm_wf (vm_hw_m35fd_cycle e vm pos ud)"
    "vm_wf vm \<Longrightarrow> pred_option vm_wf (vm_hw_m35fd_interrupt e vm ud)"
    by (rule pred_optionI, erule (1) m35fd_cycle_wf [OF assms] m35fd_interrupt_wf [OF assms])+
  then show "vm_wf vm \<Longrightarrow> pred_option vm_wf (dev_hook e f vm pos ud)"
    "vm_wf vm \<Longrightarrow> pred_option vm_wf (dev_handler e f vm ud)"
    "vm_wf vm \<Longrightarrow> pred_option vm_wf (dev_free_handler f vm ud)"
    by (simp_all add: dev_hook_def dev_handler_def dev_free_handler_def vm_hw_lem1802_break_def
        clock_wf [OF assms] keyboard_wf(1,2) [OF assms] lem1802_wf [OF assms])
qed

lemma dev_callbacks: "callbacks (dev_code t r n)"
proof (induction n)
  case 0
  then show ?case by unfold_locales simp_all
next
  case (Suc n)
  then show ?case by unfold_locales (simp_all add: dev_callbacks_step)
qed

interpretation dev: callbacks "dev_code t r n" for t r n
  by (rule dev_callbacks)

section \<open>Reachable machines\<close>

text \<open>
  A machine as the emulator builds and drives it: devices are attached at any time, the
  window system delivers keys and closes the window, and the machine steps.
\<close>

inductive dev_reachable :: "dcode \<Rightarrow> dvm \<Rightarrow> bool" for e where
  create: "dev_reachable e (vm_create w)"
| machine: "dev_reachable e vm \<Longrightarrow> vm_step e vm vm' \<Longrightarrow> dev_reachable e vm'"
| clock: "dev_reachable e vm \<Longrightarrow> vm_hw_clock_init e vm = Some vm' \<Longrightarrow> dev_reachable e vm'"
| keyboard: "dev_reachable e vm \<Longrightarrow> dev_reachable e (vm_hw_keyboard_init junk vm)"
| m35fd: "dev_reachable e vm \<Longrightarrow> vm_hw_m35fd_init e vm = Some vm' \<Longrightarrow> dev_reachable e vm'"
| lem1802: "dev_reachable e vm \<Longrightarrow> vm_hw_lem1802_init e texture junk vm = Some vm' \<Longrightarrow> dev_reachable e vm'"
| character: "dev_reachable e vm \<Longrightarrow> vm_hw_keyboard_handle_char vm c = Some vm' \<Longrightarrow> dev_reachable e vm'"
| key: "dev_reachable e vm \<Longrightarrow> vm_hw_keyboard_handle_key vm k state = Some vm' \<Longrightarrow> dev_reachable e vm'"
| window_close: "dev_reachable e vm \<Longrightarrow> vm_hw_lem1802_close vm ud = Some vm' \<Longrightarrow> dev_reachable e vm'"

lemma handle_switch_wf:
  "kb_handle_switch vm hw k ks = Some (i, hw', vm') \<Longrightarrow> vm_wf vm' = vm_wf vm"
  by (auto simp: kb_handle_switch_def Let_def elim!: bind_eq_SomeE split: if_splits)

lemma handle_wf:
  "vm_hw_keyboard_handle_char vm c = Some vm' \<Longrightarrow> vm_wf vm' = vm_wf vm"
  "vm_hw_keyboard_handle_key vm k state = Some vm' \<Longrightarrow> vm_wf vm' = vm_wf vm"
  "vm_hw_lem1802_close vm ud = Some vm' \<Longrightarrow> vm_wf vm' = vm_wf vm"
  by (auto simp: vm_hw_keyboard_handle_char_def vm_hw_keyboard_handle_key_def vm_hw_lem1802_close_def
      Let_def elim!: bind_eq_SomeE split: if_splits option.splits dest: handle_switch_wf)

lemma dev_reachable_wf:
  assumes "dev_reachable (dev_code t r n) vm"
  shows "vm_wf vm"
  using assms
proof induction
  case (create w)
  then show ?case by (rule vm_wf_create)
next
  case (machine vm vm')
  then show ?case by (blast intro: vm_step_wf [OF dev_callbacks])
next
  case (clock vm vm')
  then show ?case using clock_wf(3) [OF dev_callbacks] by (metis pred_option_SomeD)
next
  case (keyboard vm junk)
  then show ?case by (simp add: keyboard_wf(3) [OF dev_callbacks])
next
  case (m35fd vm vm')
  then show ?case by (blast intro: m35fd_init_wf [OF dev_callbacks])
next
  case (lem1802 vm texture junk vm')
  then show ?case using lem1802_wf(4) [OF dev_callbacks] by (metis pred_option_SomeD)
qed (simp_all add: handle_wf)




text \<open>A machine that runs off into zeroed memory: word 0 is an invalid opcode, and it halts.\<close>

lemma halt_run:
  assumes "vm_cycle e vm = Some vm1" and "halted vm1" and "\<not> halted vm" and "\<not> exit vm"
  shows "vm_execute_loop e vm = Some vm1"
  using assms by (simp add: vm_execute_loop.simps [of e vm] vm_execute_loop.simps [of e vm1])


end
