(* ===== verification/Objfmt.thy ===== *)
theory Objfmt
  imports Iio
begin

text \<open>
  The object file format (\<^verbatim>\<open>libdcpu-ci-objfmt\<close>: \<^verbatim>\<open>ldata.c\<close>, \<^verbatim>\<open>lprov.c\<close>, \<^verbatim>\<open>objfile.c\<close>): a
  sequence of fixed-size linker table entries, ended by an entry of mode 0, then the code.

  A linked list of \<open>lprov_entry\<close> is a list; a C string is the list of its bytes without the
  terminator. A read that meets the end of the file leaves memory from \<open>malloc\<close> behind: it
  is undefined (\<open>None\<close>), as is a string that overruns the 256 bytes of an entry.
\<close>

type_synonym cstr = "u8 list"

text \<open>A string literal.\<close>

definition c_str :: "string \<Rightarrow> cstr" where
  "c_str s = map of_char s"

abbreviation (input) LABEL_END :: u8 where "LABEL_END \<equiv> 0"
abbreviation (input) LABEL_PROVIDED :: u8 where "LABEL_PROVIDED \<equiv> 1"
abbreviation (input) LABEL_REQUIRED :: u8 where "LABEL_REQUIRED \<equiv> 2"
abbreviation (input) LABEL_ADJUSTMENT :: u8 where "LABEL_ADJUSTMENT \<equiv> 3"
abbreviation (input) LABEL_SECTION :: u8 where "LABEL_SECTION \<equiv> 4"
abbreviation (input) LABEL_OUTPUT :: u8 where "LABEL_OUTPUT \<equiv> 5"
abbreviation (input) LABEL_JUMP :: u8 where "LABEL_JUMP \<equiv> 6"
abbreviation (input) LABEL_OPTIONAL :: u8 where "LABEL_OPTIONAL \<equiv> 7"
abbreviation (input) LABEL_CALL :: u8 where "LABEL_CALL \<equiv> 8"

section \<open>Entries\<close>

text \<open>The mark at the start of an object file.\<close>

definition ldata_objfmt :: cstr where
  "ldata_objfmt = c_str ''OBJECT-FORMAT-1.2''"

record ldata_entry =
  le_label :: "u8 list"
  le_mode :: u8
  le_address :: u16

definition fread_bytes :: "nat \<Rightarrow> cfile \<Rightarrow> (u8 list \<times> cfile) option" where
  "fread_bytes n f =
     (if fpos f + n \<le> length (fcontent f)
      then Some (take n (drop (fpos f) (fcontent f)), f\<lparr>fpos := fpos f + n\<rparr>)
      else None)"

text \<open>The string in a character array: the bytes up to the first zero.\<close>

definition c_string :: "u8 list \<Rightarrow> cstr" where
  "c_string bs = takeWhile (\<lambda>b. b \<noteq> 0) bs"

definition ldata_read :: "bool \<Rightarrow> cfile \<Rightarrow> (ldata_entry \<times> cfile) option" where
  "ldata_read big f = do {
     (label, f) \<leftarrow> fread_bytes 256 f;
     (mode, f) \<leftarrow> fread_bytes 1 f;
     (address, f) \<leftarrow> fread_bytes 2 f;
     Some (\<lparr>le_label = label[255 := 0], le_mode = mode ! 0,
            le_address = host_word big (address ! 0) (address ! 1)\<rparr>, f)
   }"

definition ldata_write :: "bool \<Rightarrow> cfile \<Rightarrow> ldata_entry \<Rightarrow> cfile option" where
  "ldata_write big out entry =
     (let s = c_string (le_label entry);
          cpy = replicate 256 0
      in if length s = length (le_label entry) then None
         else
           (let cpy = (if length s + 1 < 256 then s @ [0] @ drop (length s + 1) cpy
                       else take 256 (le_label entry));
                cpy = cpy[255 := 0];
                (x, y) = host_bytes big (le_address entry)
            in Some (fwrite_bytes [x, y] (fwrite_bytes [le_mode entry] (fwrite_bytes cpy out)))))"

section \<open>Lists of labels\<close>

record lprov_entry =
  pe_label :: "cstr option"
  pe_address :: u16

definition lprov_create :: "cstr option \<Rightarrow> u16 \<Rightarrow> lprov_entry" where
  "lprov_create label address = \<lparr>pe_label = label, pe_address = address\<rparr>"

text \<open>The outer option is the undefined comparison with a missing label.\<close>

fun lprov_find_by_label :: "lprov_entry list \<Rightarrow> cstr \<Rightarrow> lprov_entry option option" where
  "lprov_find_by_label [] label = Some None"
| "lprov_find_by_label (first # rest) label =
     (case pe_label first of
        None \<Rightarrow> None
      | Some l \<Rightarrow> if l = label then Some (Some first) else lprov_find_by_label rest label)"

fun lprov_find_by_address :: "lprov_entry list \<Rightarrow> u16 \<Rightarrow> lprov_entry option" where
  "lprov_find_by_address [] address = None"
| "lprov_find_by_address (first # rest) address =
     (if pe_address first = address then Some first else lprov_find_by_address rest address)"

section \<open>Loading\<close>

text \<open>The eight tables of \<open>objfile_load\<close>; \<open>None\<close> is a table the caller did not ask for.\<close>

record objtabs =
  t_provided :: "lprov_entry list option"
  t_required :: "lprov_entry list option"
  t_adjustment :: "lprov_entry list option"
  t_section :: "lprov_entry list option"
  t_output :: "lprov_entry list option"
  t_jump :: "lprov_entry list option"
  t_optional :: "lprov_entry list option"
  t_call :: "lprov_entry list option"

definition snoc_opt :: "'a list option \<Rightarrow> 'a \<Rightarrow> 'a list option" where
  "snoc_opt t x = map_option (\<lambda>xs. xs @ [x]) t"

text \<open>
  One entry. \<open>prev\<close> is the address of the last section of this file, if there was one; the
  comparison with it is in \<open>int\<close>, before the sum is cut to 16 bits.
\<close>

definition objfile_load_entry ::
    "u16 \<Rightarrow> ldata_entry \<Rightarrow> u16 option \<times> objtabs \<Rightarrow> u16 option \<times> objtabs" where
  "objfile_load_entry offset entry st =
     (case st of (prev, t) \<Rightarrow>
        (let e = lprov_create (Some (c_string (le_label entry))) (le_address entry + offset) in
         if le_mode entry = LABEL_PROVIDED \<and> t_provided t \<noteq> None then
           (prev, t\<lparr>t_provided := snoc_opt (t_provided t) e\<rparr>)
         else if le_mode entry = LABEL_REQUIRED \<and> t_required t \<noteq> None then
           (prev, t\<lparr>t_required := snoc_opt (t_required t) e\<rparr>)
         else if le_mode entry = LABEL_ADJUSTMENT \<and> t_adjustment t \<noteq> None then
           (prev, t\<lparr>t_adjustment := snoc_opt (t_adjustment t) (lprov_create None (le_address entry + offset))\<rparr>)
         else if le_mode entry = LABEL_SECTION \<and> t_section t \<noteq> None then
           (if prev \<noteq> None \<and> unat (le_address entry) + unat offset = unat (the prev) then (prev, t)
            else (Some (le_address entry + offset), t\<lparr>t_section := snoc_opt (t_section t) e\<rparr>))
         else if le_mode entry = LABEL_OUTPUT \<and> t_output t \<noteq> None then
           (prev, t\<lparr>t_output := snoc_opt (t_output t) e\<rparr>)
         else if le_mode entry = LABEL_JUMP \<and> t_jump t \<noteq> None then
           (prev, t\<lparr>t_jump := snoc_opt (t_jump t) e\<rparr>)
         else if le_mode entry = LABEL_OPTIONAL \<and> t_optional t \<noteq> None then
           (prev, t\<lparr>t_optional := snoc_opt (t_optional t) e\<rparr>)
         else if le_mode entry = LABEL_CALL \<and> t_call t \<noteq> None then
           (prev, t\<lparr>t_call := snoc_opt (t_call t) e\<rparr>)
         else st))"

lemma ldata_read_advances:
  "ldata_read big f = Some (entry, f') \<Longrightarrow> fcontent f' = fcontent f \<and> fpos f' = fpos f + 259 \<and>
     fpos f' \<le> length (fcontent f)"
  by (auto simp: ldata_read_def fread_bytes_def split: if_splits elim!: bind_eq_SomeE)

function objfile_load_loop ::
    "bool \<Rightarrow> u16 \<Rightarrow> u16 option \<times> objtabs \<Rightarrow> cfile \<Rightarrow> (objtabs \<times> cfile) option" where
  "objfile_load_loop big offset st f =
     (case ldata_read big f of
        None \<Rightarrow> None
      | Some (entry, f') \<Rightarrow>
          if le_mode entry = LABEL_END then Some (snd st, f')
          else objfile_load_loop big offset (objfile_load_entry offset entry st) f')"
  by pat_completeness auto

termination
  by (relation "measure (\<lambda>(_, _, _, f). length (fcontent f) - fpos f)")
    (auto dest: ldata_read_advances)

declare objfile_load_loop.simps [simp del]

text \<open>The offset grows by the number of words behind the table.\<close>

definition objfile_load :: "bool \<Rightarrow> cfile \<Rightarrow> u16 \<Rightarrow> objtabs \<Rightarrow> (u16 \<times> objtabs \<times> cfile) option" where
  "objfile_load big f offset t = do {
     (t, f) \<leftarrow> objfile_load_loop big offset (None, t) f;
     Some (offset + of_nat ((length (fcontent f) - fpos f) div 2), t, f)
   }"

section \<open>Saving\<close>

text \<open>
  An entry with a label copied by \<open>strcpy\<close>. What lies behind the terminator is never read;
  it is zero here.
\<close>

definition objfile_entry :: "u8 \<Rightarrow> cstr \<Rightarrow> u16 \<Rightarrow> ldata_entry option" where
  "objfile_entry mode label address =
     (if length label < 256
      then Some \<lparr>le_label = label @ replicate (256 - length label) 0, le_mode = mode, le_address = address\<rparr>
      else None)"

primrec objfile_save_table :: "bool \<Rightarrow> u8 \<Rightarrow> lprov_entry list \<Rightarrow> cfile \<Rightarrow> cfile option" where
  "objfile_save_table big mode [] out = Some out"
| "objfile_save_table big mode (e # es) out = do {
     label \<leftarrow> (if mode = LABEL_ADJUSTMENT \<or> mode = LABEL_JUMP \<and> pe_label e = None then Some [] else pe_label e);
     entry \<leftarrow> objfile_entry mode label (pe_address e);
     out \<leftarrow> ldata_write big out entry;
     objfile_save_table big mode es out
   }"

definition objfile_save ::
    "bool \<Rightarrow> cfile \<Rightarrow> lprov_entry list \<Rightarrow> lprov_entry list \<Rightarrow> lprov_entry list \<Rightarrow> lprov_entry list \<Rightarrow>
     lprov_entry list \<Rightarrow> lprov_entry list \<Rightarrow> lprov_entry list \<Rightarrow> lprov_entry list \<Rightarrow> cfile option" where
  "objfile_save big out provided required adjustment section output jump optional call = do {
     out \<leftarrow> objfile_save_table big LABEL_PROVIDED provided out;
     out \<leftarrow> objfile_save_table big LABEL_REQUIRED required out;
     out \<leftarrow> objfile_save_table big LABEL_ADJUSTMENT adjustment out;
     out \<leftarrow> objfile_save_table big LABEL_SECTION section out;
     out \<leftarrow> objfile_save_table big LABEL_OUTPUT output out;
     out \<leftarrow> objfile_save_table big LABEL_JUMP jump out;
     out \<leftarrow> objfile_save_table big LABEL_OPTIONAL optional out;
     out \<leftarrow> objfile_save_table big LABEL_CALL call out;
     entry \<leftarrow> objfile_entry LABEL_END [] 0;
     ldata_write big out entry
   }"

section \<open>Entries are read back as written\<close>

text \<open>The 259 bytes of an entry.\<close>

definition entry_bytes :: "bool \<Rightarrow> u8 \<Rightarrow> cstr \<Rightarrow> u16 \<Rightarrow> u8 list" where
  "entry_bytes big mode label address =
     label @ replicate (256 - length label) 0 @ mode #
       [fst (host_bytes big address), snd (host_bytes big address)]"

definition label_ok :: "cstr \<Rightarrow> bool" where
  "label_ok l \<longleftrightarrow> length l < 256 \<and> 0 \<notin> set l"

lemma c_string_pad: "label_ok l \<Longrightarrow> 0 < n \<Longrightarrow> c_string (l @ replicate n 0) = l"
  by (cases n) (auto simp: c_string_def label_ok_def takeWhile_append)

definition at_end :: "cfile \<Rightarrow> bool" where
  "at_end f \<longleftrightarrow> fpos f = length (fcontent f)"

definition append_bytes :: "cfile \<Rightarrow> u8 list \<Rightarrow> cfile" where
  "append_bytes f bs = f\<lparr>fcontent := fcontent f @ bs, fpos := length (fcontent f) + length bs\<rparr>"

lemma fwrite_at_end: "at_end f \<Longrightarrow> fwrite_bytes bs f = append_bytes f bs"
  by (simp add: at_end_def fwrite_bytes_def append_bytes_def Let_def)

lemma append_bytes_simps [simp]:
  "at_end (append_bytes f bs)" "append_bytes (append_bytes f bs) cs = append_bytes f (bs @ cs)"
  "fcontent (append_bytes f bs) = fcontent f @ bs"
  "fpos (append_bytes f bs) = length (fcontent f) + length bs"
  by (simp_all add: at_end_def append_bytes_def)

lemma append_bytes_Nil: "at_end f \<Longrightarrow> append_bytes f [] = f"
  by (simp add: at_end_def append_bytes_def)

lemma ldata_write_entry:
  assumes "label_ok l" and "at_end f"
  shows "objfile_entry mode l a \<bind> ldata_write big f = Some (append_bytes f (entry_bytes big mode l a))"
proof -
  have l: "length l < 256" and s: "c_string (l @ replicate (256 - length l) 0) = l"
    using assms(1) c_string_pad [of l "256 - length l"] by (simp_all add: label_ok_def)
  have pad: "(l @ 0 # replicate (255 - length l) 0)[255 := 0] = l @ replicate (256 - length l) (0 :: u8)"
    "(l @ replicate (256 - length l) 0)[255 := 0] = l @ replicate (256 - length l) (0 :: u8)"
    using l by (auto intro!: nth_equalityI simp: nth_append nth_list_update nth_Cons')
  show ?thesis
    using l s assms(2) pad
    by (simp add: objfile_entry_def ldata_write_def Let_def split_def fwrite_at_end entry_bytes_def)
qed

lemma ldata_read_entry:
  assumes "label_ok l" and "drop (fpos f) (fcontent f) = entry_bytes big mode l a @ rest"
  shows "ldata_read big f = Some (\<lparr>le_label = l @ replicate (256 - length l) 0, le_mode = mode, le_address = a\<rparr>,
    f\<lparr>fpos := fpos f + 259\<rparr>)"
proof -
  have l: "length l < 256" using assms(1) by (simp add: label_ok_def)
  have le: "fpos f + 259 \<le> length (fcontent f)"
    using arg_cong [OF assms(2), of length] l by (simp add: entry_bytes_def)
  have pad: "(l @ replicate (256 - length l) 0)[255 := 0] = l @ replicate (256 - length l) (0 :: u8)"
    using l by (intro nth_equalityI) (auto simp: nth_append nth_list_update)
  have d: "drop (k + fpos f) (fcontent f) = drop k (entry_bytes big mode l a @ rest)" for k
    using assms(2) by (metis drop_drop)
  have 1: "take 256 (drop (fpos f) (fcontent f)) = l @ replicate (256 - length l) 0"
    using l d [of 0] by (simp add: entry_bytes_def)
  have 2: "take 1 (drop (fpos f + 256) (fcontent f)) = [mode]"
    using l d [of 256] by (simp add: entry_bytes_def add.commute)
  have 3: "take 2 (drop (fpos f + 257) (fcontent f)) = [fst (host_bytes big a), snd (host_bytes big a)]"
    using l d [of 257] by (simp add: entry_bytes_def add.commute)
  show ?thesis
    using le 1 2 3 host_round_trip [of big a "fst (host_bytes big a)" "snd (host_bytes big a)"]
      arg_cong [OF 3, of "\<lambda>xs. xs ! 0"] arg_cong [OF 3, of "\<lambda>xs. xs ! 1"]
    by (simp add: ldata_read_def fread_bytes_def pad add.commute)
qed

section \<open>The table is read back as written\<close>

lemma load_entries:
  assumes "drop (fpos f) (fcontent f) =
      concat (map (\<lambda>(m, l, a). entry_bytes big m l a) es) @ entry_bytes big LABEL_END [] 0 @ rest"
    and "\<forall>(m, l, a) \<in> set es. m \<noteq> LABEL_END \<and> label_ok l"
  shows "objfile_load_loop big offset st f =
    Some (snd (fold (\<lambda>(m, l, a). objfile_load_entry offset
        \<lparr>le_label = l @ replicate (256 - length l) 0, le_mode = m, le_address = a\<rparr>) es st),
      f\<lparr>fpos := fpos f + 259 * Suc (length es)\<rparr>)"
  using assms
proof (induction es arbitrary: f st)
  case Nil
  then have "ldata_read big f = Some (\<lparr>le_label = [] @ replicate (256 - length ([] :: u8 list)) 0,
      le_mode = 0, le_address = 0\<rparr>, f\<lparr>fpos := fpos f + 259\<rparr>)"
    by (intro ldata_read_entry) (auto simp: label_ok_def)
  then show ?case by (subst objfile_load_loop.simps) simp
next
  case (Cons e es)
  obtain m l a where e: "e = (m, l, a)" by (cases e) auto
  then have ok: "label_ok l" "m \<noteq> 0" using Cons.prems(2) by auto
  have r: "ldata_read big f = Some (\<lparr>le_label = l @ replicate (256 - length l) 0, le_mode = m, le_address = a\<rparr>,
      f\<lparr>fpos := fpos f + 259\<rparr>)"
    by (rule ldata_read_entry [OF ok(1)]) (use Cons.prems(1) e in simp)
  have len: "length (entry_bytes big m l a) = 259" using ok(1) by (simp add: entry_bytes_def label_ok_def)
  have "drop (fpos (f\<lparr>fpos := fpos f + 259\<rparr>)) (fcontent (f\<lparr>fpos := fpos f + 259\<rparr>)) =
      drop 259 (drop (fpos f) (fcontent f))" by (simp add: add.commute)
  also have "\<dots> = concat (map (\<lambda>(m, l, a). entry_bytes big m l a) es) @ entry_bytes big LABEL_END [] 0 @ rest"
    unfolding Cons.prems(1) using len e by simp
  finally show ?case
    using Cons.IH [of "f\<lparr>fpos := fpos f + 259\<rparr>"] Cons.prems(2) ok(2) e
    by (subst objfile_load_loop.simps) (simp add: r algebra_simps)
qed

definition saved_label :: "u8 \<Rightarrow> lprov_entry \<Rightarrow> cstr" where
  "saved_label mode e = (if mode = LABEL_ADJUSTMENT then [] else case pe_label e of None \<Rightarrow> [] | Some l \<Rightarrow> l)"

text \<open>Labels the format can hold: present (but for adjustments and jumps), short, without zeros.\<close>

definition table_ok :: "u8 \<Rightarrow> lprov_entry list \<Rightarrow> bool" where
  "table_ok mode es \<longleftrightarrow> (\<forall>e \<in> set es. mode = LABEL_ADJUSTMENT \<or>
     (case pe_label e of None \<Rightarrow> mode = LABEL_JUMP | Some l \<Rightarrow> label_ok l))"

definition table_entries :: "u8 \<Rightarrow> lprov_entry list \<Rightarrow> (u8 \<times> cstr \<times> u16) list" where
  "table_entries mode es = map (\<lambda>e. (mode, saved_label mode e, pe_address e)) es"

lemma table_ok_tl: "table_ok mode (e # es) \<Longrightarrow> table_ok mode es"
  unfolding table_ok_def by auto

lemma saved_label_ok: "table_ok mode (e # es) \<Longrightarrow> label_ok (saved_label mode e)"
  by (cases "pe_label e") (auto simp: table_ok_def saved_label_def label_ok_def)

lemma save_table_eq:
  assumes "table_ok mode es" and "at_end f"
  shows "objfile_save_table big mode es f =
    Some (append_bytes f (concat (map (\<lambda>(m, l, a). entry_bytes big m l a) (table_entries mode es))))"
  using assms
proof (induction es arbitrary: f)
  case Nil
  then show ?case by (simp add: table_entries_def append_bytes_Nil)
next
  case (Cons e es)
  note ok = saved_label_ok [OF Cons.prems(1)]
  have l: "(if mode = LABEL_ADJUSTMENT \<or> mode = LABEL_JUMP \<and> pe_label e = None then Some [] else pe_label e) =
      Some (saved_label mode e)"
    using Cons.prems(1) by (auto simp: table_ok_def saved_label_def split: option.splits)
  have "table_ok mode es" using Cons.prems(1) by (rule table_ok_tl)
  with Cons.IH ldata_write_entry [OF ok Cons.prems(2), of mode "pe_address e" big] l show ?case
    by (auto simp: table_entries_def bind_eq_Some_conv)
qed

definition loaded :: "u8 \<Rightarrow> u16 \<Rightarrow> lprov_entry \<Rightarrow> lprov_entry" where
  "loaded mode offset e =
     lprov_create (if mode = LABEL_ADJUSTMENT then None else Some (saved_label mode e)) (pe_address e + offset)"

abbreviation (input) load_all :: "u16 \<Rightarrow> (u8 \<times> cstr \<times> u16) list \<Rightarrow> u16 option \<times> objtabs \<Rightarrow> u16 option \<times> objtabs" where
  "load_all offset es \<equiv> fold (\<lambda>(m, l, a). objfile_load_entry offset
     \<lparr>le_label = l @ replicate (256 - length l) 0, le_mode = m, le_address = a\<rparr>) es"

lemma table_labels:
  "table_ok mode es \<Longrightarrow> (m, l, a) \<in> set (table_entries mode es) \<Longrightarrow> m = mode \<and> label_ok l"
proof (induction es)
  case (Cons e es)
  then show ?case using saved_label_ok [OF Cons.prems(1)] table_ok_tl [OF Cons.prems(1)] by (auto simp: table_entries_def)
qed (simp add: table_entries_def)

lemma c_string_saved: "label_ok (saved_label mode e) \<Longrightarrow>
    c_string (saved_label mode e @ replicate (256 - length (saved_label mode e)) 0) = saved_label mode e"
  by (intro c_string_pad) (auto simp: label_ok_def)

lemma load_table:
  assumes "table_ok mode es"
  shows "mode = 1 \<Longrightarrow> t_provided t = Some xs \<Longrightarrow> load_all offset (table_entries mode es) (p, t) =
      (p, t\<lparr>t_provided := Some (xs @ map (loaded mode offset) es)\<rparr>)"
    and "mode = 2 \<Longrightarrow> t_required t = Some xs \<Longrightarrow> load_all offset (table_entries mode es) (p, t) =
      (p, t\<lparr>t_required := Some (xs @ map (loaded mode offset) es)\<rparr>)"
    and "mode = 3 \<Longrightarrow> t_adjustment t = Some xs \<Longrightarrow> load_all offset (table_entries mode es) (p, t) =
      (p, t\<lparr>t_adjustment := Some (xs @ map (loaded mode offset) es)\<rparr>)"
    and "mode = 5 \<Longrightarrow> t_output t = Some xs \<Longrightarrow> load_all offset (table_entries mode es) (p, t) =
      (p, t\<lparr>t_output := Some (xs @ map (loaded mode offset) es)\<rparr>)"
    and "mode = 6 \<Longrightarrow> t_jump t = Some xs \<Longrightarrow> load_all offset (table_entries mode es) (p, t) =
      (p, t\<lparr>t_jump := Some (xs @ map (loaded mode offset) es)\<rparr>)"
    and "mode = 7 \<Longrightarrow> t_optional t = Some xs \<Longrightarrow> load_all offset (table_entries mode es) (p, t) =
      (p, t\<lparr>t_optional := Some (xs @ map (loaded mode offset) es)\<rparr>)"
    and "mode = 8 \<Longrightarrow> t_call t = Some xs \<Longrightarrow> load_all offset (table_entries mode es) (p, t) =
      (p, t\<lparr>t_call := Some (xs @ map (loaded mode offset) es)\<rparr>)"
proof -
  have ok: "\<forall>e \<in> set es. label_ok (saved_label mode e)"
    using table_labels [OF assms] by (auto simp: table_entries_def)
  note step = objfile_load_entry_def snoc_opt_def table_entries_def loaded_def Let_def
  show "mode = 1 \<Longrightarrow> t_provided t = Some xs \<Longrightarrow> load_all offset (table_entries mode es) (p, t) =
      (p, t\<lparr>t_provided := Some (xs @ map (loaded mode offset) es)\<rparr>)"
    using ok by (induction es arbitrary: t xs) (simp_all add: step c_string_saved)
  show "mode = 2 \<Longrightarrow> t_required t = Some xs \<Longrightarrow> load_all offset (table_entries mode es) (p, t) =
      (p, t\<lparr>t_required := Some (xs @ map (loaded mode offset) es)\<rparr>)"
    using ok by (induction es arbitrary: t xs) (simp_all add: step c_string_saved)
  show "mode = 3 \<Longrightarrow> t_adjustment t = Some xs \<Longrightarrow> load_all offset (table_entries mode es) (p, t) =
      (p, t\<lparr>t_adjustment := Some (xs @ map (loaded mode offset) es)\<rparr>)"
    using ok by (induction es arbitrary: t xs) (simp_all add: step)
  show "mode = 5 \<Longrightarrow> t_output t = Some xs \<Longrightarrow> load_all offset (table_entries mode es) (p, t) =
      (p, t\<lparr>t_output := Some (xs @ map (loaded mode offset) es)\<rparr>)"
    using ok by (induction es arbitrary: t xs) (simp_all add: step c_string_saved)
  show "mode = 6 \<Longrightarrow> t_jump t = Some xs \<Longrightarrow> load_all offset (table_entries mode es) (p, t) =
      (p, t\<lparr>t_jump := Some (xs @ map (loaded mode offset) es)\<rparr>)"
    using ok by (induction es arbitrary: t xs) (simp_all add: step c_string_saved)
  show "mode = 7 \<Longrightarrow> t_optional t = Some xs \<Longrightarrow> load_all offset (table_entries mode es) (p, t) =
      (p, t\<lparr>t_optional := Some (xs @ map (loaded mode offset) es)\<rparr>)"
    using ok by (induction es arbitrary: t xs) (simp_all add: step c_string_saved)
  show "mode = 8 \<Longrightarrow> t_call t = Some xs \<Longrightarrow> load_all offset (table_entries mode es) (p, t) =
      (p, t\<lparr>t_call := Some (xs @ map (loaded mode offset) es)\<rparr>)"
    using ok by (induction es arbitrary: t xs) (simp_all add: step c_string_saved)
qed

lemma unat_add_u16:
  "unat (a + b :: u16) = (if unat a + unat b < 65536 then unat a + unat b else unat a + unat b - 65536)"
proof -
  have "unat (a + b) = (unat a + unat b) mod 65536" by (simp add: unat_word_ariths)
  moreover have "unat a + unat b - 65536 < 65536"
    using unat_less_65536 [of a] unat_less_65536 [of b] by linarith
  ultimately show ?thesis by (simp add: le_mod_geq not_less)
qed

text \<open>Sections: a section at the address of the one before it is dropped.\<close>

lemma load_sections:
  assumes "table_ok 4 es" and "distinct_adj (map pe_address es)" and "t_section t = Some xs"
    and "\<forall>e q. es = e # q \<longrightarrow> (\<forall>b. p = Some b \<longrightarrow> unat (pe_address e) + unat offset \<noteq> unat b)"
  shows "\<exists>p'. load_all offset (table_entries 4 es) (p, t) =
      (p', t\<lparr>t_section := Some (xs @ map (loaded 4 offset) es)\<rparr>)"
  using assms
proof (induction es arbitrary: p t xs)
  case Nil
  then show ?case by (simp add: table_entries_def)
next
  case (Cons e es)
  let ?t = "t\<lparr>t_section := Some (xs @ [loaded 4 offset e])\<rparr>"
  have tl: "table_ok 4 es" "distinct_adj (map pe_address es)"
    using table_ok_tl [OF Cons.prems(1)] Cons.prems(2) by (auto simp: distinct_adj_Cons)
  have "objfile_load_entry offset \<lparr>le_label = saved_label 4 e @ replicate (256 - length (saved_label 4 e)) 0,
      le_mode = 4, le_address = pe_address e\<rparr> (p, t) = (Some (pe_address e + offset), ?t)"
    using Cons.prems(3,4)
    by (auto simp: objfile_load_entry_def snoc_opt_def loaded_def Let_def
        c_string_saved [OF saved_label_ok [OF Cons.prems(1)]])
  moreover have "unat (pe_address e') + unat offset \<noteq> unat (pe_address e + offset)"
    if "es = e' # q" for e' q
  proof -
    have "pe_address e' \<noteq> pe_address e" using Cons.prems(2) that by (auto simp: distinct_adj_Cons)
    then have "unat (pe_address e') \<noteq> unat (pe_address e)" by (simp add: word_unat_eq_iff)
    moreover have "unat (pe_address e + offset) =
        (if unat (pe_address e) + unat offset < 65536 then unat (pe_address e) + unat offset
         else unat (pe_address e) + unat offset - 65536)"
      by (rule unat_add_u16)
    moreover have "unat (pe_address e) < 65536" by (rule unat_less_65536)
    ultimately show ?thesis by presburger
  qed
  then have "\<exists>p'. load_all offset (table_entries 4 es) (Some (pe_address e + offset), ?t) =
      (p', ?t\<lparr>t_section := Some ((xs @ [loaded 4 offset e]) @ map (loaded 4 offset) es)\<rparr>)"
    by (intro Cons.IH tl) auto
  ultimately show ?case by (simp add: table_entries_def)
qed

lemma load_tables:
  assumes "table_ok 1 provided" and "table_ok 2 required" and "table_ok 3 adjustment" and "table_ok 4 section"
    and "table_ok 5 output" and "table_ok 6 jump" and "table_ok 7 optional" and "table_ok 8 call"
    and "distinct_adj (map pe_address section)"
  shows "snd (load_all offset (table_entries 1 provided @ table_entries 2 required @ table_entries 3 adjustment @
      table_entries 4 section @ table_entries 5 output @ table_entries 6 jump @ table_entries 7 optional @
      table_entries 8 call) (None, \<lparr>t_provided = Some p0, t_required = Some r0,
      t_adjustment = Some a0, t_section = Some s0, t_output = Some o0, t_jump = Some j0,
      t_optional = Some q0, t_call = Some c0\<rparr>)) =
      \<lparr>t_provided = Some (p0 @ map (loaded 1 offset) provided), t_required = Some (r0 @ map (loaded 2 offset) required),
       t_adjustment = Some (a0 @ map (loaded 3 offset) adjustment), t_section = Some (s0 @ map (loaded 4 offset) section),
       t_output = Some (o0 @ map (loaded 5 offset) output), t_jump = Some (j0 @ map (loaded 6 offset) jump),
       t_optional = Some (q0 @ map (loaded 7 offset) optional), t_call = Some (c0 @ map (loaded 8 offset) call)\<rparr>"
proof -
  let ?t = "\<lparr>t_provided = Some (p0 @ map (loaded 1 offset) provided), t_required = Some (r0 @ map (loaded 2 offset) required),
       t_adjustment = Some (a0 @ map (loaded 3 offset) adjustment), t_section = Some s0,
       t_output = Some o0, t_jump = Some j0, t_optional = Some q0, t_call = Some c0\<rparr>"
  obtain p' where "load_all offset (table_entries 4 section) (None, ?t) =
      (p', ?t\<lparr>t_section := Some (s0 @ map (loaded 4 offset) section)\<rparr>)"
    using load_sections [OF assms(4,9), of ?t s0 None offset] by auto
  then show ?thesis
    by (simp add: load_table(1) [OF assms(1) refl] load_table(2) [OF assms(2) refl] load_table(3) [OF assms(3) refl]
        load_table(4) [OF assms(5) refl] load_table(5) [OF assms(6) refl] load_table(6) [OF assms(7) refl]
        load_table(7) [OF assms(8) refl])
qed

lemma objfile_saved_loads:
  assumes "table_ok LABEL_PROVIDED provided" and "table_ok LABEL_REQUIRED required"
    and "table_ok LABEL_ADJUSTMENT adjustment" and "table_ok LABEL_SECTION section"
    and "table_ok LABEL_OUTPUT output" and "table_ok LABEL_JUMP jump"
    and "table_ok LABEL_OPTIONAL optional" and "table_ok LABEL_CALL call"
    and "distinct_adj (map pe_address section)" and "fpos f = length (fcontent f)"
  shows "\<exists>f1. objfile_save big f provided required adjustment section output jump optional call = Some f1 \<and>
    objfile_load big (f1\<lparr>fcontent := fcontent f1 @ code, fpos := fpos f\<rparr>) offset
      \<lparr>t_provided = Some p0, t_required = Some r0, t_adjustment = Some a0, t_section = Some s0,
       t_output = Some o0, t_jump = Some j0, t_optional = Some q0, t_call = Some c0\<rparr> =
    Some (offset + of_nat (length code div 2),
      \<lparr>t_provided = Some (p0 @ map (loaded LABEL_PROVIDED offset) provided),
       t_required = Some (r0 @ map (loaded LABEL_REQUIRED offset) required),
       t_adjustment = Some (a0 @ map (loaded LABEL_ADJUSTMENT offset) adjustment),
       t_section = Some (s0 @ map (loaded LABEL_SECTION offset) section),
       t_output = Some (o0 @ map (loaded LABEL_OUTPUT offset) output),
       t_jump = Some (j0 @ map (loaded LABEL_JUMP offset) jump),
       t_optional = Some (q0 @ map (loaded LABEL_OPTIONAL offset) optional),
       t_call = Some (c0 @ map (loaded LABEL_CALL offset) call)\<rparr>,
      f1\<lparr>fcontent := fcontent f1 @ code\<rparr>)"
proof -
  have e: "at_end f" using assms(10) by (simp add: at_end_def)
  define es where "es = table_entries 1 provided @ table_entries 2 required @ table_entries 3 adjustment @
    table_entries 4 section @ table_entries 5 output @ table_entries 6 jump @ table_entries 7 optional @
    table_entries 8 call"
  define bs where "bs = concat (map (\<lambda>(m, l, a). entry_bytes big m l a) es)"
  let ?f1 = "append_bytes f (bs @ entry_bytes big 0 [] 0)"
  have "objfile_entry 0 [] 0 \<bind> ldata_write big g = Some (append_bytes g (entry_bytes big 0 [] 0))"
    if "at_end g" for g
    using that by (intro ldata_write_entry) (simp_all add: label_ok_def)
  then have save: "objfile_save big f provided required adjustment section output jump optional call = Some ?f1"
    using e unfolding objfile_save_def
    by (simp add: save_table_eq [OF assms(1)] save_table_eq [OF assms(2)] save_table_eq [OF assms(3)]
        save_table_eq [OF assms(4)] save_table_eq [OF assms(5)] save_table_eq [OF assms(6)]
        save_table_eq [OF assms(7)] save_table_eq [OF assms(8)] bs_def es_def)
  have ok: "m \<noteq> 0 \<and> label_ok l" if "(m, l, a) \<in> set es" for m l a
  proof -
    have "(\<exists>k \<in> {1, 2, 3, 4, 5, 6, 7, 8}. m = k) \<and> label_ok l"
      using that unfolding es_def set_append Un_iff
      by (elim disjE) (drule table_labels [OF assms(1)] table_labels [OF assms(2)] table_labels [OF assms(3)]
        table_labels [OF assms(4)] table_labels [OF assms(5)] table_labels [OF assms(6)]
        table_labels [OF assms(7)] table_labels [OF assms(8)]; simp)+
    then show ?thesis by auto
  qed
  have len: "length bs = 259 * length es"
  proof -
    have "length (entry_bytes big m l a) = 259" if "(m, l, a) \<in> set es" for m l a
      using ok [OF that] by (auto simp: entry_bytes_def label_ok_def)
    then have "sum_list (map (\<lambda>(m, l, a). length (entry_bytes big m l a)) xs) = 259 * length xs"
      if "set xs \<subseteq> set es" for xs
      using that by (induction xs) auto
    from this [of es] show ?thesis by (simp add: bs_def length_concat o_def split_def)
  qed
  let ?g = "?f1\<lparr>fcontent := fcontent ?f1 @ code, fpos := fpos f\<rparr>"
  have "objfile_load_loop big offset st ?g = Some (snd (load_all offset es st), ?g\<lparr>fpos := fpos ?g + 259 * Suc (length es)\<rparr>)" for st
  proof (rule load_entries)
    show "drop (fpos ?g) (fcontent ?g) =
        concat (map (\<lambda>(m, l, a). entry_bytes big m l a) es) @ entry_bytes big LABEL_END [] 0 @ code"
      using assms(10) by (simp add: bs_def)
    show "\<forall>(m, l, a) \<in> set es. m \<noteq> LABEL_END \<and> label_ok l"
      using ok by blast
  qed
  moreover have "?g\<lparr>fpos := fpos ?g + 259 * Suc (length es)\<rparr> = ?f1\<lparr>fcontent := fcontent ?f1 @ code\<rparr>"
    using len assms(10) by (simp add: append_bytes_def entry_bytes_def)
  moreover have "snd (load_all offset es (None, \<lparr>t_provided = Some p0, t_required = Some r0,
      t_adjustment = Some a0, t_section = Some s0, t_output = Some o0, t_jump = Some j0,
      t_optional = Some q0, t_call = Some c0\<rparr>)) =
      \<lparr>t_provided = Some (p0 @ map (loaded 1 offset) provided), t_required = Some (r0 @ map (loaded 2 offset) required),
       t_adjustment = Some (a0 @ map (loaded 3 offset) adjustment), t_section = Some (s0 @ map (loaded 4 offset) section),
       t_output = Some (o0 @ map (loaded 5 offset) output), t_jump = Some (j0 @ map (loaded 6 offset) jump),
       t_optional = Some (q0 @ map (loaded 7 offset) optional), t_call = Some (c0 @ map (loaded 8 offset) call)\<rparr>"
    unfolding es_def by (rule load_tables [OF assms(1-9)])
  ultimately show ?thesis
    using save by (simp add: objfile_load_def)
qed

text \<open>
  C14. An object file is read back as it was written. Take eight tables whose labels the
  format can hold (short, without zero bytes), with no two successive sections at the same
  address. Saving them succeeds, and loading the saved file with any code behind it, at any
  link offset, appends exactly those entries to the caller's tables, in order, with their
  addresses moved up by the offset (modulo 2^16); the stream is left at the first byte of
  the code, and the offset grows by the number of code words. This holds for either byte
  order of the machine, when writer and reader have the same.
\<close>

theorem objfile_round_trip:
  assumes "table_ok LABEL_PROVIDED provided" and "table_ok LABEL_REQUIRED required"
    and "table_ok LABEL_ADJUSTMENT adjustment" and "table_ok LABEL_SECTION section"
    and "table_ok LABEL_OUTPUT output" and "table_ok LABEL_JUMP jump"
    and "table_ok LABEL_OPTIONAL optional" and "table_ok LABEL_CALL call"
    and "distinct_adj (map pe_address section)" and "fpos f = length (fcontent f)"
  shows "\<exists>f1. objfile_save big f provided required adjustment section output jump optional call = Some f1 \<and>
    objfile_load big (f1\<lparr>fcontent := fcontent f1 @ code, fpos := fpos f\<rparr>) offset
      \<lparr>t_provided = Some p0, t_required = Some r0, t_adjustment = Some a0, t_section = Some s0,
       t_output = Some o0, t_jump = Some j0, t_optional = Some q0, t_call = Some c0\<rparr> =
    Some (offset + of_nat (length code div 2),
      \<lparr>t_provided = Some (p0 @ map (loaded LABEL_PROVIDED offset) provided),
       t_required = Some (r0 @ map (loaded LABEL_REQUIRED offset) required),
       t_adjustment = Some (a0 @ map (loaded LABEL_ADJUSTMENT offset) adjustment),
       t_section = Some (s0 @ map (loaded LABEL_SECTION offset) section),
       t_output = Some (o0 @ map (loaded LABEL_OUTPUT offset) output),
       t_jump = Some (j0 @ map (loaded LABEL_JUMP offset) jump),
       t_optional = Some (q0 @ map (loaded LABEL_OPTIONAL offset) optional),
       t_call = Some (c0 @ map (loaded LABEL_CALL offset) call)\<rparr>,
      f1\<lparr>fcontent := fcontent f1 @ code\<rparr>)"
  by (rule objfile_saved_loads [OF assms])

theorem objfile_round_trip_witness:
  "\<exists>f1. objfile_save False \<lparr>fcontent = [7], fpos = 1\<rparr> [\<lparr>pe_label = Some [0x61], pe_address = 2\<rparr>]
      [\<lparr>pe_label = Some [0x62], pe_address = 1\<rparr>] [\<lparr>pe_label = None, pe_address = 0\<rparr>]
      [\<lparr>pe_label = Some [0x73], pe_address = 0\<rparr>, \<lparr>pe_label = Some [0x74], pe_address = 2\<rparr>] [] [] [] [] = Some f1 \<and>
    objfile_load False (f1\<lparr>fcontent := fcontent f1 @ [1, 2, 3, 4], fpos := 1\<rparr>) 0x100
      \<lparr>t_provided = Some [], t_required = Some [], t_adjustment = Some [], t_section = Some [],
       t_output = Some [], t_jump = Some [], t_optional = Some [], t_call = Some []\<rparr> =
    Some (0x102,
      \<lparr>t_provided = Some [\<lparr>pe_label = Some [0x61], pe_address = 0x102\<rparr>],
       t_required = Some [\<lparr>pe_label = Some [0x62], pe_address = 0x101\<rparr>],
       t_adjustment = Some [\<lparr>pe_label = None, pe_address = 0x100\<rparr>],
       t_section = Some [\<lparr>pe_label = Some [0x73], pe_address = 0x100\<rparr>, \<lparr>pe_label = Some [0x74], pe_address = 0x102\<rparr>],
       t_output = Some [], t_jump = Some [], t_optional = Some [], t_call = Some []\<rparr>,
      f1\<lparr>fcontent := fcontent f1 @ [1, 2, 3, 4]\<rparr>)"
  using objfile_round_trip [of "[\<lparr>pe_label = Some [0x61], pe_address = 2\<rparr>]"
      "[\<lparr>pe_label = Some [0x62], pe_address = 1\<rparr>]" "[\<lparr>pe_label = None, pe_address = 0\<rparr>]"
      "[\<lparr>pe_label = Some [0x73], pe_address = 0\<rparr>, \<lparr>pe_label = Some [0x74], pe_address = 2\<rparr>]" "[]" "[]" "[]" "[]"
      "\<lparr>fcontent = [7], fpos = 1\<rparr>" False "[1, 2, 3, 4]" "0x100" "[]" "[]" "[]" "[]" "[]" "[]" "[]" "[]"]
  by (simp add: table_ok_def label_ok_def loaded_def lprov_create_def saved_label_def)

section \<open>Words behind the table\<close>

fun write_words :: "bool \<Rightarrow> iio_state \<Rightarrow> u16 list \<Rightarrow> cfile \<Rightarrow> iio_state \<times> cfile" where
  "write_words big io [] out = (io, out)"
| "write_words big io (w # ws) out = (let (io, out) = iwrite big io w out in write_words big io ws out)"

definition new_file :: "u8 list \<Rightarrow> cfile" where
  "new_file bs = fwrite_bytes bs \<lparr>fcontent = [], fpos = 0\<rparr>"

lemma file_bytes_length [simp]: "length (file_bytes m w) = 2"
  by (simp add: file_bytes_def)

lemma icpudetect_ok: "iio_ok big io \<Longrightarrow> iio_ok big (icpudetect big io) \<and> iwritemode (icpudetect big io) = iwritemode io"
  by (simp add: detect_mode) (simp add: iio_ok_def)

lemma write_words_eq:
  assumes "iio_ok big io" and "at_end f"
  shows "\<exists>io'. write_words big io ws f = (io', append_bytes f (concat (map (file_bytes (iwritemode io)) ws)))"
  using assms
proof (induction ws arbitrary: io f)
  case Nil
  then show ?case by (simp add: append_bytes_Nil)
next
  case (Cons w ws)
  note d = icpudetect_ok [OF Cons.prems(1)]
  show ?case
    using Cons.IH [of "icpudetect big io" "append_bytes f (file_bytes (iwritemode io) w)"] d Cons.prems
    by (simp add: iwrite_eq fwrite_at_end)
qed

lemma ldata_write_appends:
  "ldata_write big f entry = Some g \<Longrightarrow> at_end f \<Longrightarrow> \<exists>bs. g = append_bytes f bs"
  by (auto simp: ldata_write_def Let_def split_def fwrite_at_end split: if_splits)

lemma objfile_save_table_appends:
  "objfile_save_table big mode es f = Some g \<Longrightarrow> at_end f \<Longrightarrow> \<exists>bs. g = append_bytes f bs"
proof (induction es arbitrary: f)
  case Nil
  then show ?case by (metis append_bytes_Nil objfile_save_table.simps(1) option.inject)
next
  case (Cons e es)
  then obtain entry h where h: "ldata_write big f entry = Some h" "objfile_save_table big mode es h = Some g"
    by (auto elim!: bind_eq_SomeE)
  obtain cs where "h = append_bytes f cs" using ldata_write_appends [OF h(1) Cons.prems(2)] by blast
  then show ?case using Cons.IH [OF h(2)] by auto
qed

lemma objfile_save_appends:
  assumes "objfile_save big f a b c d e g i j = Some out" and "at_end f"
  shows "\<exists>bs. out = append_bytes f bs"
proof -
  obtain f1 f2 f3 f4 f5 f6 f7 f8 entry where
    s: "objfile_save_table big LABEL_PROVIDED a f = Some f1" "objfile_save_table big LABEL_REQUIRED b f1 = Some f2"
    "objfile_save_table big LABEL_ADJUSTMENT c f2 = Some f3" "objfile_save_table big LABEL_SECTION d f3 = Some f4"
    "objfile_save_table big LABEL_OUTPUT e f4 = Some f5" "objfile_save_table big LABEL_JUMP g f5 = Some f6"
    "objfile_save_table big LABEL_OPTIONAL i f6 = Some f7" "objfile_save_table big LABEL_CALL j f7 = Some f8"
    "ldata_write big f8 entry = Some out"
    using assms(1) by (auto simp: objfile_save_def elim!: bind_eq_SomeE)
  obtain b1 where 1: "f1 = append_bytes f b1" using objfile_save_table_appends [OF s(1) assms(2)] by blast
  obtain b2 where 2: "f2 = append_bytes f1 b2" using objfile_save_table_appends [OF s(2)] 1 by auto
  obtain b3 where 3: "f3 = append_bytes f2 b3" using objfile_save_table_appends [OF s(3)] 2 by auto
  obtain b4 where 4: "f4 = append_bytes f3 b4" using objfile_save_table_appends [OF s(4)] 3 by auto
  obtain b5 where 5: "f5 = append_bytes f4 b5" using objfile_save_table_appends [OF s(5)] 4 by auto
  obtain b6 where 6: "f6 = append_bytes f5 b6" using objfile_save_table_appends [OF s(6)] 5 by auto
  obtain b7 where 7: "f7 = append_bytes f6 b7" using objfile_save_table_appends [OF s(7)] 6 by auto
  obtain b8 where 8: "f8 = append_bytes f7 b8" using objfile_save_table_appends [OF s(8)] 7 by auto
  obtain b9 where 9: "out = append_bytes f8 b9" using ldata_write_appends [OF s(9)] 8 by auto
  show ?thesis unfolding 9 8 7 6 5 4 3 2 1 by auto
qed

end
