(* ===== verification/Dbgfmt.thy ===== *)
theory Dbgfmt
  imports Objfmt
begin

text \<open>
  Debugging symbols (\<^verbatim>\<open>libdcpu-ci-dbgfmt/ddata.c\<close>): the symbol structures and the symbol file,
  a header and a sequence of length-prefixed payloads. A symbol is a value of a datatype with
  one constructor per payload structure; the type tag of the source is derived from it, so the
  assertions against unknown tags only concern files.
\<close>

abbreviation (input) DBGFMT_MAGIC :: u32 where "DBGFMT_MAGIC \<equiv> 0xC0DEBEAF"
abbreviation (input) DBGFMT_UNDETERMINED :: u16 where "DBGFMT_UNDETERMINED \<equiv> 0xFFFF"
abbreviation (input) DBGFMT_SYMBOL_LINE :: u8 where "DBGFMT_SYMBOL_LINE \<equiv> 1"
abbreviation (input) DBGFMT_SYMBOL_STRING :: u8 where "DBGFMT_SYMBOL_STRING \<equiv> 2"
abbreviation (input) DBGFMT_SYMBOL_LABEL :: u8 where "DBGFMT_SYMBOL_LABEL \<equiv> 3"

datatype dbg_sym =
    SymLine cstr u16 u16
  | SymString cstr u16
  | SymLabel cstr u16

fun sym_type :: "dbg_sym \<Rightarrow> u8" where
  "sym_type (SymLine path lineno address) = DBGFMT_SYMBOL_LINE"
| "sym_type (SymString dat address) = DBGFMT_SYMBOL_STRING"
| "sym_type (SymLabel label address) = DBGFMT_SYMBOL_LABEL"

section \<open>Symbols\<close>

fun dbgfmt_get_symbol_address :: "dbg_sym \<Rightarrow> u16" where
  "dbgfmt_get_symbol_address (SymLine path lineno address) = address"
| "dbgfmt_get_symbol_address (SymString dat address) = address"
| "dbgfmt_get_symbol_address (SymLabel label address) = address"

fun dbgfmt_update_symbol :: "dbg_sym \<Rightarrow> u16 \<Rightarrow> dbg_sym" where
  "dbgfmt_update_symbol (SymLine path lineno _) address = SymLine path lineno address"
| "dbgfmt_update_symbol (SymString dat _) address = SymString dat address"
| "dbgfmt_update_symbol (SymLabel label _) address = SymLabel label address"

definition dbgfmt_finalize_symbol :: "dbg_sym \<Rightarrow> u16 \<Rightarrow> dbg_sym" where
  "dbgfmt_finalize_symbol symbol address =
     (if dbgfmt_get_symbol_address symbol = DBGFMT_UNDETERMINED
      then dbgfmt_update_symbol symbol address else symbol)"

definition dbgfmt_update_symbol_list :: "dbg_sym list \<Rightarrow> u16 \<Rightarrow> dbg_sym list" where
  "dbgfmt_update_symbol_list symbols address = map (\<lambda>s. dbgfmt_update_symbol s address) symbols"

definition dbgfmt_create_symbol_line :: "cstr \<Rightarrow> u16 \<Rightarrow> u16 \<Rightarrow> dbg_sym" where
  "dbgfmt_create_symbol_line path lineno address = SymLine path lineno address"

definition dbgfmt_create_symbol_string :: "cstr \<Rightarrow> u16 \<Rightarrow> dbg_sym" where
  "dbgfmt_create_symbol_string dat address = SymString dat address"

definition dbgfmt_create_symbol_label :: "cstr \<Rightarrow> u16 \<Rightarrow> dbg_sym" where
  "dbgfmt_create_symbol_label label address = SymLabel label address"

fun dbgfmt_copy_symbol :: "dbg_sym \<Rightarrow> dbg_sym" where
  "dbgfmt_copy_symbol (SymLine path lineno address) = dbgfmt_create_symbol_line path lineno address"
| "dbgfmt_copy_symbol (SymString dat address) = dbgfmt_create_symbol_string dat address"
| "dbgfmt_copy_symbol (SymLabel label address) = dbgfmt_create_symbol_label label address"

text \<open>The order of symbol lists: 1 when the first address is lower, -1 when it is higher.\<close>

definition dbgsym_comparator :: "dbg_sym \<Rightarrow> dbg_sym \<Rightarrow> int" where
  "dbgsym_comparator ea eb =
     (if dbgfmt_get_symbol_address ea > dbgfmt_get_symbol_address eb then -1
      else if dbgfmt_get_symbol_address ea = dbgfmt_get_symbol_address eb then 0 else 1)"

section \<open>Payloads\<close>

definition word_bytes :: "bool \<Rightarrow> u16 \<Rightarrow> u8 list" where
  "word_bytes big w = [fst (host_bytes big w), snd (host_bytes big w)]"

text \<open>
  A payload's length is kept in 16 bits; the string copy overruns a buffer allocated with a
  truncated length.
\<close>

definition ser_ok :: "u8 list \<Rightarrow> u8 list option" where
  "ser_ok bs = (if length bs < 0x10000 then Some bs else None)"

definition dbgfmt_serialize_payload_line :: "bool \<Rightarrow> cstr \<Rightarrow> u16 \<Rightarrow> u16 \<Rightarrow> u8 list option" where
  "dbgfmt_serialize_payload_line big path lineno address =
     ser_ok (path @ [0] @ word_bytes big lineno @ word_bytes big address)"

definition dbgfmt_serialize_payload_string :: "bool \<Rightarrow> cstr \<Rightarrow> u16 \<Rightarrow> u8 list option" where
  "dbgfmt_serialize_payload_string big dat address = ser_ok (dat @ [0] @ word_bytes big address)"

definition dbgfmt_serialize_payload_label :: "bool \<Rightarrow> cstr \<Rightarrow> u16 \<Rightarrow> u8 list option" where
  "dbgfmt_serialize_payload_label big label address = ser_ok (label @ [0] @ word_bytes big address)"

text \<open>
  Reading a string of the given storage: without a terminator in it, \<open>bfromcstr\<close> reads past
  the allocation.
\<close>

definition storage_string :: "u8 list \<Rightarrow> cstr option" where
  "storage_string bs = (if 0 \<in> set bs then Some (c_string bs) else None)"

definition dbgfmt_deserialize_symbol_line :: "bool \<Rightarrow> u8 list \<Rightarrow> dbg_sym option" where
  "dbgfmt_deserialize_symbol_line big bs =
     (if length bs < 4 then None
      else
        (let pathlen = length bs - 4
         in map_option (\<lambda>path. SymLine path (host_word big (bs ! pathlen) (bs ! (pathlen + 1)))
                (host_word big (bs ! (pathlen + 2)) (bs ! (pathlen + 3))))
              (storage_string (take pathlen bs))))"

definition dbgfmt_deserialize_symbol_string :: "bool \<Rightarrow> u8 list \<Rightarrow> dbg_sym option" where
  "dbgfmt_deserialize_symbol_string big bs =
     (if length bs < 2 then None
      else
        (let datalen = length bs - 2
         in map_option (\<lambda>dat. SymString dat (host_word big (bs ! datalen) (bs ! (datalen + 1))))
              (storage_string (take datalen bs))))"

definition dbgfmt_deserialize_symbol_label :: "bool \<Rightarrow> u8 list \<Rightarrow> dbg_sym option" where
  "dbgfmt_deserialize_symbol_label big bs =
     (if length bs < 2 then None
      else
        (let labellen = length bs - 2
         in map_option (\<lambda>label. SymLabel label (host_word big (bs ! labellen) (bs ! (labellen + 1))))
              (storage_string (take labellen bs))))"

section \<open>Symbol files\<close>

definition host_bytes4 :: "bool \<Rightarrow> u32 \<Rightarrow> u8 list" where
  "host_bytes4 big w =
     (let bs = [ucast w, ucast (drop_bit 8 w), ucast (drop_bit 16 w), ucast (drop_bit 24 w)]
      in if big then rev bs else bs)"

definition host_word4 :: "bool \<Rightarrow> u8 list \<Rightarrow> u32" where
  "host_word4 big bs =
     (let bs = (if big then rev bs else bs)
      in ucast (bs ! 0) OR push_bit 8 (ucast (bs ! 1)) OR push_bit 16 (ucast (bs ! 2)) OR
         push_bit 24 (ucast (bs ! 3)))"

fun serialize :: "bool \<Rightarrow> dbg_sym \<Rightarrow> u8 list option" where
  "serialize big (SymLine path lineno address) = dbgfmt_serialize_payload_line big path lineno address"
| "serialize big (SymString dat address) = dbgfmt_serialize_payload_string big dat address"
| "serialize big (SymLabel label address) = dbgfmt_serialize_payload_label big label address"

primrec dbgfmt_write_symbols :: "bool \<Rightarrow> dbg_sym list \<Rightarrow> u8 list option" where
  "dbgfmt_write_symbols big [] = Some []"
| "dbgfmt_write_symbols big (sm # symbols) = do {
     raw \<leftarrow> serialize big sm;
     rest \<leftarrow> dbgfmt_write_symbols big symbols;
     Some (word_bytes big (of_nat (length raw)) @ [sym_type sm] @ raw @ rest)
   }"

text \<open>The content of the file that is written.\<close>

definition dbgfmt_write :: "bool \<Rightarrow> dbg_sym list \<Rightarrow> u8 list option" where
  "dbgfmt_write big symbols =
     map_option (\<lambda>bs. host_bytes4 big DBGFMT_MAGIC @ host_bytes4 big (of_nat (length symbols)) @ bs)
       (dbgfmt_write_symbols big symbols)"

definition deserialize :: "bool \<Rightarrow> u8 \<Rightarrow> u8 list \<Rightarrow> dbg_sym option" where
  "deserialize big ty bs =
     (if ty = DBGFMT_SYMBOL_LINE then dbgfmt_deserialize_symbol_line big bs
      else if ty = DBGFMT_SYMBOL_STRING then dbgfmt_deserialize_symbol_string big bs
      else if ty = DBGFMT_SYMBOL_LABEL then dbgfmt_deserialize_symbol_label big bs
      else None)"

primrec dbgfmt_read_symbols :: "bool \<Rightarrow> nat \<Rightarrow> cfile \<Rightarrow> dbg_sym list option" where
  "dbgfmt_read_symbols big 0 f = Some []"
| "dbgfmt_read_symbols big (Suc n) f = do {
     (len, f) \<leftarrow> fread_bytes 2 f;
     (ty, f) \<leftarrow> fread_bytes 1 f;
     (payload, f) \<leftarrow> fread_bytes (unat (host_word big (len ! 0) (len ! 1))) f;
     sm \<leftarrow> deserialize big (ty ! 0) payload;
     rest \<leftarrow> dbgfmt_read_symbols big n f;
     Some (sm # rest)
   }"

text \<open>
  \<open>file\<close> is the content of the file, or \<open>None\<close> when it cannot be opened; the result is the
  returned list, or \<open>None\<close> inside for the null pointer. The magic number is read and not
  looked at.
\<close>

definition dbgfmt_read :: "bool \<Rightarrow> u8 list option \<Rightarrow> bool \<Rightarrow> dbg_sym list option option" where
  "dbgfmt_read big file null_on_read_failure =
     (case file of
        None \<Rightarrow> Some (if null_on_read_failure then None else Some [])
      | Some bs \<Rightarrow> do {
          (magic, f) \<leftarrow> fread_bytes 4 \<lparr>fcontent = bs, fpos = 0\<rparr>;
          (num_symbols, f) \<leftarrow> fread_bytes 4 f;
          symbols \<leftarrow> dbgfmt_read_symbols big (unat (host_word4 big num_symbols)) f;
          Some (Some symbols)
        })"

section \<open>A symbol file is read back as written\<close>

fun sym_ok :: "dbg_sym \<Rightarrow> bool" where
  "sym_ok (SymLine path lineno address) = (0 \<notin> set path \<and> length path < 0xFFFB)"
| "sym_ok (SymString dat address) = (0 \<notin> set dat \<and> length dat < 0xFFFD)"
| "sym_ok (SymLabel label address) = (0 \<notin> set label \<and> length label < 0xFFFD)"

lemma host_word_bytes [simp]: "host_word big (fst (host_bytes big w)) (snd (host_bytes big w)) = w"
  using host_round_trip [of big w] by (cases "host_bytes big w") simp

lemma storage_string_Snoc: "0 \<notin> set s \<Longrightarrow> storage_string (s @ [0]) = Some s"
  by (induction s) (auto simp: storage_string_def c_string_def)

lemma deserialize_serialize:
  assumes "sym_ok sm"
  shows "\<exists>raw. serialize big sm = Some raw \<and> length raw < 0x10000 \<and> deserialize big (sym_type sm) raw = Some sm"
  using assms
  by (cases sm)
    (auto simp: dbgfmt_serialize_payload_line_def dbgfmt_serialize_payload_string_def
      dbgfmt_serialize_payload_label_def ser_ok_def word_bytes_def deserialize_def
      dbgfmt_deserialize_symbol_line_def dbgfmt_deserialize_symbol_string_def
      dbgfmt_deserialize_symbol_label_def Let_def storage_string_Snoc nth_append)

lemma host_word4_bytes [simp]: "host_word4 big (host_bytes4 big w) = w"
proof -
  have "ucast (ucast w :: u8) OR push_bit 8 (ucast (ucast (drop_bit 8 w) :: u8)) OR
      push_bit 16 (ucast (ucast (drop_bit 16 w) :: u8)) OR push_bit 24 (ucast (ucast (drop_bit 24 w) :: u8)) = w"
  proof (rule bit_word_eqI)
    fix n assume "n < LENGTH(32)"
    then consider "n < 8" | "8 \<le> n" "n < 16" | "16 \<le> n" "n < 24" | "24 \<le> n" "n < 32" by fastforce
    then show "bit (ucast (ucast w :: u8) OR push_bit 8 (ucast (ucast (drop_bit 8 w) :: u8)) OR
      push_bit 16 (ucast (ucast (drop_bit 16 w) :: u8)) OR push_bit 24 (ucast (ucast (drop_bit 24 w) :: u8)) :: u32) n = bit w n"
      by cases (auto simp: bit_simps)
  qed
  then show ?thesis by (simp add: host_word4_def host_bytes4_def Let_def or.assoc)
qed

lemma fread_drop:
  assumes "drop (fpos f) (fcontent f) = bs @ rest" and "length bs = n" and "fpos f \<le> length (fcontent f)"
  shows "fread_bytes n f = Some (bs, f\<lparr>fpos := fpos f + n\<rparr>)"
    and "drop (fpos f + n) (fcontent f) = rest" and "fpos f + n \<le> length (fcontent f)"
proof -
  have "length (drop (fpos f) (fcontent f)) = n + length rest" using assms by simp
  with assms(3) show le: "fpos f + n \<le> length (fcontent f)" by simp
  then show "fread_bytes n f = Some (bs, f\<lparr>fpos := fpos f + n\<rparr>)"
    using assms by (simp add: fread_bytes_def)
  have "drop (fpos f + n) (fcontent f) = drop n (drop (fpos f) (fcontent f))" by (simp add: add.commute)
  then show "drop (fpos f + n) (fcontent f) = rest" using assms by simp
qed

lemma read_symbols_written:
  assumes "\<forall>s \<in> set symbols. sym_ok s"
  shows "\<exists>bs. dbgfmt_write_symbols big symbols = Some bs \<and>
    (\<forall>f rest. fpos f \<le> length (fcontent f) \<longrightarrow> drop (fpos f) (fcontent f) = bs @ rest \<longrightarrow>
      dbgfmt_read_symbols big (length symbols) f = Some symbols)"
  using assms
proof (induction symbols)
  case Nil
  then show ?case by simp
next
  case (Cons s symbols)
  obtain bs where bs: "dbgfmt_write_symbols big symbols = Some bs"
    "\<forall>f rest. fpos f \<le> length (fcontent f) \<longrightarrow> drop (fpos f) (fcontent f) = bs @ rest \<longrightarrow>
      dbgfmt_read_symbols big (length symbols) f = Some symbols"
    using Cons.IH Cons.prems by auto
  obtain raw where raw: "serialize big s = Some raw" "length raw < 0x10000" "deserialize big (sym_type s) raw = Some s"
    using deserialize_serialize [of s big] Cons.prems by auto
  let ?len = "word_bytes big (of_nat (length raw))"
  have len: "length ?len = 2" "unat (host_word big (?len ! 0) (?len ! 1)) = length raw"
    using raw(2) by (simp_all add: word_bytes_def unat_of_nat_u16)
  have r: "dbgfmt_read_symbols big (Suc (length symbols)) f = Some (s # symbols)"
    if f: "fpos f \<le> length (fcontent f)" "drop (fpos f) (fcontent f) = (?len @ [sym_type s] @ raw @ bs) @ rest" for f rest
  proof -
    have 1: "drop (fpos f) (fcontent f) = ?len @ ([sym_type s] @ raw @ bs @ rest)" using f(2) by simp
    let ?f1 = "f\<lparr>fpos := fpos f + 2\<rparr>"
    note r1 = fread_drop [OF 1 len(1) f(1)]
    have 2: "drop (fpos ?f1) (fcontent ?f1) = [sym_type s] @ (raw @ bs @ rest)" "fpos ?f1 \<le> length (fcontent ?f1)"
      using r1(2,3) by simp_all
    let ?f2 = "?f1\<lparr>fpos := fpos ?f1 + 1\<rparr>"
    note r2 = fread_drop [OF 2(1) _ 2(2), of 1, simplified]
    have 3: "drop (fpos ?f2) (fcontent ?f2) = raw @ (bs @ rest)" "fpos ?f2 \<le> length (fcontent ?f2)"
      using r2(2,3) by simp_all
    let ?f3 = "?f2\<lparr>fpos := fpos ?f2 + length raw\<rparr>"
    note r3 = fread_drop [OF 3(1) refl 3(2)]
    have "dbgfmt_read_symbols big (length symbols) ?f3 = Some symbols"
      using bs(2) r3(2,3) by simp
    then show ?thesis
      using r1(1) r2(1) r3(1) len raw(3) by simp
  qed
  have w: "dbgfmt_write_symbols big (s # symbols) = Some (?len @ [sym_type s] @ raw @ bs)"
    using bs(1) raw(1) by simp
  show ?case
    unfolding list.size(4) add_Suc_right add_0_right
    by (intro exI conjI allI impI, rule w) (rule r)
qed

text \<open>
  C27. A symbol file is read back as it was written: for symbols whose strings have no zero
  byte and fit their 16-bit length, writing succeeds and reading the file returns the same
  symbols in the same order.
\<close>

theorem dbgfmt_round_trip:
  assumes "\<forall>s \<in> set symbols. sym_ok s" and "length symbols < 2 ^ 32"
  shows "\<exists>file. dbgfmt_write big symbols = Some file \<and>
    dbgfmt_read big (Some file) null_on_read_failure = Some (Some symbols)"
proof -
  obtain bs where bs: "dbgfmt_write_symbols big symbols = Some bs"
    "\<forall>f rest. fpos f \<le> length (fcontent f) \<longrightarrow> drop (fpos f) (fcontent f) = bs @ rest \<longrightarrow>
      dbgfmt_read_symbols big (length symbols) f = Some symbols"
    using read_symbols_written [OF assms(1)] by blast
  let ?n = "of_nat (length symbols) :: u32"
  have l4: "length (host_bytes4 big w) = 4" for w by (simp add: host_bytes4_def Let_def)
  have n: "unat ?n = length symbols" using assms(2) by (simp add: unsigned_of_nat take_bit_nat_eq_self)
  define cnt where "cnt = host_bytes4 big DBGFMT_MAGIC @ host_bytes4 big ?n @ bs"
  let ?f0 = "\<lparr>fcontent = cnt, fpos = 0\<rparr>" and ?f1 = "\<lparr>fcontent = cnt, fpos = 4\<rparr>"
    and ?f2 = "\<lparr>fcontent = cnt, fpos = 8\<rparr>"
  have "fread_bytes 4 ?f0 = Some (host_bytes4 big DBGFMT_MAGIC, ?f1)"
    "fread_bytes 4 ?f1 = Some (host_bytes4 big ?n, ?f2)"
    by (simp_all add: fread_bytes_def cnt_def l4)
  moreover have "dbgfmt_read_symbols big (length symbols) ?f2 = Some symbols"
    using bs(2) by (simp add: cnt_def l4)
  ultimately show ?thesis
    using bs(1) n by (simp add: dbgfmt_write_def dbgfmt_read_def cnt_def)
qed

theorem dbgfmt_round_trip_witness:
  "\<exists>file. dbgfmt_write True [SymLine [0x61, 0x2e] 7 0x10, SymLabel [0x6c] 0xFFFF] = Some file \<and>
     dbgfmt_read True (Some file) True = Some (Some [SymLine [0x61, 0x2e] 7 0x10, SymLabel [0x6c] 0xFFFF])"
  using dbgfmt_round_trip [of "[SymLine [0x61, 0x2e] 7 0x10, SymLabel [0x6c] 0xFFFF]" True True] by simp

end
