(* ===== verification/Ld_Bin.thy ===== *)
theory Ld_Bin
  imports Dbgfmt
begin

text \<open>
  The bins of the linker (\<^verbatim>\<open>libdcpu-ld/ldbin.c\<close> and \<^verbatim>\<open>ldconv.c\<close>): code with its linker tables,
  moved between bins while labels and addresses are kept up to date.

  Bins live in a heap and are known by pointers, because an operation on two bins also changes
  the words of all others. The tables are lists of the simclist library: an append to, or a
  sort of, a list that is being iterated over does nothing, so each list carries that flag.
  Sorting orders by address; the library does not say in which order entries of equal address
  end up, and the model keeps their order. The name of an entry's target bin is a value here;
  the source points to the name of that bin, which never changes.

  A failed assertion, a null pointer access and the halt \<^verbatim>\<open>ERR_BUG_191_WORKAROUND\<close> for an
  adjustment outside of its bin are \<open>None\<close>. The address arithmetic is done in
  \<open>size_t\<close> and cut to 16 bits when it is stored.
\<close>

section \<open>Lists\<close>

record 'a ldlist =
  elems :: "'a list"
  iterating :: bool

definition new_list :: "'a ldlist" where
  "new_list = \<lparr>elems = [], iterating = False\<rparr>"

definition list_append :: "'a ldlist \<Rightarrow> 'a \<Rightarrow> 'a ldlist" where
  "list_append l x = (if iterating l then l else l\<lparr>elems := elems l @ [x]\<rparr>)"

definition list_sort :: "('a \<Rightarrow> u16) \<Rightarrow> 'a ldlist \<Rightarrow> 'a ldlist" where
  "list_sort key l = (if iterating l then l else l\<lparr>elems := sort_key key (elems l)\<rparr>)"

definition map_elems :: "('a \<Rightarrow> 'a) \<Rightarrow> 'a ldlist \<Rightarrow> 'a ldlist" where
  "map_elems f l = l\<lparr>elems := map f (elems l)\<rparr>"

text \<open>Deleting a range of positions, both ends included.\<close>

definition list_delete_range :: "'a ldlist \<Rightarrow> nat \<Rightarrow> nat \<Rightarrow> 'a ldlist" where
  "list_delete_range l posstart posend =
     (if iterating l \<or> posend < posstart \<or> posend \<ge> length (elems l) then l
      else l\<lparr>elems := take posstart (elems l) @ drop (Suc posend) (elems l)\<rparr>)"

record lconv_entry =
  ce_label :: "cstr option"
  ce_bin :: "cstr option"
  ce_address :: u16

definition list_create :: "lconv_entry ldlist" where
  "list_create = new_list"

definition list_convert :: "lprov_entry list \<Rightarrow> lconv_entry ldlist" where
  "list_convert first =
     \<lparr>elems = map (\<lambda>e. \<lparr>ce_label = pe_label e, ce_bin = None, ce_address = pe_address e\<rparr>) first,
      iterating = False\<rparr>"

definition list_revert :: "lconv_entry ldlist option \<Rightarrow> lprov_entry list" where
  "list_revert l =
     (case l of
        None \<Rightarrow> []
      | Some l \<Rightarrow> map (\<lambda>e. \<lparr>pe_label = ce_label e, pe_address = ce_address e\<rparr>) (elems l))"

definition list_clone :: "lconv_entry ldlist \<Rightarrow> lconv_entry ldlist" where
  "list_clone original = \<lparr>elems = elems original, iterating = False\<rparr>"

text \<open>String comparison: a missing string gives \<open>BSTR_ERR\<close>, which an \<open>if\<close> takes for true.\<close>

definition biseq :: "cstr option \<Rightarrow> cstr option \<Rightarrow> bool" where
  "biseq a b = (case a of None \<Rightarrow> True | Some x \<Rightarrow> (case b of None \<Rightarrow> True | Some y \<Rightarrow> x = y))"

section \<open>Bins\<close>

datatype ldtable = TProvided | TRequired | TAdjustment | TSection | TOutput | TJump | TOptional | TCall

text \<open>The eight table pointers of \<open>struct ldbin\<close> are one field, indexed by their names.\<close>

record ldbin =
  b_name :: cstr
  b_tabs :: "ldtable \<Rightarrow> lconv_entry ldlist option"
  b_symbols :: "dbg_sym ldlist option"
  b_words :: "u16 list"

type_synonym bref = nat
type_synonym bheap = "bref \<Rightarrow> ldbin option"

definition set_tab :: "ldtable \<Rightarrow> lconv_entry ldlist \<Rightarrow> ldbin \<Rightarrow> ldbin" where
  "set_tab t l b = b\<lparr>b_tabs := (b_tabs b)(t := Some l)\<rparr>"

definition bin_create :: "cstr \<Rightarrow> bool \<Rightarrow> ldbin" where
  "bin_create name initialize =
     \<lparr>b_name = name, b_tabs = (\<lambda>_. if initialize then Some list_create else None),
      b_symbols = (if initialize then Some new_list else None), b_words = []\<rparr>"

definition bin_destroy :: "bheap \<Rightarrow> bref \<Rightarrow> bheap" where
  "bin_destroy h b = h(b := None)"

definition bin_write :: "ldbin \<Rightarrow> u16 \<Rightarrow> ldbin" where
  "bin_write bin word = bin\<lparr>b_words := b_words bin @ [word]\<rparr>"

section \<open>Inserting linker information\<close>

text \<open>Entries behind the insertion point move up.\<close>

definition shift_up :: "nat \<Rightarrow> nat \<Rightarrow> lconv_entry \<Rightarrow> lconv_entry" where
  "shift_up at count e =
     (if unat (ce_address e) \<ge> at then e\<lparr>ce_address := of_nat (unat (ce_address e) + count)\<rparr> else e)"

text \<open>Entries of the copied range, and those at the end of the source when its end is copied.\<close>

definition in_copied :: "nat \<Rightarrow> nat \<Rightarrow> nat \<Rightarrow> u16 \<Rightarrow> bool" where
  "in_copied sz offset count a \<longleftrightarrow> unat a \<ge> offset \<and>
     (unat a < offset + count \<or> (unat a \<ge> sz \<and> offset + count + 1 \<ge> sz))"

definition copy_entry :: "nat \<Rightarrow> nat \<Rightarrow> lconv_entry \<Rightarrow> lconv_entry" where
  "copy_entry at offset e = e\<lparr>ce_address := of_nat (at + (unat (ce_address e) - offset))\<rparr>"

definition copy_entries ::
    "nat \<Rightarrow> nat \<Rightarrow> nat \<Rightarrow> nat \<Rightarrow> lconv_entry list \<Rightarrow> lconv_entry ldlist \<Rightarrow> lconv_entry ldlist" where
  "copy_entries sz at offset count from tolist =
     fold (\<lambda>e l. if in_copied sz offset count (ce_address e) then list_append l (copy_entry at offset e) else l)
       from tolist"

text \<open>
  The word an adjustment refers to, when it points into the copied range or behind the
  insertion. The trace message of both cases reads the name of the target bin, which must
  be there.
\<close>

definition repoint ::
    "cstr \<Rightarrow> cstr \<Rightarrow> nat \<Rightarrow> nat \<Rightarrow> nat \<Rightarrow> lconv_entry \<Rightarrow> u16 \<Rightarrow> (lconv_entry \<times> u16) option" where
  "repoint to from at offset count e w =
     (if unat w \<ge> offset \<and> unat w < offset + count \<and> biseq (ce_bin e) (Some from)
      then (if ce_bin e = None then None else Some (e\<lparr>ce_bin := Some to\<rparr>, of_nat (unat w - offset + at)))
      else if unat w \<ge> at \<and> biseq (ce_bin e) (Some to)
      then (if ce_bin e = None then None else Some (e, of_nat (unat w + count)))
      else Some (e, w))"

fun repoint_entries ::
    "(lconv_entry \<Rightarrow> u16 \<Rightarrow> (lconv_entry \<times> u16) option) \<Rightarrow> lconv_entry list \<Rightarrow> u16 list \<Rightarrow>
     (lconv_entry list \<times> u16 list) option" where
  "repoint_entries f [] ws = Some ([], ws)"
| "repoint_entries f (e # es) ws =
     (if unat (ce_address e) < length ws
      then do {
        (e', w) \<leftarrow> f e (ws ! unat (ce_address e));
        (es, ws) \<leftarrow> repoint_entries f es (ws[unat (ce_address e) := w]);
        Some (e' # es, ws)
      }
      else None)"

definition repoint_bin :: "(lconv_entry \<Rightarrow> u16 \<Rightarrow> (lconv_entry \<times> u16) option) \<Rightarrow> ldbin \<Rightarrow> ldbin option" where
  "repoint_bin f b =
     (case b_tabs b TAdjustment of
        None \<Rightarrow> Some b
      | Some l \<Rightarrow>
          map_option (\<lambda>(es, ws). (set_tab TAdjustment (l\<lparr>elems := es\<rparr>) b)\<lparr>b_words := ws\<rparr>)
            (repoint_entries f (elems l) (b_words b)))"

primrec repoint_all ::
    "(lconv_entry \<Rightarrow> u16 \<Rightarrow> (lconv_entry \<times> u16) option) \<Rightarrow> bref list \<Rightarrow> bheap \<Rightarrow> bheap option" where
  "repoint_all f [] h = Some h"
| "repoint_all f (p # ps) h = do {
     b \<leftarrow> h p;
     b \<leftarrow> repoint_bin f b;
     repoint_all f ps (h(p := Some b))
   }"

text \<open>
  The target and the source are different bins in every call; the same bin for both would
  append to the list it copies from.
\<close>

definition bin_info_insert ::
    "bref list \<Rightarrow> bref \<Rightarrow> bref \<Rightarrow> ldtable \<Rightarrow> bool \<Rightarrow> bool \<Rightarrow> nat \<Rightarrow> nat \<Rightarrow> nat \<Rightarrow> bheap \<Rightarrow> bheap option" where
  "bin_info_insert all to from t isAdjustment isOutput at offset count h = do {
     bf \<leftarrow> h from;
     bt \<leftarrow> h to;
     case b_tabs bf t of
       None \<Rightarrow> Some h
     | Some fromlist \<Rightarrow> do {
         tolist \<leftarrow> b_tabs bt t;
         if to = from then None
         else do {
           let fromlist = list_sort ce_address fromlist;
           let h = h(from := Some (set_tab t fromlist bf));
           let tolist = (if \<not> isAdjustment \<and> isOutput then tolist else map_elems (shift_up at count) tolist);
           let tolist = copy_entries (length (b_words bf)) at offset count (elems fromlist) tolist;
           let h = h(to := Some (set_tab t tolist bt));
           if \<not> isAdjustment then Some h
           else
             repoint_all (repoint (b_name bt) (b_name bf) at offset count) (filter (\<lambda>p. p \<noteq> to) all @ [to]) h
         }
       }
   }"

definition copy_symbols ::
    "nat \<Rightarrow> nat \<Rightarrow> nat \<Rightarrow> nat \<Rightarrow> dbg_sym list \<Rightarrow> dbg_sym ldlist \<Rightarrow> dbg_sym ldlist" where
  "copy_symbols sz at offset count from tolist =
     fold (\<lambda>s l. if in_copied sz offset count (dbgfmt_get_symbol_address s)
                then list_append l (dbgfmt_update_symbol (dbgfmt_copy_symbol s)
                  (of_nat (at + (unat (dbgfmt_get_symbol_address s) - offset))))
                else l)
       from tolist"

definition shift_symbol :: "nat \<Rightarrow> nat \<Rightarrow> dbg_sym \<Rightarrow> dbg_sym" where
  "shift_symbol at count s =
     (if unat (dbgfmt_get_symbol_address s) \<ge> at
      then dbgfmt_update_symbol s (of_nat (unat (dbgfmt_get_symbol_address s) + count)) else s)"

definition bin_info_insert_symbols :: "bref \<Rightarrow> bref \<Rightarrow> nat \<Rightarrow> nat \<Rightarrow> nat \<Rightarrow> bheap \<Rightarrow> bheap option" where
  "bin_info_insert_symbols to from at offset count h = do {
     bf \<leftarrow> h from;
     bt \<leftarrow> h to;
     case b_symbols bf of
       None \<Rightarrow> Some h
     | Some fromlist \<Rightarrow> do {
         tolist \<leftarrow> b_symbols bt;
         if to = from then None
         else do {
           let tolist = map_elems (shift_symbol at count) tolist;
           let tolist = copy_symbols (length (b_words bf)) at offset count (elems fromlist) tolist;
           Some (h(to := Some (bt\<lparr>b_symbols := Some tolist\<rparr>)))
         }
       }
   }"

primrec insert_words :: "u16 list \<Rightarrow> nat \<Rightarrow> u16 list \<Rightarrow> u16 list" where
  "insert_words [] pos ws = ws"
| "insert_words (x # xs) pos ws = insert_words xs (Suc pos) (take pos ws @ [x] @ drop pos ws)"

definition bin_insert :: "bref list \<Rightarrow> bref \<Rightarrow> bref \<Rightarrow> nat \<Rightarrow> nat \<Rightarrow> nat \<Rightarrow> bheap \<Rightarrow> bheap option" where
  "bin_insert all to from at offset count h = do {
     bt \<leftarrow> h to;
     bf \<leftarrow> h from;
     if at \<le> length (b_words bt) \<and> offset \<le> length (b_words bf) \<and> offset + count \<le> length (b_words bf) \<and> to \<noteq> from
     then do {
       let h = h(to := Some (bt\<lparr>b_words := insert_words (take count (drop offset (b_words bf))) at (b_words bt)\<rparr>));
       h \<leftarrow> bin_info_insert all to from TProvided False False at offset count h;
       h \<leftarrow> bin_info_insert all to from TRequired False False at offset count h;
       h \<leftarrow> bin_info_insert all to from TAdjustment True False at offset count h;
       h \<leftarrow> bin_info_insert all to from TOutput False True at offset count h;
       h \<leftarrow> bin_info_insert all to from TJump False False at offset count h;
       h \<leftarrow> bin_info_insert all to from TOptional False False at offset count h;
       h \<leftarrow> bin_info_insert all to from TCall False False at offset count h;
       bin_info_insert_symbols to from at offset count h
     }
     else None
   }"

section \<open>Removing linker information\<close>

text \<open>The first entry of the removed range and the last one before the entries behind it.\<close>

fun scan_range :: "nat \<Rightarrow> nat \<Rightarrow> nat \<Rightarrow> lconv_entry list \<Rightarrow> nat option \<times> nat option \<Rightarrow> nat option \<times> nat option" where
  "scan_range offset count i [] d = d"
| "scan_range offset count i (e # es) (del_start, del_end) =
     scan_range offset count (Suc i) es
       (if unat (ce_address e) < offset then (del_start, del_end)
        else if unat (ce_address e) < offset + count
        then (if del_start = None then Some i else del_start, del_end)
        else (del_start, if del_end = None \<and> i > 0 then Some (i - 1) else del_end))"

definition shift_down :: "nat \<Rightarrow> nat \<Rightarrow> lconv_entry \<Rightarrow> lconv_entry" where
  "shift_down offset count e =
     (if unat (ce_address e) \<ge> offset + count
      then e\<lparr>ce_address := of_nat (unat (ce_address e) - count)\<rparr> else e)"

definition delete_scanned :: "nat \<Rightarrow> nat \<Rightarrow> lconv_entry list \<Rightarrow> lconv_entry ldlist \<Rightarrow> lconv_entry ldlist" where
  "delete_scanned offset count es l =
     (let (del_start, del_end) = scan_range offset count 0 es (None, None);
          del_end = (if del_end = None \<and> es \<noteq> [] then Some (length es - 1) else del_end)
      in case del_start of
           None \<Rightarrow> l
         | Some s \<Rightarrow> (case del_end of None \<Rightarrow> l | Some e \<Rightarrow> if s \<le> e then list_delete_range l s e else l))"

text \<open>
  Adjustments of all bins after a removal: the address of an entry whose target is the bin
  moves down, and so does the word it refers to.
\<close>

definition unpoint :: "cstr \<Rightarrow> nat \<Rightarrow> nat \<Rightarrow> lconv_entry \<Rightarrow> u16 \<Rightarrow> (lconv_entry \<times> u16) option" where
  "unpoint name offset count e w =
     (if unat w \<ge> offset + count \<and> biseq (ce_bin e) (Some name)
      then (if ce_bin e = None then None else Some (e, of_nat (unat w - count)))
      else Some (e, w))"

definition unshift :: "cstr \<Rightarrow> nat \<Rightarrow> nat \<Rightarrow> lconv_entry \<Rightarrow> lconv_entry" where
  "unshift name offset count e =
     (if biseq (ce_bin e) (Some name) then shift_down offset count e else e)"

fun unpoint_entries ::
    "cstr \<Rightarrow> nat \<Rightarrow> nat \<Rightarrow> lconv_entry list \<Rightarrow> u16 list \<Rightarrow> (lconv_entry list \<times> u16 list) option" where
  "unpoint_entries name offset count es ws =
     repoint_entries (unpoint name offset count) (map (unshift name offset count) es) ws"

definition unpoint_bin :: "cstr \<Rightarrow> nat \<Rightarrow> nat \<Rightarrow> ldbin \<Rightarrow> ldbin option" where
  "unpoint_bin name offset count b =
     (case b_tabs b TAdjustment of
        None \<Rightarrow> Some b
      | Some l \<Rightarrow>
          map_option (\<lambda>(es, ws). (set_tab TAdjustment (l\<lparr>elems := es\<rparr>) b)\<lparr>b_words := ws\<rparr>)
            (unpoint_entries name offset count (elems l) (b_words b)))"

primrec unpoint_all :: "cstr \<Rightarrow> nat \<Rightarrow> nat \<Rightarrow> bref list \<Rightarrow> bheap \<Rightarrow> bheap option" where
  "unpoint_all name offset count [] h = Some h"
| "unpoint_all name offset count (p # ps) h = do {
     b \<leftarrow> h p;
     b \<leftarrow> unpoint_bin name offset count b;
     unpoint_all name offset count ps (h(p := Some b))
   }"

definition bin_info_remove ::
    "bref list \<Rightarrow> bref \<Rightarrow> ldtable \<Rightarrow> bool \<Rightarrow> nat \<Rightarrow> nat \<Rightarrow> bheap \<Rightarrow> bheap option" where
  "bin_info_remove all bin t isAdjustment offset count h = do {
     b \<leftarrow> h bin;
     case b_tabs b t of
       None \<Rightarrow> Some h
     | Some l \<Rightarrow> do {
         let l = list_sort ce_address l;
         if \<not> isAdjustment
         then Some (h(bin := Some (set_tab t
                (delete_scanned offset count (elems l) (map_elems (shift_down offset count) l)) b)))
         else
           unpoint_all (b_name b) offset count all
             (h(bin := Some (set_tab t (delete_scanned offset count (elems l) l) b)))
       }
   }"

definition bin_info_remove_symbols :: "bref \<Rightarrow> nat \<Rightarrow> nat \<Rightarrow> bheap \<Rightarrow> bheap option" where
  "bin_info_remove_symbols bin offset count h = do {
     b \<leftarrow> h bin;
     l \<leftarrow> b_symbols b;
     let l = list_sort dbgfmt_get_symbol_address l;
     let l = l\<lparr>elems := map (\<lambda>s. if unat (dbgfmt_get_symbol_address s) < offset then s
                    else dbgfmt_update_symbol s (of_nat (unat (dbgfmt_get_symbol_address s) - count)))
                (filter (\<lambda>s. \<not> (unat (dbgfmt_get_symbol_address s) \<ge> offset \<and>
                   unat (dbgfmt_get_symbol_address s) < offset + count)) (elems l))\<rparr>;
     Some (h(bin := Some (b\<lparr>b_symbols := Some l\<rparr>)))
   }"

primrec delete_words :: "nat \<Rightarrow> nat \<Rightarrow> u16 list \<Rightarrow> u16 list" where
  "delete_words 0 offset ws = ws"
| "delete_words (Suc n) offset ws = delete_words n offset (take offset ws @ drop (Suc offset) ws)"

definition bin_remove :: "bref list \<Rightarrow> bref \<Rightarrow> nat \<Rightarrow> nat \<Rightarrow> bheap \<Rightarrow> bheap option" where
  "bin_remove all bin offset count h = do {
     b \<leftarrow> h bin;
     if offset \<le> length (b_words b) \<and> offset + count \<le> length (b_words b)
     then do {
       let h = h(bin := Some (b\<lparr>b_words := delete_words count offset (b_words b)\<rparr>));
       h \<leftarrow> bin_info_remove all bin TProvided False offset count h;
       h \<leftarrow> bin_info_remove all bin TRequired False offset count h;
       h \<leftarrow> bin_info_remove all bin TAdjustment True offset count h;
       h \<leftarrow> bin_info_remove all bin TOutput False offset count h;
       h \<leftarrow> bin_info_remove all bin TJump False offset count h;
       h \<leftarrow> bin_info_remove all bin TOptional False offset count h;
       h \<leftarrow> bin_info_remove all bin TCall False offset count h;
       bin_info_remove_symbols bin offset count h
     }
     else None
   }"

section \<open>Moving, replacing, appending\<close>

definition bin_move :: "bref list \<Rightarrow> bref \<Rightarrow> bref \<Rightarrow> nat \<Rightarrow> nat \<Rightarrow> nat \<Rightarrow> bheap \<Rightarrow> bheap option" where
  "bin_move all to from at offset count h = do {
     h \<leftarrow> bin_insert all to from at offset count h;
     bin_remove all from offset count h
   }"

definition bin_replace :: "bref list \<Rightarrow> bref \<Rightarrow> bref \<Rightarrow> nat \<Rightarrow> nat \<Rightarrow> nat \<Rightarrow> nat \<Rightarrow> bheap \<Rightarrow> bheap option" where
  "bin_replace all to from at erase offset count h = do {
     h \<leftarrow> bin_remove all to at erase h;
     bin_insert all to from at offset count h
   }"

definition bin_append :: "bref list \<Rightarrow> bref \<Rightarrow> bref \<Rightarrow> nat \<Rightarrow> nat \<Rightarrow> bheap \<Rightarrow> bheap option" where
  "bin_append all to from offset count h = do {
     bt \<leftarrow> h to;
     bin_insert all to from (length (b_words bt)) offset count h
   }"

section \<open>Words\<close>

lemma insert_words_eq: "pos \<le> length ws \<Longrightarrow> insert_words xs pos ws = take pos ws @ xs @ drop pos ws"
  by (induction xs arbitrary: pos ws) auto

lemma delete_words_eq:
  "offset + n \<le> length ws \<Longrightarrow> delete_words n offset ws = take offset ws @ drop (offset + n) ws"
proof (induction n arbitrary: ws)
  case (Suc n)
  let ?ws = "take offset ws @ drop (Suc offset) ws"
  have "delete_words n offset ?ws = take offset ?ws @ drop (offset + n) ?ws"
    using Suc.prems by (intro Suc.IH) simp
  then show ?case using Suc.prems by (simp add: add.commute)
qed simp

section \<open>Tables\<close>

lemma copy_entries_eq:
  "\<not> iterating l \<Longrightarrow> copy_entries sz at offset count es l =
     l\<lparr>elems := elems l @ map (copy_entry at offset) (filter (\<lambda>e. in_copied sz offset count (ce_address e)) es)\<rparr>"
  by (induction es arbitrary: l) (simp_all add: copy_entries_def list_append_def)

lemma copy_entries_iterating: "iterating l \<Longrightarrow> copy_entries sz at offset count es l = l"
  by (induction es arbitrary: l) (simp_all add: copy_entries_def list_append_def)

lemma scan_before:
  "\<forall>e \<in> set es. unat (ce_address e) < offset \<Longrightarrow>
     scan_range offset count i (es @ fs) d = scan_range offset count (i + length es) fs d"
  by (induction es arbitrary: i d) (auto split: prod.splits)

lemma scan_inside:
  "\<forall>e \<in> set es. offset \<le> unat (ce_address e) \<and> unat (ce_address e) < offset + count \<Longrightarrow>
     scan_range offset count i (es @ fs) (Some s, d) = scan_range offset count (i + length es) fs (Some s, d)"
  by (induction es arbitrary: i) auto

lemma scan_behind:
  "\<forall>e \<in> set es. offset + count \<le> unat (ce_address e) \<Longrightarrow>
     scan_range offset count i es (s, Some d) = (s, Some d)"
  by (induction es arbitrary: i) auto

lemma scan_none:
  "\<forall>e \<in> set es. \<not> (offset \<le> unat (ce_address e) \<and> unat (ce_address e) < offset + count) \<Longrightarrow>
     fst (scan_range offset count i es (None, d)) = None"
  by (induction es arbitrary: i d) auto

lemma sorted_three:
  assumes "sorted (map (\<lambda>e. unat (ce_address e)) es)"
  shows "es = filter (\<lambda>e. unat (ce_address e) < offset) es @
    filter (\<lambda>e. offset \<le> unat (ce_address e) \<and> unat (ce_address e) < offset + count) es @
    filter (\<lambda>e. offset + count \<le> unat (ce_address e)) es"
  using assms
proof (induction es)
  case (Cons e es)
  have "filter (\<lambda>x. unat (ce_address x) < offset) es = []" if "offset \<le> unat (ce_address e)"
    using Cons.prems that by (auto simp: filter_empty_conv)
  moreover have "filter (\<lambda>x. offset \<le> unat (ce_address x) \<and> unat (ce_address x) < offset + count) es = []"
    if "offset + count \<le> unat (ce_address e)"
    using Cons.prems that by (fastforce simp: filter_empty_conv)
  ultimately show ?case
    using Cons by (cases "unat (ce_address e) < offset"; cases "unat (ce_address e) < offset + count") auto
qed simp

text \<open>On a sorted table the range deletion removes exactly the entries of the range.\<close>

lemma delete_scanned_eq:
  assumes "sorted (map (\<lambda>e. unat (ce_address e)) es)" and "elems l = map g es" and "\<not> iterating l"
  shows "delete_scanned offset count es l =
    l\<lparr>elems := map g (filter (\<lambda>e. \<not> (offset \<le> unat (ce_address e) \<and> unat (ce_address e) < offset + count)) es)\<rparr>"
proof -
  let ?A = "filter (\<lambda>e. unat (ce_address e) < offset) es"
  let ?B = "filter (\<lambda>e. offset \<le> unat (ce_address e) \<and> unat (ce_address e) < offset + count) es"
  let ?C = "filter (\<lambda>e. offset + count \<le> unat (ce_address e)) es"
  define A B C where ABC: "A = ?A" "B = ?B" "C = ?C"
  have es: "es = A @ B @ C" unfolding ABC by (rule sorted_three [OF assms(1)])
  have in_: "\<forall>e \<in> set A. unat (ce_address e) < offset"
    "\<forall>e \<in> set B. offset \<le> unat (ce_address e) \<and> unat (ce_address e) < offset + count"
    "\<forall>e \<in> set C. offset + count \<le> unat (ce_address e)"
    by (simp_all add: ABC)
  have f: "filter (\<lambda>e. \<not> (offset \<le> unat (ce_address e) \<and> unat (ce_address e) < offset + count)) es = A @ C"
  proof -
    have "filter (\<lambda>e. \<not> (offset \<le> unat (ce_address e) \<and> unat (ce_address e) < offset + count)) A = A"
      "filter (\<lambda>e. \<not> (offset \<le> unat (ce_address e) \<and> unat (ce_address e) < offset + count)) B = []"
      "filter (\<lambda>e. \<not> (offset \<le> unat (ce_address e) \<and> unat (ce_address e) < offset + count)) C = C"
      using in_ by (auto simp: filter_id_conv filter_empty_conv)
    then show ?thesis by (subst es) simp
  qed
  show ?thesis
  proof (cases B)
    case Nil
    have "\<forall>e \<in> set es. \<not> (offset \<le> unat (ce_address e) \<and> unat (ce_address e) < offset + count)"
      using in_ es Nil by auto
    then have "fst (scan_range offset count 0 es (None, None)) = None" by (rule scan_none)
    then have "delete_scanned offset count es l = l"
      by (simp add: delete_scanned_def split_def Let_def)
    moreover have "l\<lparr>elems := map g es\<rparr> = l" using assms(2) by (cases l) simp
    ultimately show ?thesis unfolding f using es Nil by simp
  next
    case (Cons e B')
    have s: "scan_range offset count 0 es (None, None) =
        scan_range offset count (length A + length B) C (Some (length A), None)"
      unfolding es using in_(1,2) Cons
      by (simp add: scan_before scan_inside [of B' offset count _ C])
    have "scan_range offset count (length A + length B) C (Some (length A), None) =
        (Some (length A), if C = [] then None else Some (length A + length B - 1))"
      using in_(3) Cons by (cases C) (auto simp: scan_behind)
    then have "delete_scanned offset count es l = list_delete_range l (length A) (length A + length B - 1)"
      using s Cons es by (simp add: delete_scanned_def Let_def)
    also have "\<dots> = l\<lparr>elems := map g (A @ C)\<rparr>"
      using assms(2,3) Cons es by (simp add: list_delete_range_def)
    finally show ?thesis unfolding f .
  qed
qed

section \<open>Repointing\<close>

definition adj_list :: "ldbin \<Rightarrow> lconv_entry list" where
  "adj_list b = (case b_tabs b TAdjustment of None \<Rightarrow> [] | Some l \<Rightarrow> elems l)"

definition adj_addrs :: "ldbin \<Rightarrow> nat set" where
  "adj_addrs b = (\<lambda>e. unat (ce_address e)) ` set (adj_list b)"

text \<open>What a repointing leaves of a bin: all but the targets of its adjustments.\<close>

definition repointed :: "ldbin \<Rightarrow> ldbin \<Rightarrow> bool" where
  "repointed b b' \<longleftrightarrow> b_name b' = b_name b \<and> b_symbols b' = b_symbols b \<and>
     (\<forall>t. t \<noteq> TAdjustment \<longrightarrow> b_tabs b' t = b_tabs b t) \<and>
     map_option iterating (b_tabs b' TAdjustment) = map_option iterating (b_tabs b TAdjustment) \<and>
     map ce_address (adj_list b') = map ce_address (adj_list b) \<and>
     length (b_words b') = length (b_words b) \<and>
     (\<forall>i. i \<notin> adj_addrs b \<longrightarrow> b_words b' ! i = b_words b ! i)"

lemma repointed_refl: "repointed b b"
  by (simp add: repointed_def)

lemma adj_addrs_map: "adj_addrs b = unat ` set (map ce_address (adj_list b))"
  by (simp add: adj_addrs_def image_image)

lemma repointed_trans: "repointed a b \<Longrightarrow> repointed b c \<Longrightarrow> repointed a c"
  by (simp add: repointed_def adj_addrs_map)

definition keeps_address :: "(lconv_entry \<Rightarrow> u16 \<Rightarrow> (lconv_entry \<times> u16) option) \<Rightarrow> bool" where
  "keeps_address f \<longleftrightarrow> (\<forall>e w e' w'. f e w = Some (e', w') \<longrightarrow> ce_address e' = ce_address e)"

lemma keeps_address_repoint: "keeps_address (repoint to from at offset count)"
  "keeps_address (unpoint name offset count)"
  by (auto simp: keeps_address_def repoint_def unpoint_def split: if_splits)

lemma repoint_entries_frame:
  assumes "keeps_address f" and "repoint_entries f es ws = Some (es', ws')"
  shows "map ce_address es' = map ce_address es \<and> length ws' = length ws \<and>
    (\<forall>i. i \<notin> (\<lambda>e. unat (ce_address e)) ` set es \<longrightarrow> ws' ! i = ws ! i)"
  using assms(2)
proof (induction es arbitrary: ws es' ws')
  case (Cons e es)
  obtain e1 w es1 where fe: "f e (ws ! unat (ce_address e)) = Some (e1, w)"
    and 1: "repoint_entries f es (ws[unat (ce_address e) := w]) = Some (es1, ws')" "es' = e1 # es1"
    using Cons.prems by (auto split: if_splits elim!: bind_eq_SomeE)
  have "ce_address e1 = ce_address e" using assms(1) fe unfolding keeps_address_def by blast
  with Cons.IH [OF 1(1)] 1(2) show ?case by auto
qed simp

text \<open>With one entry per address, each entry and its word are transformed once.\<close>

lemma repoint_entries_once:
  assumes "repoint_entries f es ws = Some (es', ws')" and "distinct (map ce_address es)"
    and "keeps_address f" and "k < length es"
  shows "f (es ! k) (ws ! unat (ce_address (es ! k))) = Some (es' ! k, ws' ! unat (ce_address (es ! k)))"
  using assms
proof (induction es arbitrary: ws es' ws' k)
  case (Cons e es)
  obtain e1 w es1 where fe: "f e (ws ! unat (ce_address e)) = Some (e1, w)"
    and 1: "repoint_entries f es (ws[unat (ce_address e) := w]) = Some (es1, ws')"
      "es' = e1 # es1" "unat (ce_address e) < length ws"
    using Cons.prems(1) by (auto split: if_splits elim!: bind_eq_SomeE)
  have other: "unat (ce_address e) \<notin> (\<lambda>e. unat (ce_address e)) ` set es"
    using Cons.prems(2) by (auto simp: word_unat_eq_iff [symmetric])
  show ?case
  proof (cases k)
    case 0
    then show ?thesis using repoint_entries_frame [OF Cons.prems(3) 1(1)] other 1(2,3) fe by simp
  next
    case (Suc j)
    then have j: "j < length es" using Cons.prems(4) by simp
    then have "unat (ce_address (es ! j)) \<noteq> unat (ce_address e)" using other nth_mem [OF j] by (metis image_eqI)
    with Cons.IH [OF 1(1) _ Cons.prems(3) j] Cons.prems(2) Suc 1(2) show ?thesis by simp
  qed
qed simp

lemma repoint_bin_frame:
  assumes "keeps_address f" and "repoint_bin f b = Some b'"
  shows "repointed b b'"
  using assms(2) repoint_entries_frame [OF assms(1)]
  by (fastforce simp: repoint_bin_def repointed_def adj_list_def adj_addrs_def set_tab_def split: option.splits)

lemma repoint_all_frame:
  assumes "keeps_address f" and "repoint_all f ps h = Some h'"
  shows "\<forall>p. (case h p of None \<Rightarrow> h' p = None | Some b \<Rightarrow> \<exists>b'. h' p = Some b' \<and> repointed b b')"
  using assms(2)
proof (induction ps arbitrary: h)
  case Nil
  then show ?case by (auto simp: repointed_refl split: option.splits)
next
  case (Cons p ps)
  then obtain b b1 where b: "h p = Some b" "repoint_bin f b = Some b1" "repoint_all f ps (h(p := Some b1)) = Some h'"
    by (auto elim!: bind_eq_SomeE)
  have r: "repointed b b1" using repoint_bin_frame [OF assms(1) b(2)] .
  show ?case
  proof
    fix q
    show "case h q of None \<Rightarrow> h' q = None | Some b \<Rightarrow> \<exists>b'. h' q = Some b' \<and> repointed b b'"
      using Cons.IH [OF b(3)] b(1) r repointed_trans [OF r]
      by (cases "q = p") (fastforce split: option.splits dest: spec [where x = q])+
  qed
qed

section \<open>Inserting\<close>

text \<open>Two heaps agree on a table, the name and the number of words of a bin.\<close>

definition same_tab :: "ldtable \<Rightarrow> bheap \<Rightarrow> bheap \<Rightarrow> bref \<Rightarrow> bool" where
  "same_tab t h h' p \<longleftrightarrow> (\<exists>b b'. h p = Some b \<and> h' p = Some b' \<and> b_name b' = b_name b \<and>
     b_tabs b' t = b_tabs b t \<and> length (b_words b') = length (b_words b))"

lemma same_tab_trans: "same_tab t h h1 p \<Longrightarrow> same_tab t h1 h2 p \<Longrightarrow> same_tab t h h2 p"
  by (auto simp: same_tab_def)

lemma same_tab_refl: "h p = Some b \<Longrightarrow> same_tab t h h p"
  by (simp add: same_tab_def)

lemma repoint_all_same_tab:
  assumes "repoint_all f ps h = Some h'" and "keeps_address f" and "h p = Some b" and "t \<noteq> TAdjustment"
  shows "same_tab t h h' p"
  using repoint_all_frame [OF assms(2,1)] assms(3,4)
  by (auto simp: same_tab_def repointed_def split: option.splits dest!: spec [where x = p])

lemma info_insert_other_tab:
  assumes "bin_info_insert all to from u isAdjustment isOutput at offset count h = Some h'"
    and "u \<noteq> t" and "t \<noteq> TAdjustment" and "h p = Some b"
  shows "same_tab t h h' p"
proof -
  obtain bf bt where b: "h from = Some bf" "h to = Some bt"
    using assms(1) by (auto simp: bin_info_insert_def elim!: bind_eq_SomeE)
  show ?thesis
  proof (cases "b_tabs bf u")
    case None
    then show ?thesis using assms(1,4) b by (simp add: bin_info_insert_def same_tab_def)
  next
    case (Some fl)
    with assms(1) b obtain tol where tol: "b_tabs bt u = Some tol" "to \<noteq> from"
      by (auto simp: bin_info_insert_def elim!: bind_eq_SomeE split: if_splits)
    let ?h = "h(from := Some (set_tab u (list_sort ce_address fl) bf), to := Some (set_tab u
      (copy_entries (length (b_words bf)) at offset count (elems (list_sort ce_address fl))
        (if \<not> isAdjustment \<and> isOutput then tol else map_elems (shift_up at count) tol)) bt))"
    have s: "same_tab t h ?h p" using assms(2,4) b tol(2) by (auto simp: same_tab_def set_tab_def)
    show ?thesis
    proof (cases isAdjustment)
      case False
      then have "h' = ?h" using assms(1) b Some tol by (simp add: bin_info_insert_def Let_def)
      with s show ?thesis by simp
    next
      case True
      then have r: "repoint_all (repoint (b_name bt) (b_name bf) at offset count) (filter (\<lambda>p. p \<noteq> to) all @ [to]) ?h = Some h'"
        using assms(1) b Some tol by (simp add: bin_info_insert_def Let_def)
      obtain b' where "?h p = Some b'" using s unfolding same_tab_def by blast
      from same_tab_trans [OF s repoint_all_same_tab [OF r keeps_address_repoint(1) this assms(3)]]
      show ?thesis .
    qed
  qed
qed

lemma info_insert_this_tab:
  assumes "bin_info_insert all to from t False isOutput at offset count h = Some h'"
    and "h from = Some bf" and "h to = Some bt" and "b_tabs bf t = Some fl" and "b_tabs bt t = Some tol"
  shows "\<exists>bt'. h' to = Some bt' \<and> b_tabs bt' t = Some (copy_entries (length (b_words bf)) at offset count
      (elems (list_sort ce_address fl)) (if isOutput then tol else map_elems (shift_up at count) tol)) \<and>
    b_words bt' = b_words bt"
  using assms by (auto simp: bin_info_insert_def Let_def set_tab_def split: if_splits)

lemma insert_symbols_same:
  "bin_info_insert_symbols to from at offset count h = Some h' \<Longrightarrow> h p = Some b \<Longrightarrow>
     same_tab t h h' p \<and> (\<exists>b'. h' p = Some b' \<and> b_words b' = b_words b)"
  by (auto simp: bin_info_insert_symbols_def Let_def same_tab_def elim!: bind_eq_SomeE
      split: option.splits if_splits)

text \<open>The steps that do not touch adjustments leave the words and the adjustments alone.\<close>

definition same_code :: "bheap \<Rightarrow> bheap \<Rightarrow> bref \<Rightarrow> bool" where
  "same_code h h' p \<longleftrightarrow> (\<exists>b b'. h p = Some b \<and> h' p = Some b' \<and> b_words b' = b_words b \<and>
     b_tabs b' TAdjustment = b_tabs b TAdjustment)"

lemma same_code_trans: "same_code h h1 p \<Longrightarrow> same_code h1 h2 p \<Longrightarrow> same_code h h2 p"
  by (auto simp: same_code_def)

lemma info_insert_same_code:
  assumes "bin_info_insert all to from u False isOutput at offset count h = Some h'"
    and "u \<noteq> TAdjustment" and "h p = Some b"
  shows "same_code h h' p"
  using assms
  by (auto simp: bin_info_insert_def Let_def same_code_def set_tab_def elim!: bind_eq_SomeE
      split: option.splits if_splits)

lemma insert_symbols_same_code:
  "bin_info_insert_symbols to from at offset count h = Some h' \<Longrightarrow> h p = Some b \<Longrightarrow> same_code h h' p"
  by (auto simp: bin_info_insert_symbols_def Let_def same_code_def elim!: bind_eq_SomeE
      split: option.splits if_splits)

lemma info_insert_adjustment:
  assumes "bin_info_insert all to from TAdjustment True isOutput at offset count h = Some h'"
    and "h p = Some b"
  shows "\<exists>b'. h' p = Some b' \<and> length (b_words b') = length (b_words b) \<and>
    (\<forall>i. i \<notin> adj_addrs b' \<longrightarrow> b_words b' ! i = b_words b ! i)"
proof -
  obtain bf bt where bs: "h from = Some bf" "h to = Some bt"
    using assms(1) by (auto simp: bin_info_insert_def elim!: bind_eq_SomeE)
  show ?thesis
  proof (cases "b_tabs bf TAdjustment")
    case None
    then show ?thesis using assms bs by (auto simp: bin_info_insert_def)
  next
    case (Some fl)
    with assms(1) bs obtain tol where tol: "b_tabs bt TAdjustment = Some tol" "to \<noteq> from"
      by (auto simp: bin_info_insert_def elim!: bind_eq_SomeE split: if_splits)
    let ?h = "h(from := Some (set_tab TAdjustment (list_sort ce_address fl) bf), to := Some (set_tab TAdjustment
      (copy_entries (length (b_words bf)) at offset count (elems (list_sort ce_address fl))
        (map_elems (shift_up at count) tol)) bt))"
    have r: "repoint_all (repoint (b_name bt) (b_name bf) at offset count) (filter (\<lambda>p. p \<noteq> to) all @ [to]) ?h = Some h'"
      using assms(1) bs Some tol by (simp add: bin_info_insert_def Let_def)
    obtain b1 where b1: "?h p = Some b1" "b_words b1 = b_words b"
      using assms(2) bs by (cases "p = to"; cases "p = from") (auto simp: set_tab_def)
    then obtain b' where b': "h' p = Some b'" "repointed b1 b'"
      using repoint_all_frame [OF keeps_address_repoint(1) r] by (auto split: option.splits dest!: spec [where x = p])
    have "adj_addrs b' = adj_addrs b1" using b'(2) by (simp add: repointed_def adj_addrs_map)
    with b' b1 show ?thesis by (simp add: repointed_def)
  qed
qed

lemma bin_insert_steps:
  assumes "bin_insert all to from at offset count h = Some h'"
  obtains bt bf h1 h2 h3 h4 h5 h6 h7 where "h to = Some bt" and "h from = Some bf" and "to \<noteq> from"
    and "at \<le> length (b_words bt)" and "offset + count \<le> length (b_words bf)"
    and "bin_info_insert all to from TProvided False False at offset count (h(to := Some (bt\<lparr>b_words :=
      take at (b_words bt) @ take count (drop offset (b_words bf)) @ drop at (b_words bt)\<rparr>))) = Some h1"
    and "bin_info_insert all to from TRequired False False at offset count h1 = Some h2"
    and "bin_info_insert all to from TAdjustment True False at offset count h2 = Some h3"
    and "bin_info_insert all to from TOutput False True at offset count h3 = Some h4"
    and "bin_info_insert all to from TJump False False at offset count h4 = Some h5"
    and "bin_info_insert all to from TOptional False False at offset count h5 = Some h6"
    and "bin_info_insert all to from TCall False False at offset count h6 = Some h7"
    and "bin_info_insert_symbols to from at offset count h7 = Some h'"
  using assms
  by (auto simp: bin_insert_def Let_def insert_words_eq elim!: bind_eq_SomeE split: if_splits)

lemma bin_insert_tab:
  assumes "bin_insert all to from at offset count h = Some h'" and "h to = Some bt" and "h from = Some bf"
    and "t \<in> {TProvided, TRequired, TJump, TOptional, TCall}"
    and "b_tabs bt t = Some tol" and "b_tabs bf t = Some fl"
  shows "\<exists>bt'. h' to = Some bt' \<and> b_tabs bt' t = Some (copy_entries (length (b_words bf)) at offset count
    (elems (list_sort ce_address fl)) (map_elems (shift_up at count) tol))"
proof -
  obtain h1 h2 h3 h4 h5 h6 h7 where ne: "to \<noteq> from"
    and 1: "bin_info_insert all to from TProvided False False at offset count (h(to := Some (bt\<lparr>b_words :=
      take at (b_words bt) @ take count (drop offset (b_words bf)) @ drop at (b_words bt)\<rparr>))) = Some h1"
    and 2: "bin_info_insert all to from TRequired False False at offset count h1 = Some h2"
    and 3: "bin_info_insert all to from TAdjustment True False at offset count h2 = Some h3"
    and 4: "bin_info_insert all to from TOutput False True at offset count h3 = Some h4"
    and 5: "bin_info_insert all to from TJump False False at offset count h4 = Some h5"
    and 6: "bin_info_insert all to from TOptional False False at offset count h5 = Some h6"
    and 7: "bin_info_insert all to from TCall False False at offset count h6 = Some h7"
    and 8: "bin_info_insert_symbols to from at offset count h7 = Some h'"
    using bin_insert_steps [OF assms(1)] assms(2,3) by (metis option.inject)
  let ?h0 = "h(to := Some (bt\<lparr>b_words :=
      take at (b_words bt) @ take count (drop offset (b_words bf)) @ drop at (b_words bt)\<rparr>))"
  define P where "P g \<longleftrightarrow> (\<exists>b c. g to = Some b \<and> g from = Some c \<and> b_tabs b t = Some tol \<and>
    b_tabs c t = Some fl \<and> length (b_words c) = length (b_words bf))" for g :: bheap
  define Q where "Q g \<longleftrightarrow> (\<exists>b. g to = Some b \<and> b_tabs b t = Some (copy_entries (length (b_words bf)) at offset count
    (elems (list_sort ce_address fl)) (map_elems (shift_up at count) tol)))" for g :: bheap
  have P0: "P ?h0" using assms(3,5,6) ne by (simp add: P_def)
  have tA: "t \<noteq> TAdjustment" using assms(4) by auto
  have keepP: "P g'" if "bin_info_insert all to from u a b at offset count g = Some g'" "u \<noteq> t" "P g" for u a b g g'
    using that(3) info_insert_other_tab [OF that(1,2) tA, of to] info_insert_other_tab [OF that(1,2) tA, of "from"]
    unfolding P_def same_tab_def by auto
  have keepQ: "Q g'" if "bin_info_insert all to from u a b at offset count g = Some g'" "u \<noteq> t" "Q g" for u a b g g'
    using that(3) info_insert_other_tab [OF that(1,2) tA, of to] unfolding Q_def same_tab_def by auto
  have step: "Q g'" if "bin_info_insert all to from t False False at offset count g = Some g'" "P g" for g g'
    using that info_insert_this_tab [OF that(1)] unfolding P_def Q_def by fastforce
  have r: "if t = u \<or> d then Q g' else P g'"
    if "bin_info_insert all to from u False False at offset count g = Some g'" "if d then Q g else P g" "d \<longrightarrow> u \<noteq> t" for u d g g'
    using that keepP [OF that(1)] keepQ [OF that(1)] step by (cases "u = t") auto
  have "if t = TProvided then Q h1 else P h1" using r [OF 1, of False] P0 by simp
  then have "if t = TRequired \<or> t = TProvided then Q h2 else P h2" using r [OF 2, of "t = TProvided"] by simp
  then have "if t = TRequired \<or> t = TProvided then Q h3 else P h3"
    using keepP [OF 3] keepQ [OF 3] tA by (simp split: if_splits)
  then have "if t = TRequired \<or> t = TProvided then Q h4 else P h4"
    using keepP [OF 4] keepQ [OF 4] assms(4) by (auto split: if_splits)
  then have "if t = TJump \<or> t = TRequired \<or> t = TProvided then Q h5 else P h5"
    using r [OF 5, of "t = TRequired \<or> t = TProvided"] by simp
  then have "if t = TOptional \<or> t = TJump \<or> t = TRequired \<or> t = TProvided then Q h6 else P h6"
    using r [OF 6, of "t = TJump \<or> t = TRequired \<or> t = TProvided"] by simp
  then have "if t = TCall \<or> t = TOptional \<or> t = TJump \<or> t = TRequired \<or> t = TProvided then Q h7 else P h7"
    using r [OF 7, of "t = TOptional \<or> t = TJump \<or> t = TRequired \<or> t = TProvided"] by auto
  then have "Q h7" using assms(4) by auto
  then show ?thesis
    using insert_symbols_same [OF 8, of to] unfolding Q_def same_tab_def by fastforce
qed

lemma bin_insert_words:
  assumes "bin_insert all to from at offset count h = Some h'" and "h to = Some bt" and "h from = Some bf"
  shows "\<exists>bt'. h' to = Some bt' \<and> length (b_words bt') = length (b_words bt) + count \<and>
    (\<forall>i. i \<notin> adj_addrs bt' \<longrightarrow> b_words bt' ! i =
      (take at (b_words bt) @ take count (drop offset (b_words bf)) @ drop at (b_words bt)) ! i)"
proof -
  let ?ws = "take at (b_words bt) @ take count (drop offset (b_words bf)) @ drop at (b_words bt)"
  let ?h0 = "h(to := Some (bt\<lparr>b_words := ?ws\<rparr>))"
  obtain h1 h2 h3 h4 h5 h6 h7 where len: "at \<le> length (b_words bt)" "offset + count \<le> length (b_words bf)"
    and 1: "bin_info_insert all to from TProvided False False at offset count ?h0 = Some h1"
    and 2: "bin_info_insert all to from TRequired False False at offset count h1 = Some h2"
    and 3: "bin_info_insert all to from TAdjustment True False at offset count h2 = Some h3"
    and 4: "bin_info_insert all to from TOutput False True at offset count h3 = Some h4"
    and 5: "bin_info_insert all to from TJump False False at offset count h4 = Some h5"
    and 6: "bin_info_insert all to from TOptional False False at offset count h5 = Some h6"
    and 7: "bin_info_insert all to from TCall False False at offset count h6 = Some h7"
    and 8: "bin_info_insert_symbols to from at offset count h7 = Some h'"
    using bin_insert_steps [OF assms(1)] assms(2,3) by (metis option.inject)
  obtain b2 where b2: "h2 to = Some b2" "b_words b2 = ?ws"
    using info_insert_same_code [OF 1, of to] info_insert_same_code [OF 2, of to] by (auto simp: same_code_def)
  obtain b3 where b3: "h3 to = Some b3" "length (b_words b3) = length ?ws"
      "\<forall>i. i \<notin> adj_addrs b3 \<longrightarrow> b_words b3 ! i = ?ws ! i"
    using info_insert_adjustment [OF 3 b2(1)] b2(2) by auto
  obtain bt' where "h' to = Some bt'" "b_words bt' = b_words b3" "b_tabs bt' TAdjustment = b_tabs b3 TAdjustment"
    using b3(1) info_insert_same_code [OF 4, of to] info_insert_same_code [OF 5, of to]
      info_insert_same_code [OF 6, of to] info_insert_same_code [OF 7, of to] insert_symbols_same_code [OF 8, of to]
    by (auto simp: same_code_def)
  moreover have "adj_addrs bt' = adj_addrs b3" using calculation(3) by (simp add: adj_addrs_def adj_list_def)
  ultimately show ?thesis using b3(2,3) len by simp
qed

lemma shifted_word:
  assumes "at \<le> length wt" and "length wt + count < 65536" and "unat (ce_address e) < length wt" and "length xs = count"
  shows "(take at wt @ xs @ drop at wt) ! unat (ce_address (shift_up at count e)) = wt ! unat (ce_address e)"
proof (cases "at \<le> unat (ce_address e)")
  case True
  then have "unat (ce_address (shift_up at count e)) = unat (ce_address e) + count"
    using assms(2,3) unat_of_nat_u16 [of "unat (ce_address e) + count"]
    by (simp add: shift_up_def del: of_nat_add)
  moreover obtain k where "unat (ce_address e) = at + k" using True le_Suc_ex by blast
  ultimately show ?thesis using assms by (simp add: nth_append)
next
  case False
  with assms show ?thesis by (simp add: shift_up_def nth_append)
qed

lemma copied_word:
  assumes "at \<le> length wt" and "at + count < 65536" and "offset + count \<le> length wfr"
    and "offset \<le> unat (ce_address e)" and "unat (ce_address e) < offset + count"
  shows "(take at wt @ take count (drop offset wfr) @ drop at wt) ! unat (ce_address (copy_entry at offset e)) =
    wfr ! unat (ce_address e)"
proof -
  have "unat (ce_address (copy_entry at offset e)) = at + (unat (ce_address e) - offset)"
    using assms(2,4,5) unat_of_nat_u16 [of "at + (unat (ce_address e) - offset)"]
    by (simp add: copy_entry_def del: of_nat_add of_nat_diff)
  moreover obtain k where "unat (ce_address e) = offset + k" using assms(4) le_Suc_ex by blast
  ultimately show ?thesis using assms by (simp add: nth_append)
qed

text \<open>
  C15. Inserting code keeps labels on their code. When a range of one bin is inserted into
  another, each table of labels of the target (provided, required, jump, optional, call)
  afterwards holds the entries it had, and a copy of each entry of the range; every entry that
  named a word of the target still names that word, and every copied entry names the copy of
  the word it named, except where an adjustment of the target changes that word. The target
  has grown by exactly the inserted words.
\<close>

theorem insert_keeps_labels:
  assumes "bin_insert all to from at offset count h = Some h'" and "h to = Some bt" and "h from = Some bf"
    and "t \<in> {TProvided, TRequired, TJump, TOptional, TCall}" and "b_tabs bt t = Some tol"
    and "b_tabs bf t = Some fl" and "\<not> iterating tol" and "\<not> iterating fl"
    and "length (b_words bt) + count < 65536"
  shows "\<exists>bt' tol'. h' to = Some bt' \<and> b_tabs bt' t = Some tol' \<and>
    length (b_words bt') = length (b_words bt) + count \<and>
    elems tol' = map (shift_up at count) (elems tol) @ map (copy_entry at offset)
      (filter (\<lambda>e. in_copied (length (b_words bf)) offset count (ce_address e)) (sort_key ce_address (elems fl))) \<and>
    (\<forall>e \<in> set (elems tol). unat (ce_address e) < length (b_words bt) \<longrightarrow>
      unat (ce_address (shift_up at count e)) \<notin> adj_addrs bt' \<longrightarrow>
      b_words bt' ! unat (ce_address (shift_up at count e)) = b_words bt ! unat (ce_address e)) \<and>
    (\<forall>e \<in> set (elems fl). offset \<le> unat (ce_address e) \<longrightarrow> unat (ce_address e) < offset + count \<longrightarrow>
      unat (ce_address (copy_entry at offset e)) \<notin> adj_addrs bt' \<longrightarrow>
      b_words bt' ! unat (ce_address (copy_entry at offset e)) = b_words bf ! unat (ce_address e))"
proof -
  have len: "at \<le> length (b_words bt)" "offset + count \<le> length (b_words bf)"
    using bin_insert_steps [OF assms(1)] assms(2,3) by (metis option.inject)+
  obtain bt' where bt': "h' to = Some bt'" "b_tabs bt' t = Some (copy_entries (length (b_words bf)) at offset count
      (elems (list_sort ce_address fl)) (map_elems (shift_up at count) tol))"
    using bin_insert_tab [OF assms(1-6)] by blast
  have w: "length (b_words bt') = length (b_words bt) + count"
    "\<forall>i. i \<notin> adj_addrs bt' \<longrightarrow> b_words bt' ! i =
      (take at (b_words bt) @ take count (drop offset (b_words bf)) @ drop at (b_words bt)) ! i"
    using bin_insert_words [OF assms(1-3)] bt'(1) by auto
  have c: "length (take count (drop offset (b_words bf))) = count" using len(2) by simp
  show ?thesis
    using bt' w assms(7-9) len shifted_word [OF len(1) assms(9) _ c] copied_word [OF len(1) _ len(2)]
    by (intro exI [of _ bt'] exI conjI) (auto simp: copy_entries_eq list_sort_def map_elems_def)
qed

section \<open>References follow the code\<close>

lemma repoint_all_other: "repoint_all f ps h = Some h' \<Longrightarrow> p \<notin> set ps \<Longrightarrow> h' p = h p"
  by (induction ps arbitrary: h) (auto elim!: bind_eq_SomeE)

lemma repoint_all_at:
  "repoint_all f ps h = Some h' \<Longrightarrow> distinct ps \<Longrightarrow> p \<in> set ps \<Longrightarrow> h p = Some b \<Longrightarrow>
     \<exists>b'. repoint_bin f b = Some b' \<and> h' p = Some b'"
proof (induction ps arbitrary: h)
  case (Cons a ps)
  obtain x xa where x: "h a = Some x" "repoint_bin f x = Some xa" "repoint_all f ps (h(a := Some xa)) = Some h'"
    using Cons.prems(1) by (auto elim!: bind_eq_SomeE)
  show ?case
  proof (cases "p = a")
    case True
    then show ?thesis using x Cons.prems(2,4) repoint_all_other [OF x(3), of p] by simp
  next
    case False
    then show ?thesis using Cons.IH [OF x(3)] Cons.prems(2-4) by simp
  qed
qed simp

lemma info_insert_frame:
  assumes "bin_info_insert all to from u False isOutput at offset count h = Some h'" and "p \<noteq> to" and "p \<noteq> from"
  shows "h' p = h p"
  using assms by (auto simp: bin_info_insert_def Let_def elim!: bind_eq_SomeE split: option.splits if_splits)

lemma insert_symbols_frame:
  "bin_info_insert_symbols to from at offset count h = Some h' \<Longrightarrow> p \<noteq> to \<Longrightarrow> h' p = h p"
  by (auto simp: bin_info_insert_symbols_def Let_def elim!: bind_eq_SomeE split: option.splits if_splits)

text \<open>Where a word of a bin is after an insertion.\<close>

definition moved :: "cstr \<Rightarrow> cstr \<Rightarrow> nat \<Rightarrow> nat \<Rightarrow> nat \<Rightarrow> cstr \<times> nat \<Rightarrow> cstr \<times> nat" where
  "moved to from at offset count loc =
     (case loc of (bin, a) \<Rightarrow>
        if bin = from \<and> offset \<le> a \<and> a < offset + count then (to, at + (a - offset))
        else if bin = to \<and> at \<le> a then (to, a + count) else (bin, a))"

lemma repoint_moved:
  assumes "repoint to from at offset count e w = Some (e', w')" and "ce_bin e = Some bin"
    and "at + count < 65536" and "bin = to \<longrightarrow> unat w + count < 65536"
  shows "\<exists>bin'. ce_bin e' = Some bin' \<and> (bin', unat w') = moved to from at offset count (bin, unat w)"
proof -
  have "unat (of_nat (unat w - offset + at) :: u16) = unat w - offset + at" if "offset \<le> unat w" "unat w < offset + count"
    using that assms(3) by (intro unat_of_nat_u16) linarith
  moreover have "unat (of_nat (unat w + count) :: u16) = unat w + count" if "bin = to"
    using that assms(4) by (intro unat_of_nat_u16) simp
  ultimately show ?thesis
    using assms(1,2) by (auto simp: repoint_def moved_def biseq_def add.commute simp del: of_nat_add of_nat_diff split: if_splits)
qed

text \<open>An insertion changes a bin that is neither its source nor its target by moving its references.\<close>

lemma bin_insert_repoints:
  assumes "bin_insert all to from at offset count h = Some h'" and "h to = Some bt" and "h from = Some bf"
    and "distinct all" and "p \<in> set all" and "p \<noteq> to" and "p \<noteq> from" and "h p = Some b"
    and "b_tabs bf TAdjustment \<noteq> None"
  shows "at \<le> length (b_words bt) \<and>
    (\<exists>b'. repoint_bin (repoint (b_name bt) (b_name bf) at offset count) b = Some b' \<and> h' p = Some b')"
proof -
  define h0 where "h0 = h(to := Some (bt\<lparr>b_words :=
      take at (b_words bt) @ take count (drop offset (b_words bf)) @ drop at (b_words bt)\<rparr>))"
  obtain h1 h2 h3 h4 h5 h6 h7 where len: "at \<le> length (b_words bt)" and ne: "to \<noteq> from"
    and 1: "bin_info_insert all to from TProvided False False at offset count h0 = Some h1"
    and 2: "bin_info_insert all to from TRequired False False at offset count h1 = Some h2"
    and 3: "bin_info_insert all to from TAdjustment True False at offset count h2 = Some h3"
    and 4: "bin_info_insert all to from TOutput False True at offset count h3 = Some h4"
    and 5: "bin_info_insert all to from TJump False False at offset count h4 = Some h5"
    and 6: "bin_info_insert all to from TOptional False False at offset count h5 = Some h6"
    and 7: "bin_info_insert all to from TCall False False at offset count h6 = Some h7"
    and 8: "bin_info_insert_symbols to from at offset count h7 = Some h'"
    unfolding h0_def using bin_insert_steps [OF assms(1)] assms(2,3) by (metis option.inject)
  have frame: "h2 p = Some b" "h' p = h3 p"
    using info_insert_frame [OF 1 assms(6,7)] info_insert_frame [OF 2 assms(6,7)]
      info_insert_frame [OF 4 assms(6,7)] info_insert_frame [OF 5 assms(6,7)] info_insert_frame [OF 6 assms(6,7)]
      info_insert_frame [OF 7 assms(6,7)] insert_symbols_frame [OF 8 assms(6)] assms(6,8) by (simp_all add: h0_def)
  have keep: "same_tab TSection h0 h2 q \<and> same_code h0 h2 q" if q: "h0 q = Some c" for q c
  proof -
    have 11: "same_tab TSection h0 h1 q" "same_code h0 h1 q"
      by (rule info_insert_other_tab [OF 1 _ _ q] info_insert_same_code [OF 1 _ q]; simp)+
    then obtain c1 where c1: "h1 q = Some c1" unfolding same_code_def by blast
    have "same_tab TSection h1 h2 q" "same_code h1 h2 q"
      by (rule info_insert_other_tab [OF 2 _ _ c1] info_insert_same_code [OF 2 _ c1]; simp)+
    with 11 show ?thesis using same_tab_trans same_code_trans by blast
  qed
  have "same_tab TSection h0 h2 to" "same_tab TSection h0 h2 from" "same_code h0 h2 from"
    using keep [of to] keep [of "from"] assms(3) ne by (simp_all add: h0_def)
  then obtain ct cf where ct: "h2 to = Some ct" "b_name ct = b_name bt"
    and cf: "h2 from = Some cf" "b_name cf = b_name bf" "b_tabs cf TAdjustment \<noteq> None"
    using assms(2,3,9) ne by (auto simp: same_tab_def same_code_def h0_def)
  obtain g where g: "repoint_all (repoint (b_name bt) (b_name bf) at offset count) (filter (\<lambda>p. p \<noteq> to) all @ [to]) g = Some h3"
      "g p = Some b"
    using 3 ct cf frame(1) assms(6,7) ne
    by (auto simp: bin_info_insert_def Let_def elim!: bind_eq_SomeE split: if_splits)
  have "distinct (filter (\<lambda>p. p \<noteq> to) all @ [to])" "p \<in> set (filter (\<lambda>p. p \<noteq> to) all @ [to])"
    using assms(4-6) by simp_all
  then show ?thesis using repoint_all_at [OF g(1) _ _ g(2)] len frame(2) by auto
qed

text \<open>
  C16. References follow the code they point to. Take an adjustment in a bin that is neither
  source nor target of an insertion: it says that the word at its address is an address in
  some bin. After the insertion it is still there, and bin and word name the place to which
  the insertion took what they named before: into the copy when they pointed into the copied
  range, up by the inserted words when they pointed behind the insertion in the target, and
  unchanged otherwise.
\<close>

theorem insert_moves_references:
  assumes "bin_insert all to from at offset count h = Some h'" and "h to = Some bt" and "h from = Some bf"
    and "distinct all" and "p \<in> set all" and "p \<noteq> to" and "p \<noteq> from" and "h p = Some b"
    and "b_tabs b TAdjustment = Some l" and "distinct (map ce_address (elems l))"
    and "b_tabs bf TAdjustment \<noteq> None" and "k < length (elems l)" and "ce_bin (elems l ! k) = Some bin"
    and "length (b_words bt) + count < 65536"
    and "bin = b_name bt \<longrightarrow> unat (b_words b ! unat (ce_address (elems l ! k))) \<le> length (b_words bt)"
  shows "\<exists>b' l' bin'. h' p = Some b' \<and> b_tabs b' TAdjustment = Some l' \<and>
    ce_address (elems l' ! k) = ce_address (elems l ! k) \<and> ce_bin (elems l' ! k) = Some bin' \<and>
    (bin', unat (b_words b' ! unat (ce_address (elems l ! k)))) =
      moved (b_name bt) (b_name bf) at offset count (bin, unat (b_words b ! unat (ce_address (elems l ! k))))"
proof -
  let ?f = "repoint (b_name bt) (b_name bf) at offset count"
  obtain b' where len: "at \<le> length (b_words bt)" and b': "repoint_bin ?f b = Some b'" "h' p = Some b'"
    using bin_insert_repoints [OF assms(1-8,11)] by blast
  then obtain es ws where r: "repoint_entries ?f (elems l) (b_words b) = Some (es, ws)"
      "b_tabs b' TAdjustment = Some (l\<lparr>elems := es\<rparr>)" "b_words b' = ws"
    using assms(9) by (auto simp: repoint_bin_def set_tab_def)
  let ?e = "elems l ! k"
  let ?w = "b_words b ! unat (ce_address ?e)"
  have once: "?f ?e ?w = Some (es ! k, ws ! unat (ce_address ?e))"
    by (rule repoint_entries_once [OF r(1) assms(10) keeps_address_repoint(1) assms(12)])
  have "unat ?w + count < 65536" if "bin = b_name bt" using assms(14,15) that by linarith
  then obtain bin' where "ce_bin (es ! k) = Some bin'"
    "(bin', unat (ws ! unat (ce_address ?e))) = moved (b_name bt) (b_name bf) at offset count (bin, unat ?w)"
    using repoint_moved [OF once assms(13)] len assms(14) by auto
  moreover have "ce_address (es ! k) = ce_address ?e"
    using keeps_address_repoint(1) once unfolding keeps_address_def by blast
  ultimately show ?thesis
    using b'(2) r(2,3) by auto
qed

section \<open>Removing keeps names and shortens only the bin\<close>

lemma unpoint_bin_keeps:
  assumes "unpoint_bin name offset count b = Some b'"
  shows "b_name b' = b_name b \<and> length (b_words b') = length (b_words b)"
  using assms repoint_entries_frame [OF keeps_address_repoint(2)]
  by (fastforce simp: unpoint_bin_def set_tab_def split: option.splits)

lemma unpoint_all_keeps:
  assumes "unpoint_all name offset count ps h = Some h'" and "h q = Some b"
  shows "\<exists>b'. h' q = Some b' \<and> b_name b' = b_name b \<and> length (b_words b') = length (b_words b)"
  using assms
proof (induction ps arbitrary: h b)
  case (Cons p ps)
  then obtain c c' where c: "h p = Some c" "unpoint_bin name offset count c = Some c'"
      "unpoint_all name offset count ps (h(p := Some c')) = Some h'"
    by (auto elim!: bind_eq_SomeE)
  show ?case
  proof (cases "q = p")
    case True
    then show ?thesis using Cons.IH [OF c(3), of c'] Cons.prems(2) c(1) unpoint_bin_keeps [OF c(2)] by auto
  next
    case False
    then show ?thesis using Cons.IH [OF c(3)] Cons.prems(2) by simp
  qed
qed simp

lemma info_remove_keeps:
  assumes "bin_info_remove all bin t adj offset count h = Some h'" and "h q = Some b"
  shows "\<exists>b'. h' q = Some b' \<and> b_name b' = b_name b \<and> length (b_words b') = length (b_words b)"
proof -
  obtain c where c: "h bin = Some c" using assms(1) by (auto simp: bin_info_remove_def elim!: bind_eq_SomeE)
  show ?thesis
  proof (cases "b_tabs c t")
    case None
    then show ?thesis using assms c by (simp add: bin_info_remove_def)
  next
    case (Some l)
    have q: "\<exists>b'. (h(bin := Some (set_tab t x c))) q = Some b' \<and> b_name b' = b_name b \<and> length (b_words b') = length (b_words b)" for x
      using assms(2) c by (cases "q = bin") (simp_all add: set_tab_def)
    show ?thesis
    proof (cases adj)
      case False
      then show ?thesis using assms(1) c Some q by (auto simp: bin_info_remove_def Let_def)
    next
      case True
      let ?x = "delete_scanned offset count (elems (list_sort ce_address l)) (list_sort ce_address l)"
      have u: "unpoint_all (b_name c) offset count all (h(bin := Some (set_tab t ?x c))) = Some h'"
        using assms(1) c Some True by (simp add: bin_info_remove_def Let_def)
      obtain b' where b': "(h(bin := Some (set_tab t ?x c))) q = Some b'" "b_name b' = b_name b"
          "length (b_words b') = length (b_words b)" using q by blast
      from unpoint_all_keeps [OF u b'(1)] b'(2,3) show ?thesis by auto
    qed
  qed
qed

lemma remove_symbols_keeps:
  assumes "bin_info_remove_symbols bin offset count h = Some h'" and "h q = Some b"
  shows "\<exists>b'. h' q = Some b' \<and> b_name b' = b_name b \<and> length (b_words b') = length (b_words b)"
  using assms by (auto simp: bin_info_remove_symbols_def Let_def elim!: bind_eq_SomeE)

lemma bin_remove_steps:
  assumes "bin_remove all bin offset count h = Some h'"
  obtains b h1 h2 h3 h4 h5 h6 h7 where "h bin = Some b" and "offset + count \<le> length (b_words b)"
    and "bin_info_remove all bin TProvided False offset count
      (h(bin := Some (b\<lparr>b_words := take offset (b_words b) @ drop (offset + count) (b_words b)\<rparr>))) = Some h1"
    and "bin_info_remove all bin TRequired False offset count h1 = Some h2"
    and "bin_info_remove all bin TAdjustment True offset count h2 = Some h3"
    and "bin_info_remove all bin TOutput False offset count h3 = Some h4"
    and "bin_info_remove all bin TJump False offset count h4 = Some h5"
    and "bin_info_remove all bin TOptional False offset count h5 = Some h6"
    and "bin_info_remove all bin TCall False offset count h6 = Some h7"
    and "bin_info_remove_symbols bin offset count h7 = Some h'"
  using assms
  by (auto simp: bin_remove_def Let_def delete_words_eq elim!: bind_eq_SomeE split: if_splits)

lemma bin_remove_length:
  assumes "bin_remove all bin offset count h = Some h'" and "h q = Some b"
  shows "\<exists>b'. h' q = Some b' \<and> b_name b' = b_name b \<and>
    length (b_words b') = (if q = bin then length (b_words b) - count else length (b_words b))"
proof -
  obtain c h1 h2 h3 h4 h5 h6 h7 where c: "h bin = Some c" "offset + count \<le> length (b_words c)"
    and 1: "bin_info_remove all bin TProvided False offset count
      (h(bin := Some (c\<lparr>b_words := take offset (b_words c) @ drop (offset + count) (b_words c)\<rparr>))) = Some h1"
    and 2: "bin_info_remove all bin TRequired False offset count h1 = Some h2"
    and 3: "bin_info_remove all bin TAdjustment True offset count h2 = Some h3"
    and 4: "bin_info_remove all bin TOutput False offset count h3 = Some h4"
    and 5: "bin_info_remove all bin TJump False offset count h4 = Some h5"
    and 6: "bin_info_remove all bin TOptional False offset count h5 = Some h6"
    and 7: "bin_info_remove all bin TCall False offset count h6 = Some h7"
    and 8: "bin_info_remove_symbols bin offset count h7 = Some h'"
    by (rule bin_remove_steps [OF assms(1)])
  define b0 where "b0 = (if q = bin then c\<lparr>b_words := take offset (b_words c) @ drop (offset + count) (b_words c)\<rparr> else b)"
  have b0: "(h(bin := Some (c\<lparr>b_words := take offset (b_words c) @ drop (offset + count) (b_words c)\<rparr>))) q = Some b0"
    "b_name b0 = b_name b" "length (b_words b0) = (if q = bin then length (b_words b) - count else length (b_words b))"
    using c assms(2) by (auto simp: b0_def)
  obtain b1 where b1: "h1 q = Some b1" "b_name b1 = b_name b0" "length (b_words b1) = length (b_words b0)"
    using info_remove_keeps [OF 1 b0(1)] by blast
  obtain b2 where b2: "h2 q = Some b2" "b_name b2 = b_name b1" "length (b_words b2) = length (b_words b1)"
    using info_remove_keeps [OF 2 b1(1)] by blast
  obtain b3 where b3: "h3 q = Some b3" "b_name b3 = b_name b2" "length (b_words b3) = length (b_words b2)"
    using info_remove_keeps [OF 3 b2(1)] by blast
  obtain b4 where b4: "h4 q = Some b4" "b_name b4 = b_name b3" "length (b_words b4) = length (b_words b3)"
    using info_remove_keeps [OF 4 b3(1)] by blast
  obtain b5 where b5: "h5 q = Some b5" "b_name b5 = b_name b4" "length (b_words b5) = length (b_words b4)"
    using info_remove_keeps [OF 5 b4(1)] by blast
  obtain b6 where b6: "h6 q = Some b6" "b_name b6 = b_name b5" "length (b_words b6) = length (b_words b5)"
    using info_remove_keeps [OF 6 b5(1)] by blast
  obtain b7 where b7: "h7 q = Some b7" "b_name b7 = b_name b6" "length (b_words b7) = length (b_words b6)"
    using info_remove_keeps [OF 7 b6(1)] by blast
  show ?thesis using remove_symbols_keeps [OF 8 b7(1)] b0 b1 b2 b3 b4 b5 b6 b7 by auto
qed

section \<open>An example\<close>

text \<open>Two files of three and two words, and a third bin with a reference into each.\<close>

definition demo_list :: "lconv_entry list \<Rightarrow> lconv_entry ldlist" where
  "demo_list es = \<lparr>elems = es, iterating = False\<rparr>"

definition demo_bin :: "u8 \<Rightarrow> lconv_entry list \<Rightarrow> lconv_entry list \<Rightarrow> u16 list \<Rightarrow> ldbin" where
  "demo_bin n prov adj ws = \<lparr>b_name = [n], b_tabs = (\<lambda>t. if t = TProvided then Some (demo_list prov)
     else if t = TAdjustment then Some (demo_list adj) else Some list_create),
     b_symbols = Some new_list, b_words = ws\<rparr>"

definition demo_heap :: bheap where
  "demo_heap = (\<lambda>_. None)(0 := Some (demo_bin 1 [\<lparr>ce_label = Some [0x61], ce_bin = None, ce_address = 2\<rparr>] [] [10, 11, 12]),
     1 := Some (demo_bin 2 [\<lparr>ce_label = Some [0x62], ce_bin = None, ce_address = 1\<rparr>] [] [20, 21]),
     2 := Some (demo_bin 3 [] [\<lparr>ce_label = None, ce_bin = Some [1], ce_address = 0\<rparr>,
       \<lparr>ce_label = None, ce_bin = Some [2], ce_address = 1\<rparr>] [2, 1]))"

lemma demo_insert: "\<exists>h'. bin_insert [0, 1, 2] 0 1 1 0 2 demo_heap = Some h'"
proof -
  have "\<not> Option.is_none (bin_insert [0, 1, 2] 0 1 1 0 2 demo_heap)" by code_simp
  then show ?thesis by (simp add: Option.is_none_def)
qed

lemma demo_bins:
  "demo_heap 0 = Some (demo_bin 1 [\<lparr>ce_label = Some [0x61], ce_bin = None, ce_address = 2\<rparr>] [] [10, 11, 12])"
  "demo_heap 1 = Some (demo_bin 2 [\<lparr>ce_label = Some [0x62], ce_bin = None, ce_address = 1\<rparr>] [] [20, 21])"
  "demo_heap 2 = Some (demo_bin 3 [] [\<lparr>ce_label = None, ce_bin = Some [1], ce_address = 0\<rparr>,
     \<lparr>ce_label = None, ce_bin = Some [2], ce_address = 1\<rparr>] [2, 1])"
  by (simp_all add: demo_heap_def)

theorem insert_keeps_labels_witness:
  "\<exists>h' bt' tol'. bin_insert [0, 1, 2] 0 1 1 0 2 demo_heap = Some h' \<and> h' 0 = Some bt' \<and>
     b_tabs bt' TProvided = Some tol' \<and> length (b_words bt') = 5 \<and> map ce_address (elems tol') = [4, 2]"
proof -
  obtain h' where h': "bin_insert [0, 1, 2] 0 1 1 0 2 demo_heap = Some h'" using demo_insert by blast
  let ?e0 = "\<lparr>ce_label = Some [0x61], ce_bin = None, ce_address = 2\<rparr> :: lconv_entry"
  let ?e1 = "\<lparr>ce_label = Some [0x62], ce_bin = None, ce_address = 1\<rparr> :: lconv_entry"
  have p: "TProvided \<in> {TProvided, TRequired, TJump, TOptional, TCall}"
    "b_tabs (demo_bin 1 [?e0] [] [10, 11, 12]) TProvided = Some (demo_list [?e0])"
    "b_tabs (demo_bin 2 [?e1] [] [20, 21]) TProvided = Some (demo_list [?e1])"
    "\<not> iterating (demo_list [?e0])" "\<not> iterating (demo_list [?e1])"
    "length (b_words (demo_bin 1 [?e0] [] [10, 11, 12])) + 2 < 65536"
    by (simp_all add: demo_bin_def demo_list_def)
  from insert_keeps_labels [OF h' demo_bins(1,2) p] obtain bt' tol'
    where "h' 0 = Some bt'" "b_tabs bt' TProvided = Some tol'"
      "length (b_words bt') = length (b_words (demo_bin 1 [?e0] [] [10, 11, 12])) + 2"
      "elems tol' = map (shift_up 1 2) (elems (demo_list [?e0])) @ map (copy_entry 1 0)
        (filter (\<lambda>e. in_copied (length (b_words (demo_bin 2 [?e1] [] [20, 21]))) 0 2 (ce_address e))
          (sort_key ce_address (elems (demo_list [?e1]))))"
    by (elim exE conjE) (rule that)
  with h' show ?thesis
    by (simp add: demo_bin_def demo_list_def shift_up_def copy_entry_def in_copied_def)
qed

theorem insert_moves_references_witness:
  "\<exists>h' b' l' bin'. bin_insert [0, 1, 2] 0 1 1 0 2 demo_heap = Some h' \<and> h' 2 = Some b' \<and>
     b_tabs b' TAdjustment = Some l' \<and> ce_bin (elems l' ! 1) = Some bin' \<and> (bin', unat (b_words b' ! 1)) = ([1], 2)"
proof -
  obtain h' where h': "bin_insert [0, 1, 2] 0 1 1 0 2 demo_heap = Some h'" using demo_insert by blast
  let ?l = "demo_list [\<lparr>ce_label = None, ce_bin = Some [1], ce_address = 0\<rparr>,
    \<lparr>ce_label = None, ce_bin = Some [2], ce_address = 1\<rparr>]"
  let ?b = "demo_bin 3 [] [\<lparr>ce_label = None, ce_bin = Some [1], ce_address = 0\<rparr>,
     \<lparr>ce_label = None, ce_bin = Some [2], ce_address = 1\<rparr>] [2, 1]"
  let ?bt = "demo_bin 1 [\<lparr>ce_label = Some [0x61], ce_bin = None, ce_address = 2\<rparr>] [] [10, 11, 12]"
  let ?bf = "demo_bin 2 [\<lparr>ce_label = Some [0x62], ce_bin = None, ce_address = 1\<rparr>] [] [20, 21]"
  have p: "b_tabs ?b TAdjustment = Some ?l" "distinct (map ce_address (elems ?l))"
    "b_tabs ?bf TAdjustment \<noteq> None" "1 < length (elems ?l)" "ce_bin (elems ?l ! 1) = Some [2]"
    "length (b_words ?bt) + 2 < 65536"
    "[2] = b_name ?bt \<longrightarrow> unat (b_words ?b ! unat (ce_address (elems ?l ! 1))) \<le> length (b_words ?bt)"
    by (simp_all add: demo_bin_def demo_list_def)
  have d: "distinct [0, 1, 2 :: nat]" "(2 :: nat) \<in> set [0, 1, 2]" "(2 :: nat) \<noteq> 0" "(2 :: nat) \<noteq> 1" by simp_all
  from insert_moves_references [OF h' demo_bins(1,2) d demo_bins(3) p] obtain b' l' bin'
    where "h' 2 = Some b'" "b_tabs b' TAdjustment = Some l'" "ce_bin (elems l' ! 1) = Some bin'"
      "(bin', unat (b_words b' ! unat (ce_address (elems ?l ! 1)))) = moved (b_name ?bt) (b_name ?bf) 1 0 2
        ([2], unat (b_words ?b ! unat (ce_address (elems ?l ! 1))))"
    by (elim exE conjE) (rule that)
  with h' show ?thesis by (simp add: demo_bin_def demo_list_def moved_def)
qed

end
