(* ===== verification/Derr.thy ===== *)
theory Derr
  imports Objfmt
begin

text \<open>
  Error handling (\<^verbatim>\<open>libdcpu/derr.c\<close>) as the assembler and the linker see it: the errors and
  warnings of \<^verbatim>\<open>err.d\<close> that the modelled code raises, the outcome of an operation that may raise
  one, and the warning policies of the command line. The messages are left out.
\<close>

section \<open>Errors and outcomes\<close>

datatype ld_error =
    ERR_CAN_NOT_OPEN_FILE | ERR_CAN_NOT_WRITE_FILE | ERR_OBJECT_VERSION_MISMATCH
  | ERR_LABEL_NOT_FOUND | ERR_LABEL_AMBIGIOUS_PROVIDED_JUMP
  | ERR_CALL_NO_SETTINGS | ERR_CALL_CONVENTION_AMBIGIOUS | ERR_CALL_CONVENTION_MISSING
  | ERR_CALL_CONVENTION_UNKNOWN | ERR_CALL_MISSING_INTERRUPT_PARAMETERS
  | ERR_JUMPLIST_WITHOUT_KERNEL | ERR_POLICY_WITH_KERNEL | ERR_POLICY_PATH_UNKNOWN
  | ERR_POLICY_FILE_NOT_FOUND | ERR_POLICY_TARGET_NOT_FOUND | ERR_POLICY_IS_INTERNAL | ERR_POLICY_EXECUTION
  | ERR_GENERIC | ERR_OUTPUT_NULL | ERR_BRACKETED_REGISTER_UNSUPPORTED | ERR_NEXTED_REGISTER_UNSUPPORTED
  | ERR_RELOCATION_TABLE_TOO_LARGE | ERR_DAT_UNSUPPORTED_PARAMETER | ERR_GEN_UNSUPPORTED_PARAMETER
  | ERR_UNSUPPORTED_KEYWORD | ERR_EXTENSION_TABLE_TOO_LARGE | ERR_EXTENSION_UNKNOWN
  | ERR_UNKNOWN_OPCODE | ERR_UNABLE_TO_INCBIN | ERR_NOT_GENERATING_INTERMEDIATE_CODE
  | ERR_LABEL_RESOLUTION_NOT_PERMITTED | ERR_EXPRESSION_NOT_PERMITTED | ERR_EXPRESSION_DIVIDE_BY_ZERO
  | ERR_PP_DEFINE_NOT_FOUND | ERR_PP_DEFINE_NOT_EXPRESSION | ERR_OUTPUT_BEFORE_SECTION | ERR_INVALID_PARAMETER_COUNT | ERR_KEYWORD_PARAMETER_MISSING
  | WARN_EXPRESSION_NOT_ADJUSTED | WARN_USE_RELOCATION_NOT_ORIGIN | WARN_RELATIVE_PC_ADDRESSING
  | WARN_SKIPPING_SHORT_LITERALS_TYPE | WARN_SKIPPING_SHORT_LITERALS_REQUEST
  | WARN_KERNEL_NOT_PROVIDING_JUMP_LIST | WARN_KERNEL_JUMP_LIST_NOT_EXPORTED
  | WARN_ABSOLUTE_KERNEL_PATH | WARN_POLICY_CODE_BIN_NOT_FOUND

text \<open>
  The outcome of an operation: \<^verbatim>\<open>dhalt\<close> leaves everything up to the handler of the tool and is
  \<open>Halt\<close> with the error and its data; undefined behaviour and a failed assertion are \<open>Undef\<close>.
\<close>

datatype 'a ldres = Undef | Halt ld_error "cstr option" | Ret 'a

fun ld_bind :: "'a ldres \<Rightarrow> ('a \<Rightarrow> 'b ldres) \<Rightarrow> 'b ldres" where
  "ld_bind Undef f = Undef"
| "ld_bind (Halt e d) f = Halt e d"
| "ld_bind (Ret x) f = f x"

fun defined :: "'a option \<Rightarrow> 'a ldres" where
  "defined None = Undef"
| "defined (Some x) = Ret x"

definition ensure :: "bool \<Rightarrow> unit ldres" where
  "ensure P = (if P then Ret () else Undef)"

lemma ld_bind_Ret [simp]: "ld_bind m f = Ret y \<longleftrightarrow> (\<exists>x. m = Ret x \<and> f x = Ret y)"
  by (cases m) simp_all

lemma defined_Ret [simp]: "defined m = Ret x \<longleftrightarrow> m = Some x"
  by (cases m) simp_all

lemma ensure_Ret [simp]: "ensure P = Ret u \<longleftrightarrow> P"
  by (simp add: ensure_def)

text \<open>
  The parameters of a run: the byte order of the host, the files that can be opened for
  writing, and the warnings that the user turned into errors.
\<close>

record ldenv =
  e_big :: bool
  e_writable :: "cstr \<Rightarrow> bool"
  e_werror :: "ld_error \<Rightarrow> bool"

definition dwarn :: "ldenv \<Rightarrow> ld_error \<Rightarrow> unit ldres" where
  "dwarn env e = (if e_werror env e then Halt e None else Ret ())"

text \<open>A little-endian machine on which every path is writable and no warning is an error.\<close>

definition demo_env :: ldenv where
  "demo_env = \<lparr>e_big = False, e_writable = (\<lambda>_. True), e_werror = (\<lambda>_. False)\<rparr>"

section \<open>Warning policies\<close>

record warnpolicy =
  wp_errid :: ld_error
  wp_name :: cstr
  wp_treat_as_error :: bool
  wp_silence :: bool

text \<open>
  The table that the build generates from \<^verbatim>\<open>err.d\<close>: the warnings in the order of that file, none
  of them an error and none silent.
\<close>

definition dwarnpolicy :: "warnpolicy list" where
  "dwarnpolicy = map (\<lambda>(e, name). \<lparr>wp_errid = e, wp_name = c_str name, wp_treat_as_error = False, wp_silence = False\<rparr>)
     [(WARN_EXPRESSION_NOT_ADJUSTED, ''expression-not-adjusted''),
      (WARN_USE_RELOCATION_NOT_ORIGIN, ''origin-usage''),
      (WARN_RELATIVE_PC_ADDRESSING, ''relative-jump''),
      (WARN_SKIPPING_SHORT_LITERALS_TYPE, ''short-literals-skipped-type''),
      (WARN_SKIPPING_SHORT_LITERALS_REQUEST, ''short-literals-skipped-request''),
      (WARN_KERNEL_NOT_PROVIDING_JUMP_LIST, ''jump-list-missing''),
      (WARN_KERNEL_JUMP_LIST_NOT_EXPORTED, ''jump-list-not-exported''),
      (WARN_ABSOLUTE_KERNEL_PATH, ''absolute-kernel-path''),
      (WARN_POLICY_CODE_BIN_NOT_FOUND, ''policy-code-bin-not-found'')]"

definition has_prefix :: "cstr \<Rightarrow> cstr \<Rightarrow> bool" where
  "has_prefix p s \<longleftrightarrow> length s > length p \<and> take (length p) s = p"

definition set_named :: "cstr \<Rightarrow> (warnpolicy \<Rightarrow> warnpolicy) \<Rightarrow> warnpolicy list \<Rightarrow> warnpolicy list" where
  "set_named name f ws = map (\<lambda>w. if wp_name w = name then f w else w) ws"

text \<open>
  One \<^verbatim>\<open>-W\<close> argument. The prefix \<^verbatim>\<open>no-error=\<close> turns the warning into an error like \<^verbatim>\<open>error=\<close>
  does.
\<close>

definition warn_argument :: "cstr \<Rightarrow> warnpolicy list \<Rightarrow> warnpolicy list" where
  "warn_argument s ws =
     (if s = c_str ''all'' then map (\<lambda>w. w\<lparr>wp_silence := False\<rparr>) ws
      else if s = c_str ''error'' then map (\<lambda>w. w\<lparr>wp_treat_as_error := True\<rparr>) ws
      else
        (let ws = set_named s (\<lambda>w. w\<lparr>wp_silence := False\<rparr>) ws;
             ws = (if has_prefix (c_str ''no-'') s then set_named (drop 3 s) (\<lambda>w. w\<lparr>wp_silence := True\<rparr>) ws else ws);
             ws = (if has_prefix (c_str ''error='') s
                   then set_named (drop 6 s) (\<lambda>w. w\<lparr>wp_treat_as_error := True\<rparr>) ws else ws)
         in if has_prefix (c_str ''no-error='') s
            then set_named (drop 9 s) (\<lambda>w. w\<lparr>wp_treat_as_error := True\<rparr>) ws else ws))"

definition dsetwarnpolicy :: "cstr list \<Rightarrow> warnpolicy list \<Rightarrow> warnpolicy list" where
  "dsetwarnpolicy args ws = fold warn_argument args ws"

text \<open>What \<^verbatim>\<open>dwarn\<close> looks up: whether a warning halts.\<close>

definition treated_as_error :: "warnpolicy list \<Rightarrow> ld_error \<Rightarrow> bool" where
  "treated_as_error ws e \<longleftrightarrow> (\<exists>w \<in> set ws. wp_errid w = e \<and> wp_treat_as_error w)"

lemma no_error_is_error:
  "\<not> treated_as_error dwarnpolicy WARN_RELATIVE_PC_ADDRESSING"
  "treated_as_error (dsetwarnpolicy [c_str ''no-error=relative-jump''] dwarnpolicy) WARN_RELATIVE_PC_ADDRESSING"
  by code_simp+

lemma silent_by_name:
  "map wp_silence (dsetwarnpolicy [c_str ''no-origin-usage''] dwarnpolicy) =
     [False, True, False, False, False, False, False, False, False]"
  "map wp_treat_as_error (dsetwarnpolicy [c_str ''error''] dwarnpolicy) = replicate 9 True"
  by code_simp+

end
