(* ===== verification/Ld_Bins.thy ===== *)
theory Ld_Bins
  imports Ld_Bin Dcpu_Isa Derr
begin

text \<open>
  The linker (\<^verbatim>\<open>libdcpu-ld/ldbins.c\<close>): object files are loaded into bins, the sections of the
  bins are gathered, everything is flattened into one bin, its labels are resolved, and the
  result is saved.

  The global list \<^verbatim>\<open>ldbins.bins\<close>, the heap of bins, the byte order state of the word
  streams and the file system are one record. Trace output is left out, but what a trace
  message has to read is checked. The Lua optimiser that \<^verbatim>\<open>bins_optimize\<close> calls is a parameter.
\<close>

section \<open>State\<close>

record ldstate =
  l_heap :: bheap
  l_bins :: "bref list"
  l_next :: bref
  l_iio :: iio_state
  l_fs :: "cstr \<Rightarrow> u8 list option"

definition put_bin :: "bref \<Rightarrow> ldbin \<Rightarrow> ldstate \<Rightarrow> ldstate" where
  "put_bin p b st = st\<lparr>l_heap := (l_heap st)(p := Some b)\<rparr>"

text \<open>A new bin on the heap.\<close>

definition alloc_bin :: "ldbin \<Rightarrow> ldstate \<Rightarrow> bref \<times> ldstate" where
  "alloc_bin b st = (l_next st, (put_bin (l_next st) b st)\<lparr>l_next := Suc (l_next st)\<rparr>)"

text \<open>
  What printing a bin reads: the words of its adjustments and the names of their bins, and
  the labels of the other tables.
\<close>

definition bin_print :: "ldbin \<Rightarrow> unit ldres" where
  "bin_print bin = ensure (
     (\<forall>t \<in> {TProvided, TRequired, TSection, TOutput, TJump, TOptional, TCall}.
        case b_tabs bin t of None \<Rightarrow> True | Some l \<Rightarrow> \<forall>e \<in> set (elems l). ce_label e \<noteq> None) \<and>
     (case b_tabs bin TAdjustment of
        None \<Rightarrow> True
      | Some l \<Rightarrow> \<forall>e \<in> set (elems l). unat (ce_address e) < length (b_words bin) \<and> ce_bin e \<noteq> None))"

fun bins_print :: "bref list \<Rightarrow> bheap \<Rightarrow> unit ldres" where
  "bins_print [] h = Ret ()"
| "bins_print (p # ps) h =
     ld_bind (defined (h p)) (\<lambda>b. ld_bind (bin_print b) (\<lambda>_. bins_print ps h))"

text \<open>The first bin of a list with a given name.\<close>

fun seek_bin :: "bref list \<Rightarrow> bheap \<Rightarrow> cstr \<Rightarrow> bref option option" where
  "seek_bin [] h name = Some None"
| "seek_bin (p # ps) h name = do {
     b \<leftarrow> h p;
     if b_name b = name then Some (Some p) else seek_bin ps h name
   }"

lemma foldl_bin_write: "foldl bin_write b ws = b\<lparr>b_words := b_words b @ ws\<rparr>"
  by (induction ws arbitrary: b) (simp_all add: bin_write_def)

section \<open>Adding and loading\<close>

definition bins_init :: "ldstate \<Rightarrow> ldstate" where
  "bins_init st = st\<lparr>l_bins := []\<rparr>"

definition bins_add :: "cstr \<Rightarrow> (ldtable \<Rightarrow> lprov_entry list) \<Rightarrow> ldstate \<Rightarrow> bref \<times> ldstate" where
  "bins_add name tabs st =
     (let bin = (bin_create name False)\<lparr>b_tabs := (\<lambda>t. Some (list_convert (tabs t))), b_symbols := Some new_list\<rparr>;
          (p, st) = alloc_bin bin st
      in (p, st\<lparr>l_bins := l_bins st @ [p]\<rparr>))"

text \<open>The tables that were read, by their names; a table that was not asked for is empty.\<close>

fun objtab :: "objtabs \<Rightarrow> ldtable \<Rightarrow> lprov_entry list" where
  "objtab t TProvided = (case t_provided t of None \<Rightarrow> [] | Some l \<Rightarrow> l)"
| "objtab t TRequired = (case t_required t of None \<Rightarrow> [] | Some l \<Rightarrow> l)"
| "objtab t TAdjustment = (case t_adjustment t of None \<Rightarrow> [] | Some l \<Rightarrow> l)"
| "objtab t TSection = (case t_section t of None \<Rightarrow> [] | Some l \<Rightarrow> l)"
| "objtab t TOutput = (case t_output t of None \<Rightarrow> [] | Some l \<Rightarrow> l)"
| "objtab t TJump = (case t_jump t of None \<Rightarrow> [] | Some l \<Rightarrow> l)"
| "objtab t TOptional = (case t_optional t of None \<Rightarrow> [] | Some l \<Rightarrow> l)"
| "objtab t TCall = (case t_call t of None \<Rightarrow> [] | Some l \<Rightarrow> l)"

definition all_tabs :: objtabs where
  "all_tabs = \<lparr>t_provided = Some [], t_required = Some [], t_adjustment = Some [], t_section = Some [],
     t_output = Some [], t_jump = Some [], t_optional = Some [], t_call = Some []\<rparr>"

text \<open>
  The format test: the buffer was cleared, so a short file gives a shorter string. The byte
  behind the mark is passed over.
\<close>

definition check_objfmt :: "cstr \<Rightarrow> u8 list \<Rightarrow> cfile ldres" where
  "check_objfmt path bs =
     (if c_string (take (length ldata_objfmt) bs) \<noteq> ldata_objfmt
      then Halt ERR_OBJECT_VERSION_MISMATCH (Some path)
      else Ret \<lparr>fcontent = bs, fpos = min (length ldata_objfmt) (length bs) + 1\<rparr>)"

text \<open>
  Reading words until the end of the file was hit; a last odd byte also sets the end-of-file
  mark and is dropped.
\<close>

lemma iread_advances:
  "iread big io 0 f = Some (Suc n, w, io', f') \<Longrightarrow> fcontent f' = fcontent f \<and> fpos f' = fpos f + 2 \<and>
     fpos f < length (fcontent f)"
  by (cases "drop (fpos f) (fcontent f)" rule: remdups_adj.cases)
    (auto simp: iread_def fread_2_def Let_def split: read2.splits prod.splits
      dest: arg_cong [where f = length])

function read_words :: "bool \<Rightarrow> iio_state \<Rightarrow> cfile \<Rightarrow> u16 list \<times> iio_state" where
  "read_words big io f =
     (case iread big io 0 f of
        Some (Suc n, w, io', f') \<Rightarrow> (let (ws, io) = read_words big io' f' in (w # ws, io))
      | Some (0, w, io', f') \<Rightarrow> ([], io')
      | None \<Rightarrow> ([], icpudetect big io))"
  by pat_completeness auto

termination
  by (relation "measure (\<lambda>(_, _, f). length (fcontent f) - fpos f)") (auto dest: iread_advances)

declare read_words.simps [simp del]

text \<open>The last position of a byte (\<^verbatim>\<open>bstrrchr\<close>).\<close>

definition last_index :: "u8 \<Rightarrow> cstr \<Rightarrow> nat option" where
  "last_index c s = (if c \<in> set s then Some (length s - 1 - length (takeWhile (\<lambda>x. x \<noteq> c) (rev s))) else None)"

text \<open>The path of the symbol file: the extension is replaced, if the last dot is in the file name.\<close>

definition symbol_path :: "cstr \<Rightarrow> cstr \<Rightarrow> cstr" where
  "symbol_path path ext =
     (let i = last_index (of_char (CHR ''.'')) path;
          j = last_index (of_char (CHR ''/'')) path;
          k = last_index (of_char (CHR 0x5C)) path;
          sympath = (case i of
             None \<Rightarrow> path
           | Some i \<Rightarrow> if (j = None \<or> i > the j) \<and> (k = None \<or> i > the k) then take i path else path)
      in sympath @ [of_char (CHR ''.'')] @ ext)"

definition bins_load :: "ldenv \<Rightarrow> cstr \<Rightarrow> bool \<Rightarrow> cstr \<Rightarrow> ldstate \<Rightarrow> ldstate ldres" where
  "bins_load env path loadDebugSymbols debugSymbolExtension st =
     (case l_fs st path of
        None \<Rightarrow> Halt ERR_CAN_NOT_OPEN_FILE (Some path)
      | Some bs \<Rightarrow>
          ld_bind (check_objfmt path bs) (\<lambda>inp.
          ld_bind (defined (objfile_load (e_big env) inp 0 all_tabs)) (\<lambda>(offset, t, inp).
            let (p, st) = bins_add path (objtab t) st in
            ld_bind (defined (l_heap st p)) (\<lambda>bin.
            ld_bind (if loadDebugSymbols
                     then ld_bind (defined (dbgfmt_read (e_big env)
                            (l_fs st (symbol_path path debugSymbolExtension)) False))
                            (\<lambda>symbols. Ret (bin\<lparr>b_symbols := map_option (\<lambda>s. \<lparr>elems = s, iterating = False\<rparr>) symbols\<rparr>))
                     else Ret bin) (\<lambda>bin.
              let (ws, io) = read_words (e_big env) (l_iio st) inp
              in Ret ((put_bin p (foldl bin_write bin ws) st)\<lparr>l_iio := io\<rparr>))))))"

definition bins_load_kernel :: "ldenv \<Rightarrow> cstr \<Rightarrow> cstr \<Rightarrow> ldstate \<Rightarrow> ldstate ldres" where
  "bins_load_kernel env jumplist krnl st =
     (case l_fs st jumplist of
        None \<Rightarrow> Halt ERR_CAN_NOT_OPEN_FILE (Some jumplist)
      | Some js \<Rightarrow>
     (case l_fs st krnl of
        None \<Rightarrow> Halt ERR_CAN_NOT_OPEN_FILE (Some krnl)
      | Some ks \<Rightarrow>
          ld_bind (check_objfmt jumplist js) (\<lambda>jin.
          ld_bind (defined (objfile_load (e_big env) jin 0
              \<lparr>t_provided = None, t_required = None, t_adjustment = Some [], t_section = None,
               t_output = None, t_jump = Some [], t_optional = Some [], t_call = None\<rparr>)) (\<lambda>(offset, t, jin).
            let (p, st) = bins_add (c_str ''<kernel>'') (objtab t) st in
            ld_bind (defined (l_heap st p)) (\<lambda>bin.
              let (ws, io) = read_words (e_big env) (l_iio st) \<lparr>fcontent = ks, fpos = 0\<rparr>
              in Ret ((put_bin p (foldl bin_write bin ws) st)\<lparr>l_iio := io\<rparr>))))))"

definition bins_load_jumplist :: "ldenv \<Rightarrow> cstr \<Rightarrow> ldstate \<Rightarrow> ldstate ldres" where
  "bins_load_jumplist env path st =
     (case l_fs st path of
        None \<Rightarrow> Halt ERR_CAN_NOT_OPEN_FILE (Some path)
      | Some bs \<Rightarrow>
          ld_bind (check_objfmt path bs) (\<lambda>inp.
          ld_bind (defined (objfile_load (e_big env) inp 0
              \<lparr>t_provided = None, t_required = None, t_adjustment = None, t_section = None,
               t_output = None, t_jump = Some [], t_optional = None, t_call = None\<rparr>)) (\<lambda>(offset, t, inp).
            Ret (snd (bins_add (c_str ''<jumplist>'') (objtab t) st)))))"

section \<open>Saving\<close>

abbreviation (input) IMAGE_APPLICATION :: int where "IMAGE_APPLICATION \<equiv> 0"
abbreviation (input) IMAGE_STATIC_LIBRARY :: int where "IMAGE_STATIC_LIBRARY \<equiv> 1"
abbreviation (input) IMAGE_KERNEL :: int where "IMAGE_KERNEL \<equiv> 2"

abbreviation (input) tab_of :: "ldbin \<Rightarrow> ldtable \<Rightarrow> lprov_entry list" where
  "tab_of bin t \<equiv> list_revert (b_tabs bin t)"

text \<open>The file with linker tables and words, or words only; two open streams on one file are left out.\<close>

definition save_image :: "ldenv \<Rightarrow> iio_state \<Rightarrow> ldbin \<Rightarrow> int \<Rightarrow> bool \<Rightarrow> (iio_state \<times> u8 list) ldres" where
  "save_image env io bin target keepOutputs =
     ld_bind (if target = IMAGE_STATIC_LIBRARY
              then defined (objfile_save (e_big env) (new_file (ldata_objfmt @ [0]))
                     (tab_of bin TProvided) (tab_of bin TRequired) (tab_of bin TAdjustment) (tab_of bin TSection)
                     (if keepOutputs then tab_of bin TOutput else [])
                     (tab_of bin TJump) (tab_of bin TOptional) (tab_of bin TCall))
              else Ret (new_file [])) (\<lambda>out.
       let (io, out) = write_words (e_big env) io (b_words bin) out in Ret (io, fcontent out))"

definition save_jumplist :: "ldenv \<Rightarrow> ldbin \<Rightarrow> u8 list ldres" where
  "save_jumplist env bin =
     ld_bind (defined (objfile_save (e_big env) (new_file (ldata_objfmt @ [0])) [] [] (tab_of bin TAdjustment) [] []
       (tab_of bin TJump) (tab_of bin TOptional) [])) (\<lambda>out. Ret (fcontent out))"

definition bins_save ::
    "ldenv \<Rightarrow> cstr \<Rightarrow> cstr \<Rightarrow> int \<Rightarrow> bool \<Rightarrow> cstr option \<Rightarrow> cstr option \<Rightarrow> ldstate \<Rightarrow> ldstate ldres" where
  "bins_save env name path target keepOutputs symbolFilename jumplistFilename st =
     ld_bind (defined (seek_bin (l_bins st) (l_heap st) name)) (\<lambda>p.
     ld_bind (defined p) (\<lambda>p.
     ld_bind (defined (l_heap st p)) (\<lambda>bin.
     if \<not> e_writable env path then Halt ERR_CAN_NOT_WRITE_FILE (Some path)
     else
     ld_bind (save_image env (l_iio st) bin target keepOutputs) (\<lambda>(io, image).
     ld_bind (if target = IMAGE_KERNEL
              then (case jumplistFilename of
                      None \<Rightarrow> ld_bind (dwarn env WARN_KERNEL_JUMP_LIST_NOT_EXPORTED) (\<lambda>_. Ret (l_fs st))
                    | Some jp \<Rightarrow>
                        if \<not> e_writable env jp then Halt ERR_CAN_NOT_WRITE_FILE (Some jp)
                        else ld_bind (ensure (jp \<noteq> path)) (\<lambda>_.
                          ld_bind (save_jumplist env bin) (\<lambda>js. Ret ((l_fs st)(jp := Some js)))))
              else Ret (l_fs st)) (\<lambda>fs.
       let fs = fs(path := Some image) in
     ld_bind (case symbolFilename of
                None \<Rightarrow> Ret fs
              | Some sp \<Rightarrow>
                  ld_bind (ensure (e_writable env sp)) (\<lambda>_.
                  ld_bind (defined (b_symbols bin)) (\<lambda>symbols.
                  ld_bind (defined (dbgfmt_write (e_big env) (elems symbols))) (\<lambda>bs. Ret (fs(sp := Some bs))))))
       (\<lambda>fs. Ret (st\<lparr>l_iio := io, l_fs := fs\<rparr>)))))))"

definition bins_write :: "cstr \<Rightarrow> u16 \<Rightarrow> ldstate \<Rightarrow> (bool \<times> ldstate) ldres" where
  "bins_write name word st =
     ld_bind (defined (seek_bin (l_bins st) (l_heap st) name)) (\<lambda>p.
       case p of
         None \<Rightarrow> Ret (False, st)
       | Some p \<Rightarrow> ld_bind (defined (l_heap st p)) (\<lambda>b. Ret (True, put_bin p (bin_write b word) st)))"

section \<open>Sections\<close>

definition associate_bin :: "ldbin \<Rightarrow> ldbin" where
  "associate_bin b =
     (case b_tabs b TAdjustment of
        None \<Rightarrow> b
      | Some l \<Rightarrow> set_tab TAdjustment (map_elems (\<lambda>e. e\<lparr>ce_bin := Some (b_name b)\<rparr>) l) b)"

fun associate_all :: "bref list \<Rightarrow> bheap \<Rightarrow> bheap option" where
  "associate_all [] h = Some h"
| "associate_all (p # ps) h = do {
     b \<leftarrow> h p;
     associate_all ps (h(p := Some (associate_bin b)))
   }"

definition bins_associate :: "ldstate \<Rightarrow> ldstate ldres" where
  "bins_associate st =
     ld_bind (defined (associate_all (l_bins st) (l_heap st))) (\<lambda>h. Ret (st\<lparr>l_heap := h\<rparr>))"

definition section_name :: "cstr option \<Rightarrow> cstr" where
  "section_name label = c_str ''SECTION '' @ (case label of None \<Rightarrow> [] | Some l \<Rightarrow> l)"

text \<open>A bin for each section name, in the order of their first use.\<close>

fun create_sections :: "lconv_entry list \<Rightarrow> bref list \<Rightarrow> ldstate \<Rightarrow> (bref list \<times> ldstate) ldres" where
  "create_sections [] create st = Ret (create, st)"
| "create_sections (e # es) create st =
     ld_bind (defined (seek_bin create (l_heap st) (section_name (ce_label e)))) (\<lambda>found.
       case found of
         Some _ \<Rightarrow> create_sections es create st
       | None \<Rightarrow>
           (let (p, st) = alloc_bin (bin_create (section_name (ce_label e)) True) st
            in create_sections es (create @ [p]) st))"

fun create_all :: "bref list \<Rightarrow> bref list \<Rightarrow> ldstate \<Rightarrow> (bref list \<times> ldstate) ldres" where
  "create_all [] create st = Ret (create, st)"
| "create_all (p # ps) create st =
     ld_bind (defined (l_heap st p)) (\<lambda>b.
     ld_bind (defined (b_tabs b TSection)) (\<lambda>l.
     ld_bind (create_sections (elems l) create st) (\<lambda>(create, st). create_all ps create st)))"

text \<open>
  Moving the sections of one bin. \<open>stolen\<close> counts the words that were already moved out of
  it. A negative amount only comes from a section that starts behind the end of the bin,
  and then the assertion on the offset in \<^verbatim>\<open>bin_insert\<close> fails.
\<close>

fun steal_sections :: "bref list \<Rightarrow> bref \<Rightarrow> bref list \<Rightarrow> lconv_entry list \<Rightarrow> int \<Rightarrow> bheap \<Rightarrow> bheap ldres" where
  "steal_sections all bin create [] stolen h = Ret h"
| "steal_sections all bin create (e # es) stolen h =
     ld_bind (defined (seek_bin create h (section_name (ce_label e)))) (\<lambda>t.
     ld_bind (defined t) (\<lambda>target.
     ld_bind (defined (h bin)) (\<lambda>b.
     ld_bind (defined (h target)) (\<lambda>bt.
       let index = uint (ce_address e) - stolen;
           steal = (case es of
              [] \<Rightarrow> int (length (b_words b)) - index
            | e' # _ \<Rightarrow> (uint (ce_address e') - stolen) - index)
       in if steal < 0 \<or> index < 0 then Undef
          else ld_bind (defined (bin_move all target bin (length (b_words bt)) (nat index) (nat steal) h)) (\<lambda>h.
            steal_sections all bin create es (stolen + steal) h)))))"

fun sectionize_all :: "bref list \<Rightarrow> bref list \<Rightarrow> bref list \<Rightarrow> bheap \<Rightarrow> bheap ldres" where
  "sectionize_all all [] create h = Ret h"
| "sectionize_all all (p # ps) create h =
     ld_bind (defined (h p)) (\<lambda>b.
     ld_bind (defined (b_tabs b TSection)) (\<lambda>l.
       let l = list_sort ce_address l in
     ld_bind (steal_sections all p create (elems l) 0 (h(p := Some (set_tab TSection l b)))) (\<lambda>h.
       sectionize_all all ps create h)))"

definition bins_sectionize :: "ldstate \<Rightarrow> ldstate ldres" where
  "bins_sectionize st =
     ld_bind (bins_print (l_bins st) (l_heap st)) (\<lambda>_.
     ld_bind (create_all (l_bins st) [] st) (\<lambda>(create, st).
     ld_bind (sectionize_all (l_bins st) (l_bins st) create (l_heap st)) (\<lambda>h.
       let st = st\<lparr>l_heap := h, l_bins := l_bins st @ create\<rparr> in
     ld_bind (bins_print (l_bins st) (l_heap st)) (\<lambda>_. Ret st))))"

section \<open>Flattening\<close>

fun flatten_files :: "bref list \<Rightarrow> bref \<Rightarrow> bref list \<Rightarrow> bheap \<Rightarrow> bheap ldres" where
  "flatten_files all target [] h = Ret h"
| "flatten_files all target (p # ps) h =
     ld_bind (defined (h p)) (\<lambda>b.
       if take 8 (b_name b) = c_str ''SECTION '' then flatten_files all target ps h
       else
         ld_bind (defined (h target)) (\<lambda>bt.
         ld_bind (defined (bin_move all target p (length (b_words bt)) 0 (length (b_words b)) h)) (\<lambda>h.
           flatten_files all target ps h)))"

fun flatten_outputs :: "bref list \<Rightarrow> bref \<Rightarrow> lconv_entry list \<Rightarrow> bheap \<Rightarrow> bheap ldres" where
  "flatten_outputs all target [] h = Ret h"
| "flatten_outputs all target (e # es) h =
     ld_bind (defined (seek_bin all h (section_name (ce_label e)))) (\<lambda>found.
       case found of
         None \<Rightarrow> flatten_outputs all target es h
       | Some p \<Rightarrow>
           ld_bind (defined (h p)) (\<lambda>b.
           ld_bind (defined (bin_insert all target p (unat (ce_address e)) 0 (length (b_words b)) h)) (\<lambda>h.
             flatten_outputs all target es h)))"

text \<open>Sorting in descending order, and the mark that a table is being iterated over.\<close>

definition list_sort_down :: "lconv_entry ldlist \<Rightarrow> lconv_entry ldlist" where
  "list_sort_down l = (if iterating l then l else l\<lparr>elems := sort_key (\<lambda>e. - uint (ce_address e)) (elems l)\<rparr>)"

definition set_iterating :: "ldtable \<Rightarrow> bool \<Rightarrow> ldbin \<Rightarrow> ldbin" where
  "set_iterating t i b =
     (case b_tabs b t of None \<Rightarrow> b | Some l \<Rightarrow> set_tab t (l\<lparr>iterating := i\<rparr>) b)"

text \<open>
  With the bins their names are released; an adjustment that still names one of them when the
  flattened bin is printed makes this undefined.
\<close>

definition bins_flatten :: "cstr \<Rightarrow> ldstate \<Rightarrow> ldstate ldres" where
  "bins_flatten name st =
     (let all = l_bins st;
          new = (bin_create name False)\<lparr>b_tabs := (\<lambda>t. if t = TSection then None else Some list_create),
            b_symbols := Some new_list\<rparr>;
          (target, st) = alloc_bin new st
      in
     ld_bind (flatten_files all target all (l_heap st)) (\<lambda>h.
     ld_bind (defined (h target)) (\<lambda>bt.
     ld_bind (defined (b_tabs bt TOutput)) (\<lambda>outs.
       let outs = list_sort_down outs;
           h = h(target := Some (set_iterating TOutput True (set_tab TOutput outs bt))) in
     ld_bind (flatten_outputs all target (elems outs) h) (\<lambda>h.
     ld_bind (defined (h target)) (\<lambda>bt.
       let bt = set_iterating TOutput False bt;
           h = fold (\<lambda>p h. bin_destroy h p) all (h(target := Some bt));
           st = st\<lparr>l_heap := h, l_bins := [target]\<rparr> in
     ld_bind (ensure (\<forall>e \<in> set (case b_tabs bt TAdjustment of None \<Rightarrow> [] | Some l \<Rightarrow> elems l).
       ce_bin e = Some (b_name bt))) (\<lambda>_.
     ld_bind (bins_print (l_bins st) h) (\<lambda>_. Ret st))))))))"

section \<open>The jump table\<close>

definition no_label :: "lconv_entry \<Rightarrow> bool" where
  "no_label e \<longleftrightarrow> ce_label e = None \<or> ce_label e = Some []"

text \<open>The entry without a label marks the position of the table; a missing label is undefined.\<close>

fun find_jump_table :: "lconv_entry list \<Rightarrow> u16 option ldres" where
  "find_jump_table [] = Ret None"
| "find_jump_table (e # es) =
     (if ce_label e = None then Undef
      else if no_label e then Ret (Some (ce_address e)) else find_jump_table es)"

text \<open>
  One entry: an empty word is moved in at \<open>pos\<close>, which moves the entry's own address along,
  then the word is set and an adjustment for it is added.
\<close>

definition write_jump_entry :: "bref list \<Rightarrow> bref \<Rightarrow> nat \<Rightarrow> u16 \<Rightarrow> ldstate \<Rightarrow> ldstate ldres" where
  "write_jump_entry all bin i pos st =
     (let (empty, st) = alloc_bin (bin_write (bin_create (c_str ''<temp>'') True) 0) st in
     ld_bind (defined (bin_move all bin empty (unat pos) 0 1 (l_heap st))) (\<lambda>h.
       let h = bin_destroy h empty in
     ld_bind (defined (h bin)) (\<lambda>b.
     ld_bind (bin_print b) (\<lambda>_.
     ld_bind (defined (b_tabs b TJump)) (\<lambda>jumps.
     ld_bind (defined (b_tabs b TAdjustment)) (\<lambda>adjs.
     ld_bind (ensure (unat pos < length (b_words b) \<and> i < length (elems jumps))) (\<lambda>_.
       let entry = elems jumps ! i;
           adjust = \<lparr>ce_label = None, ce_bin = Some (b_name b), ce_address = pos\<rparr>;
           b = b\<lparr>b_words := (b_words b)[unat pos := ce_address entry]\<rparr>;
           b = set_tab TAdjustment (list_append adjs adjust) b;
           b = set_tab TJump (jumps\<lparr>elems := (elems jumps)[i := entry\<lparr>ce_address := pos\<rparr>]\<rparr>) b in
     ld_bind (bin_print b) (\<lambda>_. Ret (st\<lparr>l_heap := h(bin := Some b)\<rparr>)))))))))"

text \<open>Entries \<open>i\<close> to \<open>i + n - 1\<close>.\<close>

fun write_jump_entries :: "bref list \<Rightarrow> bref \<Rightarrow> nat \<Rightarrow> nat \<Rightarrow> u16 \<Rightarrow> ldstate \<Rightarrow> ldstate ldres" where
  "write_jump_entries all bin i 0 pos st = Ret st"
| "write_jump_entries all bin i (Suc n) pos st =
     ld_bind (defined (l_heap st bin)) (\<lambda>b.
     ld_bind (defined (b_tabs b TJump)) (\<lambda>jumps.
     ld_bind (ensure (i < length (elems jumps))) (\<lambda>_.
       if no_label (elems jumps ! i) then write_jump_entries all bin (Suc i) n pos st
       else ld_bind (write_jump_entry all bin i pos st) (\<lambda>st.
         write_jump_entries all bin (Suc i) n (pos + 1) st))))"

definition bins_write_jump :: "ldenv \<Rightarrow> ldstate \<Rightarrow> ldstate ldres" where
  "bins_write_jump env st =
     (case l_bins st of
        [bin] \<Rightarrow>
          ld_bind (defined (l_heap st bin)) (\<lambda>b.
          case b_tabs b TJump of
            None \<Rightarrow> ld_bind (dwarn env WARN_KERNEL_NOT_PROVIDING_JUMP_LIST) (\<lambda>_. Ret st)
          | Some jumps \<Rightarrow>
              ld_bind (find_jump_table (elems jumps)) (\<lambda>pos.
              case pos of
                None \<Rightarrow> ld_bind (dwarn env WARN_KERNEL_NOT_PROVIDING_JUMP_LIST) (\<lambda>_. Ret st)
              | Some pos \<Rightarrow>
                  ld_bind (bin_print b) (\<lambda>_.
                    write_jump_entries (l_bins st) bin 0 (length (elems jumps)) pos st)))
      | _ \<Rightarrow> Undef)"

section \<open>Optimisation\<close>

text \<open>
  The optimiser runs Lua scripts on a bin and returns the number of saved words; it is the
  parameter \<open>bin_lua_optimize\<close>. The sum is kept in 32 bits.
\<close>

fun optimize_all ::
    "(bref \<Rightarrow> ldstate \<Rightarrow> (int \<times> ldstate) ldres) \<Rightarrow> bref list \<Rightarrow> int \<Rightarrow> ldstate \<Rightarrow> (int \<times> ldstate) ldres" where
  "optimize_all bin_lua_optimize [] saved st = Ret (saved, st)"
| "optimize_all bin_lua_optimize (p # ps) saved st =
     ld_bind (bin_lua_optimize p st) (\<lambda>(n, st). optimize_all bin_lua_optimize ps (saved + n) st)"

definition bins_optimize ::
    "(bref \<Rightarrow> ldstate \<Rightarrow> (int \<times> ldstate) ldres) \<Rightarrow> int \<Rightarrow> int \<Rightarrow> ldstate \<Rightarrow> (int \<times> ldstate) ldres" where
  "bins_optimize bin_lua_optimize target level st =
     (if level = 0 then Ret (0, st) else optimize_all bin_lua_optimize (l_bins st) 0 st)"

section \<open>Resolving labels\<close>

text \<open>The first entry with a given label; an entry without a label never matches.\<close>

fun seek_label :: "lconv_entry list \<Rightarrow> cstr option \<Rightarrow> lconv_entry option" where
  "seek_label [] name = None"
| "seek_label (e # es) name =
     (if ce_label e \<noteq> None \<and> biseq (ce_label e) name then Some e else seek_label es name)"

definition seek_tab :: "ldbin \<Rightarrow> ldtable \<Rightarrow> cstr option \<Rightarrow> lconv_entry option" where
  "seek_tab b t name = (case b_tabs b t of None \<Rightarrow> None | Some l \<Rightarrow> seek_label (elems l) name)"

text \<open>
  One required or optional label. \<open>adjustment\<close> is the structure the previous labels left: it
  is allocated anew for a label that a file provides, and kept for others, so that a jump
  table reference behind such a label also gets an adjustment. The result is \<open>None\<close> when
  the label is left alone.
\<close>

definition resolve_word :: "ldbin \<Rightarrow> u16 \<Rightarrow> u16 \<Rightarrow> ldbin ldres" where
  "resolve_word b a w =
     ld_bind (ensure (unat a < length (b_words b))) (\<lambda>_. Ret (b\<lparr>b_words := (b_words b)[unat a := w]\<rparr>))"

definition resolve_adjust :: "ldbin \<Rightarrow> u16 \<Rightarrow> cstr option option \<Rightarrow> ldbin ldres" where
  "resolve_adjust b a adjustment =
     (case adjustment of
        None \<Rightarrow> Ret b
      | Some label \<Rightarrow>
          ld_bind (defined (b_tabs b TAdjustment)) (\<lambda>adjs.
            Ret (set_tab TAdjustment (list_append adjs
              \<lparr>ce_label = label, ce_bin = Some (b_name b), ce_address = a\<rparr>) b)))"

definition resolve_required ::
    "bool \<Rightarrow> lconv_entry \<Rightarrow> cstr option option \<times> ldbin \<Rightarrow> (cstr option option \<times> ldbin) ldres" where
  "resolve_required allowMissing required st =
     (case st of (adjustment, b) \<Rightarrow>
        (case (seek_tab b TProvided (ce_label required), seek_tab b TJump (ce_label required)) of
           (None, None) \<Rightarrow>
             if allowMissing then Ret (adjustment, b)
             else ld_bind (ensure (ce_label required \<noteq> None)) (\<lambda>_. Halt ERR_LABEL_NOT_FOUND (ce_label required))
         | (Some _, Some _) \<Rightarrow>
             ld_bind (ensure (ce_label required \<noteq> None)) (\<lambda>_.
               Halt ERR_LABEL_AMBIGIOUS_PROVIDED_JUMP (ce_label required))
         | (Some provided, None) \<Rightarrow>
             ld_bind (resolve_word b (ce_address required) (ce_address provided)) (\<lambda>b.
             ld_bind (resolve_adjust b (ce_address required) (Some (ce_label provided))) (\<lambda>b.
             ld_bind (ensure (ce_label required \<noteq> None)) (\<lambda>_. Ret (Some (ce_label provided), b))))
         | (None, Some jump) \<Rightarrow>
             ld_bind (resolve_word b (ce_address required) (ce_address jump)) (\<lambda>b.
             ld_bind (resolve_adjust b (ce_address required) adjustment) (\<lambda>b.
             ld_bind (ensure (ce_label required \<noteq> None)) (\<lambda>_. Ret (adjustment, b))))))"

text \<open>An optional label that nobody provides becomes 0; one behind the end of the bin is skipped.\<close>

definition resolve_optional ::
    "bool \<Rightarrow> lconv_entry \<Rightarrow> cstr option option \<times> ldbin \<Rightarrow> (cstr option option \<times> ldbin) ldres" where
  "resolve_optional allowMissing optional st =
     (case st of (adjustment, b) \<Rightarrow>
        if unat (ce_address optional) > length (b_words b) then Ret (adjustment, b)
        else
        (case (seek_tab b TProvided (ce_label optional), seek_tab b TJump (ce_label optional)) of
           (None, None) \<Rightarrow>
             if allowMissing then Ret (adjustment, b)
             else
               ld_bind (resolve_word b (ce_address optional) 0) (\<lambda>b.
               ld_bind (resolve_adjust b (ce_address optional) adjustment) (\<lambda>b.
               ld_bind (ensure (ce_label optional \<noteq> None)) (\<lambda>_. Ret (adjustment, b))))
         | (Some _, Some _) \<Rightarrow>
             ld_bind (ensure (ce_label optional \<noteq> None)) (\<lambda>_.
               Halt ERR_LABEL_AMBIGIOUS_PROVIDED_JUMP (ce_label optional))
         | (Some provided, None) \<Rightarrow>
             ld_bind (resolve_word b (ce_address optional) (ce_address provided)) (\<lambda>b.
             ld_bind (resolve_adjust b (ce_address optional) (Some (ce_label provided))) (\<lambda>b.
             ld_bind (ensure (ce_label optional \<noteq> None)) (\<lambda>_. Ret (Some (ce_label provided), b))))
         | (None, Some jump) \<Rightarrow>
             ld_bind (resolve_word b (ce_address optional) (ce_address jump)) (\<lambda>b.
             ld_bind (resolve_adjust b (ce_address optional) adjustment) (\<lambda>b.
             ld_bind (ensure (ce_label optional \<noteq> None)) (\<lambda>_. Ret (adjustment, b))))))"

fun ld_each :: "('a \<Rightarrow> 's \<Rightarrow> 's ldres) \<Rightarrow> 'a list \<Rightarrow> 's \<Rightarrow> 's ldres" where
  "ld_each f [] s = Ret s"
| "ld_each f (x # xs) s = ld_bind (f x s) (ld_each f xs)"

text \<open>The entries that stay because nothing resolves them.\<close>

definition unresolved :: "bool \<Rightarrow> ldbin \<Rightarrow> lconv_entry ldlist \<Rightarrow> lconv_entry ldlist" where
  "unresolved allowMissing b l = l\<lparr>elems := filter (\<lambda>e. seek_tab b TProvided (ce_label e) = None \<and>
     seek_tab b TJump (ce_label e) = None \<and> allowMissing) (elems l)\<rparr>"

definition bins_resolve :: "bool \<Rightarrow> bool \<Rightarrow> bool \<Rightarrow> ldstate \<Rightarrow> ldstate ldres" where
  "bins_resolve keepProvided allowMissing keepOptional st =
     (case l_bins st of
        [bin] \<Rightarrow>
          ld_bind (defined (l_heap st bin)) (\<lambda>b.
          ld_bind (defined (b_tabs b TRequired)) (\<lambda>req.
          ld_bind (ld_each (resolve_required allowMissing) (elems req) (None, b)) (\<lambda>(adjustment, b).
            let b = set_tab TRequired (unresolved allowMissing b req) b in
          ld_bind (defined (b_tabs b TOptional)) (\<lambda>opt.
          ld_bind (ld_each (resolve_optional allowMissing) (elems opt) (adjustment, b)) (\<lambda>(adjustment, b).
            let b = (if keepOptional then b else set_tab TOptional (unresolved allowMissing b opt) b) in
          ld_bind (if keepProvided then Ret b
                   else ld_bind (defined (b_tabs b TProvided)) (\<lambda>prov. Ret (set_tab TProvided (prov\<lparr>elems := []\<rparr>) b))) (\<lambda>b.
          ld_bind (bin_print b) (\<lambda>_. Ret (put_bin bin b st))))))))
      | _ \<Rightarrow> Undef)"

section \<open>Short literals\<close>

text \<open>Whether an address is that of a required, optional or adjusted word.\<close>

definition names_word :: "ldbin \<Rightarrow> ldtable \<Rightarrow> nat \<Rightarrow> bool" where
  "names_word b t a = (case b_tabs b t of None \<Rightarrow> False | Some l \<Rightarrow> \<exists>e \<in> set (elems l). unat (ce_address e) = a)"

definition short_literal :: "u16 \<Rightarrow> u16 option" where
  "short_literal value =
     (if value = 0xffff then Some 0x20 else if value \<le> 0x1e then Some (value + 0x21) else None)"

text \<open>The size of an instruction as this pass sees it; register-relative operands are not counted.\<close>

definition compress_size :: "u16 \<Rightarrow> nat" where
  "compress_size inst =
     (let a = INSTRUCTION_GET_A inst; b = INSTRUCTION_GET_B inst
      in 1 + (if a = NXT_LIT \<or> a = NXT \<or> a = PICK then 1 else 0) +
         (if b = NXT_LIT \<or> b = NXT \<or> b = PICK then 1 else 0))"

text \<open>
  One instruction at position \<open>i\<close>: the position of the next one, the heap, and whether a word
  was saved.
\<close>

definition compress_step :: "bref list \<Rightarrow> bref \<Rightarrow> nat \<Rightarrow> bheap \<Rightarrow> (nat \<times> bheap \<times> bool) ldres" where
  "compress_step all p i h =
     ld_bind (defined (h p)) (\<lambda>bin.
       let inst = b_words bin ! i; size = compress_size inst in
       if INSTRUCTION_GET_A inst \<noteq> NXT_LIT then Ret (i + size, h, False)
       else ld_bind (ensure (i + 1 < length (b_words bin))) (\<lambda>_.
         let value = b_words bin ! (i + 1) in
         if names_word bin TRequired (i + 1) \<or> names_word bin TOptional (i + 1) \<or> names_word bin TAdjustment (i + 1)
         then Ret (i + size, h, False)
         else
           (case short_literal value of
              None \<Rightarrow> Ret (i + size, h, False)
            | Some store \<Rightarrow>
                (let inst = INSTRUCTION_CREATE (INSTRUCTION_GET_OP inst) (INSTRUCTION_GET_B inst) store;
                     h = h(p := Some (bin\<lparr>b_words := (b_words bin)[i := inst]\<rparr>))
                 in ld_bind (defined (bin_remove all p (i + 1) 1 h)) (\<lambda>h. Ret (i + size - 1, h, True))))))"


lemma compress_step_advances:
  assumes "compress_step all p i h = Ret (i', h', s)" and "h p = Some b"
  shows "i < i' \<and> (\<exists>b'. h' p = Some b' \<and> length (b_words b') \<le> length (b_words b))"
proof (cases s)
  case True
  then obtain c where c: "i' = i + compress_size (b_words b ! i) - 1" "INSTRUCTION_GET_A (b_words b ! i) = NXT_LIT"
      "bin_remove all p (i + 1) 1 (h(p := Some (b\<lparr>b_words := c\<rparr>))) = Some h'" "length c = length (b_words b)"
    using assms by (auto simp: compress_step_def Let_def split: if_splits option.splits)
  then show ?thesis using bin_remove_length [OF c(3), of p] by (auto simp: compress_size_def Let_def)
next
  case False
  then have "i' = i + compress_size (b_words b ! i) \<and> h' = h"
    using assms by (auto simp: compress_step_def Let_def split: if_splits option.splits)
  then show ?thesis using assms(2) by (simp add: compress_size_def Let_def)
qed

function compress_loop :: "bref list \<Rightarrow> bref \<Rightarrow> nat \<Rightarrow> bheap \<Rightarrow> u16 \<Rightarrow> (bheap \<times> u16) ldres" where
  "compress_loop all p i h saved =
     (case h p of
        None \<Rightarrow> Undef
      | Some b \<Rightarrow>
          if i < length (b_words b)
          then (case compress_step all p i h of
                  Ret (i', h', s) \<Rightarrow> compress_loop all p i' h' (if s then saved + 1 else saved)
                | Halt e d \<Rightarrow> Halt e d
                | Undef \<Rightarrow> Undef)
          else Ret (h, saved))"
  by pat_completeness auto

termination
  by (relation "measure (\<lambda>(_, p, i, h, _). case h p of None \<Rightarrow> 0 | Some b \<Rightarrow> length (b_words b) - i)")
    (auto dest: compress_step_advances)

declare compress_loop.simps [simp del]

fun compress_all :: "bref list \<Rightarrow> bref list \<Rightarrow> bheap \<Rightarrow> u16 \<Rightarrow> (bheap \<times> u16) ldres" where
  "compress_all all [] h saved = Ret (h, saved)"
| "compress_all all (p # ps) h saved =
     ld_bind (compress_loop all p 0 h saved) (\<lambda>(h, saved). compress_all all ps h saved)"

definition bins_compress :: "ldstate \<Rightarrow> (u16 \<times> ldstate) ldres" where
  "bins_compress st =
     ld_bind (compress_all (l_bins st) (l_bins st) (l_heap st) 0) (\<lambda>(h, saved). Ret (saved, st\<lparr>l_heap := h\<rparr>))"

definition bins_free :: "ldstate \<Rightarrow> ldstate" where
  "bins_free st = st\<lparr>l_heap := fold (\<lambda>p h. bin_destroy h p) (l_bins st) (l_heap st), l_bins := []\<rparr>"

end
