(* ===== verification/Ld_Resolve.thy ===== *)
theory Ld_Resolve
  imports Ld_Bins
begin

text \<open>
  Resolving the labels of a flattened program (\<^verbatim>\<open>bins_resolve\<close> of \<^verbatim>\<open>libdcpu-ld/ldbins.c\<close>): what
  it puts into the words, what it leaves alone, and how it stops.
\<close>

section \<open>Resolving puts the addresses in\<close>

text \<open>What a required label stands for: the address of the one entry that defines it.\<close>

definition label_value :: "ldbin \<Rightarrow> lconv_entry \<Rightarrow> u16 option" where
  "label_value b e =
     (case (seek_tab b TProvided (ce_label e), seek_tab b TJump (ce_label e)) of
        (Some p, None) \<Rightarrow> Some (ce_address p)
      | (None, Some j) \<Rightarrow> Some (ce_address j)
      | _ \<Rightarrow> None)"

text \<open>What resolving keeps of a bin.\<close>

definition resolving :: "ldbin \<Rightarrow> ldbin \<Rightarrow> bool" where
  "resolving b b' \<longleftrightarrow> b_name b' = b_name b \<and> b_symbols b' = b_symbols b \<and>
     (\<forall>t. t \<noteq> TAdjustment \<longrightarrow> b_tabs b' t = b_tabs b t) \<and> length (b_words b') = length (b_words b) \<and>
     set (adj_list b) \<subseteq> set (adj_list b') \<and>
     (\<forall>l. b_tabs b TAdjustment = Some l \<longrightarrow> (\<exists>l'. b_tabs b' TAdjustment = Some l' \<and> iterating l' = iterating l))"

lemma resolving_refl: "resolving b b"
  by (auto simp: resolving_def)

lemma resolving_trans: "resolving a b \<Longrightarrow> resolving b c \<Longrightarrow> resolving a c"
  unfolding resolving_def by (metis (no_types, lifting) subset_trans)

lemma resolving_seek: "resolving b b' \<Longrightarrow> t \<noteq> TAdjustment \<Longrightarrow> seek_tab b' t n = seek_tab b t n"
  by (simp add: resolving_def seek_tab_def)

lemma resolving_value: "resolving b b' \<Longrightarrow> label_value b' e = label_value b e"
  by (simp add: label_value_def resolving_seek)

lemma resolve_word_Ret:
  "resolve_word b a w = Ret b' \<longleftrightarrow> unat a < length (b_words b) \<and> b' = b\<lparr>b_words := (b_words b)[unat a := w]\<rparr>"
  by (auto simp: resolve_word_def)

lemma resolve_adjust_keeps:
  assumes "resolve_adjust b a adjustment = Ret b'"
  shows "resolving b b' \<and> b_words b' = b_words b"
  using assms
  by (auto simp: resolve_adjust_def resolving_def set_tab_def adj_list_def list_append_def split: option.splits)

lemma resolve_adjust_adds:
  assumes "resolve_adjust b a (Some label) = Ret b'" and "b_tabs b TAdjustment = Some l" and "\<not> iterating l"
  shows "\<lparr>ce_label = label, ce_bin = Some (b_name b), ce_address = a\<rparr> \<in> set (adj_list b')"
  using assms by (auto simp: resolve_adjust_def set_tab_def adj_list_def list_append_def)

lemma resolve_required_step:
  assumes "resolve_required am e (adj, b) = Ret (adj', b')"
  shows "resolving b b' \<and>
    b_words b' = (case label_value b e of None \<Rightarrow> b_words b | Some w \<Rightarrow> (b_words b)[unat (ce_address e) := w]) \<and>
    (label_value b e \<noteq> None \<longrightarrow> unat (ce_address e) < length (b_words b)) \<and>
    (label_value b e = None \<longrightarrow> am)"
proof -
  have k: "resolving b (b\<lparr>b_words := (b_words b)[i := w]\<rparr>)" for i w
    by (auto simp: resolving_def adj_list_def)
  show ?thesis
    using assms k
    by (auto simp: resolve_required_def label_value_def resolve_word_Ret resolving_refl split: option.splits if_splits
        dest!: resolve_adjust_keeps intro: resolving_trans)
qed

lemma resolve_optional_step:
  assumes "resolve_optional am e (adj, b) = Ret (adj', b')"
  shows "resolving b b' \<and>
    b_words b' = (if unat (ce_address e) > length (b_words b) then b_words b
      else case label_value b e of None \<Rightarrow> if am then b_words b else (b_words b)[unat (ce_address e) := 0]
      | Some w \<Rightarrow> (b_words b)[unat (ce_address e) := w])"
proof -
  have k: "resolving b (b\<lparr>b_words := (b_words b)[i := w]\<rparr>)" for i w
    by (auto simp: resolving_def adj_list_def)
  show ?thesis
    using assms k
    by (auto simp: resolve_optional_def label_value_def resolve_word_Ret resolving_refl split: option.splits if_splits
        dest!: resolve_adjust_keeps intro: resolving_trans)
qed

lemma resolve_required_all:
  assumes "ld_each (resolve_required am) es (adj, b) = Ret (adj', b')" and "distinct (map ce_address es)"
  shows "resolving b b' \<and>
    (\<forall>e \<in> set es. case label_value b e of
       None \<Rightarrow> am \<and> b_words b' ! unat (ce_address e) = b_words b ! unat (ce_address e)
     | Some w \<Rightarrow> unat (ce_address e) < length (b_words b) \<and> b_words b' ! unat (ce_address e) = w) \<and>
    (\<forall>i. i \<notin> (\<lambda>e. unat (ce_address e)) ` set es \<longrightarrow> b_words b' ! i = b_words b ! i)"
  using assms
proof (induction es arbitrary: adj b)
  case (Cons e es)
  obtain adj1 b1 where 1: "resolve_required am e (adj, b) = Ret (adj1, b1)"
    and 2: "ld_each (resolve_required am) es (adj1, b1) = Ret (adj', b')"
    using Cons.prems(1) by auto
  note s = resolve_required_step [OF 1]
  have IH: "resolving b1 b' \<and>
    (\<forall>e \<in> set es. case label_value b1 e of
       None \<Rightarrow> am \<and> b_words b' ! unat (ce_address e) = b_words b1 ! unat (ce_address e)
     | Some w \<Rightarrow> unat (ce_address e) < length (b_words b1) \<and> b_words b' ! unat (ce_address e) = w) \<and>
    (\<forall>i. i \<notin> (\<lambda>e. unat (ce_address e)) ` set es \<longrightarrow> b_words b' ! i = b_words b1 ! i)"
    using Cons.IH [OF 2] Cons.prems(2) by simp
  have e: "unat (ce_address e) \<notin> (\<lambda>e. unat (ce_address e)) ` set es"
    using Cons.prems(2) by (auto simp: word_unat_eq_iff [symmetric])
  have v: "label_value b1 x = label_value b x" for x using s resolving_value by blast
  have len: "length (b_words b1) = length (b_words b)" using s unfolding resolving_def by blast
  have "b_words b1 ! unat (ce_address x) = b_words b ! unat (ce_address x)" if "x \<in> set es" for x
    using s e that by (auto split: option.splits) (metis image_eqI nth_list_update_neq)
  moreover have "b_words b1 ! i = b_words b ! i" if "i \<noteq> unat (ce_address e)" for i
    using s that by (auto split: option.splits)
  moreover have "b_words b1 ! unat (ce_address e) = (case label_value b e of None \<Rightarrow> b_words b ! unat (ce_address e) | Some w \<Rightarrow> w)"
    using s by (auto split: option.splits)
  ultimately show ?case
    using IH e v len s resolving_trans by (auto split: option.splits)
qed (simp add: resolving_refl)

lemma resolve_optional_all:
  assumes "ld_each (resolve_optional am) es (adj, b) = Ret (adj', b')" and "distinct (map ce_address es)"
  shows "resolving b b' \<and>
    (\<forall>e \<in> set es. unat (ce_address e) < length (b_words b) \<longrightarrow> b_words b' ! unat (ce_address e) =
      (case label_value b e of
         None \<Rightarrow> if am then b_words b ! unat (ce_address e) else 0
       | Some w \<Rightarrow> w)) \<and>
    (\<forall>i. i \<notin> (\<lambda>e. unat (ce_address e)) ` set es \<longrightarrow> b_words b' ! i = b_words b ! i)"
  using assms
proof (induction es arbitrary: adj b)
  case (Cons e es)
  obtain adj1 b1 where 1: "resolve_optional am e (adj, b) = Ret (adj1, b1)"
    and 2: "ld_each (resolve_optional am) es (adj1, b1) = Ret (adj', b')"
    using Cons.prems(1) by auto
  note s = resolve_optional_step [OF 1]
  have IH: "resolving b1 b' \<and>
    (\<forall>e \<in> set es. unat (ce_address e) < length (b_words b1) \<longrightarrow> b_words b' ! unat (ce_address e) =
      (case label_value b1 e of
         None \<Rightarrow> if am then b_words b1 ! unat (ce_address e) else 0
       | Some w \<Rightarrow> w)) \<and>
    (\<forall>i. i \<notin> (\<lambda>e. unat (ce_address e)) ` set es \<longrightarrow> b_words b' ! i = b_words b1 ! i)"
    using Cons.IH [OF 2] Cons.prems(2) by simp
  have e: "unat (ce_address e) \<notin> (\<lambda>e. unat (ce_address e)) ` set es"
    using Cons.prems(2) by (auto simp: word_unat_eq_iff [symmetric])
  have v: "label_value b1 x = label_value b x" for x using s resolving_value by blast
  have len: "length (b_words b1) = length (b_words b)" using s unfolding resolving_def by blast
  have "b_words b1 ! unat (ce_address x) = b_words b ! unat (ce_address x)" if "x \<in> set es" for x
    using s e that by (auto split: option.splits if_splits) (metis image_eqI nth_list_update_neq)+
  moreover have "b_words b1 ! i = b_words b ! i" if "i \<noteq> unat (ce_address e)" for i
    using s that by (auto split: option.splits if_splits)
  moreover have "b_words b1 ! unat (ce_address e) =
      (case label_value b e of None \<Rightarrow> if am then b_words b ! unat (ce_address e) else 0 | Some w \<Rightarrow> w)"
    if "unat (ce_address e) < length (b_words b)"
    using s that by (auto split: option.splits)
  ultimately show ?case
    using IH e v len s resolving_trans by (auto split: option.splits)
qed (simp add: resolving_refl)

text \<open>Every label that a file provides gets an adjustment.\<close>

lemma resolve_required_adjusts:
  assumes "ld_each (resolve_required am) es (adj, b) = Ret (adj', b')" and "e \<in> set es"
    and "seek_tab b TProvided (ce_label e) = Some p" and "b_tabs b TAdjustment = Some l" and "\<not> iterating l"
  shows "\<exists>a \<in> set (adj_list b'). ce_address a = ce_address e \<and> ce_bin a = Some (b_name b) \<and> ce_label a = ce_label p"
  using assms
proof (induction es arbitrary: adj b l)
  case (Cons x es)
  obtain adj1 b1 where 1: "resolve_required am x (adj, b) = Ret (adj1, b1)"
    and 2: "ld_each (resolve_required am) es (adj1, b1) = Ret (adj', b')"
    using Cons.prems(1) by auto
  have k: "resolving b b1" using resolve_required_step [OF 1] by blast
  obtain l1 where l1: "b_tabs b1 TAdjustment = Some l1" "\<not> iterating l1" using k Cons.prems(4,5) by (auto simp: resolving_def)
  have n: "b_name b1 = b_name b" using k by (simp add: resolving_def)
  show ?case
  proof (cases "e \<in> set es")
    case True
    then show ?thesis
      using Cons.IH [OF 2 True _ l1] Cons.prems(3) resolving_seek [OF k, of TProvided] n by simp
  next
    case False
    then have "x = e" using Cons.prems(2) by simp
    with 1 Cons.prems(3) obtain b0 where b0: "resolve_adjust b0 (ce_address e) (Some (ce_label p)) = Ret b1"
        "b_tabs b0 TAdjustment = Some l" "b_name b0 = b_name b"
      using Cons.prems(4) by (auto simp: resolve_required_def resolve_word_Ret split: option.splits)
    have "\<lparr>ce_label = ce_label p, ce_bin = Some (b_name b), ce_address = ce_address e\<rparr> \<in> set (adj_list b1)"
      using resolve_adjust_adds [OF b0(1,2) Cons.prems(5)] b0(3) by simp
    moreover have "set (adj_list b1) \<subseteq> set (adj_list b')"
    proof -
      have "resolving b1 b'" using 2
      proof (induction es arbitrary: adj1 b1)
        case (Cons y ys)
        then obtain adj2 b2 where "resolve_required am y (adj1, b1) = Ret (adj2, b2)"
          "ld_each (resolve_required am) ys (adj2, b2) = Ret (adj', b')" by auto
        then show ?case using resolve_required_step Cons.IH resolving_trans by blast
      qed (simp add: resolving_refl)
      then show ?thesis by (simp add: resolving_def)
    qed
    ultimately show ?thesis
      by (intro bexI [of _ "\<lparr>ce_label = ce_label p, ce_bin = Some (b_name b), ce_address = ce_address e\<rparr>"]) auto
  qed
qed simp

lemma seek_tab_set_tab [simp]: "u \<noteq> t \<Longrightarrow> seek_tab (set_tab u l b) t n = seek_tab b t n"
  by (simp add: seek_tab_def set_tab_def)

lemma label_value_set_tab [simp]: "t \<notin> {TProvided, TJump} \<Longrightarrow> label_value (set_tab t l b) e = label_value b e"
  by (auto simp: label_value_def)

lemma adj_list_set_tab [simp]: "t \<noteq> TAdjustment \<Longrightarrow> adj_list (set_tab t l b) = adj_list b"
  by (simp add: adj_list_def set_tab_def)

lemma set_tab_fields [simp]:
  "b_words (set_tab t l b) = b_words b" "b_name (set_tab t l b) = b_name b" "b_symbols (set_tab t l b) = b_symbols b"
  by (simp_all add: set_tab_def)

lemma set_tab_tabs: "b_tabs (set_tab t l b) u = (if u = t then Some l else b_tabs b u)"
  by (simp add: set_tab_def)

lemma ld_bind_assoc: "ld_bind (ld_bind m f) g = ld_bind m (\<lambda>x. ld_bind (f x) g)"
  by (cases m) simp_all

lemma resolve_required_each:
  "ld_each (resolve_required am) es (adj, b) = Ret (adj', b') \<Longrightarrow> resolving b b'"
proof (induction es arbitrary: adj b)
  case (Cons e es)
  then obtain adj1 b1 where "resolve_required am e (adj, b) = Ret (adj1, b1)"
    "ld_each (resolve_required am) es (adj1, b1) = Ret (adj', b')" by auto
  then show ?case using resolve_required_step Cons.IH resolving_trans by blast
qed (simp add: resolving_refl)

lemma resolve_optional_each:
  "ld_each (resolve_optional am) es (adj, b) = Ret (adj', b') \<Longrightarrow> resolving b b'"
proof (induction es arbitrary: adj b)
  case (Cons e es)
  then obtain adj1 b1 where "resolve_optional am e (adj, b) = Ret (adj1, b1)"
    "ld_each (resolve_optional am) es (adj1, b1) = Ret (adj', b')" by auto
  then show ?case using resolve_optional_step Cons.IH resolving_trans by blast
qed (simp add: resolving_refl)

lemma ld_each_append: "ld_each f (xs @ ys) s = ld_bind (ld_each f xs s) (ld_each f ys)"
  by (induction xs arbitrary: s) (auto simp: ld_bind_assoc fun_eq_iff intro!: arg_cong [where f = "ld_bind _"])

lemma bins_resolve_steps:
  assumes "bins_resolve keepProvided am keepOptional st = Ret st'" and "l_bins st = [bin]" and "l_heap st bin = Some b"
    and "b_tabs b TRequired = Some req" and "b_tabs b TOptional = Some opt"
  obtains adj1 b1 adj2 b2 b' where "ld_each (resolve_required am) (elems req) (None, b) = Ret (adj1, b1)"
    and "ld_each (resolve_optional am) (elems opt) (adj1, set_tab TRequired (unresolved am b1 req) b1) = Ret (adj2, b2)"
    and "st' = put_bin bin b' st" and "b_words b' = b_words b2" and "adj_list b' = adj_list b2" and "b_name b' = b_name b2"
proof -
  from assms obtain adj1 b1 where 1: "ld_each (resolve_required am) (elems req) (None, b) = Ret (adj1, b1)"
    and r: "ld_bind (defined (b_tabs (set_tab TRequired (unresolved am b1 req) b1) TOptional)) (\<lambda>opt.
      ld_bind (ld_each (resolve_optional am) (elems opt) (adj1, set_tab TRequired (unresolved am b1 req) b1)) (\<lambda>(adjustment, b).
        let b = (if keepOptional then b else set_tab TOptional (unresolved am b opt) b) in
      ld_bind (if keepProvided then Ret b
               else ld_bind (defined (b_tabs b TProvided)) (\<lambda>prov. Ret (set_tab TProvided (prov\<lparr>elems := []\<rparr>) b))) (\<lambda>b.
      ld_bind (bin_print b) (\<lambda>_. Ret (put_bin bin b st))))) = Ret st'"
    by (auto simp: bins_resolve_def Let_def simp del: ld_bind.simps)
  have "resolving b b1" using resolve_required_each [OF 1] .
  then have "b_tabs (set_tab TRequired (unresolved am b1 req) b1) TOptional = Some opt"
    using assms(5) by (simp add: set_tab_tabs resolving_def)
  with r obtain adj2 b2 where
    2: "ld_each (resolve_optional am) (elems opt) (adj1, set_tab TRequired (unresolved am b1 req) b1) = Ret (adj2, b2)"
    and r2: "ld_bind (if keepProvided then Ret (if keepOptional then b2 else set_tab TOptional (unresolved am b2 opt) b2)
       else ld_bind (defined (b_tabs (if keepOptional then b2 else set_tab TOptional (unresolved am b2 opt) b2) TProvided))
         (\<lambda>prov. Ret (set_tab TProvided (prov\<lparr>elems := []\<rparr>) (if keepOptional then b2 else set_tab TOptional (unresolved am b2 opt) b2))))
       (\<lambda>b. ld_bind (bin_print b) (\<lambda>_. Ret (put_bin bin b st))) = Ret st'"
    by (auto simp: Let_def simp del: ld_bind.simps split: prod.splits)
  from r2 show ?thesis
    by (auto simp del: ld_bind.simps split: if_splits intro: that [OF 1 2])
qed

text \<open>What resolving does to the words.\<close>

lemma resolve_linked:
  assumes "bins_resolve keepProvided am keepOptional st = Ret st'" and "l_bins st = [bin]" and "l_heap st bin = Some b"
    and "b_tabs b TRequired = Some req" and "b_tabs b TOptional = Some opt"
    and "b_tabs b TAdjustment = Some adjs" and "\<not> iterating adjs"
    and "distinct (map ce_address (elems req @ elems opt))"
  shows "\<exists>b'. l_bins st' = [bin] \<and> l_heap st' bin = Some b' \<and> length (b_words b') = length (b_words b) \<and>
    (\<forall>e \<in> set (elems req). case label_value b e of
       Some w \<Rightarrow> unat (ce_address e) < length (b_words b) \<and> b_words b' ! unat (ce_address e) = w
     | None \<Rightarrow> am \<and> b_words b' ! unat (ce_address e) = b_words b ! unat (ce_address e)) \<and>
    (\<forall>e \<in> set (elems req). \<forall>p. seek_tab b TProvided (ce_label e) = Some p \<longrightarrow>
       (\<exists>a \<in> set (adj_list b'). ce_address a = ce_address e \<and> ce_bin a = Some (b_name b))) \<and>
    (\<forall>e \<in> set (elems opt). unat (ce_address e) < length (b_words b) \<longrightarrow> b_words b' ! unat (ce_address e) =
       (case label_value b e of Some w \<Rightarrow> w | None \<Rightarrow> if am then b_words b ! unat (ce_address e) else 0)) \<and>
    (\<forall>i. i \<notin> (\<lambda>e. unat (ce_address e)) ` set (elems req @ elems opt) \<longrightarrow> b_words b' ! i = b_words b ! i) \<and>
    b_name b' = b_name b \<and> l_fs st' = l_fs st \<and> l_iio st' = l_iio st"
proof -
  obtain adj1 b1 adj2 b2 b' where 1: "ld_each (resolve_required am) (elems req) (None, b) = Ret (adj1, b1)"
    and 2: "ld_each (resolve_optional am) (elems opt) (adj1, set_tab TRequired (unresolved am b1 req) b1) = Ret (adj2, b2)"
    and b': "st' = put_bin bin b' st" "b_words b' = b_words b2" "adj_list b' = adj_list b2" "b_name b' = b_name b2"
    by (rule bins_resolve_steps [OF assms(1-5)])
  let ?b1 = "set_tab TRequired (unresolved am b1 req) b1"
  have d: "distinct (map ce_address (elems req))" "distinct (map ce_address (elems opt))"
    and x: "\<And>e f. e \<in> set (elems req) \<Longrightarrow> f \<in> set (elems opt) \<Longrightarrow> unat (ce_address e) \<noteq> unat (ce_address f)"
    using assms(8) by (auto simp: word_unat_eq_iff [symmetric])
  note r = resolve_required_all [OF 1 d(1)]
  note o = resolve_optional_all [OF 2 d(2)]
  have r1: "resolving b b1" and o1: "resolving ?b1 b2" using r o by blast+
  have v: "label_value ?b1 e = label_value b e" for e using resolving_value [OF r1] by simp
  have len: "length (b_words b1) = length (b_words b)" "length (b_words b2) = length (b_words b1)"
    using r1 o1 unfolding resolving_def by simp_all
  have req: "b_words b2 ! unat (ce_address e) = b_words b1 ! unat (ce_address e)" if "e \<in> set (elems req)" for e
  proof -
    have "unat (ce_address e) \<notin> (\<lambda>e. unat (ce_address e)) ` set (elems opt)" using x [OF that] by auto
    with o show ?thesis by simp
  qed
  have opt: "b_words b1 ! unat (ce_address e) = b_words b ! unat (ce_address e)" if "e \<in> set (elems opt)" for e
  proof -
    have "unat (ce_address e) \<notin> (\<lambda>e. unat (ce_address e)) ` set (elems req)" using x [OF _ that] by force
    with r show ?thesis by simp
  qed
  have a: "\<exists>a \<in> set (adj_list b'). ce_address a = ce_address e \<and> ce_bin a = Some (b_name b)"
    if "e \<in> set (elems req)" "seek_tab b TProvided (ce_label e) = Some p" for e p
  proof -
    have "set (adj_list b1) \<subseteq> set (adj_list b2)" using o1 by (simp add: resolving_def)
    then show ?thesis using resolve_required_adjusts [OF 1 that assms(6,7)] b'(3) by auto
  qed
  have w1: "case label_value b e of
       Some w \<Rightarrow> unat (ce_address e) < length (b_words b) \<and> b_words b' ! unat (ce_address e) = w
     | None \<Rightarrow> am \<and> b_words b' ! unat (ce_address e) = b_words b ! unat (ce_address e)" if "e \<in> set (elems req)" for e
    using r req [OF that] that b'(2) by (auto split: option.splits)
  have w2: "b_words b' ! unat (ce_address e) =
       (case label_value b e of Some w \<Rightarrow> w | None \<Rightarrow> if am then b_words b ! unat (ce_address e) else 0)"
    if "e \<in> set (elems opt)" "unat (ce_address e) < length (b_words b)" for e
  proof -
    have "b_words b2 ! unat (ce_address e) =
      (case label_value b e of None \<Rightarrow> if am then b_words b1 ! unat (ce_address e) else 0 | Some w \<Rightarrow> w)"
      using o that len by (auto simp: v split: option.splits)
    then show ?thesis using opt [OF that(1)] b'(2) by (auto split: option.splits)
  qed
  have w3: "b_words b' ! i = b_words b ! i" if "i \<notin> (\<lambda>e. unat (ce_address e)) ` set (elems req @ elems opt)" for i
    using r o that b'(2) by (simp add: image_Un)
  have "l_bins st' = [bin]" "l_heap st' bin = Some b'" "l_fs st' = l_fs st" "l_iio st' = l_iio st" "b_name b' = b_name b"
    using b'(1,4) assms(2) r1 o1 by (simp_all add: put_bin_def resolving_def)
  then show ?thesis using len b'(2) a w1 w2 w3 by (intro exI [of _ b'] conjI ballI allI impI) auto
qed

text \<open>
  C18. Linking puts the addresses of labels where they are used. When the labels of a flattened
  program are resolved, every required label that has exactly one definition, as a provided
  label or as a jump table entry, has the address of that definition in its word; without
  permission to leave labels open there is no other required label. A provided label also
  leaves an adjustment in the program's own table, so that a loader can relocate the word. An
  optional label is 0 when nothing defines it. No other word changes.
\<close>

theorem resolve_links:
  assumes "bins_resolve keepProvided am keepOptional st = Ret st'" and "l_bins st = [bin]" and "l_heap st bin = Some b"
    and "b_tabs b TRequired = Some req" and "b_tabs b TOptional = Some opt"
    and "b_tabs b TAdjustment = Some adjs" and "\<not> iterating adjs"
    and "distinct (map ce_address (elems req @ elems opt))"
  shows "\<exists>b'. l_bins st' = [bin] \<and> l_heap st' bin = Some b' \<and> length (b_words b') = length (b_words b) \<and>
    (\<forall>e \<in> set (elems req). case label_value b e of
       Some w \<Rightarrow> unat (ce_address e) < length (b_words b) \<and> b_words b' ! unat (ce_address e) = w
     | None \<Rightarrow> am \<and> b_words b' ! unat (ce_address e) = b_words b ! unat (ce_address e)) \<and>
    (\<forall>e \<in> set (elems req). \<forall>p. seek_tab b TProvided (ce_label e) = Some p \<longrightarrow>
       (\<exists>a \<in> set (adj_list b'). ce_address a = ce_address e \<and> ce_bin a = Some (b_name b))) \<and>
    (\<forall>e \<in> set (elems opt). unat (ce_address e) < length (b_words b) \<longrightarrow> b_words b' ! unat (ce_address e) =
       (case label_value b e of Some w \<Rightarrow> w | None \<Rightarrow> if am then b_words b ! unat (ce_address e) else 0)) \<and>
    (\<forall>i. i \<notin> (\<lambda>e. unat (ce_address e)) ` set (elems req @ elems opt) \<longrightarrow> b_words b' ! i = b_words b ! i)"
  using resolve_linked [OF assms] by blast

text \<open>Labels that are defined once, in range, are resolved without an error.\<close>

lemma resolve_required_ok:
  assumes "label_value b e \<noteq> None" and "ce_label e \<noteq> None" and "unat (ce_address e) < length (b_words b)"
    and "b_tabs b TAdjustment \<noteq> None"
  shows "\<exists>adj' b'. resolve_required am e (adj, b) = Ret (adj', b')"
  using assms
  by (auto simp: resolve_required_def label_value_def resolve_word_def resolve_adjust_def ensure_def split: option.splits)

lemma resolve_required_each_ok:
  assumes "\<forall>e \<in> set es. label_value b e \<noteq> None \<and> ce_label e \<noteq> None \<and> unat (ce_address e) < length (b_words b)"
    and "b_tabs b TAdjustment \<noteq> None"
  shows "\<exists>adj' b'. ld_each (resolve_required am) es (adj, b) = Ret (adj', b')"
  using assms
proof (induction es arbitrary: adj b)
  case (Cons e es)
  then obtain adj1 b1 where 1: "resolve_required am e (adj, b) = Ret (adj1, b1)"
    using resolve_required_ok [of b e am adj] by auto
  have r: "resolving b b1" using resolve_required_step [OF 1] by blast
  have "b_tabs b1 TAdjustment \<noteq> None" using r Cons.prems(2) by (auto simp: resolving_def)
  moreover have "length (b_words b1) = length (b_words b)" using r by (simp add: resolving_def)
  ultimately show ?case using Cons.IH [of b1 adj1] Cons.prems(1) 1 resolving_value [OF r] by auto
qed simp

lemma resolve_optional_ok:
  assumes "seek_tab b TJump (ce_label e) = None" and "ce_label e \<noteq> None" and "unat (ce_address e) < length (b_words b)"
    and "b_tabs b TAdjustment \<noteq> None"
  shows "\<exists>adj' b'. resolve_optional am e (adj, b) = Ret (adj', b')"
  using assms
  by (auto simp: resolve_optional_def resolve_word_def resolve_adjust_def ensure_def split: option.splits)

lemma resolve_optional_each_ok:
  assumes "\<forall>e \<in> set es. seek_tab b TJump (ce_label e) = None \<and> ce_label e \<noteq> None \<and> unat (ce_address e) < length (b_words b)"
    and "b_tabs b TAdjustment \<noteq> None"
  shows "\<exists>adj' b'. ld_each (resolve_optional am) es (adj, b) = Ret (adj', b')"
  using assms
proof (induction es arbitrary: adj b)
  case (Cons e es)
  then obtain adj1 b1 where 1: "resolve_optional am e (adj, b) = Ret (adj1, b1)"
    using resolve_optional_ok [of b e am adj] by auto
  have r: "resolving b b1" using resolve_optional_step [OF 1] by blast
  have "b_tabs b1 TAdjustment \<noteq> None" using r Cons.prems(2) by (auto simp: resolving_def)
  moreover have "length (b_words b1) = length (b_words b)" using r by (simp add: resolving_def)
  moreover have "seek_tab b1 TJump n = seek_tab b TJump n" for n using resolving_seek [OF r] by simp
  ultimately show ?case using Cons.IH [of b1 adj1] Cons.prems(1) 1 by auto
qed simp

text \<open>The adjustments of a bin can be shown, and stay so.\<close>

definition adjusts_shown :: "ldbin \<Rightarrow> bool" where
  "adjusts_shown b \<longleftrightarrow> (\<exists>l. b_tabs b TAdjustment = Some l \<and>
     (\<forall>e \<in> set (elems l). unat (ce_address e) < length (b_words b) \<and> ce_bin e \<noteq> None))"

lemma resolve_shown:
  "resolve_required am e (adj, b) = Ret (adj', b') \<Longrightarrow> adjusts_shown b \<Longrightarrow> adjusts_shown b'"
  "resolve_optional am e (adj, b) = Ret (adj', b') \<Longrightarrow> adjusts_shown b \<Longrightarrow> adjusts_shown b'"
  by (auto simp: resolve_required_def resolve_optional_def resolve_word_Ret resolve_adjust_def adjusts_shown_def set_tab_def
      list_append_def split: option.splits if_splits)

lemma resolve_each_shown:
  "ld_each (resolve_required am) es (adj, b) = Ret (adj', b') \<Longrightarrow> adjusts_shown b \<Longrightarrow> adjusts_shown b'"
  "ld_each (resolve_optional am) es (adj, b) = Ret (adj', b') \<Longrightarrow> adjusts_shown b \<Longrightarrow> adjusts_shown b'"
proof (induction es arbitrary: adj b)
  case (Cons e es)
  { case 1 then show ?case using resolve_shown(1) Cons.IH(1) by fastforce }
  { case 2 then show ?case using resolve_shown(2) Cons.IH(2) by fastforce }
qed simp_all

text \<open>A program whose required labels are all defined, and that can be shown, is resolved.\<close>

lemma resolve_returns:
  assumes "l_bins st = [bin]" and "l_heap st bin = Some b"
    and "b_tabs b TRequired = Some req" and "b_tabs b TOptional = Some opt" and "b_tabs b TProvided = Some prov"
    and "\<forall>e \<in> set (elems req). label_value b e \<noteq> None \<and> ce_label e \<noteq> None \<and> unat (ce_address e) < length (b_words b)"
    and "\<forall>e \<in> set (elems opt). seek_tab b TJump (ce_label e) = None \<and> ce_label e \<noteq> None \<and> unat (ce_address e) < length (b_words b)"
    and "bin_print b = Ret ()" and "b_tabs b TAdjustment \<noteq> None"
  shows "\<exists>st'. bins_resolve keepProvided am keepOptional st = Ret st'"
proof -
  have sh: "adjusts_shown b" using assms(8,9) by (auto simp: bin_print_def adjusts_shown_def)
  obtain adj1 b1 where 1: "ld_each (resolve_required am) (elems req) (None, b) = Ret (adj1, b1)"
    using resolve_required_each_ok [OF assms(6,9)] by blast
  have r1: "resolving b b1" using resolve_required_each [OF 1] .
  let ?b1 = "set_tab TRequired (unresolved am b1 req) b1"
  have s1: "adjusts_shown ?b1" using resolve_each_shown(1) [OF 1 sh] by (simp add: adjusts_shown_def set_tab_tabs)
  have "\<forall>e \<in> set (elems opt). seek_tab ?b1 TJump (ce_label e) = None \<and> ce_label e \<noteq> None \<and> unat (ce_address e) < length (b_words ?b1)"
    using assms(7) r1 resolving_seek [OF r1, of TJump] by (simp add: resolving_def)
  then obtain adj2 b2 where 2: "ld_each (resolve_optional am) (elems opt) (adj1, ?b1) = Ret (adj2, b2)"
    using resolve_optional_each_ok s1 unfolding adjusts_shown_def by blast
  have s2: "adjusts_shown b2" using resolve_each_shown(2) [OF 2 s1] .
  have r2: "resolving ?b1 b2" using resolve_optional_each [OF 2] .
  have t: "b_tabs b2 t = (if t = TRequired then Some (unresolved am b1 req) else b_tabs b t)" if "t \<noteq> TAdjustment" for t
    using r1 r2 that by (simp add: resolving_def set_tab_tabs)
  let ?b3 = "if keepOptional then b2 else set_tab TOptional (unresolved am b2 opt) b2"
  let ?b4 = "if keepProvided then ?b3 else set_tab TProvided (prov\<lparr>elems := []\<rparr>) ?b3"
  have pr: "bin_print ?b4 = Ret ()"
    using assms(3-5,8) s2 t unfolding bin_print_def adjusts_shown_def
    by (auto simp: set_tab_tabs unresolved_def split: option.splits)
  have o: "b_tabs ?b1 TOptional = Some opt" using r1 assms(4) by (simp add: resolving_def set_tab_tabs)
  have p: "b_tabs ?b3 TProvided = Some prov" using t [of TProvided] assms(5) by (simp add: set_tab_tabs)
  have "bins_resolve keepProvided am keepOptional st = Ret (put_bin bin ?b4 st)"
    using assms(1-3) 1 2 pr o p by (cases keepProvided; cases keepOptional) (simp_all add: bins_resolve_def Let_def)
  then show ?thesis by blast
qed

text \<open>
  C19. A missing label stops the linker with its name. When open labels are not allowed, the
  first required label that nothing defines ends the run with \<open>ERR_LABEL_NOT_FOUND\<close>, and one
  that is defined both by a file and by the jump table with
  \<open>ERR_LABEL_AMBIGIOUS_PROVIDED_JUMP\<close>; the error carries the label.
\<close>

theorem resolve_missing_label:
  assumes "l_bins st = [bin]" and "l_heap st bin = Some b" and "b_tabs b TRequired = Some req"
    and "b_tabs b TAdjustment \<noteq> None" and "elems req = es @ e # rest" and "ce_label e = Some name"
    and "\<forall>x \<in> set es. label_value b x \<noteq> None \<and> ce_label x \<noteq> None \<and> unat (ce_address x) < length (b_words b)"
    and "label_value b e = None"
  shows "bins_resolve keepProvided False keepOptional st =
    Halt (if seek_tab b TProvided (Some name) = None then ERR_LABEL_NOT_FOUND else ERR_LABEL_AMBIGIOUS_PROVIDED_JUMP) (Some name)"
proof -
  obtain adj1 b1 where 1: "ld_each (resolve_required False) es (None, b) = Ret (adj1, b1)"
    using resolve_required_each_ok [OF assms(7,4)] by blast
  have r: "resolving b b1" using resolve_required_each [OF 1] .
  have "resolve_required False e (adj1, b1) =
    Halt (if seek_tab b TProvided (Some name) = None then ERR_LABEL_NOT_FOUND else ERR_LABEL_AMBIGIOUS_PROVIDED_JUMP) (Some name)"
    using assms(6,8) resolving_seek [OF r]
    by (auto simp: resolve_required_def label_value_def ensure_def split: option.splits)
  then have "ld_each (resolve_required False) (elems req) (None, b) =
    Halt (if seek_tab b TProvided (Some name) = None then ERR_LABEL_NOT_FOUND else ERR_LABEL_AMBIGIOUS_PROVIDED_JUMP) (Some name)"
    by (simp add: assms(5) ld_each_append 1)
  then show ?thesis by (simp add: bins_resolve_def assms(1-3))
qed

text \<open>A flattened program of four words that provides one label and uses it and another one.\<close>

definition lab :: "u8 list \<Rightarrow> u16 \<Rightarrow> lconv_entry" where
  "lab n a = \<lparr>ce_label = Some n, ce_bin = None, ce_address = a\<rparr>"

definition link_bin :: "lconv_entry list \<Rightarrow> ldbin" where
  "link_bin opt = \<lparr>b_name = [1], b_tabs = (\<lambda>t. if t = TProvided then Some (demo_list [lab [0x78] 3])
     else if t = TRequired then Some (demo_list [lab [0x78] 1])
     else if t = TOptional then Some (demo_list opt) else Some list_create),
     b_symbols = Some new_list, b_words = [10, 11, 12, 13]\<rparr>"

definition link_state :: "lconv_entry list \<Rightarrow> ldstate" where
  "link_state opt = \<lparr>l_heap = (\<lambda>_. None)(0 := Some (link_bin opt)), l_bins = [0], l_next = 1,
     l_iio = iio_initial, l_fs = (\<lambda>_. None)\<rparr>"

fun returned :: "'a ldres \<Rightarrow> bool" where
  "returned (Ret x) = True"
| "returned _ = False"

lemma returnedE: "returned m \<Longrightarrow> \<exists>x. m = Ret x"
  by (cases m) simp_all

theorem resolve_links_witness:
  "\<exists>st' b'. bins_resolve False False False (link_state [lab [0x79] 2]) = Ret st' \<and> l_heap st' 0 = Some b' \<and>
     b_words b' ! 1 = 3 \<and> b_words b' ! 2 = 0 \<and> b_words b' ! 0 = 10"
proof -
  have "returned (bins_resolve False False False (link_state [lab [0x79] 2]))" by code_simp
  then obtain st' where st': "bins_resolve False False False (link_state [lab [0x79] 2]) = Ret st'"
    using returnedE by blast
  have p: "l_bins (link_state [lab [0x79] 2]) = [0]"
    "l_heap (link_state [lab [0x79] 2]) 0 = Some (link_bin [lab [0x79] 2])"
    "b_tabs (link_bin [lab [0x79] 2]) TRequired = Some (demo_list [lab [0x78] 1])"
    "b_tabs (link_bin [lab [0x79] 2]) TOptional = Some (demo_list [lab [0x79] 2])"
    "b_tabs (link_bin [lab [0x79] 2]) TAdjustment = Some list_create" "\<not> iterating (list_create :: lconv_entry ldlist)"
    "distinct (map ce_address (elems (demo_list [lab [0x78] 1]) @ elems (demo_list [lab [0x79] 2])))"
    by (simp_all add: link_state_def link_bin_def demo_list_def lab_def list_create_def new_list_def)
  have v: "label_value (link_bin [lab [0x79] 2]) (lab [0x78] 1) = Some 3"
    "label_value (link_bin [lab [0x79] 2]) (lab [0x79] 2) = None" by code_simp+
  from resolve_links [OF st' p] obtain b' where b': "l_heap st' 0 = Some b'"
    "\<forall>e \<in> set (elems (demo_list [lab [0x78] 1])). case label_value (link_bin [lab [0x79] 2]) e of
       Some w \<Rightarrow> unat (ce_address e) < length (b_words (link_bin [lab [0x79] 2])) \<and> b_words b' ! unat (ce_address e) = w
     | None \<Rightarrow> False \<and> b_words b' ! unat (ce_address e) = b_words (link_bin [lab [0x79] 2]) ! unat (ce_address e)"
    "\<forall>e \<in> set (elems (demo_list [lab [0x79] 2])). unat (ce_address e) < length (b_words (link_bin [lab [0x79] 2])) \<longrightarrow>
       b_words b' ! unat (ce_address e) =
       (case label_value (link_bin [lab [0x79] 2]) e of Some w \<Rightarrow> w
        | None \<Rightarrow> if False then b_words (link_bin [lab [0x79] 2]) ! unat (ce_address e) else 0)"
    "\<forall>i. i \<notin> (\<lambda>e. unat (ce_address e)) ` set (elems (demo_list [lab [0x78] 1]) @ elems (demo_list [lab [0x79] 2])) \<longrightarrow>
      b_words b' ! i = b_words (link_bin [lab [0x79] 2]) ! i"
    by (elim exE conjE) (rule that)
  have "b_words b' ! 1 = 3" using b'(2) v(1) by (simp add: demo_list_def lab_def)
  moreover have "b_words b' ! 2 = 0" using b'(3) v(2) by (simp add: demo_list_def link_bin_def lab_def)
  moreover have "b_words b' ! 0 = 10" using b'(4) by (simp add: demo_list_def lab_def link_bin_def)
  ultimately show ?thesis using st' b'(1) by blast
qed

theorem resolve_missing_label_witness:
  "bins_resolve False False False
     ((link_state [])\<lparr>l_heap := (\<lambda>_. None)(0 := Some (set_tab TRequired (demo_list [lab [0x78] 1, lab [0x7a] 2]) (link_bin [])))\<rparr>) =
   Halt ERR_LABEL_NOT_FOUND (Some [0x7a])"
proof -
  let ?b = "set_tab TRequired (demo_list [lab [0x78] 1, lab [0x7a] 2]) (link_bin [])"
  have p: "elems (demo_list [lab [0x78] 1, lab [0x7a] 2]) = [lab [0x78] 1] @ lab [0x7a] 2 # []" "ce_label (lab [0x7a] 2) = Some [0x7a]"
    by (simp_all add: demo_list_def lab_def)
  have v: "label_value ?b (lab [0x78] 1) = Some 3" "label_value ?b (lab [0x7a] 2) = None"
    "seek_tab ?b TProvided (Some [0x7a]) = None" by code_simp+
  have q: "\<forall>x \<in> set [lab [0x78] 1]. label_value ?b x \<noteq> None \<and> ce_label x \<noteq> None \<and> unat (ce_address x) < length (b_words ?b)"
    using v(1) by (simp add: lab_def link_bin_def)
  show ?thesis
    using resolve_missing_label [OF _ _ _ _ p q v(2), of "(link_state [])\<lparr>l_heap := (\<lambda>_. None)(0 := Some ?b)\<rparr>" 0 False False] v(3)
    by (simp add: link_state_def set_tab_tabs link_bin_def)
qed

end
