(* ===== verification/Ld_Flatten.thy ===== *)
theory Ld_Flatten
  imports Ld_Resolve
begin

text \<open>
  Flattening files into one program (\<^verbatim>\<open>bins_flatten\<close> of \<^verbatim>\<open>libdcpu-ld/ldbins.c\<close>): the code is the
  concatenation of the files, with the references inside each file moved to its place.
\<close>

section \<open>Repointing with one entry per address\<close>

abbreviation (input) addr :: "lconv_entry \<Rightarrow> nat" where "addr e \<equiv> unat (ce_address e)"

lemma repoint_entries_map:
  assumes "distinct (map ce_address es)"
    and "\<forall>e \<in> set es. addr e < length ws \<and> f e (ws ! addr e) = Some (g e, v (addr e))"
  shows "repoint_entries f es ws =
    Some (map g es, map (\<lambda>i. if i \<in> addr ` set es then v i else ws ! i) [0..<length ws])"
  using assms
proof (induction es arbitrary: ws)
  case Nil
  then show ?case by (simp add: map_nth)
next
  case (Cons e es)
  have new: "addr e \<notin> addr ` set es" using Cons.prems(1) by (auto simp: word_unat_eq_iff [symmetric])
  let ?ws = "ws[addr e := v (addr e)]"
  have "\<forall>x \<in> set es. addr x < length ?ws \<and> f x (?ws ! addr x) = Some (g x, v (addr x))"
    using Cons.prems(2) new by (auto simp: nth_list_update)
  then have "repoint_entries f es ?ws =
      Some (map g es, map (\<lambda>i. if i \<in> addr ` set es then v i else ?ws ! i) [0..<length ?ws])"
    using Cons.IH [of ?ws] Cons.prems(1) by simp
  moreover have "map (\<lambda>i. if i \<in> addr ` set es then v i else ?ws ! i) [0..<length ?ws] =
      map (\<lambda>i. if i \<in> addr ` set (e # es) then v i else ws ! i) [0..<length ws]"
    using new by (auto simp: nth_list_update)
  ultimately show ?case using Cons.prems(2) by simp
qed

lemma repoint_entries_same:
  assumes "distinct (map ce_address es)" and "\<forall>e \<in> set es. addr e < length ws \<and> f e (ws ! addr e) = Some (e, ws ! addr e)"
  shows "repoint_entries f es ws = Some (es, ws)"
proof -
  have "repoint_entries f es ws = Some (map (\<lambda>e. e) es, map (\<lambda>i. if i \<in> addr ` set es then ws ! i else ws ! i) [0..<length ws])"
    by (rule repoint_entries_map) (use assms in auto)
  then show ?thesis by (simp add: map_nth)
qed

lemma set_adj_same: "b_tabs b TAdjustment = Some l \<Longrightarrow> (set_tab TAdjustment (l\<lparr>elems := elems l\<rparr>) b)\<lparr>b_words := b_words b\<rparr> = b"
  by (simp add: set_tab_def fun_upd_idem)

lemma repoint_bin_same:
  assumes "distinct (map ce_address (adj_list b))"
    and "\<forall>e \<in> set (adj_list b). addr e < length (b_words b) \<and> f e (b_words b ! addr e) = Some (e, b_words b ! addr e)"
  shows "repoint_bin f b = Some b"
proof (cases "b_tabs b TAdjustment")
  case None
  then show ?thesis by (simp add: repoint_bin_def)
next
  case (Some l)
  then show ?thesis
    using repoint_entries_same [of "elems l" "b_words b" f] assms set_adj_same [OF Some]
    by (simp add: repoint_bin_def adj_list_def)
qed

lemma repoint_all_eq:
  assumes "distinct ps" and "\<forall>q \<in> set ps. \<exists>b. h q = Some b \<and> repoint_bin f b = Some (g q)"
  shows "repoint_all f ps h = Some (\<lambda>q. if q \<in> set ps then Some (g q) else h q)"
  using assms
proof (induction ps arbitrary: h)
  case (Cons p ps)
  then obtain b where b: "h p = Some b" "repoint_bin f b = Some (g p)" by auto
  have "repoint_all f ps (h(p := Some (g p))) = Some (\<lambda>q. if q \<in> set ps then Some (g q) else (h(p := Some (g p))) q)"
    using Cons.prems by (intro Cons.IH) auto
  then show ?case using b Cons.prems(1) by (auto simp: fun_eq_iff)
qed simp

lemma unpoint_all_eq:
  assumes "\<forall>q \<in> set ps. \<exists>b. h q = Some b \<and> unpoint_bin name offset count b = Some b"
  shows "unpoint_all name offset count ps h = Some h"
  using assms by (induction ps) (auto simp: fun_upd_idem)

lemma unpoint_bin_same:
  assumes "distinct (map ce_address (adj_list b))"
    and "\<forall>e \<in> set (adj_list b). addr e < length (b_words b) \<and> (\<exists>n. ce_bin e = Some n \<and> n \<noteq> name)"
  shows "unpoint_bin name offset count b = Some b"
proof (cases "b_tabs b TAdjustment")
  case None
  then show ?thesis by (simp add: unpoint_bin_def)
next
  case (Some l)
  then have e: "\<forall>e \<in> set (elems l). addr e < length (b_words b) \<and> (\<exists>n. ce_bin e = Some n \<and> n \<noteq> name)"
    using assms(2) by (simp add: adj_list_def)
  have "map (unshift name offset count) (elems l) = elems l"
    using e by (intro map_idI) (auto simp: unshift_def biseq_def)
  moreover have "repoint_entries (unpoint name offset count) (elems l) (b_words b) = Some (elems l, b_words b)"
    using assms(1) Some e by (intro repoint_entries_same) (auto simp: unpoint_def biseq_def adj_list_def)
  ultimately show ?thesis using set_adj_same [OF Some] Some by (simp add: unpoint_bin_def)
qed

section \<open>Appending a whole file\<close>

definition join_list :: "nat \<Rightarrow> lconv_entry ldlist \<Rightarrow> lconv_entry ldlist \<Rightarrow> lconv_entry ldlist" where
  "join_list at tol fl = tol\<lparr>elems := elems tol @ map (copy_entry at 0) (sort_key ce_address (elems fl))\<rparr>"

lemma fun_upd_pair: "p \<noteq> q \<Longrightarrow> (h(p := x, q := y))(p := x', q := y') = h(p := x', q := y')"
  by (simp add: fun_upd_twist)

lemma copy_whole:
  assumes "\<forall>e \<in> set (elems fl). addr e < n" and "\<forall>e \<in> set (elems tol). addr e < at" and "\<not> iterating tol"
  shows "copy_entries n at 0 n (sort_key ce_address (elems fl)) (map_elems (shift_up at n) tol) = join_list at tol fl"
    and "copy_entries n at 0 n (sort_key ce_address (elems fl)) tol = join_list at tol fl"
proof -
  have s: "map_elems (shift_up at n) tol = tol"
    using assms(2) by (cases tol) (auto simp: map_elems_def shift_up_def intro!: map_idI)
  have "filter (\<lambda>e. in_copied n 0 n (ce_address e)) (sort_key ce_address (elems fl)) = sort_key ce_address (elems fl)"
    using assms(1) by (simp add: filter_id_conv in_copied_def)
  then show "copy_entries n at 0 n (sort_key ce_address (elems fl)) tol = join_list at tol fl"
    using assms(3) by (simp add: copy_entries_eq join_list_def)
  then show "copy_entries n at 0 n (sort_key ce_address (elems fl)) (map_elems (shift_up at n) tol) = join_list at tol fl"
    using s by simp
qed

lemma join_step:
  assumes "h p = Some b" and "h target = Some T" and "target \<noteq> p" and "b_tabs b t = Some fl" and "b_tabs T t = Some tol"
    and "\<not> iterating tol" and "\<not> iterating fl" and "\<forall>e \<in> set (elems fl). addr e < n" and "\<forall>e \<in> set (elems tol). addr e < at"
    and "length (b_words b) = n"
  shows "bin_info_insert all target p t False isOutput at 0 n h =
    Some (h(p := Some (set_tab t (list_sort ce_address fl) b), target := Some (set_tab t (join_list at tol fl) T)))"
  using assms copy_whole [OF assms(8,9,6)]
  by (auto simp: bin_info_insert_def Let_def list_sort_def)

text \<open>References inside the file that is appended move to its place; all others stay.\<close>

definition joined_adjust :: "nat \<Rightarrow> cstr \<Rightarrow> lconv_entry ldlist \<Rightarrow> lconv_entry ldlist \<Rightarrow> lconv_entry ldlist" where
  "joined_adjust at name tol fl =
     tol\<lparr>elems := elems tol @ map (\<lambda>e. (copy_entry at 0 e)\<lparr>ce_bin := Some name\<rparr>) (sort_key ce_address (elems fl))\<rparr>"

text \<open>The words of a file that is put at \<open>base\<close>.\<close>

definition relocate :: "nat \<Rightarrow> ldbin \<Rightarrow> u16 list" where
  "relocate base b =
     map (\<lambda>i. if i \<in> adj_addrs b then b_words b ! i + of_nat base else b_words b ! i) [0..<length (b_words b)]"

lemma addr_copy_entry: "at + addr e < 65536 \<Longrightarrow> addr (copy_entry at 0 e) = at + addr e"
  using unat_of_nat_u16 [of "at + addr e"] by (simp add: copy_entry_def del: of_nat_add)

text \<open>An adjustment table that refers to its own bin.\<close>

definition own_adjust :: "cstr \<Rightarrow> lconv_entry list \<Rightarrow> u16 list \<Rightarrow> nat \<Rightarrow> bool" where
  "own_adjust name es ws n \<longleftrightarrow> distinct (map ce_address es) \<and>
     (\<forall>e \<in> set es. ce_bin e = Some name \<and> addr e < n \<and> unat (ws ! addr e) < n)"

text \<open>Entries of one file that are copied behind the words of another.\<close>

lemma copied_addr:
  assumes "own_adjust nf fl wsf n" and "at + n < 65536" and "e \<in> set fl"
  shows "addr (copy_entry at 0 e) = at + addr e"
  using assms by (intro addr_copy_entry) (auto simp: own_adjust_def)

lemma copied_distinct:
  assumes "own_adjust nt tol ws at" and "own_adjust nf fl wsf n" and "at + n < 65536"
  shows "distinct (map ce_address (tol @ map (copy_entry at 0) fl))"
proof -
  note ca = copied_addr [OF assms(2,3)]
  have fl: "inj_on ce_address (set fl)" "distinct fl"
    using assms(2) by (simp_all add: own_adjust_def distinct_map)
  have "inj_on (\<lambda>e. ce_address (copy_entry at 0 e)) (set fl)"
  proof (rule inj_onI)
    fix x y assume xy: "x \<in> set fl" "y \<in> set fl" "ce_address (copy_entry at 0 x) = ce_address (copy_entry at 0 y)"
    then have "addr x = addr y" using ca by (metis add_left_cancel)
    then have "ce_address x = ce_address y" by (simp add: word_unat_eq_iff)
    then show "x = y" using xy(1,2) fl(1) by (simp add: inj_on_def)
  qed
  then have "distinct (map ce_address (map (copy_entry at 0) fl))"
    using fl(2) by (simp add: distinct_map o_def inj_on_def)
  moreover have "ce_address a \<noteq> ce_address (copy_entry at 0 e)" if "a \<in> set tol" "e \<in> set fl" for a e
  proof -
    have "addr a < at" using assms(1) that(1) by (simp add: own_adjust_def)
    then show ?thesis using ca [OF that(2)] by (metis not_add_less1)
  qed
  ultimately show ?thesis using assms(1) by (auto simp: own_adjust_def)
qed

lemma copied_places:
  assumes "own_adjust nt tol ws at" and "own_adjust nf fl wsf n" and "at + n < 65536"
  shows "at + k \<in> addr ` set (tol @ map (copy_entry at 0) fl) \<longleftrightarrow> k \<in> addr ` set fl"
proof -
  have "at + k \<notin> addr ` set tol" using assms(1) by (auto simp: own_adjust_def)
  moreover have "addr ` set (map (copy_entry at 0) fl) = (\<lambda>e. at + addr e) ` set fl"
    using copied_addr [OF assms(2,3)] by (simp add: image_image)
  ultimately show ?thesis by (auto simp: image_Un)
qed

lemma repoint_target:
  assumes "own_adjust nt tol (ws @ wsf) at" and "own_adjust nf fl wsf n" and "nf \<noteq> nt"
    and "length ws = at" and "length wsf = n" and "at + n < 65536"
  shows "repoint_entries (repoint nt nf at 0 n) (tol @ map (copy_entry at 0) fl) (ws @ wsf) =
    Some (tol @ map (\<lambda>e. (copy_entry at 0 e)\<lparr>ce_bin := Some nt\<rparr>) fl,
      ws @ map (\<lambda>i. if i \<in> addr ` set fl then wsf ! i + of_nat at else wsf ! i) [0..<n])"
proof -
  let ?es = "tol @ map (copy_entry at 0) fl"
  let ?f = "repoint nt nf at 0 n"
  let ?g = "\<lambda>e. if ce_bin e = Some nf then e\<lparr>ce_bin := Some nt\<rparr> else e"
  let ?v = "\<lambda>i. if i < at then (ws @ wsf) ! i else (ws @ wsf) ! i + of_nat at"
  have ca: "addr (copy_entry at 0 e) = at + addr e" if "e \<in> set fl" for e
    using copied_addr [OF assms(2,6) that] .
  have cb: "ce_bin (copy_entry at 0 e) = ce_bin e" for e by (simp add: copy_entry_def)
  have "distinct (map ce_address ?es)" by (rule copied_distinct [OF assms(1,2,6)])
  moreover have "addr e < length (ws @ wsf) \<and> ?f e ((ws @ wsf) ! addr e) = Some (?g e, ?v (addr e))"
    if e_in: "e \<in> set ?es" for e
  proof (cases "e \<in> set tol")
    case True
    then have "ce_bin e = Some nt" "addr e < at" "unat ((ws @ wsf) ! addr e) < at"
      using assms(1) by (auto simp: own_adjust_def)
    then show ?thesis using assms(3,4) by (auto simp: repoint_def biseq_def)
  next
    case False
    then obtain e0 where e0: "e = copy_entry at 0 e0" "e0 \<in> set fl" using e_in by auto
    then have "ce_bin e = Some nf" "addr e0 < n" "unat (wsf ! addr e0) < n" "addr e = at + addr e0"
      using assms(2) ca cb by (auto simp: own_adjust_def)
    then show ?thesis using assms(4,5) by (simp add: repoint_def biseq_def nth_append)
  qed
  ultimately have r: "repoint_entries ?f ?es (ws @ wsf) =
      Some (map ?g ?es, map (\<lambda>i. if i \<in> addr ` set ?es then ?v i else (ws @ wsf) ! i) [0..<length (ws @ wsf)])"
    using repoint_entries_map [of ?es "ws @ wsf" ?f ?g ?v] by blast
  have g: "map ?g ?es = tol @ map (\<lambda>e. (copy_entry at 0 e)\<lparr>ce_bin := Some nt\<rparr>) fl"
    using assms(1,2,3) by (auto simp: own_adjust_def cb intro!: map_idI)
  have "map (\<lambda>i. if i \<in> addr ` set ?es then ?v i else (ws @ wsf) ! i) [0..<length (ws @ wsf)] =
      ws @ map (\<lambda>i. if i \<in> addr ` set fl then wsf ! i + of_nat at else wsf ! i) [0..<n]"
  proof (rule nth_equalityI)
    fix i assume i: "i < length (map (\<lambda>i. if i \<in> addr ` set ?es then ?v i else (ws @ wsf) ! i) [0..<length (ws @ wsf)])"
    show "map (\<lambda>i. if i \<in> addr ` set ?es then ?v i else (ws @ wsf) ! i) [0..<length (ws @ wsf)] ! i =
        (ws @ map (\<lambda>i. if i \<in> addr ` set fl then wsf ! i + of_nat at else wsf ! i) [0..<n]) ! i"
    proof (cases "i < at")
      case True
      with i assms(4,5) show ?thesis by (simp add: nth_append)
    next
      case False
      then obtain j where "i = at + j" using le_Suc_ex not_less by blast
      with i copied_places [OF assms(1,2,6), of j] assms(4,5) show ?thesis
        by (simp add: nth_append del: set_append)
    qed
  qed (use assms(4,5) in simp)
  with r g show ?thesis by simp
qed

text \<open>A bin whose adjustments are in range and refer to other bins than the two given ones.\<close>

definition foreign_adjust :: "cstr \<Rightarrow> cstr \<Rightarrow> ldbin \<Rightarrow> bool" where
  "foreign_adjust m n b \<longleftrightarrow> distinct (map ce_address (adj_list b)) \<and>
     (\<forall>e \<in> set (adj_list b). addr e < length (b_words b) \<and> (\<exists>k. ce_bin e = Some k \<and> k \<noteq> m \<and> k \<noteq> n))"

lemma foreign_repoint: "foreign_adjust m n b \<Longrightarrow> repoint_bin (repoint m n at offset count) b = Some b"
  by (intro repoint_bin_same) (auto simp: foreign_adjust_def repoint_def biseq_def)

lemma foreign_unpoint: "foreign_adjust m n b \<Longrightarrow> unpoint_bin n offset count b = Some b"
  by (intro unpoint_bin_same) (auto simp: foreign_adjust_def)

lemma own_adjust_set: "set es = set es' \<Longrightarrow> length es = length es' \<Longrightarrow> own_adjust m es ws n \<Longrightarrow> own_adjust m es' ws n"
proof -
  assume a: "set es = set es'" "length es = length es'" "own_adjust m es ws n"
  have "distinct (map ce_address es')"
    using a unfolding own_adjust_def
    by (metis card_distinct distinct_card image_set length_map set_map)
  with a show ?thesis by (simp add: own_adjust_def)
qed

lemma join_adjust:
  assumes "h p = Some b" and "h target = Some T" and "target \<notin> set all" and "p \<in> set all" and "distinct all"
    and "b_tabs b TAdjustment = Some fl" and "b_tabs T TAdjustment = Some tol" and "\<not> iterating tol" and "\<not> iterating fl"
    and "b_words T = ws @ b_words b" and "length ws = at" and "length (b_words b) = n" and "at + n < 65536"
    and "own_adjust (b_name T) (elems tol) (b_words T) at" and "own_adjust (b_name b) (elems fl) (b_words b) n"
    and "b_name b \<noteq> b_name T"
    and "\<forall>q \<in> set all. q \<noteq> p \<longrightarrow> (\<exists>c. h q = Some c \<and> foreign_adjust (b_name T) (b_name b) c)"
  shows "\<exists>b'. repointed (set_tab TAdjustment (list_sort ce_address fl) b) b' \<and>
    bin_info_insert all target p TAdjustment True False at 0 n h =
      Some (h(p := Some b', target := Some ((set_tab TAdjustment (joined_adjust at (b_name T) tol fl) T)
        \<lparr>b_words := ws @ relocate at b\<rparr>)))"
proof -
  let ?f = "repoint (b_name T) (b_name b) at 0 n"
  let ?fl = "sort_key ce_address (elems fl)"
  let ?b1 = "set_tab TAdjustment (list_sort ce_address fl) b"
  let ?T1 = "set_tab TAdjustment (join_list at tol fl) T"
  let ?T2 = "(set_tab TAdjustment (joined_adjust at (b_name T) tol fl) T)\<lparr>b_words := ws @ relocate at b\<rparr>"
  let ?h = "h(p := Some ?b1, target := Some ?T1)"
  have ne: "target \<noteq> p" using assms(3,4) by auto
  have own: "own_adjust (b_name b) ?fl (b_words b) n"
    by (rule own_adjust_set [OF _ _ assms(15)]) simp_all
  have adj: "adj_addrs b = addr ` set ?fl"
    using assms(6) by (simp add: adj_addrs_def adj_list_def)
  have 1: "bin_info_insert all target p TAdjustment True False at 0 n h = repoint_all ?f (filter (\<lambda>p. p \<noteq> target) all @ [target]) ?h"
    using assms(1,2,6-9) ne copy_whole(1) [of fl n tol at] assms(12,14,15)
    by (auto simp: bin_info_insert_def Let_def list_sort_def own_adjust_def)
  have "\<forall>e \<in> set ?fl. addr e < length (b_words b) \<and> ?f e (b_words b ! addr e) = Some (e\<lparr>ce_bin := Some (b_name T)\<rparr>, b_words b ! addr e + of_nat at)"
    using own assms(12) by (simp add: own_adjust_def repoint_def biseq_def)
  then obtain es ws' where "repoint_entries ?f ?fl (b_words b) = Some (es, ws')"
    using repoint_entries_map [of ?fl "b_words b" ?f "\<lambda>e. e\<lparr>ce_bin := Some (b_name T)\<rparr>" "\<lambda>i. b_words b ! i + of_nat at"] own
    by (auto simp: own_adjust_def)
  then obtain b' where b': "repoint_bin ?f ?b1 = Some b'"
    using assms(9) by (simp add: repoint_bin_def set_tab_tabs list_sort_def)
  have "repoint_entries ?f (elems tol @ map (copy_entry at 0) ?fl) (b_words T) =
      Some (elems tol @ map (\<lambda>e. (copy_entry at 0 e)\<lparr>ce_bin := Some (b_name T)\<rparr>) ?fl,
        ws @ map (\<lambda>i. if i \<in> addr ` set ?fl then b_words b ! i + of_nat at else b_words b ! i) [0..<n])"
    using repoint_target [of "b_name T" "elems tol" ws "b_words b" at "b_name b" ?fl n] assms(10-14,16) own by simp
  then have T': "repoint_bin ?f ?T1 = Some ?T2"
    by (simp add: repoint_bin_def set_tab_tabs join_list_def joined_adjust_def relocate_def adj assms(12))
      (simp add: set_tab_def)
  let ?g = "\<lambda>q. if q = p then b' else if q = target then ?T2 else the (h q)"
  have "filter (\<lambda>p. p \<noteq> target) all = all" using assms(3) by (auto simp: filter_id_conv)
  then have "repoint_all ?f (filter (\<lambda>p. p \<noteq> target) all @ [target]) ?h =
      Some (\<lambda>q. if q \<in> set (all @ [target]) then Some (?g q) else ?h q)"
    using assms(3,5,17) b' T' ne foreign_repoint [of "b_name T" "b_name b" _ at 0 n]
    by (simp only:) (intro repoint_all_eq; force)
  moreover have "(\<lambda>q. if q \<in> set (all @ [target]) then Some (?g q) else ?h q) = h(p := Some b', target := Some ?T2)"
    using assms(4,17) ne by (force simp: fun_eq_iff)
  ultimately show ?thesis using 1 repoint_bin_frame [OF keeps_address_repoint(1) b'] by auto
qed

text \<open>A table of a file whose entries are all in its code.\<close>

definition in_file :: "ldbin \<Rightarrow> ldtable \<Rightarrow> bool" where
  "in_file b t \<longleftrightarrow> (\<exists>l. b_tabs b t = Some l \<and> \<not> iterating l \<and> (\<forall>e \<in> set (elems l). addr e < length (b_words b)))"

text \<open>The state of appending \<open>b0\<close> to \<open>T0\<close> when the tables \<open>D\<close> are done.\<close>

definition joining :: "ldtable set \<Rightarrow> ldbin \<Rightarrow> ldbin \<Rightarrow> ldbin \<Rightarrow> ldbin \<Rightarrow> bool" where
  "joining D b0 T0 b T \<longleftrightarrow> b_name b = b_name b0 \<and> b_name T = b_name T0 \<and> b_symbols b = b_symbols b0 \<and>
     b_symbols T = b_symbols T0 \<and> length (b_words b) = length (b_words b0) \<and>
     (\<forall>t. t \<notin> D \<longrightarrow> b_tabs b t = b_tabs b0 t \<and> b_tabs T t = b_tabs T0 t) \<and>
     (\<forall>t \<in> D. in_file b t \<and> (\<exists>fl tol. b_tabs b0 t = Some fl \<and> b_tabs T0 t = Some tol \<and>
        b_tabs T t = Some (if t = TAdjustment then joined_adjust (length (b_words T0)) (b_name T0) tol fl
                           else join_list (length (b_words T0)) tol fl)))"

lemma joining_step:
  assumes "joining D b0 T0 b T" and "h p = Some b" and "h target = Some T" and "target \<noteq> p"
    and "t \<notin> D" and "t \<noteq> TAdjustment" and "in_file b0 t" and "in_file T0 t"
    and "at = length (b_words T0)" and "n = length (b_words b0)"
  shows "\<exists>b' T'. bin_info_insert all target p t False isOutput at 0 n h = Some (h(p := Some b', target := Some T')) \<and>
    joining (insert t D) b0 T0 b' T' \<and> b_words b' = b_words b \<and> b_words T' = b_words T"
proof -
  obtain fl tol where fl: "b_tabs b0 t = Some fl" "\<not> iterating fl" "\<forall>e \<in> set (elems fl). addr e < n"
    and tol: "b_tabs T0 t = Some tol" "\<not> iterating tol" "\<forall>e \<in> set (elems tol). addr e < at"
    using assms(7-10) by (auto simp: in_file_def)
  have c: "b_tabs b t = Some fl" "b_tabs T t = Some tol" "length (b_words b) = n"
    using assms(1,5,10) fl(1) tol(1) by (auto simp: joining_def)
  have "bin_info_insert all target p t False isOutput at 0 n h =
      Some (h(p := Some (set_tab t (list_sort ce_address fl) b), target := Some (set_tab t (join_list at tol fl) T)))"
    by (rule join_step [OF assms(2,3,4) c(1,2) tol(2) fl(2,3) tol(3) c(3)])
  moreover have "joining (insert t D) b0 T0 (set_tab t (list_sort ce_address fl) b) (set_tab t (join_list at tol fl) T)"
    using assms(1,6,9) fl tol(1) c(3) by (auto simp: joining_def set_tab_tabs in_file_def list_sort_def)
  ultimately show ?thesis
    by (intro exI [of _ "set_tab t (list_sort ce_address fl) b"] exI [of _ "set_tab t (join_list at tol fl) T"]) simp
qed

lemma joining_adjust:
  assumes "joining D b0 T0 b T" and "h p = Some b" and "h target = Some T" and "target \<notin> set all" and "p \<in> set all"
    and "distinct all" and "TAdjustment \<notin> D" and "b_words b = b_words b0" and "b_words T = b_words T0 @ b_words b0"
    and "at = length (b_words T0)" and "n = length (b_words b0)" and "at + n < 65536"
    and "b_tabs b0 TAdjustment = Some fl" and "b_tabs T0 TAdjustment = Some tol" and "\<not> iterating tol" and "\<not> iterating fl"
    and "own_adjust (b_name T0) (elems tol) (b_words T0) at" and "own_adjust (b_name b0) (elems fl) (b_words b0) n"
    and "b_name b0 \<noteq> b_name T0"
    and "\<forall>q \<in> set all. q \<noteq> p \<longrightarrow> (\<exists>c. h q = Some c \<and> foreign_adjust (b_name T0) (b_name b0) c)"
  shows "\<exists>b' T'. bin_info_insert all target p TAdjustment True False at 0 n h = Some (h(p := Some b', target := Some T')) \<and>
    joining (insert TAdjustment D) b0 T0 b' T' \<and> b_words T' = b_words T0 @ relocate at b0"
proof -
  have c: "b_tabs b TAdjustment = Some fl" "b_tabs T TAdjustment = Some tol" "b_name T = b_name T0" "b_name b = b_name b0"
    using assms(1,7,13,14) by (auto simp: joining_def)
  have own: "own_adjust (b_name T) (elems tol) (b_words T) at" "own_adjust (b_name b) (elems fl) (b_words b) n"
    using assms(8-11,17,18) c by (auto simp: own_adjust_def nth_append)
  have r: "relocate at b = relocate at b0"
    using assms(8,13) c(1) by (simp add: relocate_def adj_addrs_def adj_list_def)
  obtain b' where b': "repointed (set_tab TAdjustment (list_sort ce_address fl) b) b'"
    "bin_info_insert all target p TAdjustment True False at 0 n h =
      Some (h(p := Some b', target := Some ((set_tab TAdjustment (joined_adjust at (b_name T) tol fl) T)
        \<lparr>b_words := b_words T0 @ relocate at b\<rparr>)))"
    using join_adjust [OF assms(2-6) c(1,2) assms(15,16) _ _ _ assms(12) own, of "b_words T0"] assms(8-11,19,20) c by auto
  let ?T' = "(set_tab TAdjustment (joined_adjust at (b_name T) tol fl) T)\<lparr>b_words := b_words T0 @ relocate at b\<rparr>"
  have a1: "adj_list (set_tab TAdjustment (list_sort ce_address fl) b) = sort_key ce_address (elems fl)"
    using assms(16) by (simp add: adj_list_def set_tab_tabs list_sort_def)
  have m: "map ce_address (adj_list b') = map ce_address (sort_key ce_address (elems fl))"
    using b'(1) a1 by (simp add: repointed_def)
  have len: "length (b_words b') = n" using b'(1) assms(8,11) by (simp add: repointed_def)
  have "addr e < n" if "e \<in> set (adj_list b')" for e
  proof -
    have "ce_address e \<in> set (map ce_address (sort_key ce_address (elems fl)))"
      using that by (simp only: m [symmetric]) simp
    then obtain f where "f \<in> set (elems fl)" "ce_address e = ce_address f" by auto
    then show ?thesis using own(2) by (auto simp: own_adjust_def)
  qed
  moreover have "map_option iterating (b_tabs b' TAdjustment) = Some False"
    using b'(1) assms(16) by (simp add: repointed_def set_tab_tabs list_sort_def)
  ultimately have inf: "in_file b' TAdjustment" using len by (auto simp: in_file_def adj_list_def)
  have keep: "b_tabs b' t = b_tabs b t" if "t \<noteq> TAdjustment" for t
    using b'(1) that by (simp add: repointed_def set_tab_tabs)
  have "in_file b' t" if t: "t \<in> D" for t
  proof -
    have "t \<noteq> TAdjustment" using t assms(7) by auto
    moreover have "in_file b t" using assms(1) t by (simp add: joining_def)
    ultimately show ?thesis using keep [of t] len assms(8,11) by (simp add: in_file_def)
  qed
  moreover have "b_name b' = b_name b" "b_symbols b' = b_symbols b" using b'(1) by (simp_all add: repointed_def)
  ultimately have "joining (insert TAdjustment D) b0 T0 b' ?T'"
    using assms(1,7,10,11,13,14) keep inf len c(3) by (auto simp: joining_def set_tab_tabs)
  then show ?thesis using b'(2) r
    by (intro exI [of _ b'] exI [of _ ?T']) simp
qed

text \<open>A file as the linker appends it: entries in its code, references to itself.\<close>

definition file_tables :: "ldtable set" where
  "file_tables = {TProvided, TRequired, TAdjustment, TOutput, TJump, TOptional, TCall}"

definition object_bin :: "ldbin \<Rightarrow> bool" where
  "object_bin b \<longleftrightarrow> (\<forall>t \<in> file_tables. in_file b t) \<and>
     own_adjust (b_name b) (adj_list b) (b_words b) (length (b_words b)) \<and> b_symbols b \<noteq> None"

text \<open>\<open>T'\<close> is \<open>T\<close> with the file \<open>b\<close> behind it.\<close>

definition joined :: "ldbin \<Rightarrow> ldbin \<Rightarrow> ldbin \<Rightarrow> bool" where
  "joined T b T' \<longleftrightarrow> b_name T' = b_name T \<and> b_symbols T' \<noteq> None \<and> b_tabs T' TSection = b_tabs T TSection \<and>
     b_words T' = b_words T @ relocate (length (b_words T)) b \<and>
     (\<forall>t \<in> file_tables. \<exists>fl tol. b_tabs b t = Some fl \<and> b_tabs T t = Some tol \<and>
        b_tabs T' t = Some (if t = TAdjustment then joined_adjust (length (b_words T)) (b_name T) tol fl
                            else join_list (length (b_words T)) tol fl))"

lemma bin_insert_joins:
  assumes "h p = Some b" and "h target = Some T" and "target \<notin> set all" and "p \<in> set all" and "distinct all"
    and "object_bin b" and "object_bin T" and "b_name b \<noteq> b_name T"
    and "length (b_words T) + length (b_words b) < 65536"
    and "\<forall>q \<in> set all. q \<noteq> p \<longrightarrow> (\<exists>c. h q = Some c \<and> foreign_adjust (b_name T) (b_name b) c)"
  shows "\<exists>b' T'. bin_insert all target p (length (b_words T)) 0 (length (b_words b)) h = Some (h(p := Some b', target := Some T')) \<and>
    joined T b T' \<and> b_name b' = b_name b \<and> length (b_words b') = length (b_words b) \<and> b_symbols b' = b_symbols b \<and>
    (\<forall>t \<in> file_tables. in_file b' t)"
proof -
  let ?at = "length (b_words T)"
  let ?n = "length (b_words b)"
  have ne: "target \<noteq> p" using assms(3,4) by auto
  note tabs = assms(6,7) [unfolded object_bin_def file_tables_def]
  let ?T0 = "T\<lparr>b_words := b_words T @ b_words b\<rparr>"
  define h0 where "h0 = h(p := Some b, target := Some ?T0)"
  have h0: "h(target := Some (T\<lparr>b_words := insert_words (take ?n (drop 0 (b_words b))) ?at (b_words T)\<rparr>)) = h0"
    using assms(1) ne by (auto simp: h0_def insert_words_eq fun_eq_iff)
  have J0: "joining {} b T b ?T0" by (simp add: joining_def)
  have tP: "in_file b TProvided" "in_file T TProvided" and tR: "in_file b TRequired" "in_file T TRequired"
    and tO: "in_file b TOutput" "in_file T TOutput" and tJ: "in_file b TJump" "in_file T TJump"
    and tQ: "in_file b TOptional" "in_file T TOptional" and tC: "in_file b TCall" "in_file T TCall"
    using tabs by simp_all
  obtain fl tol where fl: "b_tabs b TAdjustment = Some fl" "\<not> iterating fl" and tol: "b_tabs T TAdjustment = Some tol" "\<not> iterating tol"
    using tabs by (auto simp: in_file_def)
  have own: "own_adjust (b_name T) (elems tol) (b_words T) ?at" "own_adjust (b_name b) (elems fl) (b_words b) ?n"
    using tabs fl(1) tol(1) by (simp_all add: adj_list_def)
  obtain b1 T1 where 1: "bin_info_insert all target p TProvided False False ?at 0 ?n h0 = Some (h(p := Some b1, target := Some T1))"
      "joining {TProvided} b T b1 T1" "b_words b1 = b_words b" "b_words T1 = b_words ?T0"
    using joining_step [OF J0 _ _ ne _ _ tP refl refl, of h0 all False] ne by (auto simp: h0_def fun_upd_pair)
  obtain b2 T2 where 2: "bin_info_insert all target p TRequired False False ?at 0 ?n (h(p := Some b1, target := Some T1)) = Some (h(p := Some b2, target := Some T2))"
      "joining {TRequired, TProvided} b T b2 T2" "b_words b2 = b_words b" "b_words T2 = b_words ?T0"
    using joining_step [OF 1(2) _ _ ne _ _ tR refl refl, of "h(p := Some b1, target := Some T1)" all False] ne 1(3,4) by (auto simp: fun_upd_pair)
  have others: "\<forall>q \<in> set all. q \<noteq> p \<longrightarrow> (\<exists>c. (h(p := Some b2, target := Some T2)) q = Some c \<and> foreign_adjust (b_name T) (b_name b) c)"
    using assms(3,10) by auto
  obtain b3 T3 where 3: "bin_info_insert all target p TAdjustment True False ?at 0 ?n (h(p := Some b2, target := Some T2)) = Some (h(p := Some b3, target := Some T3))"
      "joining {TAdjustment, TRequired, TProvided} b T b3 T3" "b_words T3 = b_words T @ relocate ?at b"
    using joining_adjust [where h = "h(p := Some b2, target := Some T2)", OF 2(2) _ _ assms(3,4,5) _ _ _ refl refl assms(9) fl(1) tol(1) tol(2) fl(2) own assms(8) others] ne 2(3,4)
    by (auto simp: fun_upd_pair)
  obtain b4 T4 where 4: "bin_info_insert all target p TOutput False True ?at 0 ?n (h(p := Some b3, target := Some T3)) = Some (h(p := Some b4, target := Some T4))"
      "joining {TOutput, TAdjustment, TRequired, TProvided} b T b4 T4" "b_words T4 = b_words T3"
    using joining_step [OF 3(2) _ _ ne _ _ tO refl refl, of "h(p := Some b3, target := Some T3)" all True] ne by (auto simp: fun_upd_pair)
  obtain b5 T5 where 5: "bin_info_insert all target p TJump False False ?at 0 ?n (h(p := Some b4, target := Some T4)) = Some (h(p := Some b5, target := Some T5))"
      "joining {TJump, TOutput, TAdjustment, TRequired, TProvided} b T b5 T5" "b_words T5 = b_words T4"
    using joining_step [OF 4(2) _ _ ne _ _ tJ refl refl, of "h(p := Some b4, target := Some T4)" all False] ne by (auto simp: fun_upd_pair)
  obtain b6 T6 where 6: "bin_info_insert all target p TOptional False False ?at 0 ?n (h(p := Some b5, target := Some T5)) = Some (h(p := Some b6, target := Some T6))"
      "joining {TOptional, TJump, TOutput, TAdjustment, TRequired, TProvided} b T b6 T6" "b_words T6 = b_words T5"
    using joining_step [OF 5(2) _ _ ne _ _ tQ refl refl, of "h(p := Some b5, target := Some T5)" all False] ne by (auto simp: fun_upd_pair)
  obtain b7 T7 where 7: "bin_info_insert all target p TCall False False ?at 0 ?n (h(p := Some b6, target := Some T6)) = Some (h(p := Some b7, target := Some T7))"
      "joining {TCall, TOptional, TJump, TOutput, TAdjustment, TRequired, TProvided} b T b7 T7" "b_words T7 = b_words T6"
    using joining_step [OF 6(2) _ _ ne _ _ tC refl refl, of "h(p := Some b6, target := Some T6)" all False] ne by (auto simp: fun_upd_pair)
  obtain fs ts where sy: "b_symbols b7 = Some fs" "b_symbols T7 = Some ts"
    using 7(2) tabs by (auto simp: joining_def)
  obtain x where 8: "bin_info_insert_symbols target p ?at 0 ?n (h(p := Some b7, target := Some T7)) =
      Some (h(p := Some b7, target := Some (T7\<lparr>b_symbols := Some x\<rparr>)))"
    using ne sy by (auto simp: bin_info_insert_symbols_def Let_def fun_upd_pair)
  have "bin_insert all target p ?at 0 ?n h = Some (h(p := Some b7, target := Some (T7\<lparr>b_symbols := Some x\<rparr>)))"
    using assms(1,2) ne 1(1) 2(1) 3(1) 4(1) 5(1) 6(1) 7(1) 8 h0 by (simp add: bin_insert_def Let_def)
  moreover have "joined T b (T7\<lparr>b_symbols := Some x\<rparr>)"
    using 7(2) 3(3) 4(3) 5(3) 6(3) 7(3) by (auto simp: joined_def joining_def file_tables_def)
  moreover have "b_name b7 = b_name b \<and> length (b_words b7) = ?n \<and> b_symbols b7 = b_symbols b \<and> (\<forall>t \<in> file_tables. in_file b7 t)"
    using 7(2) by (auto simp: joining_def file_tables_def)
  ultimately show ?thesis by blast
qed

section \<open>Removing a whole file\<close>

text \<open>The entries of a table lie in the first \<open>n\<close> words, or the table is empty.\<close>

definition in_range :: "nat \<Rightarrow> ldbin \<Rightarrow> ldtable \<Rightarrow> bool" where
  "in_range n b t \<longleftrightarrow> (\<exists>l. b_tabs b t = Some l \<and> \<not> iterating l \<and> (\<forall>e \<in> set (elems l). addr e < n))"

definition emptied :: "ldtable set \<Rightarrow> ldbin \<Rightarrow> ldbin \<Rightarrow> bool" where
  "emptied D b0 b \<longleftrightarrow> b_name b = b_name b0 \<and> b_symbols b = b_symbols b0 \<and> b_words b = b_words b0 \<and>
     (\<forall>t. t \<notin> D \<longrightarrow> b_tabs b t = b_tabs b0 t) \<and> (\<forall>t \<in> D. b_tabs b t = Some new_list)"

lemma delete_all:
  assumes "\<forall>e \<in> set (elems l). addr e < n" and "\<not> iterating l"
  shows "delete_scanned 0 n (elems (list_sort ce_address l)) (list_sort ce_address l) = new_list"
    and "delete_scanned 0 n (elems (list_sort ce_address l)) (map_elems (shift_down 0 n) (list_sort ce_address l)) = new_list"
proof -
  have srt: "sorted (map (\<lambda>e. addr e) (elems (list_sort ce_address l)))"
  proof -
    have "sorted (map ce_address (sort_key ce_address (elems l)))" by simp
    then show ?thesis using assms(2) by (simp add: list_sort_def sorted_map word_le_nat_alt)
  qed
  have f: "filter (\<lambda>e. \<not> (0 \<le> addr e \<and> addr e < 0 + n)) (elems (list_sort ce_address l)) = []"
    using assms by (simp add: filter_empty_conv list_sort_def)
  show "delete_scanned 0 n (elems (list_sort ce_address l)) (list_sort ce_address l) = new_list"
    using delete_scanned_eq [OF srt, of "list_sort ce_address l" "\<lambda>e. e" 0 n] f assms(2)
    by (simp add: list_sort_def new_list_def)
  show "delete_scanned 0 n (elems (list_sort ce_address l)) (map_elems (shift_down 0 n) (list_sort ce_address l)) = new_list"
    using delete_scanned_eq [OF srt, of "map_elems (shift_down 0 n) (list_sort ce_address l)" "shift_down 0 n" 0 n] f assms(2)
    by (simp add: list_sort_def new_list_def map_elems_def)
qed

lemma emptied_step:
  assumes "emptied D b0 b" and "h p = Some b" and "t \<notin> D" and "in_range n b0 t"
  shows "\<exists>b'. bin_info_remove all p t False 0 n h = Some (h(p := Some b')) \<and> emptied (insert t D) b0 b'"
proof -
  obtain l where l: "b_tabs b t = Some l" "\<not> iterating l" "\<forall>e \<in> set (elems l). addr e < n"
    using assms(1,3,4) by (auto simp: in_range_def emptied_def)
  have "bin_info_remove all p t False 0 n h = Some (h(p := Some (set_tab t new_list b)))"
    using assms(2) l(1) delete_all(2) [OF l(3,2)] by (simp add: bin_info_remove_def Let_def)
  moreover have "emptied (insert t D) b0 (set_tab t new_list b)"
    using assms(1) by (auto simp: emptied_def set_tab_tabs)
  ultimately show ?thesis by blast
qed

lemma emptied_adjust:
  assumes "emptied D b0 b" and "h p = Some b" and "TAdjustment \<notin> D" and "in_range n b0 TAdjustment"
    and "\<forall>q \<in> set all. q \<noteq> p \<longrightarrow> (\<exists>c. h q = Some c \<and> foreign_adjust m (b_name b0) c)"
  shows "\<exists>b'. bin_info_remove all p TAdjustment True 0 n h = Some (h(p := Some b')) \<and> emptied (insert TAdjustment D) b0 b'"
proof -
  obtain l where l: "b_tabs b TAdjustment = Some l" "\<not> iterating l" "\<forall>e \<in> set (elems l). addr e < n"
    using assms(1,3,4) by (auto simp: in_range_def emptied_def)
  let ?b = "set_tab TAdjustment new_list b"
  have "unpoint_bin (b_name b) 0 n ?b = Some ?b"
    by (rule unpoint_bin_same) (simp_all add: adj_list_def set_tab_tabs new_list_def)
  then have "\<forall>q \<in> set all. \<exists>c. (h(p := Some ?b)) q = Some c \<and> unpoint_bin (b_name b) 0 n c = Some c"
    using assms(1,5) foreign_unpoint [of m "b_name b0"] by (auto simp: emptied_def)
  then have "unpoint_all (b_name b) 0 n all (h(p := Some ?b)) = Some (h(p := Some ?b))" by (rule unpoint_all_eq)
  then have "bin_info_remove all p TAdjustment True 0 n h = Some (h(p := Some ?b))"
    using assms(2) l(1) delete_all(1) [OF l(3,2)] by (simp add: bin_info_remove_def Let_def)
  moreover have "emptied (insert TAdjustment D) b0 ?b" using assms(1) by (auto simp: emptied_def set_tab_tabs)
  ultimately show ?thesis by blast
qed

lemma bin_remove_empties:
  assumes "h p = Some b" and "\<forall>t \<in> file_tables. in_file b t" and "b_symbols b \<noteq> None"
    and "\<forall>q \<in> set all. q \<noteq> p \<longrightarrow> (\<exists>c. h q = Some c \<and> foreign_adjust m (b_name b) c)"
  shows "\<exists>b'. bin_remove all p 0 (length (b_words b)) h = Some (h(p := Some b')) \<and>
    b_name b' = b_name b \<and> b_words b' = [] \<and> (\<forall>t \<in> file_tables. b_tabs b' t = Some new_list)"
proof -
  let ?n = "length (b_words b)"
  let ?b0 = "b\<lparr>b_words := []\<rparr>"
  note tabs = assms(2) [unfolded file_tables_def]
  have r: "in_range ?n ?b0 TProvided" "in_range ?n ?b0 TRequired" "in_range ?n ?b0 TAdjustment" "in_range ?n ?b0 TOutput"
    "in_range ?n ?b0 TJump" "in_range ?n ?b0 TOptional" "in_range ?n ?b0 TCall"
    using tabs by (simp_all add: in_range_def in_file_def)
  have E0: "emptied {} ?b0 ?b0" by (simp add: emptied_def)
  have n: "b_name ?b0 = b_name b" by simp
  obtain b1 where 1: "bin_info_remove all p TProvided False 0 ?n (h(p := Some ?b0)) = Some (h(p := Some b1))"
      "emptied {TProvided} ?b0 b1"
    using emptied_step [OF E0 _ _ r(1), of "h(p := Some ?b0)" p all] by auto
  obtain b2 where 2: "bin_info_remove all p TRequired False 0 ?n (h(p := Some b1)) = Some (h(p := Some b2))"
      "emptied {TRequired, TProvided} ?b0 b2"
    using emptied_step [OF 1(2) _ _ r(2), of "h(p := Some b1)" p all] by auto
  have others: "\<forall>q \<in> set all. q \<noteq> p \<longrightarrow> (\<exists>c. (h(p := Some b2)) q = Some c \<and> foreign_adjust m (b_name ?b0) c)"
    using assms(4) by simp
  obtain b3 where 3: "bin_info_remove all p TAdjustment True 0 ?n (h(p := Some b2)) = Some (h(p := Some b3))"
      "emptied {TAdjustment, TRequired, TProvided} ?b0 b3"
    using emptied_adjust [where h = "h(p := Some b2)", OF 2(2) _ _ r(3) others] by auto
  obtain b4 where 4: "bin_info_remove all p TOutput False 0 ?n (h(p := Some b3)) = Some (h(p := Some b4))"
      "emptied {TOutput, TAdjustment, TRequired, TProvided} ?b0 b4"
    using emptied_step [OF 3(2) _ _ r(4), of "h(p := Some b3)" p all] by auto
  obtain b5 where 5: "bin_info_remove all p TJump False 0 ?n (h(p := Some b4)) = Some (h(p := Some b5))"
      "emptied {TJump, TOutput, TAdjustment, TRequired, TProvided} ?b0 b5"
    using emptied_step [OF 4(2) _ _ r(5), of "h(p := Some b4)" p all] by auto
  obtain b6 where 6: "bin_info_remove all p TOptional False 0 ?n (h(p := Some b5)) = Some (h(p := Some b6))"
      "emptied {TOptional, TJump, TOutput, TAdjustment, TRequired, TProvided} ?b0 b6"
    using emptied_step [OF 5(2) _ _ r(6), of "h(p := Some b5)" p all] by auto
  obtain b7 where 7: "bin_info_remove all p TCall False 0 ?n (h(p := Some b6)) = Some (h(p := Some b7))"
      "emptied {TCall, TOptional, TJump, TOutput, TAdjustment, TRequired, TProvided} ?b0 b7"
    using emptied_step [OF 6(2) _ _ r(7), of "h(p := Some b6)" p all] by auto
  obtain sy where "b_symbols b7 = Some sy" using assms(3) 7(2) by (auto simp: emptied_def)
  then obtain x where 8: "bin_info_remove_symbols p 0 ?n (h(p := Some b7)) = Some (h(p := Some (b7\<lparr>b_symbols := Some x\<rparr>)))"
    by (auto simp: bin_info_remove_symbols_def Let_def)
  have "bin_remove all p 0 ?n h = Some (h(p := Some (b7\<lparr>b_symbols := Some x\<rparr>)))"
    using assms(1) 1(1) 2(1) 3(1) 4(1) 5(1) 6(1) 7(1) 8 by (simp add: bin_remove_def Let_def delete_words_eq)
  moreover have "b_name b7 = b_name b \<and> b_words b7 = [] \<and> (\<forall>t \<in> file_tables. b_tabs b7 t = Some new_list)"
    using 7(2) by (auto simp: emptied_def file_tables_def)
  ultimately show ?thesis by (intro exI [of _ "b7\<lparr>b_symbols := Some x\<rparr>"]) simp
qed

section \<open>Moving all files\<close>

text \<open>The bins other than the target: files still to come, and files that are done.\<close>

definition done_bin :: "ldbin \<Rightarrow> bool" where
  "done_bin b \<longleftrightarrow> b_words b = [] \<and> adj_list b = []"

lemma foreign_object: "object_bin b \<Longrightarrow> b_name b \<noteq> m \<Longrightarrow> b_name b \<noteq> n \<Longrightarrow> foreign_adjust m n b"
  by (auto simp: object_bin_def own_adjust_def foreign_adjust_def)

lemma foreign_done: "done_bin b \<Longrightarrow> foreign_adjust m n b"
  by (simp add: done_bin_def foreign_adjust_def)

lemma bin_move_joins:
  assumes "h p = Some b" and "h target = Some T" and "target \<notin> set all" and "p \<in> set all" and "distinct all"
    and "object_bin b" and "object_bin T" and "b_name b \<noteq> b_name T"
    and "length (b_words T) + length (b_words b) < 65536"
    and "\<forall>q \<in> set all. q \<noteq> p \<longrightarrow> (\<exists>c. h q = Some c \<and> foreign_adjust (b_name T) (b_name b) c)"
  shows "\<exists>b' T'. bin_move all target p (length (b_words T)) 0 (length (b_words b)) h = Some (h(p := Some b', target := Some T')) \<and>
    joined T b T' \<and> b_name b' = b_name b \<and> done_bin b'"
proof -
  have ne: "target \<noteq> p" using assms(3,4) by auto
  obtain b1 T' where 1: "bin_insert all target p (length (b_words T)) 0 (length (b_words b)) h = Some (h(p := Some b1, target := Some T'))"
    "joined T b T'" "b_name b1 = b_name b" "length (b_words b1) = length (b_words b)" "b_symbols b1 = b_symbols b"
    "\<forall>t \<in> file_tables. in_file b1 t"
    using bin_insert_joins [OF assms] by blast
  let ?h = "h(p := Some b1, target := Some T')"
  have s: "b_symbols b1 \<noteq> None" using 1(5) assms(6) by (simp add: object_bin_def)
  have others: "\<forall>q \<in> set all. q \<noteq> p \<longrightarrow> (\<exists>c. ?h q = Some c \<and> foreign_adjust (b_name T) (b_name b1) c)"
    using assms(3,10) 1(3) by auto
  have hp: "?h p = Some b1" using ne by simp
  from bin_remove_empties [where h = ?h, OF hp 1(6) s others] obtain b2 where 2: "bin_remove all p 0 (length (b_words b1)) ?h = Some (?h(p := Some b2))"
    "b_name b2 = b_name b1" "b_words b2 = []" "\<forall>t \<in> file_tables. b_tabs b2 t = Some new_list"
    by (elim exE conjE) (rule that)
  have "adj_list b2 = []" using 2(4) by (simp add: file_tables_def adj_list_def new_list_def)
  moreover have "?h(p := Some b2) = h(p := Some b2, target := Some T')" using ne by (auto simp: fun_eq_iff)
  ultimately show ?thesis
    using 1 2 by (intro exI [of _ b2] exI [of _ T']) (simp add: bin_move_def done_bin_def)
qed

text \<open>The adjustments of the joined bin name it and stay inside it.\<close>

lemma joined_adjusts_inside:
  assumes "joined T b T'" and "object_bin T" and "object_bin b" and "length (b_words T) + length (b_words b) < 65536"
  shows "own_adjust (b_name T') (adj_list T') (b_words T') (length (b_words T) + length (b_words b))"
proof -
  let ?at = "length (b_words T)"
  let ?n = "length (b_words b)"
  obtain fl tol where fl: "b_tabs b TAdjustment = Some fl" "b_tabs T TAdjustment = Some tol"
    "b_tabs T' TAdjustment = Some (joined_adjust ?at (b_name T) tol fl)"
    using assms(1) by (auto simp: joined_def file_tables_def)
  let ?g = "\<lambda>e. (copy_entry ?at 0 e)\<lparr>ce_bin := Some (b_name T)\<rparr>"
  let ?fl = "sort_key ce_address (elems fl)"
  have own: "own_adjust (b_name T) (elems tol) (b_words T) ?at" "own_adjust (b_name b) (elems fl) (b_words b) ?n"
    using assms(2,3) fl by (simp_all add: object_bin_def adj_list_def)
  then have own_fl: "own_adjust (b_name b) ?fl (b_words b) ?n" by (simp add: own_adjust_def distinct_map)
  have adj: "adj_list T' = elems tol @ map ?g ?fl" using fl(3) by (simp add: adj_list_def joined_adjust_def)
  have "distinct (map ce_address (adj_list T'))"
    using copied_distinct [OF own(1) own_fl assms(4)] by (simp add: adj o_def)
  moreover have "ce_bin e = Some (b_name T') \<and> addr e < ?at + ?n \<and> unat (b_words T' ! addr e) < ?at + ?n"
    if e_in: "e \<in> set (adj_list T')" for e
  proof (cases "e \<in> set (elems tol)")
    case True
    then have "ce_bin e = Some (b_name T)" "addr e < ?at" "unat (b_words T ! addr e) < ?at"
      using own(1) by (auto simp: own_adjust_def)
    then show ?thesis using assms(1) by (simp add: nth_append joined_def)
  next
    case False
    then obtain x where x: "e = ?g x" "x \<in> set (elems fl)" using e_in adj by auto
    then have xr: "addr x < ?n" "unat (b_words b ! addr x) < ?n" "addr e = ?at + addr x"
      using own(2) copied_addr [OF own(2) assms(4)] by (auto simp: own_adjust_def)
    have "adj_addrs b = addr ` set (elems fl)" using fl(1) by (simp add: adj_addrs_def adj_list_def)
    then have "b_words T' ! addr e = b_words b ! addr x + of_nat ?at"
      using x(2) xr assms(1) by (simp add: nth_append relocate_def joined_def)
    moreover have "unat (b_words b ! addr x + of_nat ?at) = unat (b_words b ! addr x) + ?at"
      using xr assms(4) unat_of_nat_u16 [of ?at] by (intro unat_add_lem [THEN iffD1, THEN trans]) simp_all
    ultimately show ?thesis using x xr assms(1) by (simp add: joined_def)
  qed
  ultimately show ?thesis by (simp add: own_adjust_def)
qed

lemma joined_object:
  assumes "joined T b T'" and "object_bin T" and "object_bin b" and "length (b_words T) + length (b_words b) < 65536"
  shows "object_bin T' \<and> length (b_words T') = length (b_words T) + length (b_words b)"
proof -
  let ?at = "length (b_words T)"
  let ?n = "length (b_words b)"
  have len: "length (b_words T') = ?at + ?n" using assms(1) by (simp add: joined_def relocate_def)
  have ca: "addr (copy_entry ?at 0 e) = ?at + addr e" if "addr e < ?n" for e
    using that assms(4) by (intro addr_copy_entry) simp
  have "in_file T' t" if t: "t \<in> file_tables" for t
  proof -
    obtain fl tol where fl: "b_tabs b t = Some fl" "b_tabs T t = Some tol"
      "b_tabs T' t = Some (if t = TAdjustment then joined_adjust ?at (b_name T) tol fl else join_list ?at tol fl)"
      using assms(1) t unfolding joined_def by blast
    have "\<not> iterating tol" "\<forall>e \<in> set (elems tol). addr e < ?at" "\<forall>e \<in> set (elems fl). addr e < ?n"
      using assms(2,3) t fl(1,2) by (auto simp: object_bin_def in_file_def)
    then show ?thesis
      using fl(3) ca len unfolding in_file_def by (auto simp: join_list_def joined_adjust_def)
  qed
  moreover have "own_adjust (b_name T') (adj_list T') (b_words T') (length (b_words T'))"
    using joined_adjusts_inside [OF assms] len by simp
  ultimately show ?thesis using len assms(1) by (simp add: object_bin_def joined_def)
qed

fun appended :: "ldbin list \<Rightarrow> ldbin \<Rightarrow> ldbin \<Rightarrow> bool" where
  "appended [] T T' \<longleftrightarrow> T' = T"
| "appended (b # bs) T T' \<longleftrightarrow> (\<exists>T1. joined T b T1 \<and> appended bs T1 T')"

abbreviation (input) total_words :: "ldbin list \<Rightarrow> nat" where
  "total_words bs \<equiv> sum_list (map (\<lambda>b. length (b_words b)) bs)"

text \<open>A file bin: an object whose name is not that of a section.\<close>

definition file_bin :: "cstr \<Rightarrow> ldbin \<Rightarrow> bool" where
  "file_bin target b \<longleftrightarrow> object_bin b \<and> b_name b \<noteq> target \<and> take 8 (b_name b) \<noteq> c_str ''SECTION ''"

lemma flatten_files_joins:
  assumes "h target = Some T" and "object_bin T" and "target \<notin> set all" and "distinct all" and "set ps \<subseteq> set all"
    and "distinct ps" and "\<forall>p \<in> set ps. \<exists>b. h p = Some b \<and> file_bin (b_name T) b"
    and "inj_on (\<lambda>p. b_name (the (h p))) (set ps)"
    and "\<forall>q \<in> set all - set ps. \<exists>c. h q = Some c \<and> done_bin c"
    and "length (b_words T) + total_words (map (\<lambda>p. the (h p)) ps) < 65536"
  shows "\<exists>h' T'. flatten_files all target ps h = Ret h' \<and> h' target = Some T' \<and> object_bin T' \<and>
    appended (map (\<lambda>p. the (h p)) ps) T T' \<and>
    (\<forall>q \<in> set all. \<exists>c. h' q = Some c \<and> b_name c = b_name (the (h q))) \<and>
    (\<forall>q. q \<notin> set all \<longrightarrow> q \<noteq> target \<longrightarrow> h' q = h q)"
  using assms
proof (induction ps arbitrary: h T)
  case Nil
  then show ?case by auto
next
  case (Cons p ps)
  obtain b where b: "h p = Some b" "file_bin (b_name T) b" using Cons.prems(7) by auto
  have ne: "target \<noteq> p" using Cons.prems(3,5) by auto
  have pa: "p \<in> set all" using Cons.prems(5) by simp
  have len: "length (b_words T) + length (b_words b) < 65536" using Cons.prems(10) b(1) by simp
  have others: "\<forall>q \<in> set all. q \<noteq> p \<longrightarrow> (\<exists>c. h q = Some c \<and> foreign_adjust (b_name T) (b_name b) c)"
  proof (intro ballI impI)
    fix q assume q: "q \<in> set all" "q \<noteq> p"
    show "\<exists>c. h q = Some c \<and> foreign_adjust (b_name T) (b_name b) c"
    proof (cases "q \<in> set ps")
      case True
      then obtain c where c: "h q = Some c" "file_bin (b_name T) c" using Cons.prems(7) by auto
      moreover have "b_name c \<noteq> b_name b"
        using Cons.prems(8) True q(2) c(1) b(1) by (auto simp: inj_on_def dest: bspec [where x = q])
      ultimately show ?thesis using foreign_object [of c] by (auto simp: file_bin_def)
    next
      case False
      then obtain c where "h q = Some c" "done_bin c" using Cons.prems(9) q by auto
      then show ?thesis using foreign_done by blast
    qed
  qed
  obtain b1 T1 where 1: "bin_move all target p (length (b_words T)) 0 (length (b_words b)) h = Some (h(p := Some b1, target := Some T1))"
    "joined T b T1" "b_name b1 = b_name b" "done_bin b1"
    using bin_move_joins [OF b(1) Cons.prems(1,3) pa Cons.prems(4) _ Cons.prems(2) _ len others] b(2) by (auto simp: file_bin_def)
  let ?h = "h(p := Some b1, target := Some T1)"
  have T1: "object_bin T1" "length (b_words T1) = length (b_words T) + length (b_words b)" "b_name T1 = b_name T"
    using joined_object [OF 1(2) Cons.prems(2) _ len] 1(2) b(2) by (auto simp: file_bin_def joined_def)
  have same: "?h q = h q" if "q \<in> set ps" for q
    using that Cons.prems(3,5,6) by auto
  then have m: "map (\<lambda>p. the (?h p)) ps = map (\<lambda>p. the (h p)) ps" by simp
  have t1: "?h target = Some T1" "set ps \<subseteq> set all" "distinct ps" using Cons.prems(5,6) by simp_all
  have t2: "\<forall>p \<in> set ps. \<exists>b. ?h p = Some b \<and> file_bin (b_name T1) b"
  proof
    fix q assume q: "q \<in> set ps"
    then show "\<exists>b. ?h q = Some b \<and> file_bin (b_name T1) b"
      unfolding same [OF q] T1(3) using Cons.prems(7) by simp
  qed
  have t3: "inj_on (\<lambda>p. b_name (the (?h p))) (set ps)"
  proof -
    have "inj_on (\<lambda>p. b_name (the (h p))) (set ps)" using Cons.prems(8) by (rule inj_on_subset) auto
    then show ?thesis using same by (simp cong: inj_on_cong)
  qed
  have t4: "\<forall>q \<in> set all - set ps. \<exists>c. ?h q = Some c \<and> done_bin c"
    using Cons.prems(3,9) 1(4) by auto
  have t5: "length (b_words T1) + total_words (map (\<lambda>p. the (?h p)) ps) < 65536"
    unfolding m T1(2) using Cons.prems(10) b(1) by simp
  from Cons.IH [where h = ?h, OF t1(1) T1(1) Cons.prems(3,4) t1(2,3) t2 t3 t4 t5] obtain h' T'
    where h': "flatten_files all target ps ?h = Ret h'" "h' target = Some T'" "object_bin T'"
      "appended (map (\<lambda>p. the (?h p)) ps) T1 T'" "\<forall>q \<in> set all. \<exists>c. h' q = Some c \<and> b_name c = b_name (the (?h q))"
      "\<forall>q. q \<notin> set all \<longrightarrow> q \<noteq> target \<longrightarrow> h' q = ?h q"
    by (elim exE conjE) (rule that)
  have n: "b_name (the (?h q)) = b_name (the (h q))" if "q \<in> set all" for q
    using that Cons.prems(3) b(1) 1(3) by auto
  have f: "flatten_files all target (p # ps) h = Ret h'"
    using b Cons.prems(1) 1(1) h'(1) by (simp add: file_bin_def)
  have o: "\<forall>q. q \<notin> set all \<longrightarrow> q \<noteq> target \<longrightarrow> h' q = h q" using h'(6) pa by auto
  have a: "appended (map (\<lambda>p. the (h p)) (p # ps)) T T'" using 1(2) h'(4) b(1) unfolding m by auto
  show ?case using f h'(2,3,5) a o n by (intro exI [of _ h'] exI [of _ T']) simp
qed

section \<open>The flattened program\<close>

text \<open>The code and the tables of files that are put behind each other from \<open>base\<close> on.\<close>

fun linked :: "nat \<Rightarrow> ldbin list \<Rightarrow> u16 list" where
  "linked base [] = []"
| "linked base (b # bs) = relocate base b @ linked (base + length (b_words b)) bs"

definition tab_list :: "ldbin \<Rightarrow> ldtable \<Rightarrow> lconv_entry list" where
  "tab_list b t = (case b_tabs b t of None \<Rightarrow> [] | Some l \<Rightarrow> elems l)"

fun linked_tab :: "ldtable \<Rightarrow> cstr \<Rightarrow> nat \<Rightarrow> ldbin list \<Rightarrow> lconv_entry list" where
  "linked_tab t name base [] = []"
| "linked_tab t name base (b # bs) =
     map (\<lambda>e. if t = TAdjustment then (copy_entry base 0 e)\<lparr>ce_bin := Some name\<rparr> else copy_entry base 0 e)
       (sort_key ce_address (tab_list b t)) @ linked_tab t name (base + length (b_words b)) bs"

lemma joined_tab:
  assumes "joined T b T'" and "t \<in> file_tables"
  shows "tab_list T' t = tab_list T t @
    map (\<lambda>e. if t = TAdjustment then (copy_entry (length (b_words T)) 0 e)\<lparr>ce_bin := Some (b_name T)\<rparr>
      else copy_entry (length (b_words T)) 0 e) (sort_key ce_address (tab_list b t))"
proof -
  obtain fl tol where "b_tabs b t = Some fl" "b_tabs T t = Some tol"
    "b_tabs T' t = Some (if t = TAdjustment then joined_adjust (length (b_words T)) (b_name T) tol fl
       else join_list (length (b_words T)) tol fl)"
    using assms unfolding joined_def by blast
  then show ?thesis by (simp add: tab_list_def joined_adjust_def join_list_def)
qed

lemma appended_linked:
  "appended bs T T' \<Longrightarrow> b_name T' = b_name T \<and> b_words T' = b_words T @ linked (length (b_words T)) bs \<and>
     (\<forall>t \<in> file_tables. tab_list T' t = tab_list T t @ linked_tab t (b_name T) (length (b_words T)) bs)"
proof (induction bs arbitrary: T)
  case (Cons b bs)
  then obtain T1 where 1: "joined T b T1" "appended bs T1 T'" by auto
  have n: "b_name T1 = b_name T" "b_words T1 = b_words T @ relocate (length (b_words T)) b"
    using 1(1) by (simp_all add: joined_def)
  have "length (b_words T1) = length (b_words T) + length (b_words b)" using n(2) by (simp add: relocate_def)
  then show ?case using Cons.IH [OF 1(2)] n joined_tab [OF 1(1)] by simp
qed simp

lemma appended_section: "appended bs T T' \<Longrightarrow> b_tabs T' TSection = b_tabs T TSection"
  by (induction bs arbitrary: T) (auto simp: joined_def)

lemma seek_none:
  "\<forall>q \<in> set all. \<exists>c. h q = Some c \<and> b_name c \<noteq> name \<Longrightarrow> seek_bin all h name = Some None"
  by (induction all) (auto simp: bind_eq_Some_conv)

lemma flatten_outputs_none:
  assumes "\<forall>q \<in> set all. \<exists>c. h q = Some c \<and> take 8 (b_name c) \<noteq> c_str ''SECTION ''"
  shows "flatten_outputs all target es h = Ret h"
proof (induction es)
  case (Cons e es)
  have "take 8 (section_name l) = c_str ''SECTION ''" for l
    by (simp add: section_name_def c_str_def)
  then have "\<forall>q \<in> set all. \<exists>c. h q = Some c \<and> b_name c \<noteq> section_name (ce_label e)"
    using assms by metis
  then have "seek_bin all h (section_name (ce_label e)) = Some None" by (rule seek_none)
  with Cons show ?case by simp
qed simp

lemma fold_destroy: "q \<notin> set ps \<Longrightarrow> fold (\<lambda>p h. bin_destroy h p) ps h q = h q"
  by (induction ps arbitrary: h) (simp_all add: bin_destroy_def)

definition labelled :: "ldbin \<Rightarrow> bool" where
  "labelled b \<longleftrightarrow> (\<forall>t \<in> file_tables - {TAdjustment}. \<forall>e \<in> set (tab_list b t). ce_label e \<noteq> None)"

lemma linked_tab_labelled:
  "\<forall>b \<in> set bs. labelled b \<Longrightarrow> t \<in> file_tables - {TAdjustment} \<Longrightarrow> e \<in> set (linked_tab t n base bs) \<Longrightarrow> ce_label e \<noteq> None"
proof (induction bs arbitrary: base)
  case (Cons b bs)
  from Cons.prems(3) consider "e \<in> (\<lambda>e. if t = TAdjustment then (copy_entry base 0 e)\<lparr>ce_bin := Some n\<rparr> else copy_entry base 0 e) ` set (tab_list b t)"
    | "e \<in> set (linked_tab t n (base + length (b_words b)) bs)" by auto
  then show ?case
  proof cases
    case 1
    then show ?thesis using Cons.prems(1,2) by (auto simp: copy_entry_def labelled_def)
  next
    case 2
    then show ?thesis using Cons.IH Cons.prems(1,2) by auto
  qed
qed simp

text \<open>Moving the files: the loop of \<^verbatim>\<open>bins_flatten\<close> from the empty bin.\<close>

abbreviation (input) flat_new :: "cstr \<Rightarrow> ldbin" where
  "flat_new name \<equiv> (bin_create name False)\<lparr>b_tabs := (\<lambda>t. if t = TSection then None else Some list_create),
     b_symbols := Some new_list\<rparr>"

lemma flatten_files_linked:
  assumes "distinct (l_bins st)" and "l_next st \<notin> set (l_bins st)"
    and "\<forall>p \<in> set (l_bins st). \<exists>b. l_heap st p = Some b \<and> file_bin name b"
    and "inj_on (\<lambda>p. b_name (the (l_heap st p))) (set (l_bins st))"
    and "files = map (\<lambda>p. the (l_heap st p)) (l_bins st)" and "total_words files < 65536"
  shows "\<exists>h' T'. flatten_files (l_bins st) (l_next st) (l_bins st) ((l_heap st)(l_next st := Some (flat_new name))) = Ret h' \<and>
    h' (l_next st) = Some T' \<and> object_bin T' \<and> b_tabs T' TSection = None \<and>
    (\<forall>q \<in> set (l_bins st). \<exists>c. h' q = Some c \<and> b_name c = b_name (the (l_heap st q))) \<and>
    b_name T' = name \<and> b_words T' = linked 0 files \<and> (\<forall>t \<in> file_tables. tab_list T' t = linked_tab t name 0 files)"
proof -
  let ?t = "l_next st"
  let ?h = "(l_heap st)(?t := Some (flat_new name))"
  have same: "?h p = l_heap st p" if "p \<in> set (l_bins st)" for p using that assms(2) by auto
  have files: "map (\<lambda>p. the (?h p)) (l_bins st) = files" using same assms(5) by simp
  have o: "object_bin (flat_new name)"
    by (simp add: object_bin_def file_tables_def in_file_def list_create_def new_list_def bin_create_def own_adjust_def adj_list_def)
  have fb: "\<forall>p \<in> set (l_bins st). \<exists>b. ?h p = Some b \<and> file_bin (b_name (flat_new name)) b"
  proof
    fix p assume p: "p \<in> set (l_bins st)"
    then obtain b where "l_heap st p = Some b" "file_bin name b" using assms(3) by blast
    then show "\<exists>b. ?h p = Some b \<and> file_bin (b_name (flat_new name)) b" unfolding same [OF p] by (simp add: bin_create_def)
  qed
  have inj: "inj_on (\<lambda>p. b_name (the (?h p))) (set (l_bins st))"
    using assms(4) same by (simp cong: inj_on_cong)
  have tot: "length (b_words (flat_new name)) + total_words (map (\<lambda>p. the (?h p)) (l_bins st)) < 65536"
    unfolding files using assms(6) by (simp add: bin_create_def)
  from flatten_files_joins [where h = ?h and T = "flat_new name", OF _ o assms(2,1) subset_refl assms(1) fb inj _ tot] obtain h' T'
    where h': "flatten_files (l_bins st) ?t (l_bins st) ?h = Ret h'" "h' ?t = Some T'" "object_bin T'"
      "appended (map (\<lambda>p. the (?h p)) (l_bins st)) (flat_new name) T'"
      "\<forall>q \<in> set (l_bins st). \<exists>c. h' q = Some c \<and> b_name c = b_name (the (?h q))"
    by auto
  have "b_name T' = name" "b_words T' = linked 0 files" "\<forall>t \<in> file_tables. tab_list T' t = linked_tab t name 0 files"
    using appended_linked [OF h'(4)] unfolding files
    by (simp_all add: bin_create_def tab_list_def list_create_def new_list_def file_tables_def)
  then show ?thesis using h'(1-3,5) same appended_section [OF h'(4)]
    by (intro exI [of _ h'] exI [of _ T']) simp
qed

text \<open>The flattened bin with its outputs sorted can be printed: all its labels are there.\<close>

lemma flattened_prints:
  assumes "object_bin T" and "b_tabs T TSection = None" and "b_tabs T TOutput = Some outs"
    and "\<And>t e. t \<in> file_tables - {TAdjustment} \<Longrightarrow> e \<in> set (tab_list T t) \<Longrightarrow> ce_label e \<noteq> None"
    and "b_tabs B = (b_tabs T)(TOutput := Some outs')" and "set (elems outs') = set (elems outs)"
    and "b_words B = b_words T"
  shows "bin_print B = Ret ()"
proof -
  have "case b_tabs B t of None \<Rightarrow> True | Some l \<Rightarrow> \<forall>e \<in> set (elems l). ce_label e \<noteq> None"
    if "t \<in> {TProvided, TRequired, TSection, TOutput, TJump, TOptional, TCall}" for t
  proof (cases "t = TSection")
    case True
    then show ?thesis unfolding assms(5) using assms(2) by simp
  next
    case False
    then have "t \<in> file_tables - {TAdjustment}" using that by (auto simp: file_tables_def)
    then show ?thesis unfolding assms(5) using assms(3,6) assms(4) [of t]
      by (auto simp: tab_list_def split: option.splits)
  qed
  moreover obtain adjs where "b_tabs T TAdjustment = Some adjs"
    using assms(1) by (auto simp: object_bin_def in_file_def file_tables_def)
  moreover from this have "\<forall>e \<in> set (elems adjs). addr e < length (b_words T) \<and> ce_bin e \<noteq> None"
    using assms(1) by (simp add: object_bin_def own_adjust_def adj_list_def)
  ultimately show ?thesis using assms(5,7) unfolding bin_print_def by simp
qed

text \<open>Flattening, with what is known about the tables of the result.\<close>

lemma flatten_linked:
  assumes "distinct (l_bins st)" and "l_next st \<notin> set (l_bins st)"
    and "\<forall>p \<in> set (l_bins st). \<exists>b. l_heap st p = Some b \<and> file_bin name b \<and> labelled b"
    and "inj_on (\<lambda>p. b_name (the (l_heap st p))) (set (l_bins st))"
    and "files = map (\<lambda>p. the (l_heap st p)) (l_bins st)" and "total_words files < 65536"
  shows "\<exists>st' b'. bins_flatten name st = Ret st' \<and> l_bins st' = [l_next st] \<and> l_heap st' (l_next st) = Some b' \<and>
    b_name b' = name \<and> b_words b' = linked 0 files \<and>
    (\<forall>t \<in> file_tables - {TOutput}. tab_list b' t = linked_tab t name 0 files) \<and>
    (\<forall>t \<in> file_tables - {TOutput}. in_file b' t) \<and> (\<exists>l. b_tabs b' TOutput = Some l) \<and> b_tabs b' TSection = None \<and>
    bin_print b' = Ret () \<and> l_iio st' = l_iio st \<and> l_fs st' = l_fs st"
proof -
  let ?t = "l_next st"
  have "\<forall>p \<in> set (l_bins st). \<exists>b. l_heap st p = Some b \<and> file_bin name b" using assms(3) by blast
  from flatten_files_linked [OF assms(1,2) this assms(4-6)] obtain h' T'
    where h': "flatten_files (l_bins st) ?t (l_bins st) ((l_heap st)(?t := Some (flat_new name))) = Ret h'" "h' ?t = Some T'"
      "object_bin T'" "b_tabs T' TSection = None"
      "\<forall>q \<in> set (l_bins st). \<exists>c. h' q = Some c \<and> b_name c = b_name (the (l_heap st q))"
    and T': "b_name T' = name" "b_words T' = linked 0 files" "\<forall>t \<in> file_tables. tab_list T' t = linked_tab t name 0 files"
    by auto
  obtain outs adjs where outs: "b_tabs T' TOutput = Some outs" "\<not> iterating outs" and adjs: "b_tabs T' TAdjustment = Some adjs"
    using h'(3) by (auto simp: object_bin_def in_file_def file_tables_def)
  let ?T1 = "set_iterating TOutput True (set_tab TOutput (list_sort_down outs) T')"
  have out: "flatten_outputs (l_bins st) ?t es (h'(?t := Some ?T1)) = Ret (h'(?t := Some ?T1))" for es
  proof (rule flatten_outputs_none, intro ballI)
    fix q assume q: "q \<in> set (l_bins st)"
    then obtain c b where "h' q = Some c" "b_name c = b_name (the (l_heap st q))" "l_heap st q = Some b" "file_bin name b"
      using h'(5) assms(3) by metis
    then show "\<exists>c. (h'(?t := Some ?T1)) q = Some c \<and> take 8 (b_name c) \<noteq> c_str ''SECTION ''"
      using q assms(2) by (auto simp: file_bin_def)
  qed
  let ?T2 = "set_iterating TOutput False ?T1"
  have T2: "b_name ?T2 = name" "b_words ?T2 = b_words T'" "b_tabs ?T2 = (b_tabs T')(TOutput := Some (list_sort_down outs))"
    using T' outs(2) by (simp_all add: set_iterating_def set_tab_tabs set_tab_def list_sort_down_def fun_eq_iff)
  have lb: "\<forall>b \<in> set files. labelled b" using assms(3,5) by auto
  have "ce_label e \<noteq> None" if "t \<in> file_tables - {TAdjustment}" "e \<in> set (tab_list T' t)" for t e
    using linked_tab_labelled [OF lb that(1), of e name 0] that T'(3) by simp
  from flattened_prints [OF h'(3,4) outs(1) this T2(3) _ T2(2)] have pr: "bin_print ?T2 = Ret ()"
    using outs(2) by (simp add: list_sort_down_def)
  have own: "\<forall>e \<in> set (case b_tabs ?T2 TAdjustment of None \<Rightarrow> [] | Some l \<Rightarrow> elems l). ce_bin e = Some (b_name ?T2)"
    unfolding T2(1,3) using h'(3) T'(1) adjs by (simp add: object_bin_def own_adjust_def adj_list_def)
  let ?H = "fold (\<lambda>p h. bin_destroy h p) (l_bins st) (h'(?t := Some ?T2))"
  let ?st1 = "(put_bin ?t (flat_new name) st)\<lparr>l_next := Suc ?t\<rparr>"
  have H: "?H ?t = Some ?T2" using fold_destroy [OF assms(2)] by simp
  have 1: "flatten_files (l_bins st) ?t (l_bins st) (l_heap ?st1) = Ret h'" using h'(1) by (simp add: put_bin_def)
  have "bins_flatten name st = Ret (?st1\<lparr>l_heap := ?H, l_bins := [?t]\<rparr>)"
    unfolding bins_flatten_def Let_def alloc_bin_def
    using 1 h'(2) outs(1) out own H pr by (simp add: ensure_def)
  moreover have "\<forall>t \<in> file_tables - {TOutput}. tab_list ?T2 t = linked_tab t name 0 files"
    using T'(3) unfolding tab_list_def T2(3) by simp
  moreover have "(\<forall>t \<in> file_tables - {TOutput}. in_file ?T2 t) \<and> (\<exists>l. b_tabs ?T2 TOutput = Some l) \<and> b_tabs ?T2 TSection = None"
    using h'(3,4) unfolding in_file_def T2(2,3) object_bin_def by simp
  ultimately show ?thesis
    using H T2(1,2) T'(2) pr by (intro exI [of _ "?st1\<lparr>l_heap := ?H, l_bins := [?t]\<rparr>"] exI [of _ ?T2]) (simp add: put_bin_def)
qed

text \<open>
  C17. Flattening links files by concatenation. Take files whose table entries lie in their
  code, whose adjustments (one per address) refer to words of the same file, whose names
  differ from each other and from the new program's, and that fit into memory together. Then
  flattening succeeds with one bin: its code is the code of the files one after the other,
  where each adjusted word has grown by the position of its file, and each of its tables
  (outputs excepted, which are put in descending order) lists the entries of the files in
  order, by address within a file, with the position of the file added; adjustments now refer
  to the program.
\<close>

theorem flatten_concatenates:
  assumes "distinct (l_bins st)" and "l_next st \<notin> set (l_bins st)"
    and "\<forall>p \<in> set (l_bins st). \<exists>b. l_heap st p = Some b \<and> file_bin name b \<and> labelled b"
    and "inj_on (\<lambda>p. b_name (the (l_heap st p))) (set (l_bins st))"
    and "files = map (\<lambda>p. the (l_heap st p)) (l_bins st)" and "total_words files < 65536"
  shows "\<exists>st' b'. bins_flatten name st = Ret st' \<and> l_bins st' = [l_next st] \<and> l_heap st' (l_next st) = Some b' \<and>
    b_name b' = name \<and> b_words b' = linked 0 files \<and>
    (\<forall>t \<in> file_tables - {TOutput}. tab_list b' t = linked_tab t name 0 files)"
  using flatten_linked [OF assms] by blast

text \<open>Two files of three and two words, each with a reference into itself.\<close>

definition flat_bin :: "u8 \<Rightarrow> u16 \<Rightarrow> u16 list \<Rightarrow> ldbin" where
  "flat_bin n a ws = \<lparr>b_name = [n], b_tabs = (\<lambda>t. if t = TAdjustment
     then Some (demo_list [\<lparr>ce_label = None, ce_bin = Some [n], ce_address = a\<rparr>])
     else if t = TProvided then Some (demo_list [lab [n] 1]) else Some list_create),
     b_symbols = Some new_list, b_words = ws\<rparr>"

definition flat_state :: ldstate where
  "flat_state = \<lparr>l_heap = (\<lambda>_. None)(0 := Some (flat_bin 1 1 [10, 2, 12]), 1 := Some (flat_bin 2 0 [1, 21])),
     l_bins = [0, 1], l_next = 2, l_iio = iio_initial, l_fs = (\<lambda>_. None)\<rparr>"

lemma flat_bin_ok:
  assumes "unat a < length ws" and "unat (ws ! unat a) < length ws" and "1 < length ws" and "n \<noteq> 9"
  shows "file_bin [9] (flat_bin n a ws) \<and> labelled (flat_bin n a ws)"
  using assms
  by (auto simp: file_bin_def object_bin_def file_tables_def in_file_def flat_bin_def demo_list_def lab_def list_create_def
      new_list_def own_adjust_def adj_list_def labelled_def tab_list_def c_str_def)

theorem flatten_concatenates_witness:
  "\<exists>st' b'. bins_flatten [9] flat_state = Ret st' \<and> l_heap st' 2 = Some b' \<and> b_words b' = [10, 2, 12, 4, 21] \<and>
     map (\<lambda>e. ce_address e) (tab_list b' TProvided) = [1, 4]"
proof -
  let ?fs = "[flat_bin 1 1 [10, 2, 12], flat_bin 2 0 [1, 21]]"
  have p: "distinct (l_bins flat_state)" "l_next flat_state \<notin> set (l_bins flat_state)"
    "inj_on (\<lambda>p. b_name (the (l_heap flat_state p))) (set (l_bins flat_state))"
    "?fs = map (\<lambda>p. the (l_heap flat_state p)) (l_bins flat_state)" "total_words ?fs < 65536"
    by (auto simp: flat_state_def flat_bin_def)
  have f: "\<forall>p \<in> set (l_bins flat_state). \<exists>b. l_heap flat_state p = Some b \<and> file_bin [9] b \<and> labelled b"
    using flat_bin_ok [of 1 "[10, 2, 12]" 1] flat_bin_ok [of 0 "[1, 21]" 2] by (auto simp: flat_state_def)
  from flatten_concatenates [OF p(1,2) f p(3,4,5)] obtain st' b' where r: "bins_flatten [9] flat_state = Ret st'"
    "l_heap st' (l_next flat_state) = Some b'" "b_words b' = linked 0 ?fs"
    "\<forall>t \<in> file_tables - {TOutput}. tab_list b' t = linked_tab t [9] 0 ?fs"
    by (elim exE conjE) (rule that)
  have "linked 0 ?fs = [10, 2, 12, 4, 21]"
    by (simp add: relocate_def adj_addrs_def adj_list_def flat_bin_def demo_list_def)
  moreover have "map ce_address (linked_tab TProvided [9] 0 ?fs) = [1, 4]"
    by (simp add: tab_list_def flat_bin_def demo_list_def lab_def copy_entry_def)
  ultimately show ?thesis using r by (auto simp: flat_state_def file_tables_def)
qed

end
