(* ===== verification/Ld_Files.thy ===== *)
theory Ld_Files
  imports Ld_Resolve
begin

text \<open>
  Saving and loading bins (\<^verbatim>\<open>bins_save\<close> and \<^verbatim>\<open>bins_load\<close> of \<^verbatim>\<open>libdcpu-ld/ldbins.c\<close>) are inverse
  to each other.
\<close>

section \<open>A saved library is loaded as it was\<close>

lemma read_words_eq:
  assumes "iio_ok big io" and "drop (fpos f) (fcontent f) = concat (map (file_bytes (iwritemode io)) ws)"
  shows "\<exists>io'. read_words big io f = (ws, io') \<and> iio_ok big io' \<and> iwritemode io' = iwritemode io"
  using assms
proof (induction ws arbitrary: io f)
  case Nil
  then show ?case
    using icpudetect_ok [OF Nil.prems(1)]
    by (subst read_words.simps) (auto simp: iread_def fread_2_def Let_def split: prod.splits)
next
  case (Cons w ws)
  note d = icpudetect_ok [OF Cons.prems(1)]
  have r: "iread big io 0 f = Some (1, w, icpudetect big io, f\<lparr>fpos := fpos f + 2\<rparr>)"
    using Cons.prems by (intro iread_eq) auto
  have "drop (fpos f + 2) (fcontent f) = drop 2 (drop (fpos f) (fcontent f))" by (simp add: add.commute)
  also have "\<dots> = concat (map (file_bytes (iwritemode io)) ws)" using Cons.prems(2) by simp
  finally obtain io' where "read_words big (icpudetect big io) (f\<lparr>fpos := fpos f + 2\<rparr>) = (ws, io')"
    "iio_ok big io'" "iwritemode io' = iwritemode io"
    using Cons.IH [of "icpudetect big io" "f\<lparr>fpos := fpos f + 2\<rparr>"] d by auto
  with r show ?case by (subst read_words.simps) simp
qed

fun table_mode :: "ldtable \<Rightarrow> u8" where
  "table_mode TProvided = LABEL_PROVIDED"
| "table_mode TRequired = LABEL_REQUIRED"
| "table_mode TAdjustment = LABEL_ADJUSTMENT"
| "table_mode TSection = LABEL_SECTION"
| "table_mode TOutput = LABEL_OUTPUT"
| "table_mode TJump = LABEL_JUMP"
| "table_mode TOptional = LABEL_OPTIONAL"
| "table_mode TCall = LABEL_CALL"

lemma list_revert_convert: "list_revert (Some (list_convert es)) = es"
  by (auto simp: list_revert_def list_convert_def intro!: map_idI lprov_entry.equality)

lemma objfmt_mark: "c_string ldata_objfmt = ldata_objfmt" "length ldata_objfmt = 17"
  by code_simp+

text \<open>An object file with given tables is read back, whatever words follow the tables.\<close>

lemma object_image:
  assumes "\<forall>t. table_ok (table_mode t) (T t)" and "distinct_adj (map pe_address (T TSection))"
  shows "\<exists>f1. objfile_save big (new_file (ldata_objfmt @ [0])) (T TProvided) (T TRequired) (T TAdjustment)
      (T TSection) (T TOutput) (T TJump) (T TOptional) (T TCall) = Some f1 \<and> at_end f1 \<and>
    (\<forall>code. check_objfmt path (fcontent f1 @ code) = Ret \<lparr>fcontent = fcontent f1 @ code, fpos = 18\<rparr> \<and>
      (\<exists>offset t f. objfile_load big \<lparr>fcontent = fcontent f1 @ code, fpos = 18\<rparr> 0 all_tabs = Some (offset, t, f) \<and>
         (\<forall>u. objtab t u = map (loaded (table_mode u) 0) (T u)) \<and> drop (fpos f) (fcontent f) = code))"
proof -
  let ?f = "new_file (ldata_objfmt @ [0])"
  have f: "?f = \<lparr>fcontent = ldata_objfmt @ [0], fpos = 18\<rparr>"
    by (simp add: new_file_def fwrite_bytes_def objfmt_mark(2))
  have e: "fpos ?f = length (fcontent ?f)" by (simp add: f objfmt_mark(2))
  have ok: "table_ok LABEL_PROVIDED (T TProvided)" "table_ok LABEL_REQUIRED (T TRequired)"
    "table_ok LABEL_ADJUSTMENT (T TAdjustment)" "table_ok LABEL_SECTION (T TSection)" "table_ok LABEL_OUTPUT (T TOutput)"
    "table_ok LABEL_JUMP (T TJump)" "table_ok LABEL_OPTIONAL (T TOptional)" "table_ok LABEL_CALL (T TCall)"
    using assms(1) [rule_format, of TProvided] assms(1) [rule_format, of TRequired]
      assms(1) [rule_format, of TAdjustment] assms(1) [rule_format, of TSection] assms(1) [rule_format, of TOutput]
      assms(1) [rule_format, of TJump] assms(1) [rule_format, of TOptional] assms(1) [rule_format, of TCall] by simp_all
  note sl = objfile_saved_loads [OF ok assms(2) e, of big _ 0 "[]" "[]" "[]" "[]" "[]" "[]" "[]" "[]"]
  obtain f1 where save: "objfile_save big ?f (T TProvided) (T TRequired) (T TAdjustment)
      (T TSection) (T TOutput) (T TJump) (T TOptional) (T TCall) = Some f1" using sl by blast
  obtain bs where f1: "f1 = append_bytes ?f bs" using objfile_save_appends [OF save] e by (auto simp: at_end_def)
  have "check_objfmt path (fcontent f1 @ code) = Ret \<lparr>fcontent = fcontent f1 @ code, fpos = 18\<rparr>" for code
    by (simp add: check_objfmt_def objfmt_mark min_def f1 f)
  moreover have "\<exists>offset t f. objfile_load big \<lparr>fcontent = fcontent f1 @ code, fpos = 18\<rparr> 0 all_tabs = Some (offset, t, f) \<and>
         (\<forall>u. objtab t u = map (loaded (table_mode u) 0) (T u)) \<and> drop (fpos f) (fcontent f) = code" for code
  proof -
    have g: "f1\<lparr>fcontent := fcontent f1 @ code, fpos := fpos ?f\<rparr> = \<lparr>fcontent = fcontent f1 @ code, fpos = 18\<rparr>"
      by (cases f1) (simp add: f)
    let ?t = "\<lparr>t_provided = Some (map (loaded LABEL_PROVIDED 0) (T TProvided)),
       t_required = Some (map (loaded LABEL_REQUIRED 0) (T TRequired)),
       t_adjustment = Some (map (loaded LABEL_ADJUSTMENT 0) (T TAdjustment)),
       t_section = Some (map (loaded LABEL_SECTION 0) (T TSection)),
       t_output = Some (map (loaded LABEL_OUTPUT 0) (T TOutput)),
       t_jump = Some (map (loaded LABEL_JUMP 0) (T TJump)),
       t_optional = Some (map (loaded LABEL_OPTIONAL 0) (T TOptional)),
       t_call = Some (map (loaded LABEL_CALL 0) (T TCall))\<rparr>"
    have "objfile_load big (f1\<lparr>fcontent := fcontent f1 @ code, fpos := fpos ?f\<rparr>) 0 all_tabs =
        Some (of_nat (length code div 2), ?t, f1\<lparr>fcontent := fcontent f1 @ code\<rparr>)"
      using sl [of code] save by (auto simp: all_tabs_def)
    moreover have "objtab ?t u = map (loaded (table_mode u) 0) (T u)" for u by (cases u) simp_all
    moreover have "drop (fpos f1) (fcontent f1 @ code) = code" by (simp add: f1)
    ultimately show ?thesis unfolding g
      by (intro exI [of _ "of_nat (length code div 2)"] exI [of _ ?t] exI [of _ "f1\<lparr>fcontent := fcontent f1 @ code\<rparr>"]) simp
  qed
  ultimately show ?thesis using save f1 by auto
qed

text \<open>Loading a file whose tables and words are known.\<close>

lemma load_image:
  assumes "l_fs st2 path = Some img" and "check_objfmt path img = Ret inp"
    and "objfile_load (e_big env2) inp 0 all_tabs = Some (offset, t, f)"
    and "drop (fpos f) (fcontent f) = concat (map (file_bytes (iwritemode (l_iio st2))) ws)"
    and "\<forall>u. objtab t u = map (loaded (table_mode u) 0) (T u)" and "iio_ok (e_big env2) (l_iio st2)"
  shows "\<exists>st3 b'. bins_load env2 path False ext st2 = Ret st3 \<and> l_bins st3 = l_bins st2 @ [l_next st2] \<and>
    l_heap st3 = (l_heap st2)(l_next st2 := Some b') \<and> b_name b' = path \<and> b_words b' = ws \<and>
    (\<forall>t. b_tabs b' t = Some (list_convert (map (loaded (table_mode t) 0) (T t)))) \<and> b_symbols b' = Some new_list \<and>
    l_next st3 = Suc (l_next st2) \<and> l_fs st3 = l_fs st2 \<and> iio_ok (e_big env2) (l_iio st3) \<and>
    iwritemode (l_iio st3) = iwritemode (l_iio st2)"
proof -
  obtain io2 where r: "read_words (e_big env2) (l_iio st2) f = (ws, io2)" "iio_ok (e_big env2) io2"
    "iwritemode io2 = iwritemode (l_iio st2)"
    using read_words_eq [OF assms(6), of f ws] assms(4) by auto
  let ?b' = "\<lparr>b_name = path, b_tabs = (\<lambda>u. Some (list_convert (objtab t u))), b_symbols = Some new_list, b_words = ws\<rparr>"
  have "\<exists>st3. bins_load env2 path False ext st2 = Ret st3 \<and> l_bins st3 = l_bins st2 @ [l_next st2] \<and>
      l_heap st3 = (l_heap st2)(l_next st2 := Some ?b') \<and> l_next st3 = Suc (l_next st2) \<and> l_fs st3 = l_fs st2 \<and> l_iio st3 = io2"
    using assms(1-3) r(1)
    by (auto simp: bins_load_def bins_add_def alloc_bin_def put_bin_def bin_create_def foldl_bin_write)
  then obtain st3 where "bins_load env2 path False ext st2 = Ret st3" "l_bins st3 = l_bins st2 @ [l_next st2]"
      "l_heap st3 = (l_heap st2)(l_next st2 := Some ?b')" "l_next st3 = Suc (l_next st2)" "l_fs st3 = l_fs st2" "l_iio st3 = io2"
    by blast
  with assms(5) r(2,3) show ?thesis by (intro exI [of _ st3] exI [of _ ?b']) simp
qed

text \<open>The image of a static library: mark, tables, words.\<close>

lemma save_image_library:
  assumes "\<forall>t. table_ok (table_mode t) (tab_of b t)" and "distinct_adj (map pe_address (tab_of b TSection))"
    and "iio_ok (e_big env) io"
  shows "\<exists>io' image. save_image env io b IMAGE_STATIC_LIBRARY True = Ret (io', image) \<and>
    check_objfmt path image = Ret \<lparr>fcontent = image, fpos = 18\<rparr> \<and>
    (\<exists>offset t f. objfile_load (e_big env) \<lparr>fcontent = image, fpos = 18\<rparr> 0 all_tabs = Some (offset, t, f) \<and>
       (\<forall>u. objtab t u = map (loaded (table_mode u) 0) (tab_of b u)) \<and>
       drop (fpos f) (fcontent f) = concat (map (file_bytes (iwritemode io)) (b_words b)))"
proof -
  let ?code = "concat (map (file_bytes (iwritemode io)) (b_words b))"
  obtain f1 where f1: "objfile_save (e_big env) (new_file (ldata_objfmt @ [0])) (tab_of b TProvided) (tab_of b TRequired)
      (tab_of b TAdjustment) (tab_of b TSection) (tab_of b TOutput) (tab_of b TJump) (tab_of b TOptional) (tab_of b TCall) = Some f1"
    "at_end f1" and load: "\<forall>code. check_objfmt path (fcontent f1 @ code) = Ret \<lparr>fcontent = fcontent f1 @ code, fpos = 18\<rparr> \<and>
      (\<exists>offset t f. objfile_load (e_big env) \<lparr>fcontent = fcontent f1 @ code, fpos = 18\<rparr> 0 all_tabs = Some (offset, t, f) \<and>
         (\<forall>u. objtab t u = map (loaded (table_mode u) 0) (tab_of b u)) \<and> drop (fpos f) (fcontent f) = code)"
    using object_image [OF assms(1,2), of "e_big env" path] by blast
  obtain io' where "write_words (e_big env) io (b_words b) f1 = (io', append_bytes f1 ?code)"
    using write_words_eq [OF assms(3) f1(2)] by blast
  with f1(1) have "save_image env io b IMAGE_STATIC_LIBRARY True = Ret (io', fcontent f1 @ ?code)"
    by (simp add: save_image_def)
  with load show ?thesis by blast
qed

text \<open>
  C21. A library that is saved is loaded as it was. Saving a bin as a static library succeeds
  when the file can be written and the object format can hold its labels; a later run on a
  machine of the same byte order that loads this file gets a new last bin, named after the
  path, with the same words and the same eight tables (adjustments carry no label), and its
  other bins are as they were.
\<close>

theorem save_then_load:
  assumes "seek_bin (l_bins st) (l_heap st) name = Some (Some p)" and "l_heap st p = Some b"
    and "e_writable env path" and "\<forall>t. table_ok (table_mode t) (tab_of b t)"
    and "distinct_adj (map pe_address (tab_of b TSection))" and "iio_ok (e_big env) (l_iio st)"
    and "e_big env2 = e_big env" and "iio_ok (e_big env2) (l_iio st2)" and "iwritemode (l_iio st2) = iwritemode (l_iio st)"
  shows "\<exists>st'. bins_save env name path IMAGE_STATIC_LIBRARY True None None st = Ret st' \<and>
    (l_fs st2 path = l_fs st' path \<longrightarrow>
      (\<exists>st3 b'. bins_load env2 path False ext st2 = Ret st3 \<and> l_bins st3 = l_bins st2 @ [l_next st2] \<and>
        l_heap st3 = (l_heap st2)(l_next st2 := Some b') \<and> b_name b' = path \<and> b_words b' = b_words b \<and>
        (\<forall>t. tab_of b' t = map (loaded (table_mode t) 0) (tab_of b t))))"
proof -
  obtain io' image offset t f where save: "save_image env (l_iio st) b IMAGE_STATIC_LIBRARY True = Ret (io', image)"
    and chk: "check_objfmt path image = Ret \<lparr>fcontent = image, fpos = 18\<rparr>"
    and load: "objfile_load (e_big env) \<lparr>fcontent = image, fpos = 18\<rparr> 0 all_tabs = Some (offset, t, f)"
    and tabs: "\<forall>u. objtab t u = map (loaded (table_mode u) 0) (tab_of b u)"
    and code: "drop (fpos f) (fcontent f) = concat (map (file_bytes (iwritemode (l_iio st))) (b_words b))"
    using save_image_library [OF assms(4-6)] by blast
  let ?st' = "st\<lparr>l_iio := io', l_fs := (l_fs st)(path := Some image)\<rparr>"
  have 1: "bins_save env name path IMAGE_STATIC_LIBRARY True None None st = Ret ?st'"
    using assms(1-3) save by (simp add: bins_save_def)
  have "\<exists>st3 b'. bins_load env2 path False ext st2 = Ret st3 \<and> l_bins st3 = l_bins st2 @ [l_next st2] \<and>
        l_heap st3 = (l_heap st2)(l_next st2 := Some b') \<and> b_name b' = path \<and> b_words b' = b_words b \<and>
        (\<forall>t. tab_of b' t = map (loaded (table_mode t) 0) (tab_of b t))" if f: "l_fs st2 path = l_fs ?st' path"
  proof -
    have "l_fs st2 path = Some image" using f by simp
    moreover have "drop (fpos f) (fcontent f) = concat (map (file_bytes (iwritemode (l_iio st2))) (b_words b))"
      using code assms(9) by simp
    ultimately obtain st3 b' where l: "bins_load env2 path False ext st2 = Ret st3" "l_bins st3 = l_bins st2 @ [l_next st2]"
      "l_heap st3 = (l_heap st2)(l_next st2 := Some b')" "b_name b' = path" "b_words b' = b_words b"
      "\<forall>t. b_tabs b' t = Some (list_convert (map (loaded (table_mode t) 0) (tab_of b t)))"
      using load_image [OF _ chk load [folded assms(7)] _ tabs assms(8)] by blast
    show ?thesis
      by (rule exI [of _ st3], rule exI [of _ b']) (use l in \<open>simp add: list_revert_convert\<close>)
  qed
  with 1 show ?thesis by blast
qed

theorem save_then_load_witness:
  "\<exists>st' st3 b'. bins_save demo_env [1] [0x66] IMAGE_STATIC_LIBRARY True None None (link_state []) = Ret st' \<and>
     bins_load demo_env [0x66] False [] ((link_state [])\<lparr>l_fs := l_fs st'\<rparr>) = Ret st3 \<and> l_heap st3 1 = Some b' \<and>
     b_words b' = [10, 11, 12, 13] \<and> tab_of b' TProvided = [\<lparr>pe_label = Some [0x78], pe_address = 3\<rparr>]"
proof -
  let ?st = "link_state []"
  have t: "tab_of (link_bin []) t = (if t = TProvided then [\<lparr>pe_label = Some [0x78], pe_address = 3\<rparr>]
      else if t = TRequired then [\<lparr>pe_label = Some [0x78], pe_address = 1\<rparr>] else [])" for t
    by (simp add: link_bin_def demo_list_def lab_def list_revert_def list_create_def new_list_def)
  have p: "seek_bin (l_bins ?st) (l_heap ?st) [1] = Some (Some 0)" "l_heap ?st 0 = Some (link_bin [])"
    "e_writable demo_env [0x66]" "\<forall>t. table_ok (table_mode t) (tab_of (link_bin []) t)"
    "distinct_adj (map pe_address (tab_of (link_bin []) TSection))" "iio_ok (e_big demo_env) (l_iio ?st)"
    unfolding t by (auto simp: link_state_def link_bin_def demo_env_def iio_initial_ok table_ok_def label_ok_def)
  have q: "e_big demo_env = e_big demo_env" "iio_ok (e_big demo_env) (l_iio (?st\<lparr>l_fs := fs\<rparr>))"
    "iwritemode (l_iio (?st\<lparr>l_fs := fs\<rparr>)) = iwritemode (l_iio ?st)" for fs
    using p(6) by simp_all
  obtain st' where st': "bins_save demo_env [1] [0x66] IMAGE_STATIC_LIBRARY True None None ?st = Ret st'"
    using save_then_load [OF p q(1), of ?st] p(6) by auto
  obtain st'' where s: "bins_save demo_env [1] [0x66] IMAGE_STATIC_LIBRARY True None None ?st = Ret st''"
    and l: "l_fs (?st\<lparr>l_fs := l_fs st'\<rparr>) [0x66] = l_fs st'' [0x66] \<longrightarrow>
      (\<exists>st3 b'. bins_load demo_env [0x66] False [] (?st\<lparr>l_fs := l_fs st'\<rparr>) = Ret st3 \<and>
        l_bins st3 = l_bins (?st\<lparr>l_fs := l_fs st'\<rparr>) @ [l_next (?st\<lparr>l_fs := l_fs st'\<rparr>)] \<and>
        l_heap st3 = (l_heap (?st\<lparr>l_fs := l_fs st'\<rparr>))(l_next (?st\<lparr>l_fs := l_fs st'\<rparr>) := Some b') \<and>
        b_name b' = [0x66] \<and> b_words b' = b_words (link_bin []) \<and>
        (\<forall>t. tab_of b' t = map (loaded (table_mode t) 0) (tab_of (link_bin []) t)))"
    using save_then_load [OF p q, of "l_fs st'" "[]"] by blast
  have "st'' = st'" using s st' by simp
  with l obtain st3 b' where
    "bins_load demo_env [0x66] False [] (?st\<lparr>l_fs := l_fs st'\<rparr>) = Ret st3"
    "l_heap st3 = (l_heap (?st\<lparr>l_fs := l_fs st'\<rparr>))(l_next (?st\<lparr>l_fs := l_fs st'\<rparr>) := Some b')"
    "b_words b' = b_words (link_bin [])"
    "\<forall>t. tab_of b' t = map (loaded (table_mode t) 0) (tab_of (link_bin []) t)"
    by (auto del: ext)
  then show ?thesis
    using st' unfolding t
    by (intro exI [of _ st'] exI [of _ st3] exI [of _ b'])
      (simp add: link_state_def link_bin_def loaded_def lprov_create_def saved_label_def)
qed

end
