(* ===== verification/Policy.thy ===== *)
theory Policy
  imports Objfmt
begin

text \<open>
  Linker policies (\<^verbatim>\<open>libdcpu-ld-policy/policyast.h\<close>, \<^verbatim>\<open>policy.c\<close>): small scripts that say how an
  image is written, and settings. The lexer and the parser are generated from grammars; a
  policy is its syntax tree here.
\<close>

section \<open>Syntax\<close>

datatype ptable = TABLE_ADJUSTMENT | TABLE_PROVIDED | TABLE_REQUIRED | TABLE_SECTION
  | TABLE_OUTPUT | TABLE_JUMP | TABLE_OPTIONAL

datatype pfield = FIELD_ADDRESS | FIELD_LABEL_SIZE | FIELD_LABEL_TEXT

datatype pfunction = FUNC_TOTAL | FUNC_FIELD | FUNC_CODE | FUNC_WORDS

datatype policy_value =
    NUMBER int
  | WORD cstr
  | TABLE ptable
  | FIELD pfield
  | VARIABLE cstr
  | FUNCTION pfunction "policy_value list"
  | LIST "policy_value list"

datatype policy_instruction =
    INST_CHAIN policy_value
  | INST_OFFSET policy_value
  | INST_WRITE policy_value
  | KEYWORD_FOR cstr policy_value policy_value "policy_instruction list"

datatype policy_type = POLICY_INTERNAL | POLICY_FORMAT

record policy_t =
  po_type :: policy_type
  po_name :: cstr
  po_instructions :: "policy_instruction list"

record policies_t =
  ps_policies :: "policy_t list"
  ps_settings :: "(cstr \<times> cstr) list option"

section \<open>Lookup\<close>

text \<open>
  A policy is identified by its position in the list. The iterator of the list is not stopped
  when no policy has the name, and an iterator that is still active is not started again, so
  every later search finds nothing; the flag says whether that has happened.
\<close>

fun find_policy :: "policy_t list \<Rightarrow> cstr \<Rightarrow> nat \<Rightarrow> nat option" where
  "find_policy [] name i = None"
| "find_policy (p # ps) name i = (if po_name p = name then Some i else find_policy ps name (Suc i))"

definition policies_get_policy :: "policies_t \<Rightarrow> cstr \<Rightarrow> bool \<Rightarrow> nat option \<times> bool" where
  "policies_get_policy policies name stuck =
     (if stuck then (None, True)
      else (let found = find_policy (ps_policies policies) name 0 in (found, found = None)))"

lemma find_policy_bounds: "find_policy ps name i = Some j \<Longrightarrow> i \<le> j \<and> j < i + length ps \<and> po_name (ps ! (j - i)) = name"
  by (induction ps arbitrary: i) (force simp: nth_Cons' split: if_splits)+

definition policies_get_settings :: "policies_t \<Rightarrow> (cstr \<times> cstr) list option" where
  "policies_get_settings policies = ps_settings policies"

definition policies_get_setting :: "policies_t \<Rightarrow> cstr \<Rightarrow> cstr option" where
  "policies_get_setting policies key =
     (case ps_settings policies of None \<Rightarrow> None | Some settings \<Rightarrow> map_of settings key)"

end
