(* ===== verification/Ld_Call.thy ===== *)
theory Ld_Call
  imports Ld_Bins Policy
begin

text \<open>
  Kernel calls (\<^verbatim>\<open>libdcpu-ld/ldcall.c\<close>, \<^verbatim>\<open>ccstackcall.c\<close>, \<^verbatim>\<open>ccregistercall.c\<close>,
  \<^verbatim>\<open>ccregisterdirect.c\<close>, and \<^verbatim>\<open>bins_resolve_kernel\<close> of \<^verbatim>\<open>ldbins.c\<close>): for each \<^verbatim>\<open>.CALL\<close> of a
  flattened program the calling sequence that the settings of the policy choose is inserted.
\<close>

section \<open>Numbers in settings\<close>

definition is_space :: "u8 \<Rightarrow> bool" where
  "is_space c \<longleftrightarrow> c = 32 \<or> 9 \<le> c \<and> c \<le> 13"

definition digit_value :: "u8 \<Rightarrow> nat option" where
  "digit_value c =
     (if 48 \<le> c \<and> c \<le> 57 then Some (unat (c - 48))
      else if 97 \<le> c \<and> c \<le> 122 then Some (unat (c - 97) + 10)
      else if 65 \<le> c \<and> c \<le> 90 then Some (unat (c - 65) + 10) else None)"

fun digits :: "nat \<Rightarrow> cstr \<Rightarrow> nat \<Rightarrow> nat" where
  "digits base [] n = n"
| "digits base (c # cs) n =
     (case digit_value c of
        None \<Rightarrow> n
      | Some d \<Rightarrow> if d < base then digits base cs (n * base + d) else n)"

text \<open>
  \<^verbatim>\<open>strtoul\<close>: leading space, a sign, a prefix \<^verbatim>\<open>0x\<close> in base 16 when a digit follows it. A value
  that does not fit is the largest \<open>unsigned long\<close>; a minus sign negates.
\<close>

definition strtoul :: "cstr \<Rightarrow> nat \<Rightarrow> u64" where
  "strtoul s base =
     (let s = dropWhile is_space s;
          neg = (s \<noteq> [] \<and> hd s = 45);
          s = (if s \<noteq> [] \<and> (hd s = 45 \<or> hd s = 43) then tl s else s);
          s = (if base = 16 \<and> length s \<ge> 3 \<and> s ! 0 = 48 \<and> (s ! 1 = 120 \<or> s ! 1 = 88) \<and>
                  (\<exists>d < 16. digit_value (s ! 2) = Some d)
               then drop 2 s else s);
          n = digits base s 0
      in if n \<ge> 2 ^ 64 then -1 else if neg then - of_nat n else of_nat n)"

definition setting_value :: "cstr \<Rightarrow> u16" where
  "setting_value text = ucast (strtoul text (if length text > 1 \<and> text ! 1 = 120 then 16 else 10))"

section \<open>Inserting code at a call\<close>

text \<open>
  The call is the entry \<open>k\<close> of the call table of \<open>bin\<close>. The words are put into a temporary
  bin and moved to the address of the entry.
\<close>

definition call_entry :: "bref \<Rightarrow> nat \<Rightarrow> ldstate \<Rightarrow> lconv_entry ldres" where
  "call_entry bin k st =
     ld_bind (defined (l_heap st bin)) (\<lambda>b.
     ld_bind (defined (b_tabs b TCall)) (\<lambda>l.
     ld_bind (ensure (k < length (elems l))) (\<lambda>_. Ret (elems l ! k))))"

definition insert_call :: "bref list \<Rightarrow> bref \<Rightarrow> u16 \<Rightarrow> u16 list \<Rightarrow> ldstate \<Rightarrow> ldstate ldres" where
  "insert_call all bin address words st =
     (let (temp, st) = alloc_bin (foldl bin_write (bin_create (c_str ''<temp>'') True) words) st in
     ld_bind (defined (bin_move all bin temp (unat address) 0 (length words) (l_heap st))) (\<lambda>h.
       Ret (st\<lparr>l_heap := bin_destroy h temp\<rparr>)))"

text \<open>The address stays 0 when no entry of the jump table has the label.\<close>

definition jump_target :: "lconv_entry list \<Rightarrow> cstr option \<Rightarrow> u16" where
  "jump_target jumps label =
     (case List.find (\<lambda>j. biseq (ce_label j) label) jumps of None \<Rightarrow> 0 | Some j \<Rightarrow> ce_address j)"

definition generate_jump :: "bref list \<Rightarrow> bref \<Rightarrow> nat \<Rightarrow> ldstate \<Rightarrow> ldstate ldres" where
  "generate_jump all bin k st =
     ld_bind (call_entry bin k st) (\<lambda>call.
     ld_bind (defined (l_heap st bin)) (\<lambda>b.
       case b_tabs b TJump of
         None \<Rightarrow> ld_bind (ensure (ce_label call \<noteq> None)) (\<lambda>_. Halt ERR_LABEL_NOT_FOUND (ce_label call))
       | Some jumps \<Rightarrow>
           insert_call all bin (ce_address call)
             [INSTRUCTION_CREATE OP_NONBASIC NBOP_JSR NXT, jump_target (elems jumps) (ce_label call)] st))"

text \<open>The interrupt number and the number of arguments of a call.\<close>

definition call_setting :: "string \<Rightarrow> cstr option \<Rightarrow> cstr" where
  "call_setting prefix label =
     c_str prefix @ (case label of None \<Rightarrow> [] | Some l \<Rightarrow> l) @ c_str '')''"

definition interrupt_parameters :: "policies_t \<Rightarrow> lconv_entry \<Rightarrow> (u16 \<times> u16) ldres" where
  "interrupt_parameters policies call =
     (case (policies_get_setting policies (call_setting ''interrupt-call('' (ce_label call)),
            policies_get_setting policies (call_setting ''interrupt-size('' (ce_label call))) of
        (Some call_text, Some size_text) \<Rightarrow> Ret (setting_value call_text, setting_value size_text)
      | _ \<Rightarrow> ld_bind (ensure (ce_label call \<noteq> None)) (\<lambda>_.
               Halt ERR_CALL_MISSING_INTERRUPT_PARAMETERS (ce_label call)))"

section \<open>Calling conventions\<close>

definition ccregistercall_words :: "u16 \<Rightarrow> u16 \<Rightarrow> u16 list" where
  "ccregistercall_words call_result size_result =
     (if size_result < 4 then [INSTRUCTION_CREATE OP_SET PUSH_POP 0x20] else []) @
     [INSTRUCTION_CREATE OP_NONBASIC NBOP_INT NXT_LIT, call_result] @
     (if size_result \<le> 3 then [INSTRUCTION_CREATE OP_SET REG_A PUSH_POP]
      else [INSTRUCTION_CREATE OP_SET REG_A PEEK, INSTRUCTION_CREATE OP_ADD SP_val NXT_LIT, size_result - 3])"

definition generate_ccregistercall :: "policies_t \<Rightarrow> bref list \<Rightarrow> bref \<Rightarrow> nat \<Rightarrow> ldstate \<Rightarrow> ldstate ldres" where
  "generate_ccregistercall policies all bin k st =
     ld_bind (call_entry bin k st) (\<lambda>call.
     ld_bind (interrupt_parameters policies call) (\<lambda>(call_result, size_result).
       insert_call all bin (ce_address call) (ccregistercall_words call_result size_result) st))"

definition ccregisterdirect_words :: "u16 \<Rightarrow> u16 \<Rightarrow> u16 list" where
  "ccregisterdirect_words call_result size_result =
     [INSTRUCTION_CREATE OP_NONBASIC NBOP_INT NXT_LIT, call_result] @
     (if size_result > 3 then [INSTRUCTION_CREATE OP_ADD SP_val NXT_LIT, size_result - 3] else [])"

definition generate_ccregisterdirect :: "policies_t \<Rightarrow> bref list \<Rightarrow> bref \<Rightarrow> nat \<Rightarrow> ldstate \<Rightarrow> ldstate ldres" where
  "generate_ccregisterdirect policies all bin k st =
     ld_bind (call_entry bin k st) (\<lambda>call.
     ld_bind (interrupt_parameters policies call) (\<lambda>(call_result, size_result).
       insert_call all bin (ce_address call) (ccregisterdirect_words call_result size_result) st))"

text \<open>With 65535 arguments the 16-bit loop variable never passes the bound.\<close>

definition ccstackcall_words :: "u16 \<Rightarrow> u16 \<Rightarrow> u16 list" where
  "ccstackcall_words call_result size_result =
     (if size_result = 0 then [INSTRUCTION_CREATE OP_SET PUSH_POP 0x20] else []) @
     (if size_result \<ge> 1 then [INSTRUCTION_CREATE OP_SET PUSH_POP REG_A] else []) @
     (if size_result \<ge> 2 then [INSTRUCTION_CREATE OP_SET PUSH_POP REG_B] else []) @
     (if size_result \<ge> 3 then [INSTRUCTION_CREATE OP_SET PUSH_POP REG_C] else []) @
     concat (replicate (unat size_result - 3) [INSTRUCTION_CREATE OP_SET PUSH_POP PICK, - size_result]) @
     [INSTRUCTION_CREATE OP_NONBASIC NBOP_INT NXT_LIT, call_result,
      INSTRUCTION_CREATE OP_SET REG_A PEEK, INSTRUCTION_CREATE OP_ADD SP_val NXT_LIT,
      size_result + (size_result - 3)]"

definition generate_ccstackcall :: "policies_t \<Rightarrow> bref list \<Rightarrow> bref \<Rightarrow> nat \<Rightarrow> ldstate \<Rightarrow> ldstate ldres" where
  "generate_ccstackcall policies all bin k st =
     ld_bind (call_entry bin k st) (\<lambda>call.
     ld_bind (interrupt_parameters policies call) (\<lambda>(call_result, size_result).
     ld_bind (ensure (size_result \<noteq> 0xFFFF)) (\<lambda>_.
       insert_call all bin (ce_address call) (ccstackcall_words call_result size_result) st)))"

section \<open>Dispatch\<close>

definition lower :: "u8 \<Rightarrow> u8" where
  "lower c = (if 65 \<le> c \<and> c \<le> 90 then c + 32 else c)"

definition biseqcstrcaseless :: "cstr \<Rightarrow> string \<Rightarrow> bool" where
  "biseqcstrcaseless s t \<longleftrightarrow> map lower s = map lower (c_str t)"

definition ldcall_generate :: "policies_t \<Rightarrow> bref list \<Rightarrow> bref \<Rightarrow> nat \<Rightarrow> ldstate \<Rightarrow> ldstate ldres" where
  "ldcall_generate policies all bin k st =
     (if ps_settings policies = None then Halt ERR_CALL_NO_SETTINGS None
      else
        (case (policies_get_setting policies (c_str ''jumplist''), policies_get_setting policies (c_str ''interrupt-call'')) of
           (Some _, Some _) \<Rightarrow> Halt ERR_CALL_CONVENTION_AMBIGIOUS None
         | (None, None) \<Rightarrow> Halt ERR_CALL_CONVENTION_MISSING None
         | (Some _, None) \<Rightarrow> generate_jump all bin k st
         | (None, Some interrupt_call) \<Rightarrow>
             if biseqcstrcaseless interrupt_call ''stack-call'' then generate_ccstackcall policies all bin k st
             else if biseqcstrcaseless interrupt_call ''register-call'' then generate_ccregistercall policies all bin k st
             else if biseqcstrcaseless interrupt_call ''register-direct'' then generate_ccregisterdirect policies all bin k st
             else Halt ERR_CALL_CONVENTION_UNKNOWN None))"

text \<open>The call table is being iterated over, so that the insertions move its entries and add none.\<close>

fun resolve_calls :: "policies_t \<Rightarrow> bref list \<Rightarrow> bref \<Rightarrow> nat \<Rightarrow> nat \<Rightarrow> ldstate \<Rightarrow> ldstate ldres" where
  "resolve_calls policies all bin k 0 st = Ret st"
| "resolve_calls policies all bin k (Suc n) st =
     ld_bind (ldcall_generate policies all bin k st) (\<lambda>st. resolve_calls policies all bin (Suc k) n st)"

definition bins_resolve_kernel :: "policies_t \<Rightarrow> ldstate \<Rightarrow> ldstate ldres" where
  "bins_resolve_kernel policies st =
     (case l_bins st of
        [bin] \<Rightarrow>
          ld_bind (defined (l_heap st bin)) (\<lambda>b.
          ld_bind (defined (b_tabs b TCall)) (\<lambda>calls.
          ld_bind (resolve_calls policies (l_bins st) bin 0 (length (elems calls)) (put_bin bin (set_iterating TCall True b) st)) (\<lambda>st.
          ld_bind (defined (l_heap st bin)) (\<lambda>b.
            Ret (put_bin bin (set_iterating TCall False b) st)))))
      | _ \<Rightarrow> Undef)"

end
