(* ===== verification/Ld_Limits.thy ===== *)
theory Ld_Limits
  imports Ld_Flatten Ld_Files Ld_Call
begin

text \<open>
  Inputs on which the linker does not do what it means to do: the boundaries of the theorems
  of the theories before this one, as evaluated examples.
\<close>

section \<open>Where the linker goes wrong\<close>

text \<open>
  A reference from one section of a file to a later one. Section \<open>A\<close> (three words) refers to
  the second word of section \<open>B\<close>.
\<close>

definition stale_bin :: ldbin where
  "stale_bin = \<lparr>b_name = [1], b_tabs = (\<lambda>t. if t = TSection then Some (demo_list [lab [0x41] 0, lab [0x42] 3])
     else if t = TAdjustment then Some (demo_list [\<lparr>ce_label = None, ce_bin = Some [1], ce_address = 1\<rparr>])
     else Some list_create), b_symbols = Some new_list, b_words = [10, 4, 12, 20, 21]\<rparr>"

definition stale_state :: ldstate where
  "stale_state = \<lparr>l_heap = (\<lambda>_. None)(0 := Some stale_bin), l_bins = [0], l_next = 1, l_iio = iio_initial, l_fs = (\<lambda>_. None)\<rparr>"

fun after :: "ldstate ldres \<Rightarrow> bref \<Rightarrow> (nat \<times> u16 list \<times> lconv_entry list) option" where
  "after (Ret st) p = map_option (\<lambda>b. (length (l_bins st), b_words b, adj_list b)) (l_heap st p)"
| "after _ p = None"

text \<open>
  Splitting moves the three words of \<open>A\<close> into a new bin; as that bin is not yet in the list
  of bins when \<open>B\<close> is moved out, its reference still names the file, which is then empty, at
  the old address. Flattening after that reads the released name of the file.
\<close>

lemma sectionize_stale_reference:
  "after (bins_sectionize stale_state) 0 = Some (3, [], [])"
  "after (bins_sectionize stale_state) 1 = Some (3, [10, 4, 12], [\<lparr>ce_label = None, ce_bin = Some [1], ce_address = 1\<rparr>])"
  "after (bins_sectionize stale_state) 2 = Some (3, [20, 21], [])"
  by code_simp+

text \<open>
  Compression takes the operand of a register-relative operand for an instruction: of
  \<open>SET [A + 0x7c01], B\<close> and the data word 5 that follows, the data word is removed and the
  offset is changed.
\<close>

definition relative_bin :: ldbin where
  "relative_bin = \<lparr>b_name = [1], b_tabs = (\<lambda>_. Some list_create), b_symbols = Some new_list,
     b_words = [INSTRUCTION_CREATE OP_SET NXT_VAL_A REG_B, 0x7c01, 5]\<rparr>"

fun compressed :: "(u16 \<times> ldstate) ldres \<Rightarrow> (u16 \<times> u16 list) option" where
  "compressed (Ret (n, st)) = map_option (\<lambda>b. (n, b_words b)) (l_heap st 0)"
| "compressed _ = None"

lemma compress_corrupts:
  "compressed (bins_compress (stale_state\<lparr>l_heap := (\<lambda>_. None)(0 := Some relative_bin)\<rparr>)) =
     Some (1, [INSTRUCTION_CREATE OP_SET NXT_VAL_A REG_B, INSTRUCTION_CREATE OP_SET REG_A 0x26])"
  by code_simp

text \<open>
  The stack convention pushes a word per argument and one when there is none; the words it
  pops match these and the arguments that the caller pushed only from three arguments on.
\<close>

definition stackcall_pushes :: "u16 \<Rightarrow> nat" where
  "stackcall_pushes n = length (filter (\<lambda>w. INSTRUCTION_GET_OP w = OP_SET \<and> INSTRUCTION_GET_B w = PUSH_POP)
     (takeWhile (\<lambda>w. w \<noteq> INSTRUCTION_CREATE OP_NONBASIC NBOP_INT NXT_LIT) (ccstackcall_words 0 n)))"

lemma stackcall_unbalanced:
  "(stackcall_pushes 0, last (ccstackcall_words 0 0)) = (1, 0xFFFD)"
  "(stackcall_pushes 1, last (ccstackcall_words 0 1)) = (1, 0xFFFF)"
  "(stackcall_pushes 2, last (ccstackcall_words 0 2)) = (2, 1)"
  "(stackcall_pushes 3, last (ccstackcall_words 0 3)) = (3, 3)"
  by code_simp+

text \<open>A call whose name is not in the jump table is linked to address 0 without an error.\<close>

lemma jump_target_missing: "jump_target [lab [0x61] 7] (Some [0x62]) = 0"
  by code_simp

text \<open>
  A word that names a label behind the last word of its file is not in the range that is moved:
  it keeps its old value and the name of the file, which flattening then releases.
\<close>

definition end_heap :: bheap where
  "end_heap = (\<lambda>_. None)(0 := Some (flat_bin 1 1 [10, 2, 12]), 1 := Some (flat_bin 2 0 [2, 21]), 2 := Some (flat_new [9]))"

fun heap_words :: "bheap ldres \<Rightarrow> bref \<Rightarrow> (u16 list \<times> cstr option list) option" where
  "heap_words (Ret h) p = map_option (\<lambda>b. (b_words b, map ce_bin (adj_list b))) (h p)"
| "heap_words _ p = None"

lemma end_label_not_moved:
  "heap_words (flatten_files [0, 1] 2 [0, 1] end_heap) 2 = Some ([10, 2, 12, 2, 21], [Some [9], Some [2]])"
  "\<not> returned (bins_flatten [9] (flat_state\<lparr>l_heap := end_heap(2 := None)\<rparr>))"
  by code_simp+

end
