(* ===== verification/Policy_Exec.thy ===== *)
theory Policy_Exec
  imports Ld_Bins Policy
begin

text \<open>
  Execution of policies (\<^verbatim>\<open>libdcpu-ld-policy/policyexec.c\<close>). The effects of a policy are the
  handlers of the execution state, a record of functions here. The linker provides a set of them
  (\<open>Ld_Policy\<close>); those of the policy tool (\<^verbatim>\<open>dtpolicy/main.c\<close>) print what they are called with.

  A list of instructions is iterated over with the iterator that is part of the list, so a
  policy that is chained into while it is running continues where it stands, and the outer
  execution ends when the inner one has. The positions of the iterators are therefore part
  of the state. A list is named by the position of its policy and the positions of the loops
  around it.

  Execution may not end, so it takes fuel; \<open>None\<close> means that the fuel has run out.
\<close>

section \<open>Values\<close>

text \<open>
  Runtime values. An element of a list is \<open>None\<close> where the evaluation returned a null pointer.
\<close>

datatype pvalue =
    PNumber int
  | PTable ptable
  | PField pfield
  | PWord cstr
  | PList "pvalue option list"

record 'u policy_calls =
  call_offset :: "int \<Rightarrow> 'u \<Rightarrow> 'u ldres"
  call_write :: "u16 list \<Rightarrow> 'u \<Rightarrow> 'u ldres"
  call_total_table :: "ptable \<Rightarrow> 'u \<Rightarrow> (int \<times> 'u) ldres"
  call_field :: "ptable \<Rightarrow> int \<Rightarrow> pfield \<Rightarrow> 'u \<Rightarrow> (u16 list \<times> 'u) ldres"
  call_code :: "'u \<Rightarrow> (u16 list \<times> 'u) ldres"
  call_error :: "cstr \<Rightarrow> 'u \<Rightarrow> 'u ldres"

text \<open>Variables only hold numbers: the loop that declares one has checked that.\<close>

type_synonym pvars = "(cstr \<times> int) list"

definition words_value :: "u16 list \<Rightarrow> pvalue" where
  "words_value ws = PList (map (\<lambda>w. Some (PNumber (uint w))) ws)"

text \<open>
  Evaluation of a list literal runs into the case of a variable with the pointer to the list
  in place of the name, which is undefined; the grammar has no list literals.
\<close>

fun function_evaluate :: "'u policy_calls \<Rightarrow> pvars \<Rightarrow> pfunction \<Rightarrow> policy_value list \<Rightarrow> 'u \<Rightarrow> (pvalue option \<times> 'u) ldres"
  and value_evaluate :: "'u policy_calls \<Rightarrow> pvars \<Rightarrow> policy_value \<Rightarrow> 'u \<Rightarrow> (pvalue option \<times> 'u) ldres"
  and words_evaluate :: "'u policy_calls \<Rightarrow> pvars \<Rightarrow> policy_value list \<Rightarrow> 'u \<Rightarrow> (pvalue option list \<times> 'u) ldres" where
  "function_evaluate calls vars FUNC_TOTAL parameters u =
     (case parameters of
        [TABLE t] \<Rightarrow> ld_bind (call_total_table calls t u) (\<lambda>(n, u). Ret (Some (PNumber n), u))
      | _ \<Rightarrow> Undef)"
| "function_evaluate calls vars FUNC_FIELD parameters u =
     (case parameters of
        [TABLE t, NUMBER n, FIELD f] \<Rightarrow>
          ld_bind (call_field calls t n f u) (\<lambda>(ws, u). Ret (Some (words_value ws), u))
      | [TABLE t, VARIABLE x, FIELD f] \<Rightarrow>
          ld_bind (value_evaluate calls vars (VARIABLE x) u) (\<lambda>(v, u).
            case v of
              None \<Rightarrow> Ret (None, u)
            | Some (PNumber n) \<Rightarrow> ld_bind (call_field calls t n f u) (\<lambda>(ws, u). Ret (Some (words_value ws), u))
            | _ \<Rightarrow> Undef)
      | _ \<Rightarrow> Undef)"
| "function_evaluate calls vars FUNC_CODE parameters u =
     (if parameters = [] then ld_bind (call_code calls u) (\<lambda>(ws, u). Ret (Some (words_value ws), u)) else Undef)"
| "function_evaluate calls vars FUNC_WORDS parameters u =
     ld_bind (words_evaluate calls vars parameters u) (\<lambda>(vs, u). Ret (Some (PList vs), u))"
| "value_evaluate calls vars (NUMBER n) u = Ret (Some (PNumber n), u)"
| "value_evaluate calls vars (WORD w) u = Ret (Some (PWord w), u)"
| "value_evaluate calls vars (TABLE t) u = Ret (Some (PTable t), u)"
| "value_evaluate calls vars (FIELD f) u = Ret (Some (PField f), u)"
| "value_evaluate calls vars (LIST vs) u = Undef"
| "value_evaluate calls vars (VARIABLE x) u =
     (case map_of vars x of
        Some n \<Rightarrow> Ret (Some (PNumber n), u)
      | None \<Rightarrow> ld_bind (call_error calls (c_str ''referenced variable '' @ [39] @ x @ [39] @ c_str '' was not found.'') u)
          (\<lambda>u. Ret (None, u)))"
| "value_evaluate calls vars (FUNCTION f parameters) u = function_evaluate calls vars f parameters u"
| "words_evaluate calls vars [] u = Ret ([], u)"
| "words_evaluate calls vars (p # ps) u =
     ld_bind (value_evaluate calls vars p u) (\<lambda>(v, u).
     ld_bind (words_evaluate calls vars ps u) (\<lambda>(vs, u). Ret (v # vs, u)))"

text \<open>The words that are written for a list; only numbers have a number.\<close>

fun number_words :: "pvalue option list \<Rightarrow> u16 list ldres" where
  "number_words [] = Ret []"
| "number_words (Some (PNumber n) # vs) = ld_bind (number_words vs) (\<lambda>ws. Ret (word_of_int n # ws))"
| "number_words (_ # vs) = Undef"

lemma number_words_words [simp]: "number_words (map (\<lambda>w. Some (PNumber (uint w))) ws) = Ret ws"
  by (induction ws) simp_all

section \<open>Instructions\<close>

type_synonym plist = "nat \<times> nat list"

record 'u pexec =
  x_iters :: "plist \<Rightarrow> nat option"
  x_stuck :: bool
  x_vars :: pvars
  x_user :: 'u

fun pbind :: "'a ldres option \<Rightarrow> ('a \<Rightarrow> 'b ldres option) \<Rightarrow> 'b ldres option" where
  "pbind None f = None"
| "pbind (Some Undef) f = Some Undef"
| "pbind (Some (Halt e d)) f = Some (Halt e d)"
| "pbind (Some (Ret x)) f = f x"

definition iter_start :: "plist \<Rightarrow> 'u pexec \<Rightarrow> 'u pexec" where
  "iter_start l x = (if x_iters x l = None then x\<lparr>x_iters := (x_iters x)(l \<mapsto> 0)\<rparr> else x)"

definition iter_stop :: "plist \<Rightarrow> 'u pexec \<Rightarrow> 'u pexec" where
  "iter_stop l x = x\<lparr>x_iters := (x_iters x)(l := None)\<rparr>"

definition policy_error :: "'u policy_calls \<Rightarrow> cstr \<Rightarrow> 'u pexec \<Rightarrow> 'u pexec ldres" where
  "policy_error calls msg x = ld_bind (call_error calls msg (x_user x)) (\<lambda>u. Ret (x\<lparr>x_user := u\<rparr>))"

definition exec_value :: "'u policy_calls \<Rightarrow> policy_value \<Rightarrow> 'u pexec \<Rightarrow> (pvalue option \<times> 'u pexec) ldres" where
  "exec_value calls v x =
     ld_bind (value_evaluate calls (x_vars x) v (x_user x)) (\<lambda>(v, u). Ret (v, x\<lparr>x_user := u\<rparr>))"

text \<open>
  The instructions without a body. The flag says whether execution goes on with the next
  instruction; it does not after an error whose handler returns.
\<close>

definition exec_offset :: "'u policy_calls \<Rightarrow> plist \<Rightarrow> policy_value \<Rightarrow> 'u pexec \<Rightarrow> (bool \<times> 'u pexec) ldres" where
  "exec_offset calls l v x =
     ld_bind (exec_value calls v x) (\<lambda>(v, x).
       case v of
         None \<Rightarrow> Undef
       | Some (PNumber n) \<Rightarrow> ld_bind (call_offset calls n (x_user x)) (\<lambda>u. Ret (True, x\<lparr>x_user := u\<rparr>))
       | Some _ \<Rightarrow> ld_bind (policy_error calls (c_str ''expected numeric value for parameter to offset().'') x)
           (\<lambda>x. Ret (False, iter_stop l x)))"

definition exec_write :: "'u policy_calls \<Rightarrow> plist \<Rightarrow> policy_value \<Rightarrow> 'u pexec \<Rightarrow> (bool \<times> 'u pexec) ldres" where
  "exec_write calls l v x =
     ld_bind (exec_value calls v x) (\<lambda>(v, x).
       case v of
         None \<Rightarrow> Ret (False, x)
       | Some (PList vs) \<Rightarrow>
           ld_bind (number_words vs) (\<lambda>ws.
           ld_bind (call_write calls ws (x_user x)) (\<lambda>u. Ret (True, x\<lparr>x_user := u\<rparr>)))
       | Some (PNumber n) \<Rightarrow>
           ld_bind (call_write calls [word_of_int n] (x_user x)) (\<lambda>u. Ret (True, x\<lparr>x_user := u\<rparr>))
       | Some _ \<Rightarrow> ld_bind (policy_error calls (c_str ''expected numeric or list value for parameter to write().'') x)
           (\<lambda>x. Ret (False, iter_stop l x)))"

text \<open>
  The head of a loop: the start and the end. \<open>Inl\<close> is the return after an error.
\<close>

definition exec_for_head ::
    "'u policy_calls \<Rightarrow> cstr \<Rightarrow> policy_value \<Rightarrow> policy_value \<Rightarrow> 'u pexec \<Rightarrow> ('u pexec + int \<times> int \<times> 'u pexec) ldres" where
  "exec_for_head calls name start until x =
     (if map_of (x_vars x) name \<noteq> None
      then ld_bind (policy_error calls (c_str ''variable already declared in this scope '' @ [39] @ name @ [39] @ c_str ''.'') x)
             (\<lambda>x. Ret (Inl x))
      else
        ld_bind (exec_value calls start x) (\<lambda>(v, x).
        ld_bind (exec_value calls until x) (\<lambda>(target, x).
          case target of
            None \<Rightarrow> Undef
          | Some (PNumber t) \<Rightarrow>
              (case v of
                 None \<Rightarrow> Undef
               | Some (PNumber n) \<Rightarrow> Ret (Inr (n, t, x))
               | Some _ \<Rightarrow> ld_bind (policy_error calls (c_str ''for loop start / variable '' @ [39] @ name @ [39] @
                     c_str '' must contain numeric value for iteration.'') x) (\<lambda>x. Ret (Inl x)))
          | Some _ \<Rightarrow> ld_bind (policy_error calls (c_str ''for loop end must result in numeric value.'') x)
              (\<lambda>x. Ret (Inl x)))))"

function instructions_execute ::
    "nat \<Rightarrow> policies_t \<Rightarrow> 'u policy_calls \<Rightarrow> plist \<Rightarrow> policy_instruction list \<Rightarrow> 'u pexec \<Rightarrow> 'u pexec ldres option"
  and exec_loop ::
    "nat \<Rightarrow> policies_t \<Rightarrow> 'u policy_calls \<Rightarrow> plist \<Rightarrow> policy_instruction list \<Rightarrow> 'u pexec \<Rightarrow> 'u pexec ldres option"
  and exec_instruction ::
    "nat \<Rightarrow> policies_t \<Rightarrow> 'u policy_calls \<Rightarrow> plist \<Rightarrow> nat \<Rightarrow> policy_instruction \<Rightarrow> 'u pexec \<Rightarrow> (bool \<times> 'u pexec) ldres option"
  and exec_for ::
    "nat \<Rightarrow> policies_t \<Rightarrow> 'u policy_calls \<Rightarrow> plist \<Rightarrow> policy_instruction list \<Rightarrow> nat \<Rightarrow> cstr \<Rightarrow> int \<Rightarrow> int \<Rightarrow>
       'u pexec \<Rightarrow> 'u pexec ldres option" where
  "instructions_execute 0 P calls l insts x = None"
| "instructions_execute (Suc n) P calls l insts x = exec_loop n P calls l insts (iter_start l x)"
| "exec_loop 0 P calls l insts x = None"
| "exec_loop (Suc n) P calls l insts x =
     (case x_iters x l of
        Some k \<Rightarrow>
          if k < length insts
          then pbind (exec_instruction n P calls l k (insts ! k) (x\<lparr>x_iters := (x_iters x)(l \<mapsto> Suc k)\<rparr>)) (\<lambda>(goes_on, x).
                 if goes_on then exec_loop n P calls l insts x else Some (Ret x))
          else Some (Ret (iter_stop l x))
      | None \<Rightarrow> Some (Ret x))"
| "exec_instruction 0 P calls l k inst x = None"
| "exec_instruction (Suc n) P calls l k (INST_CHAIN v) x =
     (case v of
        WORD name \<Rightarrow>
          (case policies_get_policy P name (x_stuck x) of
             (None, stuck) \<Rightarrow>
               Some (ld_bind (policy_error calls (c_str ''policy to chain into not found.'') (x\<lparr>x_stuck := stuck\<rparr>))
                 (\<lambda>x. Ret (False, iter_stop l x)))
           | (Some i, stuck) \<Rightarrow>
               pbind (instructions_execute n P calls (i, []) (po_instructions (ps_policies P ! i))
                   (x\<lparr>x_stuck := stuck, x_vars := []\<rparr>))
                 (\<lambda>y. Some (Ret (True, y\<lparr>x_vars := x_vars x\<rparr>))))
      | _ \<Rightarrow> Some Undef)"
| "exec_instruction (Suc n) P calls l k (INST_OFFSET v) x = Some (exec_offset calls l v x)"
| "exec_instruction (Suc n) P calls l k (INST_WRITE v) x = Some (exec_write calls l v x)"
| "exec_instruction (Suc n) P calls l k (KEYWORD_FOR name start until body) x =
     pbind (Some (exec_for_head calls name start until x)) (\<lambda>r.
       case r of
         Inl x \<Rightarrow> Some (Ret (False, x))
       | Inr (i, t, x) \<Rightarrow>
           (let at = length (x_vars x) in
            pbind (exec_for n P calls (fst l, snd l @ [k]) body at name i t (x\<lparr>x_vars := x_vars x @ [(name, i)]\<rparr>))
              (\<lambda>x. Some (Ret (True, x\<lparr>x_vars := take at (x_vars x) @ drop (Suc at) (x_vars x)\<rparr>)))))"
| "exec_for 0 P calls l body at name i t x = None"
| "exec_for (Suc n) P calls l body at name i t x =
     (if i < t
      then pbind (instructions_execute n P calls l body (x\<lparr>x_vars := (x_vars x)[at := (name, i)]\<rparr>))
             (\<lambda>x. exec_for n P calls l body at name (i + 1) t x)
      else Some (Ret x))"
  by pat_completeness auto

termination
  by (relation "measure (\<lambda>c. case c of
      Inl (Inl (n, _)) \<Rightarrow> n | Inl (Inr (n, _)) \<Rightarrow> n | Inr (Inl (n, _)) \<Rightarrow> n | Inr (Inr (n, _)) \<Rightarrow> n)") auto

text \<open>A policy is run by its position, in the fresh state of \<^verbatim>\<open>state_from_policy\<close>.\<close>

definition state_from_policy :: "'u \<Rightarrow> 'u pexec" where
  "state_from_policy u = \<lparr>x_iters = (\<lambda>_. None), x_stuck = False, x_vars = [], x_user = u\<rparr>"

definition policy_execute :: "nat \<Rightarrow> policies_t \<Rightarrow> 'u policy_calls \<Rightarrow> nat \<Rightarrow> 'u pexec \<Rightarrow> 'u pexec ldres option" where
  "policy_execute fuel P calls i x = instructions_execute fuel P calls (i, []) (po_instructions (ps_policies P ! i)) x"

declare instructions_execute.simps(2) [simp del] exec_loop.simps(2) [simp del]
  exec_instruction.simps(2-5) [simp del] exec_for.simps(2) [simp del]

section \<open>Fuel\<close>

text \<open>More fuel does not change a result: results are ordered with \<open>None\<close> below all others.\<close>

definition fuel_le :: "'a option \<Rightarrow> 'a option \<Rightarrow> bool" where
  "fuel_le m m' \<longleftrightarrow> m = None \<or> m' = m"

lemma fuel_le_None [simp, intro]: "fuel_le None m"
  and fuel_le_refl [simp, intro]: "fuel_le m m"
  and fuel_le_Some: "fuel_le m m' \<Longrightarrow> m = Some r \<Longrightarrow> m' = Some r"
  by (auto simp: fuel_le_def)

lemma fuel_le_trans: "fuel_le a b \<Longrightarrow> fuel_le b c \<Longrightarrow> fuel_le a c"
  by (auto simp: fuel_le_def)

lemma pbind_mono [intro]: "fuel_le m m' \<Longrightarrow> (\<And>x. fuel_le (f x) (f' x)) \<Longrightarrow> fuel_le (pbind m f) (pbind m' f')"
  by (cases "(m, f)" rule: pbind.cases) (auto simp: fuel_le_def)

lemma exec_mono:
  "fuel_le (instructions_execute n P calls l insts x) (instructions_execute (Suc n) P calls l insts x)"
  "fuel_le (exec_loop n P calls l insts x) (exec_loop (Suc n) P calls l insts x)"
  "fuel_le (exec_instruction n P calls l k inst x) (exec_instruction (Suc n) P calls l k inst x)"
  "fuel_le (exec_for n P calls l insts at name i t x) (exec_for (Suc n) P calls l insts at name i t x)"
proof (induction n arbitrary: l insts x k inst at name i t)
  case (Suc n)
  {
    case 1 show ?case using Suc.IH(2) by (simp add: instructions_execute.simps(2))
  next
    case 2 show ?case
      by (subst exec_loop.simps(2) [of n], subst exec_loop.simps(2) [of "Suc n"]) (auto split: option.split intro!: Suc.IH pbind_mono)
  next
    case 3 show ?case
      by (cases inst; simp only: exec_instruction.simps)
        (auto split: policy_value.split option.split sum.split prod.split simp: Let_def intro!: Suc.IH pbind_mono)
  next
    case 4 show ?case
      by (subst exec_for.simps(2) [of n], subst exec_for.simps(2) [of "Suc n"]) (auto intro!: Suc.IH pbind_mono)
  }
qed simp_all

lemma exec_mono_le:
  assumes "n \<le> m"
  shows "fuel_le (instructions_execute n P calls l insts x) (instructions_execute m P calls l insts x)"
    and "fuel_le (exec_loop n P calls l insts x) (exec_loop m P calls l insts x)"
    and "fuel_le (exec_instruction n P calls l k inst x) (exec_instruction m P calls l k inst x)"
    and "fuel_le (exec_for n P calls l insts at name i t x) (exec_for m P calls l insts at name i t x)"
  using assms by (induction rule: dec_induct) (auto intro: fuel_le_trans exec_mono)

section \<open>Runs\<close>

text \<open>A run ends with a result when some amount of fuel is enough; then every larger amount is.\<close>

definition run_list where "run_list P calls l insts x r \<longleftrightarrow> (\<exists>n. instructions_execute n P calls l insts x = Some r)"
definition run_loop where "run_loop P calls l insts x r \<longleftrightarrow> (\<exists>n. exec_loop n P calls l insts x = Some r)"
definition run_inst where "run_inst P calls l k inst x r \<longleftrightarrow> (\<exists>n. exec_instruction n P calls l k inst x = Some r)"
definition run_for where
  "run_for P calls l body at name i t x r \<longleftrightarrow> (\<exists>n. exec_for n P calls l body at name i t x = Some r)"

lemma run_list_enough:
  "run_list P calls l insts x r \<Longrightarrow> \<exists>n. \<forall>m \<ge> n. instructions_execute m P calls l insts x = Some r"
  unfolding run_list_def by (metis exec_mono_le(1) fuel_le_Some)

lemma run_listI: "run_loop P calls l insts (iter_start l x) r \<Longrightarrow> run_list P calls l insts x r"
  unfolding run_list_def run_loop_def by (metis instructions_execute.simps(2))

lemma run_loop_end: "x_iters x l = Some k \<Longrightarrow> length insts \<le> k \<Longrightarrow> run_loop P calls l insts x (Ret (iter_stop l x))"
  unfolding run_loop_def by (rule exI [of _ "Suc 0"]) (simp add: exec_loop.simps(2))

lemma run_loop_step:
  assumes "x_iters x l = Some k" and "k < length insts"
    and "run_inst P calls l k (insts ! k) (x\<lparr>x_iters := (x_iters x)(l \<mapsto> Suc k)\<rparr>) (Ret (True, y))"
    and "run_loop P calls l insts y r"
  shows "run_loop P calls l insts x r"
proof -
  obtain a b where a: "exec_instruction a P calls l k (insts ! k) (x\<lparr>x_iters := (x_iters x)(l \<mapsto> Suc k)\<rparr>) = Some (Ret (True, y))"
      and b: "exec_loop b P calls l insts y = Some r"
    using assms by (auto simp: run_inst_def run_loop_def)
  have "exec_instruction (max a b) P calls l k (insts ! k) (x\<lparr>x_iters := (x_iters x)(l \<mapsto> Suc k)\<rparr>) = Some (Ret (True, y))"
      "exec_loop (max a b) P calls l insts y = Some r"
    using fuel_le_Some [OF exec_mono_le(3) a, of "max a b"] fuel_le_Some [OF exec_mono_le(2) b, of "max a b"] by auto
  then have "exec_loop (Suc (max a b)) P calls l insts x = Some r"
    using assms(1,2) by (simp add: exec_loop.simps(2))
  then show ?thesis unfolding run_loop_def by blast
qed

lemma run_for_end: "\<not> i < t \<Longrightarrow> run_for P calls l body at name i t x (Ret x)"
  unfolding run_for_def by (rule exI [of _ "Suc 0"]) (simp add: exec_for.simps(2))

lemma run_for_step:
  assumes "i < t" and "run_list P calls l body (x\<lparr>x_vars := (x_vars x)[at := (name, i)]\<rparr>) (Ret y)"
    and "run_for P calls l body at name (i + 1) t y r"
  shows "run_for P calls l body at name i t x r"
proof -
  obtain a b where a: "instructions_execute a P calls l body (x\<lparr>x_vars := (x_vars x)[at := (name, i)]\<rparr>) = Some (Ret y)"
      and b: "exec_for b P calls l body at name (i + 1) t y = Some r"
    using assms by (auto simp: run_list_def run_for_def)
  have "instructions_execute (max a b) P calls l body (x\<lparr>x_vars := (x_vars x)[at := (name, i)]\<rparr>) = Some (Ret y)"
      "exec_for (max a b) P calls l body at name (i + 1) t y = Some r"
    using fuel_le_Some [OF exec_mono_le(1) a, of "max a b"] fuel_le_Some [OF exec_mono_le(4) b, of "max a b"] by auto
  then have "exec_for (Suc (max a b)) P calls l body at name i t x = Some r"
    using assms(1) by (simp add: exec_for.simps(2))
  then show ?thesis unfolding run_for_def by blast
qed

lemma run_offset: "exec_offset calls l v x = r \<Longrightarrow> run_inst P calls l k (INST_OFFSET v) x r"
  and run_write: "exec_write calls l v x = r \<Longrightarrow> run_inst P calls l k (INST_WRITE v) x r"
  unfolding run_inst_def by (rule exI [of _ "Suc 0"], simp add: exec_instruction.simps)+

lemma run_chain:
  assumes "policies_get_policy P name (x_stuck x) = (Some i, stuck)"
    and "run_list P calls (i, []) (po_instructions (ps_policies P ! i)) (x\<lparr>x_stuck := stuck, x_vars := []\<rparr>) (Ret y)"
  shows "run_inst P calls l k (INST_CHAIN (WORD name)) x (Ret (True, y\<lparr>x_vars := x_vars x\<rparr>))"
proof -
  obtain n where "instructions_execute n P calls (i, []) (po_instructions (ps_policies P ! i))
      (x\<lparr>x_stuck := stuck, x_vars := []\<rparr>) = Some (Ret y)"
    using assms(2) by (auto simp: run_list_def)
  then show ?thesis using assms(1) unfolding run_inst_def by (intro exI [of _ "Suc n"]) (simp add: exec_instruction.simps)
qed

lemma run_for_inst:
  assumes "exec_for_head calls name start until x = Ret (Inr (i, t, y))"
    and "run_for P calls (fst l, snd l @ [k]) body (length (x_vars y)) name i t (y\<lparr>x_vars := x_vars y @ [(name, i)]\<rparr>) (Ret z)"
  shows "run_inst P calls l k (KEYWORD_FOR name start until body) x
     (Ret (True, z\<lparr>x_vars := take (length (x_vars y)) (x_vars z) @ drop (Suc (length (x_vars y))) (x_vars z)\<rparr>))"
proof -
  obtain n where "exec_for n P calls (fst l, snd l @ [k]) body (length (x_vars y)) name i t
      (y\<lparr>x_vars := x_vars y @ [(name, i)]\<rparr>) = Some (Ret z)"
    using assms(2) by (auto simp: run_for_def)
  then show ?thesis using assms(1) unfolding run_inst_def by (intro exI [of _ "Suc n"]) (simp add: exec_instruction.simps Let_def)
qed

section \<open>Structured execution\<close>

text \<open>
  What a policy means when no policy is chained into while it is running: instructions in
  order, a chain as a call with variables of its own, and a loop over the numbers from its
  start to its end. \<open>A\<close> is the set of the running policies.
\<close>

definition written :: "pvalue \<Rightarrow> u16 list ldres" where
  "written v = (case v of PList vs \<Rightarrow> number_words vs | PNumber n \<Rightarrow> Ret [word_of_int n] | _ \<Rightarrow> Undef)"

inductive script :: "policies_t \<Rightarrow> 'u policy_calls \<Rightarrow> nat set \<Rightarrow> pvars \<Rightarrow> policy_instruction list \<Rightarrow> 'u \<Rightarrow> 'u \<Rightarrow> bool"
  and script_loop ::
    "policies_t \<Rightarrow> 'u policy_calls \<Rightarrow> nat set \<Rightarrow> pvars \<Rightarrow> cstr \<Rightarrow> int \<Rightarrow> int \<Rightarrow> policy_instruction list \<Rightarrow> 'u \<Rightarrow> 'u \<Rightarrow> bool"
  for P calls where
  script_nil: "script P calls A vars [] u u"
| script_offset: "value_evaluate calls vars v u = Ret (Some (PNumber n), u1) \<Longrightarrow> call_offset calls n u1 = Ret u2 \<Longrightarrow>
    script P calls A vars rest u2 u3 \<Longrightarrow> script P calls A vars (INST_OFFSET v # rest) u u3"
| script_write: "value_evaluate calls vars v u = Ret (Some w, u1) \<Longrightarrow> written w = Ret ws \<Longrightarrow>
    call_write calls ws u1 = Ret u2 \<Longrightarrow>
    script P calls A vars rest u2 u3 \<Longrightarrow> script P calls A vars (INST_WRITE v # rest) u u3"
| script_chain: "find_policy (ps_policies P) name 0 = Some i \<Longrightarrow> i \<notin> A \<Longrightarrow>
    script P calls (insert i A) [] (po_instructions (ps_policies P ! i)) u u1 \<Longrightarrow>
    script P calls A vars rest u1 u2 \<Longrightarrow> script P calls A vars (INST_CHAIN (WORD name) # rest) u u2"
| script_for: "map_of vars name = None \<Longrightarrow> value_evaluate calls vars start u = Ret (Some (PNumber i), u1) \<Longrightarrow>
    value_evaluate calls vars until u1 = Ret (Some (PNumber t), u2) \<Longrightarrow>
    script_loop P calls A vars name i t body u2 u3 \<Longrightarrow>
    script P calls A vars rest u3 u4 \<Longrightarrow> script P calls A vars (KEYWORD_FOR name start until body # rest) u u4"
| script_loop_end: "\<not> i < t \<Longrightarrow> script_loop P calls A vars name i t body u u"
| script_loop_step: "i < t \<Longrightarrow> script P calls A (vars @ [(name, i)]) body u u1 \<Longrightarrow>
    script_loop P calls A vars name (i + 1) t body u1 u2 \<Longrightarrow> script_loop P calls A vars name i t body u u2"

text \<open>No list outside the running policies, and none inside the current one, is being iterated over.\<close>

definition quiet_below :: "nat set \<Rightarrow> plist \<Rightarrow> 'u pexec \<Rightarrow> bool" where
  "quiet_below A l x \<longleftrightarrow> fst l \<in> A \<and> \<not> x_stuck x \<and> (\<forall>j p. j \<notin> A \<longrightarrow> x_iters x (j, p) = None) \<and>
     (\<forall>p. p \<noteq> [] \<longrightarrow> x_iters x (fst l, snd l @ p) = None)"

lemma quiet_below_simps:
  "quiet_below A l (x\<lparr>x_iters := (x_iters x)(l \<mapsto> k)\<rparr>) \<longleftrightarrow> quiet_below A l x"
  "quiet_below A l (x\<lparr>x_vars := vs\<rparr>) \<longleftrightarrow> quiet_below A l x"
  "quiet_below A l (x\<lparr>x_user := u\<rparr>) \<longleftrightarrow> quiet_below A l x"
  by (cases l; auto simp: quiet_below_def)+

lemma quiet_below_chain:
  "quiet_below A l x \<Longrightarrow> i \<notin> A \<Longrightarrow> x_iters x (i, []) = None \<and> quiet_below (insert i A) (i, []) (iter_start (i, []) (x\<lparr>x_vars := []\<rparr>))"
  by (auto simp: quiet_below_def iter_start_def)

lemma quiet_below_body:
  "quiet_below A l x \<Longrightarrow> x_iters x (fst l, snd l @ [k]) = None \<and>
     quiet_below A (fst l, snd l @ [k]) (iter_start (fst l, snd l @ [k]) x)"
  by (cases l) (auto simp: quiet_below_def iter_start_def)

lemma iter_stop_start [simp]: "x_iters x l = None \<Longrightarrow> iter_stop l (iter_start l x) = x"
  by (simp add: iter_start_def iter_stop_def fun_upd_idem)

lemma iter_start_at [simp]: "x_iters x l = None \<Longrightarrow> x_iters (iter_start l x) l = Some 0"
  and iter_stop_upd [simp]: "iter_stop l (x\<lparr>x_iters := (x_iters x)(l \<mapsto> k)\<rparr>) = iter_stop l x"
  by (simp_all add: iter_start_def iter_stop_def)

lemma iter_user [simp]:
  "iter_stop l (x\<lparr>x_user := u\<rparr>) = (iter_stop l x)\<lparr>x_user := u\<rparr>"
  "iter_start l (x\<lparr>x_user := u\<rparr>) = (iter_start l x)\<lparr>x_user := u\<rparr>"
  "x_vars (iter_start l x) = x_vars x" "x_user (iter_start l x) = x_user x"
  by (simp_all add: iter_start_def iter_stop_def)

lemma x_user_same [simp]: "x\<lparr>x_user := x_user x\<rparr> = x" "x\<lparr>x_vars := x_vars x\<rparr> = x"
  "x_vars x = vs \<Longrightarrow> x_user x = u \<Longrightarrow> x\<lparr>x_vars := vs, x_user := u\<rparr> = x"
  by (cases x; auto)+

text \<open>Executing one instruction moves the iterator on.\<close>

definition stepped :: "plist \<Rightarrow> nat \<Rightarrow> 'u \<Rightarrow> 'u pexec \<Rightarrow> 'u pexec" where
  "stepped l k u x = x\<lparr>x_iters := (x_iters x)(l \<mapsto> Suc k), x_user := u\<rparr>"

lemma stepped_simps [simp]:
  "x_iters (stepped l k u x) l = Some (Suc k)" "x_vars (stepped l k u x) = x_vars x" "x_user (stepped l k u x) = u"
  "quiet_below A l (stepped l k u x) \<longleftrightarrow> quiet_below A l x"
  "iter_stop l (stepped l k u x) = iter_stop l x\<lparr>x_user := u\<rparr>"
  "stepped l k u x\<lparr>x_user := v\<rparr> = stepped l k v x"
  "x_stuck (stepped l k u x) = x_stuck x"
  by (simp_all add: stepped_def quiet_below_simps)

lemma stepped_fresh [simp]:
  "stepped l k u x\<lparr>x_vars := vs, x_user := v, x_vars := x_vars x\<rparr> = stepped l k v x"
  "x_vars x = vs \<Longrightarrow> stepped l k u x\<lparr>x_vars := vs\<rparr> = stepped l k u x"
  "\<not> x_stuck x \<Longrightarrow> stepped l k u x\<lparr>x_stuck := False, x_vars := vs\<rparr> = stepped l k u x\<lparr>x_vars := vs\<rparr>"
  by (cases x; auto simp: stepped_def)+

lemma stepped_start: "x\<lparr>x_iters := (x_iters x)(l \<mapsto> Suc k)\<rparr> = stepped l k (x_user x) x"
  by (simp add: stepped_def)

lemma run_next:
  assumes "drop k insts = inst # rest" and "x_iters x l = Some k"
    and "run_inst P calls l k inst (stepped l k (x_user x) x) (Ret (True, stepped l k u x))"
    and "drop (Suc k) insts = rest \<Longrightarrow>
      run_loop P calls l insts (stepped l k u x) (Ret (iter_stop l (stepped l k u x)\<lparr>x_user := u'\<rparr>))"
  shows "run_loop P calls l insts x (Ret (iter_stop l x\<lparr>x_user := u'\<rparr>))"
proof -
  have k: "k < length insts" "insts ! k = inst" "drop (Suc k) insts = rest"
    using assms(1) by (metis drop_eq_Nil2 list.distinct(1) not_less, metis hd_drop_conv_nth list.distinct(1) list.sel(1) drop_eq_Nil2 not_less,
      metis drop_Suc list.sel(3) tl_drop)
  show ?thesis
    by (rule run_loop_step [OF assms(2) k(1)]) (use assms(3) assms(4) [OF k(3)] k(2) in \<open>simp_all add: stepped_start\<close>)
qed

lemma script_runs:
  shows "script P calls A vars is u u' \<Longrightarrow> drop k insts = is \<Longrightarrow> x_iters x l = Some k \<Longrightarrow> quiet_below A l x \<Longrightarrow>
      x_vars x = vars \<Longrightarrow> x_user x = u \<Longrightarrow> run_loop P calls l insts x (Ret (iter_stop l x\<lparr>x_user := u'\<rparr>))"
    and "script_loop P calls A vars name i t body u u' \<Longrightarrow> x_iters x lb = None \<Longrightarrow> quiet_below A lb (iter_start lb x) \<Longrightarrow>
      x_vars x = vars @ [(name, j)] \<Longrightarrow> x_user x = u \<Longrightarrow>
      \<exists>m. run_for P calls lb body (length vars) name i t x (Ret (x\<lparr>x_vars := vars @ [(name, m)], x_user := u'\<rparr>))"
proof (induction arbitrary: k insts l x and lb x j rule: script_script_loop.inducts)
  case (script_nil A vars u)
  then show ?case using run_loop_end [of x l k insts P calls] by (auto simp flip: iter_user)
next
  case (script_offset vars v u n u1 u2 A rest u3)
  have "run_inst P calls l k (INST_OFFSET v) (stepped l k (x_user x) x) (Ret (True, stepped l k u2 x))"
    using script_offset by (intro run_offset) (simp add: exec_offset_def exec_value_def)
  then show ?case
    by (rule run_next [OF script_offset.prems(1,2)]) (use script_offset script_offset.IH(4) [where k = "Suc k" and insts = insts and x = "stepped l k u2 x" and l = l] in simp_all)
next
  case (script_write vars v u w u1 ws u2 A rest u3)
  have "run_inst P calls l k (INST_WRITE v) (stepped l k (x_user x) x) (Ret (True, stepped l k u2 x))"
    using script_write
    by (intro run_write) (auto simp: exec_write_def exec_value_def written_def split: pvalue.splits)
  then show ?case
    by (rule run_next [OF script_write.prems(1,2)]) (use script_write script_write.IH(4) [where k = "Suc k" and insts = insts and x = "stepped l k u2 x" and l = l] in simp_all)
next
  case (script_chain name i A u u1 vars rest u2)
  let ?x = "stepped l k u x\<lparr>x_vars := []\<rparr>"
  have q: "x_iters ?x (i, []) = None" "quiet_below (insert i A) (i, []) (iter_start (i, []) ?x)"
    using quiet_below_chain [of A l "stepped l k u x" i] script_chain by simp_all
  have "run_list P calls (i, []) (po_instructions (ps_policies P ! i)) ?x
      (Ret (iter_stop (i, []) (iter_start (i, []) ?x)\<lparr>x_user := u1\<rparr>))"
    by (rule run_listI [OF script_chain.IH(3) [where k = 0]]) (use q script_chain in simp_all)
  moreover have "\<not> x_stuck x" using script_chain.prems by (simp add: quiet_below_def)
  ultimately have "run_inst P calls l k (INST_CHAIN (WORD name)) (stepped l k u x) (Ret (True, stepped l k u1 x))"
    using run_chain [of P name "stepped l k u x" i False calls "?x\<lparr>x_user := u1\<rparr>" l k] q(1) script_chain.IH(1)
    by (simp add: policies_get_policy_def)
  then show ?case
    by (intro run_next [OF script_chain.prems(1,2), where u = u1]) (use script_chain script_chain.IH(5) [where k = "Suc k" and insts = insts and x = "stepped l k u1 x" and l = l] in simp_all)
next
  case (script_for vars name start u i u1 until t u2 A body u3 rest u4)
  let ?l = "(fst l, snd l @ [k])"
  let ?y = "stepped l k u2 x"
  let ?z = "?y\<lparr>x_vars := vars @ [(name, i)]\<rparr>"
  have q: "x_iters ?z ?l = None" "quiet_below A ?l (iter_start ?l ?z)"
    using quiet_below_body [of A l ?z k] script_for.prems by (simp_all add: quiet_below_simps)
  obtain m where "run_for P calls ?l body (length vars) name i t ?z (Ret (?z\<lparr>x_vars := vars @ [(name, m)], x_user := u3\<rparr>))"
    using script_for.IH(4) [OF q, of i] by auto
  then have "run_inst P calls l k (KEYWORD_FOR name start until body) (stepped l k u x) (Ret (True, stepped l k u3 x))"
    using run_for_inst [of calls name start until "stepped l k u x" i t ?y P l k body
        "?z\<lparr>x_vars := vars @ [(name, m)], x_user := u3\<rparr>"] script_for.IH(1,2) script_for.hyps script_for.prems
    by (simp add: exec_for_head_def exec_value_def)
  then show ?case
    by (intro run_next [OF script_for.prems(1,2), where u = u3]) (use script_for script_for.IH(6) [where k = "Suc k" and insts = insts and x = "stepped l k u3 x" and l = l] in simp_all)
next
  case (script_loop_end i t A vars name body u)
  then show ?case using run_for_end [of i t P calls lb body "length vars" name x] by (intro exI [of _ j]) simp
next
  case (script_loop_step i t A vars name body u u1 u2)
  let ?x = "x\<lparr>x_vars := vars @ [(name, i)]\<rparr>"
  have q: "x_iters ?x lb = None" "quiet_below A lb (iter_start lb ?x)"
    using script_loop_step.prems by (auto simp: quiet_below_def iter_start_def)
  have 1: "run_list P calls lb body ?x (Ret (?x\<lparr>x_user := u1\<rparr>))"
    using run_listI [OF script_loop_step.IH(2) [where k = 0, of body "iter_start lb ?x" lb]] q script_loop_step.prems
    by simp
  obtain m where "run_for P calls lb body (length vars) name (i + 1) t (?x\<lparr>x_user := u1\<rparr>)
      (Ret (?x\<lparr>x_user := u1, x_vars := vars @ [(name, m)], x_user := u2\<rparr>))"
    using script_loop_step.IH(4) [of "?x\<lparr>x_user := u1\<rparr>" lb i] q by (auto simp: quiet_below_simps)
  then show ?case
    using run_for_step [OF script_loop_step.hyps(1), of P calls lb body x "length vars" name "?x\<lparr>x_user := u1\<rparr>"]
      1 script_loop_step.prems by (intro exI [of _ m]) simp
qed

text \<open>A policy that means something is executed to its end, with that effect.\<close>

lemma policy_script_runs:
  assumes "script P calls {i} [] (po_instructions (ps_policies P ! i)) u u'"
  shows "\<exists>n. \<forall>fuel \<ge> n. policy_execute fuel P calls i (state_from_policy u) = Some (Ret (state_from_policy u'))"
proof -
  let ?x = "iter_start (i, []) (state_from_policy u)"
  have q: "x_iters (state_from_policy u) (i, []) = None" "quiet_below {i} (i, []) ?x"
    by (auto simp: state_from_policy_def quiet_below_def iter_start_def)
  have "run_list P calls (i, []) (po_instructions (ps_policies P ! i)) (state_from_policy u)
      (Ret (iter_stop (i, []) ?x\<lparr>x_user := u'\<rparr>))"
    by (rule run_listI [OF script_runs(1) [OF assms, where k = 0]]) (use q in \<open>simp_all add: state_from_policy_def\<close>)
  then have "run_list P calls (i, []) (po_instructions (ps_policies P ! i)) (state_from_policy u) (Ret (state_from_policy u'))"
    using q by (simp add: state_from_policy_def)
  from run_list_enough [OF this] show ?thesis by (simp add: policy_execute_def)
qed

text \<open>
  C26. The structured meaning of a policy is what the execution with the iterators of the lists
  does: for any handlers, if a policy means something without running a policy inside itself,
  then it is executed to its end, with that effect, and leaves no iterator active and no
  variable behind.
\<close>

theorem policy_script:
  assumes "script P calls {i} [] (po_instructions (ps_policies P ! i)) u u'"
  shows "\<exists>n. \<forall>fuel \<ge> n. policy_execute fuel P calls i (state_from_policy u) = Some (Ret (state_from_policy u'))"
  by (rule policy_script_runs [OF assms])

end
