(* ===== verification/Ld_Policy.thy ===== *)
theory Ld_Policy
  imports Policy_Exec
begin

text \<open>
  Policies on the bins of the linker (\<^verbatim>\<open>libdcpu-ld/ldpolicy.c\<close>): the handlers that read the
  bin with the linked code and append words to a new bin, and \<^verbatim>\<open>bins_apply_policy\<close>. The parser
  of policy files is generated from a grammar; it is the parameter \<open>policies_load\<close>.
\<close>

section \<open>Handlers\<close>

record policy_userdata =
  ud_code_bin :: cstr
  ud_output_bin :: bref
  ud_previous_offset :: u16
  ud_state :: ldstate

definition policy_get_source_bin :: "ldenv \<Rightarrow> policy_userdata \<Rightarrow> bref option ldres" where
  "policy_get_source_bin env u =
     ld_bind (defined (seek_bin (l_bins (ud_state u)) (l_heap (ud_state u)) (ud_code_bin u))) (\<lambda>found.
       case found of
         None \<Rightarrow> ld_bind (dwarn env WARN_POLICY_CODE_BIN_NOT_FOUND) (\<lambda>_. Ret None)
       | Some p \<Rightarrow> Ret (Some p))"

text \<open>The bin itself; the handlers use the pointer without a check.\<close>

definition source_bin :: "ldenv \<Rightarrow> policy_userdata \<Rightarrow> (bref \<times> ldbin) ldres" where
  "source_bin env u =
     ld_bind (policy_get_source_bin env u) (\<lambda>found.
     ld_bind (defined found) (\<lambda>p.
     ld_bind (defined (l_heap (ud_state u) p)) (\<lambda>b. Ret (p, b))))"

definition policy_code :: "ldenv \<Rightarrow> policy_userdata \<Rightarrow> (u16 list \<times> policy_userdata) ldres" where
  "policy_code env u = ld_bind (source_bin env u) (\<lambda>(p, b). Ret (b_words b, u))"

fun table_kind :: "ptable \<Rightarrow> ldtable" where
  "table_kind TABLE_ADJUSTMENT = TAdjustment"
| "table_kind TABLE_PROVIDED = TProvided"
| "table_kind TABLE_REQUIRED = TRequired"
| "table_kind TABLE_SECTION = TSection"
| "table_kind TABLE_OUTPUT = TOutput"
| "table_kind TABLE_JUMP = TJump"
| "table_kind TABLE_OPTIONAL = TOptional"

fun field_words :: "pfield \<Rightarrow> lconv_entry \<Rightarrow> u16 list" where
  "field_words FIELD_ADDRESS entry = [ce_address entry]"
| "field_words FIELD_LABEL_SIZE entry = (case ce_label entry of None \<Rightarrow> [0] | Some l \<Rightarrow> [of_nat (length l)])"
| "field_words FIELD_LABEL_TEXT entry = (case ce_label entry of None \<Rightarrow> [] | Some l \<Rightarrow> map ucast l)"

text \<open>The index that is equal to the length of the table passes the test and has no entry.\<close>

definition policy_field ::
    "ldenv \<Rightarrow> ptable \<Rightarrow> int \<Rightarrow> pfield \<Rightarrow> policy_userdata \<Rightarrow> (u16 list \<times> policy_userdata) ldres" where
  "policy_field env table index field u =
     ld_bind (source_bin env u) (\<lambda>(p, b).
     ld_bind (defined (b_tabs b (table_kind table))) (\<lambda>l.
       if index < 0 \<or> index > int (length (elems l)) then Ret ([], u)
       else ld_bind (ensure (nat index < length (elems l))) (\<lambda>_. Ret (field_words field (elems l ! nat index), u))))"

definition policy_total_table :: "ldenv \<Rightarrow> ptable \<Rightarrow> policy_userdata \<Rightarrow> (int \<times> policy_userdata) ldres" where
  "policy_total_table env table u =
     ld_bind (source_bin env u) (\<lambda>(p, b).
     ld_bind (defined (b_tabs b (table_kind table))) (\<lambda>l. Ret (int (length (elems l)), u)))"

definition c_int :: "int \<Rightarrow> bool" where
  "c_int n \<longleftrightarrow> - (2 ^ 31) \<le> n \<and> n < 2 ^ 31"

text \<open>The sums are computed in \<^verbatim>\<open>int\<close>; an overflow is undefined.\<close>

fun offset_words :: "int \<Rightarrow> lconv_entry list \<Rightarrow> u16 list \<Rightarrow> u16 list ldres" where
  "offset_words d [] ws = Ret ws"
| "offset_words d (e # es) ws =
     ld_bind (ensure (unat (ce_address e) < length ws)) (\<lambda>_.
       let n = uint (ws ! unat (ce_address e)) + d in
     ld_bind (ensure (c_int d \<and> c_int n)) (\<lambda>_. offset_words d es (ws[unat (ce_address e) := word_of_int n])))"

definition policy_offset :: "ldenv \<Rightarrow> int \<Rightarrow> policy_userdata \<Rightarrow> policy_userdata ldres" where
  "policy_offset env position u =
     ld_bind (source_bin env u) (\<lambda>(p, b).
     ld_bind (defined (b_tabs b TAdjustment)) (\<lambda>l.
     ld_bind (offset_words (position - uint (ud_previous_offset u)) (elems l) (b_words b)) (\<lambda>ws.
       Ret (u\<lparr>ud_state := put_bin p (b\<lparr>b_words := ws\<rparr>) (ud_state u), ud_previous_offset := word_of_int position\<rparr>))))"

definition policy_write :: "u16 list \<Rightarrow> policy_userdata \<Rightarrow> policy_userdata ldres" where
  "policy_write words u =
     ld_bind (defined (l_heap (ud_state u) (ud_output_bin u))) (\<lambda>b.
       Ret (u\<lparr>ud_state := put_bin (ud_output_bin u) (foldl bin_write b words) (ud_state u)\<rparr>))"

definition policy_halt :: "cstr \<Rightarrow> policy_userdata \<Rightarrow> policy_userdata ldres" where
  "policy_halt msg u = Halt ERR_POLICY_EXECUTION (Some msg)"

definition linker_calls :: "ldenv \<Rightarrow> policy_userdata policy_calls" where
  "linker_calls env =
     \<lparr>call_offset = policy_offset env, call_write = policy_write, call_total_table = policy_total_table env,
      call_field = policy_field env, call_code = policy_code env, call_error = policy_halt\<rparr>"

section \<open>Applying a policy\<close>

definition bins_apply_policy ::
    "nat \<Rightarrow> ldenv \<Rightarrow> (u8 list \<Rightarrow> policies_t) \<Rightarrow> cstr \<Rightarrow> cstr \<Rightarrow> cstr \<Rightarrow> cstr \<Rightarrow> ldstate \<Rightarrow> ldstate ldres option" where
  "bins_apply_policy fuel env policies_load path target code_name output st =
     (case l_fs st path of
        None \<Rightarrow> Some (Halt ERR_POLICY_FILE_NOT_FOUND (Some path))
      | Some bs \<Rightarrow>
          (let policies = policies_load bs in
           case policies_get_policy policies target False of
             (None, _) \<Rightarrow> Some (Halt ERR_POLICY_TARGET_NOT_FOUND (Some target))
           | (Some i, stuck) \<Rightarrow>
               if po_type (ps_policies policies ! i) = POLICY_INTERNAL
               then Some (Halt ERR_POLICY_IS_INTERNAL (Some target))
               else
                 (let (out, st) = bins_add output (\<lambda>_. []) st;
                      u = \<lparr>ud_code_bin = code_name, ud_output_bin = out, ud_previous_offset = 0, ud_state = st\<rparr>
                  in pbind (policy_execute fuel policies (linker_calls env) i ((state_from_policy u)\<lparr>x_stuck := stuck\<rparr>))
                       (\<lambda>x. Some (Ret (ud_state (x_user x)))))))"

section \<open>Running a policy on a linked program\<close>

text \<open>
  A policy sees the bin with the code, and the output bin behind all other bins. The output
  holds the words \<open>ws\<close> and the code bin the words \<open>cs\<close>.
\<close>

definition applied_bin :: "cstr \<Rightarrow> u16 list \<Rightarrow> ldbin" where
  "applied_bin output ws = (bin_create output False)\<lparr>b_tabs := (\<lambda>_. Some list_create), b_symbols := Some new_list,
     b_words := ws\<rparr>"

definition applied_state :: "ldstate \<Rightarrow> bref \<Rightarrow> ldbin \<Rightarrow> u16 list \<Rightarrow> cstr \<Rightarrow> u16 list \<Rightarrow> ldstate" where
  "applied_state st p b cs output ws =
     st\<lparr>l_heap := (l_heap st)(p := Some (b\<lparr>b_words := cs\<rparr>), l_next st := Some (applied_bin output ws)),
        l_bins := l_bins st @ [l_next st], l_next := Suc (l_next st)\<rparr>"

definition code_bin :: "ldstate \<Rightarrow> cstr \<Rightarrow> bref \<Rightarrow> ldbin \<Rightarrow> bool" where
  "code_bin st name p b \<longleftrightarrow> seek_bin (l_bins st) (l_heap st) name = Some (Some p) \<and> l_heap st p = Some b \<and>
     l_heap st (l_next st) = None"

definition running :: "ldstate \<Rightarrow> cstr \<Rightarrow> bref \<Rightarrow> ldbin \<Rightarrow> cstr \<Rightarrow> u16 list \<Rightarrow> u16 list \<Rightarrow> u16 \<Rightarrow> policy_userdata" where
  "running st name p b output cs ws prev =
     \<lparr>ud_code_bin = name, ud_output_bin = l_next st, ud_previous_offset = prev,
      ud_state = applied_state st p b cs output ws\<rparr>"

lemma list_convert_Nil [simp]: "list_convert [] = list_create"
  by (simp add: list_convert_def list_create_def new_list_def)

lemma bins_add_output:
  "code_bin st name p b \<Longrightarrow>
     bins_add output (\<lambda>_. []) st = (l_next st, applied_state st p b (b_words b) output [])"
  by (cases st) (auto simp: bins_add_def Let_def alloc_bin_def put_bin_def applied_state_def applied_bin_def bin_create_def
      code_bin_def fun_eq_iff)

lemma seek_bin_changed:
  assumes "seek_bin ps h name = Some (Some p)"
    and "\<And>q b. q \<in> set ps \<Longrightarrow> h q = Some b \<Longrightarrow> \<exists>b'. h' q = Some b' \<and> b_name b' = b_name b"
  shows "seek_bin (ps @ qs) h' name = Some (Some p)"
  using assms
proof (induction ps)
  case (Cons a ps)
  then obtain b where b: "h a = Some b" by (auto split: Option.bind_splits)
  obtain b' where "h' a = Some b'" "b_name b' = b_name b" using Cons.prems(2) [of a b] b by auto
  then show ?case using Cons b by (auto split: if_splits)
qed simp

lemma source_running [simp]:
  assumes "code_bin st name p b"
  shows "source_bin env (running st name p b output cs ws prev) = Ret (p, b\<lparr>b_words := cs\<rparr>)"
proof -
  have "p \<noteq> l_next st" using assms by (auto simp: code_bin_def)
  moreover have "seek_bin (l_bins st @ [l_next st]) ((l_heap st)(p := Some (b\<lparr>b_words := cs\<rparr>),
      l_next st := Some (applied_bin output ws))) name = Some (Some p)"
    using assms by (intro seek_bin_changed [of _ "l_heap st"]) (auto simp: code_bin_def)
  ultimately show ?thesis
    by (simp add: source_bin_def policy_get_source_bin_def running_def applied_state_def)
qed

lemma write_running [simp]:
  "policy_write vs (running st name p b output cs ws prev) = Ret (running st name p b output cs (ws @ vs) prev)"
  by (simp add: policy_write_def running_def applied_state_def put_bin_def foldl_bin_write applied_bin_def bin_create_def)

lemma code_running [simp]:
  "code_bin st name p b \<Longrightarrow>
     policy_code env (running st name p b output cs ws prev) = Ret (cs, running st name p b output cs ws prev)"
  by (simp add: policy_code_def)

lemma total_running [simp]:
  "code_bin st name p b \<Longrightarrow> b_tabs b (table_kind t) = Some l \<Longrightarrow>
     policy_total_table env t (running st name p b output cs ws prev) =
       Ret (int (length (elems l)), running st name p b output cs ws prev)"
  by (simp add: policy_total_table_def)

lemma field_running [simp]:
  "code_bin st name p b \<Longrightarrow> b_tabs b (table_kind t) = Some l \<Longrightarrow> 0 \<le> i \<Longrightarrow> nat i < length (elems l) \<Longrightarrow>
     policy_field env t i f (running st name p b output cs ws prev) =
       Ret (field_words f (elems l ! nat i), running st name p b output cs ws prev)"
  by (auto simp: policy_field_def)

lemma offset_running [simp]:
  assumes "code_bin st name p b" and "b_tabs b TAdjustment = Some l"
    and "offset_words (o' - uint prev) (elems l) cs = Ret cs'"
  shows "policy_offset env o' (running st name p b output cs ws prev) = Ret (running st name p b output cs' ws (word_of_int o'))"
proof -
  have "p \<noteq> l_next st" using assms by (auto simp: code_bin_def)
  then show ?thesis using assms
    by (simp add: policy_offset_def) (simp add: running_def applied_state_def put_bin_def fun_upd_twist)
qed

lemma linker_calls_simps [simp]:
  "call_offset (linker_calls env) = policy_offset env" "call_write (linker_calls env) = policy_write"
  "call_total_table (linker_calls env) = policy_total_table env" "call_field (linker_calls env) = policy_field env"
  "call_code (linker_calls env) = policy_code env" "call_error (linker_calls env) = policy_halt"
  by (simp_all add: linker_calls_def)

text \<open>A policy that means something is applied with that effect.\<close>

lemma apply_policy_script:
  assumes "l_fs st path = Some bs" and "find_policy (ps_policies (load bs)) target 0 = Some i"
    and "po_type (ps_policies (load bs) ! i) = POLICY_FORMAT" and "code_bin st name p b"
    and "script (load bs) (linker_calls env) {i} [] (po_instructions (ps_policies (load bs) ! i))
      (running st name p b output (b_words b) [] 0) (running st name p b output cs ws prev)"
  shows "\<exists>n. \<forall>fuel \<ge> n. bins_apply_policy fuel env load path target name output st = Some (Ret (applied_state st p b cs output ws))"
proof -
  obtain n where n: "\<And>fuel. fuel \<ge> n \<Longrightarrow> policy_execute fuel (load bs) (linker_calls env) i
      (state_from_policy (running st name p b output (b_words b) [] 0)) =
      Some (Ret (state_from_policy (running st name p b output cs ws prev)))"
    using policy_script_runs [OF assms(5)] by blast
  have "state_from_policy u\<lparr>x_stuck := False\<rparr> = state_from_policy u" for u :: policy_userdata
    by (simp add: state_from_policy_def)
  then have "bins_apply_policy fuel env load path target name output st = Some (Ret (applied_state st p b cs output ws))"
    if f: "fuel \<ge> n" for fuel
    using n [OF f] assms(1-4) bins_add_output [OF assms(4), of "output"]
    by (simp add: bins_apply_policy_def policies_get_policy_def Let_def running_def state_from_policy_def)
  then show ?thesis by blast
qed

section \<open>The documented formats\<close>

text \<open>
  The policies of \<^verbatim>\<open>kernel/stubsys/policy.example\<close>; the load address of the format \<^verbatim>\<open>image\<close>,
  which is \<^verbatim>\<open>0x1000\<close> there, is a parameter.
\<close>

definition write_rows :: "ptable \<Rightarrow> pfield list \<Rightarrow> policy_instruction list" where
  "write_rows t fs =
     [INST_WRITE (FUNCTION FUNC_TOTAL [TABLE t]),
      KEYWORD_FOR (c_str ''$i'') (NUMBER 0) (FUNCTION FUNC_TOTAL [TABLE t])
        (map (\<lambda>f. INST_WRITE (FUNCTION FUNC_FIELD [TABLE t, VARIABLE (c_str ''$i''), FIELD f])) fs)]"

definition example_policies :: "int \<Rightarrow> policies_t" where
  "example_policies address =
     \<lparr>ps_policies =
       [\<lparr>po_type = POLICY_FORMAT, po_name = c_str ''image'',
         po_instructions = [INST_OFFSET (NUMBER address), INST_CHAIN (WORD (c_str ''image-direct''))]\<rparr>,
        \<lparr>po_type = POLICY_FORMAT, po_name = c_str ''image-direct'',
         po_instructions = [INST_WRITE (FUNCTION FUNC_CODE [])]\<rparr>,
        \<lparr>po_type = POLICY_INTERNAL, po_name = c_str ''write-adjustment'',
         po_instructions = write_rows TABLE_ADJUSTMENT [FIELD_ADDRESS]\<rparr>,
        \<lparr>po_type = POLICY_INTERNAL, po_name = c_str ''write-provided'',
         po_instructions = write_rows TABLE_PROVIDED [FIELD_LABEL_SIZE, FIELD_LABEL_TEXT, FIELD_ADDRESS]\<rparr>,
        \<lparr>po_type = POLICY_FORMAT, po_name = c_str ''shared'',
         po_instructions = [INST_WRITE (FUNCTION FUNC_WORDS [NUMBER 0x8A5F, NUMBER 0x68FF]),
           INST_CHAIN (WORD (c_str ''write-adjustment'')), INST_CHAIN (WORD (c_str ''write-provided'')),
           INST_CHAIN (WORD (c_str ''image-direct''))]\<rparr>,
        \<lparr>po_type = POLICY_FORMAT, po_name = c_str ''relocatable'',
         po_instructions = [INST_WRITE (FUNCTION FUNC_WORDS [NUMBER 0x1234, NUMBER 0x5678]),
           INST_CHAIN (WORD (c_str ''write-adjustment'')), INST_CHAIN (WORD (c_str ''image-direct''))]\<rparr>],
      ps_settings = None\<rparr>"

text \<open>The words of a table in a file: its length and the fields of its entries.\<close>

definition row_words :: "pfield list \<Rightarrow> lconv_entry list \<Rightarrow> u16 list" where
  "row_words fs es = concat (map (\<lambda>e. concat (map (\<lambda>f. field_words f e) fs)) es)"

lemma row_words_Cons: "row_words fs (e # es) = concat (map (\<lambda>f. field_words f e) fs) @ row_words fs es"
  by (simp add: row_words_def)

lemma script_row:
  assumes "code_bin st name p b" and "b_tabs b (table_kind t) = Some l" and "0 \<le> i" and "nat i < length (elems l)"
  shows "script P (linker_calls env) A [(x, i)]
    (map (\<lambda>f. INST_WRITE (FUNCTION FUNC_FIELD [TABLE t, VARIABLE x, FIELD f])) fs)
    (running st name p b output cs ws prev)
    (running st name p b output cs (ws @ concat (map (\<lambda>f. field_words f (elems l ! nat i)) fs)) prev)"
proof (induction fs arbitrary: ws)
  case Nil
  then show ?case by (simp add: script_nil)
next
  case (Cons f fs)
  show ?case
    using script_write [of "linker_calls env" "[(x, i)]" "FUNCTION FUNC_FIELD [TABLE t, VARIABLE x, FIELD f]",
        OF _ _ _ Cons.IH [of "ws @ field_words f (elems l ! nat i)"]] assms
    by (simp add: words_value_def written_def)
qed

lemma script_rows_loop:
  assumes "code_bin st name p b" and "b_tabs b (table_kind t) = Some l" and "n \<le> length (elems l)"
  shows "script_loop P (linker_calls env) A [] x (int (length (elems l) - n)) (int (length (elems l)))
    (map (\<lambda>f. INST_WRITE (FUNCTION FUNC_FIELD [TABLE t, VARIABLE x, FIELD f])) fs)
    (running st name p b output cs ws prev)
    (running st name p b output cs (ws @ row_words fs (drop (length (elems l) - n) (elems l))) prev)"
  using assms(3)
proof (induction n arbitrary: ws)
  case 0
  then show ?case by (simp add: row_words_def script_loop_end)
next
  case (Suc n)
  let ?i = "length (elems l) - Suc n"
  have d: "drop ?i (elems l) = elems l ! ?i # drop (length (elems l) - n) (elems l)"
    using Suc.prems by (metis Cons_nth_drop_Suc Suc_diff_Suc Suc_le_lessD diff_less length_greater_0_conv zero_less_Suc
      list.size(3) not_less_zero)
  have s: "int ?i + 1 = int (length (elems l) - n)" using Suc.prems by linarith
  have lt: "int ?i < int (length (elems l))" using Suc.prems by linarith
  have 1: "script P (linker_calls env) A ([] @ [(x, int ?i)])
      (map (\<lambda>f. INST_WRITE (FUNCTION FUNC_FIELD [TABLE t, VARIABLE x, FIELD f])) fs)
      (running st name p b output cs ws prev)
      (running st name p b output cs (ws @ concat (map (\<lambda>f. field_words f (elems l ! ?i)) fs)) prev)"
    using script_row [OF assms(1,2), of "int ?i" P env A x fs "output" cs ws prev] lt by simp
  have 2: "script_loop P (linker_calls env) A [] x (int ?i + 1) (int (length (elems l)))
      (map (\<lambda>f. INST_WRITE (FUNCTION FUNC_FIELD [TABLE t, VARIABLE x, FIELD f])) fs)
      (running st name p b output cs (ws @ concat (map (\<lambda>f. field_words f (elems l ! ?i)) fs)) prev)
      (running st name p b output cs
        ((ws @ concat (map (\<lambda>f. field_words f (elems l ! ?i)) fs)) @ row_words fs (drop (length (elems l) - n) (elems l))) prev)"
    unfolding s by (rule Suc.IH [OF Suc_leD [OF Suc.prems]])
  show ?case
    using script_loop_step [OF lt 1 2] by (simp only: d row_words_Cons append_assoc)
qed

lemma script_rows:
  assumes "code_bin st name p b" and "b_tabs b (table_kind t) = Some l"
  shows "script P (linker_calls env) A [] (write_rows t fs) (running st name p b output cs ws prev)
    (running st name p b output cs (ws @ of_nat (length (elems l)) # row_words fs (elems l)) prev)"
proof -
  let ?x = "c_str ''$i''" and ?ws = "ws @ [of_nat (length (elems l))]"
  have total: "value_evaluate (linker_calls env) [] (FUNCTION FUNC_TOTAL [TABLE t]) (running st name p b output cs vs prev) =
      Ret (Some (PNumber (int (length (elems l)))), running st name p b output cs vs prev)" for vs
    by (simp add: total_running [OF assms])
  have "script_loop P (linker_calls env) A [] ?x 0 (int (length (elems l)))
      (map (\<lambda>f. INST_WRITE (FUNCTION FUNC_FIELD [TABLE t, VARIABLE ?x, FIELD f])) fs)
    (running st name p b output cs ?ws prev) (running st name p b output cs (?ws @ row_words fs (elems l)) prev)"
    using script_rows_loop [OF assms, of "length (elems l)" P env A ?x fs "output" cs ?ws prev] by simp
  from script_for [OF _ _ total this script_nil]
  have "script P (linker_calls env) A [] [KEYWORD_FOR ?x (NUMBER 0) (FUNCTION FUNC_TOTAL [TABLE t])
      (map (\<lambda>f. INST_WRITE (FUNCTION FUNC_FIELD [TABLE t, VARIABLE ?x, FIELD f])) fs)]
    (running st name p b output cs ?ws prev) (running st name p b output cs (?ws @ row_words fs (elems l)) prev)"
    by simp
  from script_write [OF total [of ws] _ _ this] show ?thesis
    by (simp add: write_rows_def written_def)
qed

lemma script_code:
  assumes "code_bin st name p b"
  shows "script P (linker_calls env) A [] [INST_WRITE (FUNCTION FUNC_CODE [])] (running st name p b output cs ws prev)
    (running st name p b output cs (ws @ cs) prev)"
  using script_write [of "linker_calls env" "[]" "FUNCTION FUNC_CODE []" "running st name p b output cs ws prev",
      OF _ _ _ script_nil] assms
  by (simp add: written_def words_value_def)

lemma example_find [simp]:
  "find_policy (ps_policies (example_policies a)) (c_str ''image'') 0 = Some 0"
  "find_policy (ps_policies (example_policies a)) (c_str ''image-direct'') 0 = Some 1"
  "find_policy (ps_policies (example_policies a)) (c_str ''write-adjustment'') 0 = Some 2"
  "find_policy (ps_policies (example_policies a)) (c_str ''write-provided'') 0 = Some 3"
  "find_policy (ps_policies (example_policies a)) (c_str ''shared'') 0 = Some 4"
  "find_policy (ps_policies (example_policies a)) (c_str ''relocatable'') 0 = Some 5"
  by (simp_all add: example_policies_def c_str_def)

lemma example_instructions [simp]:
  "po_instructions (ps_policies (example_policies a) ! 0) = [INST_OFFSET (NUMBER a), INST_CHAIN (WORD (c_str ''image-direct''))]"
  "po_instructions (ps_policies (example_policies a) ! Suc 0) = [INST_WRITE (FUNCTION FUNC_CODE [])]"
  "po_instructions (ps_policies (example_policies a) ! 2) = write_rows TABLE_ADJUSTMENT [FIELD_ADDRESS]"
  "po_instructions (ps_policies (example_policies a) ! 3) = write_rows TABLE_PROVIDED [FIELD_LABEL_SIZE, FIELD_LABEL_TEXT, FIELD_ADDRESS]"
  "po_instructions (ps_policies (example_policies a) ! 4) = [INST_WRITE (FUNCTION FUNC_WORDS [NUMBER 0x8A5F, NUMBER 0x68FF]),
     INST_CHAIN (WORD (c_str ''write-adjustment'')), INST_CHAIN (WORD (c_str ''write-provided'')),
     INST_CHAIN (WORD (c_str ''image-direct''))]"
  "po_instructions (ps_policies (example_policies a) ! 5) = [INST_WRITE (FUNCTION FUNC_WORDS [NUMBER 0x1234, NUMBER 0x5678]),
     INST_CHAIN (WORD (c_str ''write-adjustment'')), INST_CHAIN (WORD (c_str ''image-direct''))]"
  by (simp_all add: example_policies_def)

lemma example_types [simp]:
  "po_type (ps_policies (example_policies a) ! 0) = POLICY_FORMAT"
  "po_type (ps_policies (example_policies a) ! 4) = POLICY_FORMAT"
  "po_type (ps_policies (example_policies a) ! 5) = POLICY_FORMAT"
  by (simp_all add: example_policies_def)

text \<open>The chains of the example, each followed by the rest of its policy.\<close>

lemma example_chains:
  assumes "code_bin st name p b"
  shows "2 \<notin> A \<Longrightarrow> b_tabs b TAdjustment = Some l \<Longrightarrow>
      script (example_policies a) (linker_calls env) A [] rest
        (running st name p b output cs (ws @ of_nat (length (elems l)) # map ce_address (elems l)) prev) u \<Longrightarrow>
      script (example_policies a) (linker_calls env) A [] (INST_CHAIN (WORD (c_str ''write-adjustment'')) # rest)
        (running st name p b output cs ws prev) u"
    and "3 \<notin> A \<Longrightarrow> b_tabs b TProvided = Some l \<Longrightarrow>
      script (example_policies a) (linker_calls env) A [] rest
        (running st name p b output cs
          (ws @ of_nat (length (elems l)) # row_words [FIELD_LABEL_SIZE, FIELD_LABEL_TEXT, FIELD_ADDRESS] (elems l)) prev) u \<Longrightarrow>
      script (example_policies a) (linker_calls env) A [] (INST_CHAIN (WORD (c_str ''write-provided'')) # rest)
        (running st name p b output cs ws prev) u"
    and "1 \<notin> A \<Longrightarrow> script (example_policies a) (linker_calls env) A [] [INST_CHAIN (WORD (c_str ''image-direct''))]
        (running st name p b output cs ws prev) (running st name p b output cs (ws @ cs) prev)"
proof -
  have adj: "row_words [FIELD_ADDRESS] es = map ce_address es" for es
    by (simp add: row_words_def comp_def)
  show "script (example_policies a) (linker_calls env) A [] (INST_CHAIN (WORD (c_str ''write-adjustment'')) # rest)
        (running st name p b output cs ws prev) u"
    if "2 \<notin> A" "b_tabs b TAdjustment = Some l"
      "script (example_policies a) (linker_calls env) A [] rest
        (running st name p b output cs (ws @ of_nat (length (elems l)) # map ce_address (elems l)) prev) u"
    by (rule script_chain [OF example_find(3) that(1) _ that(3)])
      (use script_rows [OF assms, of TABLE_ADJUSTMENT l] that(2) in \<open>simp flip: adj\<close>)
  show "script (example_policies a) (linker_calls env) A [] (INST_CHAIN (WORD (c_str ''write-provided'')) # rest)
        (running st name p b output cs ws prev) u"
    if "3 \<notin> A" "b_tabs b TProvided = Some l"
      "script (example_policies a) (linker_calls env) A [] rest
        (running st name p b output cs
          (ws @ of_nat (length (elems l)) # row_words [FIELD_LABEL_SIZE, FIELD_LABEL_TEXT, FIELD_ADDRESS] (elems l)) prev) u"
    by (rule script_chain [OF example_find(4) that(1) _ that(3)])
      (use script_rows [OF assms, of TABLE_PROVIDED l] that(2) in simp)
  show "script (example_policies a) (linker_calls env) A [] [INST_CHAIN (WORD (c_str ''image-direct''))]
        (running st name p b output cs ws prev) (running st name p b output cs (ws @ cs) prev)" if "1 \<notin> A"
    by (rule script_chain [OF example_find(2) that _ script_nil]) (use script_code [OF assms] in simp)
qed

lemma script_words:
  assumes "script P (linker_calls env) A [] rest (running st name p b output cs (ws @ [word_of_int m, word_of_int n]) prev) u"
  shows "script P (linker_calls env) A [] (INST_WRITE (FUNCTION FUNC_WORDS [NUMBER m, NUMBER n]) # rest)
    (running st name p b output cs ws prev) u"
  using script_write [of "linker_calls env" "[]" "FUNCTION FUNC_WORDS [NUMBER m, NUMBER n]" "running st name p b output cs ws prev",
      OF _ _ _ assms]
  by (simp add: written_def)

lemma example_formats:
  assumes "l_fs st path = Some bs" and "load bs = example_policies a" and "code_bin st name p b"
    and "b_tabs b TAdjustment = Some adjs" and "b_tabs b TProvided = Some provs"
  shows "\<exists>n. \<forall>fuel \<ge> n. bins_apply_policy fuel env load path (c_str ''relocatable'') name output st =
      Some (Ret (applied_state st p b (b_words b) output
        ([0x1234, 0x5678] @ of_nat (length (elems adjs)) # map ce_address (elems adjs) @ b_words b)))"
    and "\<exists>n. \<forall>fuel \<ge> n. bins_apply_policy fuel env load path (c_str ''shared'') name output st =
      Some (Ret (applied_state st p b (b_words b) output
        ([0x8A5F, 0x68FF] @ of_nat (length (elems adjs)) # map ce_address (elems adjs) @
         of_nat (length (elems provs)) #
           concat (map (\<lambda>e. (case ce_label e of None \<Rightarrow> [0] | Some l \<Rightarrow> of_nat (length l) # map ucast l) @ [ce_address e]) (elems provs)) @
         b_words b)))"
proof -
  let ?P = "example_policies a" and ?u = "\<lambda>ws. running st name p b output (b_words b) ws 0"
  have adj: "row_words [FIELD_ADDRESS] (elems adjs) = map ce_address (elems adjs)"
    by (simp add: row_words_def comp_def)
  have prov: "row_words [FIELD_LABEL_SIZE, FIELD_LABEL_TEXT, FIELD_ADDRESS] (elems provs) =
      concat (map (\<lambda>e. (case ce_label e of None \<Rightarrow> [0] | Some l \<Rightarrow> of_nat (length l) # map ucast l) @ [ce_address e]) (elems provs))"
    unfolding row_words_def by (rule arg_cong [of _ _ concat], rule map_cong) (auto split: option.split)
  have "script ?P (linker_calls env) {5} [] (po_instructions (ps_policies ?P ! 5)) (?u [])
      (?u (([0x1234, 0x5678] @ of_nat (length (elems adjs)) # map ce_address (elems adjs)) @ b_words b))"
    by (simp only: example_instructions, rule script_words)
      (use example_chains(1) [OF assms(3) _ assms(4) example_chains(3) [OF assms(3)], of "{5}" a env "output" "b_words b" "[0x1234, 0x5678]" 0] in simp)
  from apply_policy_script [OF assms(1) _ _ assms(3), of load "c_str ''relocatable''" 5, unfolded assms(2), OF _ _ this]
  show "\<exists>n. \<forall>fuel \<ge> n. bins_apply_policy fuel env load path (c_str ''relocatable'') name output st =
      Some (Ret (applied_state st p b (b_words b) output
        ([0x1234, 0x5678] @ of_nat (length (elems adjs)) # map ce_address (elems adjs) @ b_words b)))"
    by simp
  have "script ?P (linker_calls env) {4} [] (po_instructions (ps_policies ?P ! 4)) (?u [])
      (?u ((([0x8A5F, 0x68FF] @ of_nat (length (elems adjs)) # map ce_address (elems adjs)) @
         of_nat (length (elems provs)) # row_words [FIELD_LABEL_SIZE, FIELD_LABEL_TEXT, FIELD_ADDRESS] (elems provs)) @ b_words b))"
    by (simp only: example_instructions, rule script_words)
      (use example_chains(1) [OF assms(3) _ assms(4)
        example_chains(2) [OF assms(3) _ assms(5) example_chains(3) [OF assms(3)]], of "{4}" a env "output" "b_words b" "[0x8A5F, 0x68FF]" 0] in simp)
  from apply_policy_script [OF assms(1) _ _ assms(3), of load "c_str ''shared''" 4, unfolded assms(2), OF _ _ this]
  show "\<exists>n. \<forall>fuel \<ge> n. bins_apply_policy fuel env load path (c_str ''shared'') name output st =
      Some (Ret (applied_state st p b (b_words b) output
        ([0x8A5F, 0x68FF] @ of_nat (length (elems adjs)) # map ce_address (elems adjs) @
         of_nat (length (elems provs)) #
           concat (map (\<lambda>e. (case ce_label e of None \<Rightarrow> [0] | Some l \<Rightarrow> of_nat (length l) # map ucast l) @ [ce_address e]) (elems provs)) @
         b_words b)))"
    by (simp add: prov)
qed

text \<open>
  C25. For every linked program, the formats \<open>relocatable\<close> and \<open>shared\<close> of the documentation
  write what it says: the magic number, the number of adjusted words and their addresses, for
  \<open>shared\<close> the number of provided labels and for each its length, its characters and its
  address, and then the code. The rest of the state of the linker is unchanged.
\<close>

theorem documented_formats:
  assumes "l_fs st path = Some bs" and "load bs = example_policies a" and "code_bin st name p b"
    and "b_tabs b TAdjustment = Some adjs" and "b_tabs b TProvided = Some provs"
  shows "(\<exists>n. \<forall>fuel \<ge> n. bins_apply_policy fuel env load path (c_str ''relocatable'') name output st =
      Some (Ret (applied_state st p b (b_words b) output
        ([0x1234, 0x5678] @ of_nat (length (elems adjs)) # map ce_address (elems adjs) @ b_words b)))) \<and>
    (\<exists>n. \<forall>fuel \<ge> n. bins_apply_policy fuel env load path (c_str ''shared'') name output st =
      Some (Ret (applied_state st p b (b_words b) output
        ([0x8A5F, 0x68FF] @ of_nat (length (elems adjs)) # map ce_address (elems adjs) @
         of_nat (length (elems provs)) #
           concat (map (\<lambda>e. (case ce_label e of None \<Rightarrow> [0] | Some l \<Rightarrow> of_nat (length l) # map ucast l) @ [ce_address e]) (elems provs)) @
         b_words b))))"
  using example_formats [of st path bs load a name p b adjs provs env "output"] assms by simp

text \<open>
  What the documentation asks of a kernel that loads a relocatable program at an address:
  add the address to each of the listed words of the code.
\<close>

definition load_relocatable :: "u16 \<Rightarrow> u16 list \<Rightarrow> u16 list" where
  "load_relocatable base img =
     (let n = unat (img ! 2)
      in fold (\<lambda>a code. code[unat a := code ! unat a + base]) (take n (drop 3 img)) (drop (3 + n) img))"

lemma offset_words_fold:
  assumes "0 \<le> d" and "d < 65536"
  shows "\<forall>e \<in> set es. unat (ce_address e) < length ws \<Longrightarrow>
     offset_words d es ws = Ret (fold (\<lambda>a code. code[unat a := code ! unat a + word_of_int d]) (map ce_address es) ws)"
proof (induction es arbitrary: ws)
  case (Cons e es)
  have w: "word_of_int (uint w + d) = w + word_of_int d" for w :: u16
    by simp
  have c: "c_int d" "c_int (uint w + d)" for w :: u16
  proof -
    have "uint w < 65536" using uint_lt2p [of w] by simp
    then have "- 2147483648 \<le> d" "d < 2147483648" "- 2147483648 \<le> uint w + d" "uint w + d < 2147483648"
      using assms uint_ge_0 [of w] by linarith+
    then show "c_int d" "c_int (uint w + d)" unfolding c_int_def by simp_all
  qed
  show ?case using Cons by (simp add: Let_def c ensure_def)
qed simp

text \<open>
  C24. A relocatable image that a kernel loads at an address the way the documentation says holds
  exactly the words that the format \<open>image\<close> has for that address: adding the load address to
  the words that the adjustment table lists is what linking for that address does. This holds
  for every linked program, every load address, and also for words that are listed twice.
\<close>

theorem relocatable_loads_as_image:
  assumes "l_fs st path = Some bs" and "load bs = example_policies address" and "code_bin st name p b"
    and "b_tabs b TAdjustment = Some adjs" and "length (elems adjs) < 2 ^ 16"
    and "\<forall>e \<in> set (elems adjs). unat (ce_address e) < length (b_words b)"
    and "0 \<le> address" and "address < 2 ^ 16"
  shows "\<exists>n img. \<forall>fuel \<ge> n.
    bins_apply_policy fuel env load path (c_str ''relocatable'') name output st =
      Some (Ret (applied_state st p b (b_words b) output img)) \<and>
    bins_apply_policy fuel env load path (c_str ''image'') name output st =
      Some (Ret (applied_state st p b (load_relocatable (word_of_int address) img) output
        (load_relocatable (word_of_int address) img)))"
proof -
  let ?P = "example_policies address" and ?u = "\<lambda>cs ws. running st name p b output cs ws"
  let ?img = "[0x1234, 0x5678] @ of_nat (length (elems adjs)) # map ce_address (elems adjs) @ b_words b"
  let ?cs = "fold (\<lambda>a code. code[unat a := code ! unat a + word_of_int address]) (map ce_address (elems adjs)) (b_words b)"
  have load: "load_relocatable (word_of_int address) ?img = ?cs"
  proof -
    have "drop (3 + n) (x # y # z # w) = drop n w" for n and x y z :: u16 and w
      by (simp add: numeral_3_eq_3)
    then show ?thesis using assms(5) by (simp add: load_relocatable_def unat_of_nat Let_def)
  qed
  have rest: "script ?P (linker_calls env) {5} [] [INST_CHAIN (WORD (c_str ''write-adjustment'')), INST_CHAIN (WORD (c_str ''image-direct''))]
      (?u (b_words b) [0x1234, 0x5678] 0) (?u (b_words b) ?img 0)"
    using example_chains(1) [OF assms(3) _ assms(4) example_chains(3) [OF assms(3)],
      of "{5}" address env "output" "b_words b" "[0x1234, 0x5678]" 0] by simp
  have "script ?P (linker_calls env) {5} [] (po_instructions (ps_policies ?P ! 5)) (?u (b_words b) [] 0) (?u (b_words b) ?img 0)"
    by (simp only: example_instructions, rule script_words) (use rest in simp)
  from apply_policy_script [OF assms(1) _ _ assms(3), of load "c_str ''relocatable''" 5, unfolded assms(2), OF _ _ this]
  obtain n where n: "\<And>fuel. fuel \<ge> n \<Longrightarrow> bins_apply_policy fuel env load path (c_str ''relocatable'') name output st =
      Some (Ret (applied_state st p b (b_words b) output ?img))"
    by auto
  have off: "policy_offset env address (?u (b_words b) [] 0) = Ret (?u ?cs [] (word_of_int address))"
    by (rule offset_running [OF assms(3,4)]) (use offset_words_fold [OF assms(7), of "elems adjs" "b_words b"] assms(6,8) in simp)
  have "script ?P (linker_calls env) {0} [] (po_instructions (ps_policies ?P ! 0)) (?u (b_words b) [] 0) (?u ?cs ?cs (word_of_int address))"
    using script_offset [of "linker_calls env" "[]" "NUMBER address" "?u (b_words b) [] 0" address, OF _ _
        example_chains(3) [OF assms(3), of "{0}" address env "output" ?cs "[]" "word_of_int address"]] off by simp
  from apply_policy_script [OF assms(1) _ _ assms(3), of load "c_str ''image''" 0, unfolded assms(2), OF _ _ this]
  obtain m where m: "\<And>fuel. fuel \<ge> m \<Longrightarrow> bins_apply_policy fuel env load path (c_str ''image'') name output st =
      Some (Ret (applied_state st p b ?cs output ?cs))"
    by auto
  show ?thesis
    by (intro exI [of _ "max n m"] exI [of _ ?img]) (use n m load in simp)
qed

section \<open>A linked program\<close>

text \<open>Three words, the second of which refers to the third, which has the label \<^verbatim>\<open>ab\<close>.\<close>

definition policy_bin :: ldbin where
  "policy_bin = \<lparr>b_name = c_str ''output'',
     b_tabs = (\<lambda>t. if t = TAdjustment then Some \<lparr>elems = [\<lparr>ce_label = None, ce_bin = Some (c_str ''output''), ce_address = 1\<rparr>], iterating = False\<rparr>
       else if t = TProvided then Some \<lparr>elems = [\<lparr>ce_label = Some (c_str ''ab''), ce_bin = None, ce_address = 2\<rparr>], iterating = False\<rparr>
       else if t = TSection then None else Some list_create),
     b_symbols = Some new_list, b_words = [10, 2, 12]\<rparr>"

definition policy_state :: ldstate where
  "policy_state = \<lparr>l_heap = (\<lambda>_. None)(0 := Some policy_bin), l_bins = [0], l_next = 1, l_iio = iio_initial,
     l_fs = (\<lambda>_. None)(c_str ''policy'' := Some [])\<rparr>"

definition policy_env :: ldenv where
  "policy_env = \<lparr>e_big = False, e_writable = (\<lambda>_. True), e_werror = (\<lambda>_. False)\<rparr>"

lemma policy_state_simps [simp]:
  "l_fs policy_state (c_str ''policy'') = Some []"
  "code_bin policy_state (c_str ''output'') 0 policy_bin"
  "b_words policy_bin = [10, 2, 12]"
  "b_tabs policy_bin TAdjustment =
     Some \<lparr>elems = [\<lparr>ce_label = None, ce_bin = Some (c_str ''output''), ce_address = 1\<rparr>], iterating = False\<rparr>"
  "b_tabs policy_bin TProvided =
     Some \<lparr>elems = [\<lparr>ce_label = Some (c_str ''ab''), ce_bin = None, ce_address = 2\<rparr>], iterating = False\<rparr>"
  by (simp_all add: policy_state_def policy_bin_def code_bin_def)

theorem policy_script_witness:
  "\<exists>n. \<forall>fuel \<ge> n. policy_execute fuel (example_policies 0x1000) (linker_calls policy_env) 1
      (state_from_policy (running policy_state (c_str ''output'') 0 policy_bin (c_str ''out'') [10, 2, 12] [] 0)) =
    Some (Ret (state_from_policy (running policy_state (c_str ''output'') 0 policy_bin (c_str ''out'') [10, 2, 12] [10, 2, 12] 0)))"
  by (rule policy_script)
    (use script_code [of policy_state "c_str ''output''" 0 policy_bin "example_policies 0x1000" policy_env "{1}"
      "c_str ''out''" "[10, 2, 12]" "[]" 0] in simp)

theorem documented_formats_witness:
  "(\<exists>n. \<forall>fuel \<ge> n. bins_apply_policy fuel policy_env (\<lambda>_. example_policies 0x1000) (c_str ''policy'')
      (c_str ''relocatable'') (c_str ''output'') (c_str ''out'') policy_state =
      Some (Ret (applied_state policy_state 0 policy_bin [10, 2, 12] (c_str ''out'') [0x1234, 0x5678, 1, 1, 10, 2, 12]))) \<and>
   (\<exists>n. \<forall>fuel \<ge> n. bins_apply_policy fuel policy_env (\<lambda>_. example_policies 0x1000) (c_str ''policy'')
      (c_str ''shared'') (c_str ''output'') (c_str ''out'') policy_state =
      Some (Ret (applied_state policy_state 0 policy_bin [10, 2, 12] (c_str ''out'')
        [0x8A5F, 0x68FF, 1, 1, 1, 2, 0x61, 0x62, 2, 10, 2, 12])))"
proof -
  have ab: "length (c_str ''ab'') = 2" "map ucast (c_str ''ab'') = [0x61, 0x62 :: u16]" by code_simp+
  show ?thesis
    using documented_formats [where st = policy_state and path = "c_str ''policy''" and bs = "[]" and p = 0
      and load = "\<lambda>_. example_policies 0x1000" and a = "0x1000" and name = "c_str ''output''" and b = policy_bin,
      OF policy_state_simps(1) refl policy_state_simps(2,4,5), of policy_env "c_str ''out''"]
    by (simp add: ab)
qed

theorem relocatable_loads_as_image_witness:
  "\<exists>n img. \<forall>fuel \<ge> n.
    bins_apply_policy fuel policy_env (\<lambda>_. example_policies 0x1000) (c_str ''policy'') (c_str ''relocatable'')
        (c_str ''output'') (c_str ''out'') policy_state =
      Some (Ret (applied_state policy_state 0 policy_bin [10, 2, 12] (c_str ''out'') img)) \<and>
    bins_apply_policy fuel policy_env (\<lambda>_. example_policies 0x1000) (c_str ''policy'') (c_str ''image'')
        (c_str ''output'') (c_str ''out'') policy_state =
      Some (Ret (applied_state policy_state 0 policy_bin (load_relocatable 0x1000 img) (c_str ''out'') (load_relocatable 0x1000 img)))"
  using relocatable_loads_as_image [where st = policy_state and path = "c_str ''policy''" and bs = "[]" and p = 0
      and load = "\<lambda>_. example_policies 0x1000" and address = "0x1000" and name = "c_str ''output''" and b = policy_bin, OF _ _ _ policy_state_simps(4), of policy_env "c_str ''out''"]
  by simp

end
