(* ===== verification/Policy_Types.thy ===== *)
theory Policy_Types
  imports Ld_Policy
begin

text \<open>
  A type system for policies and its soundness. The handlers are an interface, a locale that
  states what the execution relies on; the handlers of the linker provide it.
\<close>


section \<open>The handlers as an interface\<close>

text \<open>
  What the execution of a policy relies on: with the state in \<open>inv\<close>, a table (but for the
  section table, which a linked program does not have) has a fixed number of rows, every row below that number has its fields, and writing, offsetting and reading the
  code succeed and keep the invariant.
\<close>

locale policy_handlers =
  fixes calls :: "'u policy_calls" and inv :: "'u \<Rightarrow> bool" and rows :: "ptable \<Rightarrow> nat"
  assumes total: "inv u \<Longrightarrow> t \<noteq> TABLE_SECTION \<Longrightarrow> call_total_table calls t u = Ret (int (rows t), u)"
    and field: "inv u \<Longrightarrow> t \<noteq> TABLE_SECTION \<Longrightarrow> 0 \<le> i \<Longrightarrow> i < int (rows t) \<Longrightarrow> \<exists>ws. call_field calls t i f u = Ret (ws, u)"
    and code: "inv u \<Longrightarrow> \<exists>ws. call_code calls u = Ret (ws, u)"
    and writes: "inv u \<Longrightarrow> \<exists>u'. call_write calls ws u = Ret u' \<and> inv u'"
    and offset: "inv u \<Longrightarrow> 0 \<le> n \<Longrightarrow> n < 2 ^ 16 \<Longrightarrow> \<exists>u'. call_offset calls n u = Ret u' \<and> inv u'"

section \<open>Types\<close>

text \<open>
  A context gives for each loop variable the table whose rows it counts, if any. Numbers are
  literals, variables and sizes of tables; words are the code, lists of numbers, and the fields
  of a row of a table that the loop around them counts.
\<close>

type_synonym pcontext = "(cstr \<times> ptable option) list"

fun number_typed :: "pcontext \<Rightarrow> policy_value \<Rightarrow> bool" where
  "number_typed G (NUMBER n) = True"
| "number_typed G (VARIABLE x) = (map_of G x \<noteq> None)"
| "number_typed G (FUNCTION FUNC_TOTAL [TABLE t]) = (t \<noteq> TABLE_SECTION)"
| "number_typed G _ = False"

fun words_typed :: "pcontext \<Rightarrow> policy_value \<Rightarrow> bool" where
  "words_typed G (FUNCTION FUNC_CODE []) = True"
| "words_typed G (FUNCTION FUNC_FIELD [TABLE t, VARIABLE x, FIELD f]) = (t \<noteq> TABLE_SECTION \<and> map_of G x = Some (Some t))"
| "words_typed G (FUNCTION FUNC_WORDS vs) = list_all (number_typed G) vs"
| "words_typed G _ = False"

text \<open>The table that a loop counts: it starts at a literal that is not negative and ends at the size.\<close>

fun loop_table :: "policy_value \<Rightarrow> policy_value \<Rightarrow> ptable option" where
  "loop_table (NUMBER n) (FUNCTION FUNC_TOTAL [TABLE t]) = (if 0 \<le> n \<and> t \<noteq> TABLE_SECTION then Some t else None)"
| "loop_table _ _ = None"

text \<open>A policy may chain into policies of a smaller rank, so that no policy is ever running twice.\<close>

fun instruction_typed :: "policies_t \<Rightarrow> (nat \<Rightarrow> nat) \<Rightarrow> nat \<Rightarrow> pcontext \<Rightarrow> policy_instruction \<Rightarrow> bool" where
  "instruction_typed P rank i G (INST_CHAIN (WORD name)) =
     (case find_policy (ps_policies P) name 0 of None \<Rightarrow> False | Some j \<Rightarrow> rank j < rank i)"
| "instruction_typed P rank i G (INST_OFFSET (NUMBER n)) = (0 \<le> n \<and> n < 2 ^ 16)"
| "instruction_typed P rank i G (INST_WRITE v) = (number_typed G v \<or> words_typed G v)"
| "instruction_typed P rank i G (KEYWORD_FOR name start until body) =
     (map_of G name = None \<and> number_typed G start \<and> number_typed G until \<and>
      list_all (instruction_typed P rank i (G @ [(name, loop_table start until)])) body)"
| "instruction_typed P rank i G _ = False"

definition policies_typed :: "policies_t \<Rightarrow> (nat \<Rightarrow> nat) \<Rightarrow> bool" where
  "policies_typed P rank \<longleftrightarrow>
     (\<forall>i < length (ps_policies P). list_all (instruction_typed P rank i []) (po_instructions (ps_policies P ! i)))"

text \<open>The variables of a run agree with the context.\<close>

definition agrees :: "(ptable \<Rightarrow> nat) \<Rightarrow> pcontext \<Rightarrow> pvars \<Rightarrow> bool" where
  "agrees rows G vars \<longleftrightarrow> list_all2 (\<lambda>(x, t) (y, n). x = y \<and>
     (case t of None \<Rightarrow> True | Some t \<Rightarrow> 0 \<le> n \<and> n < int (rows t))) G vars"

lemma agrees_lookup:
  "agrees rows G vars \<Longrightarrow> map_of G x = Some t \<Longrightarrow>
     \<exists>n. map_of vars x = Some n \<and> (case t of None \<Rightarrow> True | Some t \<Rightarrow> 0 \<le> n \<and> n < int (rows t))"
  unfolding agrees_def by (induction G vars rule: list_all2_induct) (auto split: if_splits option.splits)

lemma agrees_none: "agrees rows G vars \<Longrightarrow> map_of G x = None \<Longrightarrow> map_of vars x = None"
  unfolding agrees_def by (induction G vars rule: list_all2_induct) (auto split: if_splits)

lemma agrees_snoc:
  "agrees rows G vars \<Longrightarrow> (case t of None \<Rightarrow> True | Some t \<Rightarrow> 0 \<le> n \<and> n < int (rows t)) \<Longrightarrow>
     agrees rows (G @ [(x, t)]) (vars @ [(x, n)])"
  unfolding agrees_def by (auto intro!: list_all2_appendI)

section \<open>Typed policies are executed\<close>

context policy_handlers
begin

lemma number_value:
  "number_typed G v \<Longrightarrow> agrees rows G vars \<Longrightarrow> inv u \<Longrightarrow>
     \<exists>n. value_evaluate calls vars v u = Ret (Some (PNumber n), u)"
  by (induction G v rule: number_typed.induct) (auto simp: total dest: agrees_lookup)

lemma words_numbers:
  "list_all (number_typed G) vs \<Longrightarrow> agrees rows G vars \<Longrightarrow> inv u \<Longrightarrow>
     \<exists>ns. words_evaluate calls vars vs u = Ret (map (\<lambda>n. Some (PNumber n)) ns, u)"
proof (induction vs)
  case Nil
  then show ?case by (intro exI [of _ "[]"]) simp
next
  case (Cons v vs)
  obtain n where n: "value_evaluate calls vars v u = Ret (Some (PNumber n), u)"
    using number_value [of G v vars u] Cons.prems by auto
  obtain ns where "words_evaluate calls vars vs u = Ret (map (\<lambda>n. Some (PNumber n)) ns, u)"
    using Cons by auto
  with n show ?case by (intro exI [of _ "n # ns"]) simp
qed

lemma number_words_numbers: "number_words (map (\<lambda>n. Some (PNumber n)) ns) = Ret (map word_of_int ns)"
  by (induction ns) simp_all

lemma words_value:
  "words_typed G v \<Longrightarrow> agrees rows G vars \<Longrightarrow> inv u \<Longrightarrow>
     \<exists>w ws. value_evaluate calls vars v u = Ret (Some w, u) \<and> written w = Ret ws"
proof (induction G v rule: words_typed.induct)
  case (1 G)
  then show ?case using code [of u] by (auto simp: words_value_def written_def)
next
  case (2 G t x f)
  then obtain n where "map_of vars x = Some n" "0 \<le> n" "n < int (rows t)" "t \<noteq> TABLE_SECTION"
    using agrees_lookup [of rows G vars x "Some t"] by auto
  then show ?case using field [of u t n f] 2 by (auto simp: words_value_def written_def)
next
  case (3 G vs)
  then obtain ns where "words_evaluate calls vars vs u = Ret (map (\<lambda>n. Some (PNumber n)) ns, u)"
    using words_numbers [of G vs vars u] by auto
  then show ?case by (simp add: written_def number_words_numbers)
qed simp_all

text \<open>A loop whose body can be run for each value of the variable can be run.\<close>

lemma loop_runs:
  assumes body: "\<And>n v. i \<le> n \<Longrightarrow> n < t \<Longrightarrow> inv v \<Longrightarrow> \<exists>v'. script P calls A (vars @ [(x, n)]) body v v' \<and> inv v'"
    and "inv u"
  shows "\<exists>u'. script_loop P calls A vars x i t body u u' \<and> inv u'"
  using assms
proof (induction "nat (t - i)" arbitrary: i u)
  case 0
  then show ?case by (intro exI [of _ u]) (auto intro: script_loop_end)
next
  case (Suc m)
  then obtain v where v: "script P calls A (vars @ [(x, i)]) body u v" "inv v" by fastforce
  obtain w where "script_loop P calls A vars x (i + 1) t body v w" "inv w"
    using Suc.hyps(1) [of "i + 1" v] Suc.hyps(2) Suc.prems(1) v(2) by fastforce
  then show ?case using v Suc.hyps(2) by (intro exI [of _ w]) (auto intro: script_loop_step)
qed

lemma write_runs:
  assumes "number_typed G v \<or> words_typed G v" and "agrees rows G vars" and "inv u"
  shows "\<exists>w ws u'. value_evaluate calls vars v u = Ret (Some w, u) \<and> written w = Ret ws \<and>
    call_write calls ws u = Ret u' \<and> inv u'"
proof -
  obtain w ws where w: "value_evaluate calls vars v u = Ret (Some w, u)" "written w = Ret ws"
    using assms number_value [of G v vars u] words_value [of G v vars u] by (auto simp: written_def)
  then show ?thesis using writes [OF assms(3), of ws] by blast
qed

lemma loop_values:
  assumes "number_typed G start" and "number_typed G until" and "agrees rows G vars" and "inv u"
  shows "\<exists>i t. value_evaluate calls vars start u = Ret (Some (PNumber i), u) \<and>
    value_evaluate calls vars until u = Ret (Some (PNumber t), u) \<and>
    (\<forall>n. i \<le> n \<longrightarrow> n < t \<longrightarrow> agrees rows (G @ [(x, loop_table start until)]) (vars @ [(x, n)]))"
proof -
  obtain i t where it: "value_evaluate calls vars start u = Ret (Some (PNumber i), u)"
      "value_evaluate calls vars until u = Ret (Some (PNumber t), u)"
    using assms number_value by blast
  have "agrees rows (G @ [(x, loop_table start until)]) (vars @ [(x, n)])" if "i \<le> n" "n < t" for n
  proof (rule agrees_snoc [OF assms(3)])
    show "case loop_table start until of None \<Rightarrow> True | Some t \<Rightarrow> 0 \<le> n \<and> n < int (rows t)"
      using it that total [OF assms(4)] assms(2) by (cases "(start, until)" rule: loop_table.cases) auto
  qed
  with it show ?thesis by blast
qed

lemma instructions_run:
  assumes chains: "\<And>j u. rank j < rank i \<Longrightarrow> j < length (ps_policies P) \<Longrightarrow> inv u \<Longrightarrow>
      \<exists>u'. script P calls (insert j A) [] (po_instructions (ps_policies P ! j)) u u' \<and> inv u'"
    and fresh: "\<And>j. rank j < rank i \<Longrightarrow> j \<notin> A"
  shows "(\<forall>G vars u rest u2. instruction_typed P rank i G inst \<longrightarrow> agrees rows G vars \<longrightarrow> inv u \<longrightarrow>
      (\<forall>v. inv v \<longrightarrow> (\<exists>v'. script P calls A vars rest v v' \<and> inv v')) \<longrightarrow>
      (\<exists>u'. script P calls A vars (inst # rest) u u' \<and> inv u'))"
proof (induction inst rule: policy_instruction.induct)
  case (INST_CHAIN v)
  show ?case
  proof (intro allI impI)
    fix G vars u rest
    assume "instruction_typed P rank i G (INST_CHAIN v)" "inv u"
      and rest: "\<forall>v. inv v \<longrightarrow> (\<exists>v'. script P calls A vars rest v v' \<and> inv v')"
    then obtain name j where j: "v = WORD name" "find_policy (ps_policies P) name 0 = Some j" "rank j < rank i"
      by (cases v) (auto split: option.splits)
    then have "j < length (ps_policies P)" using find_policy_bounds by fastforce
    then obtain u1 where u1: "script P calls (insert j A) [] (po_instructions (ps_policies P ! j)) u u1" "inv u1"
      using chains [OF j(3)] \<open>inv u\<close> by blast
    then obtain u2 where u2: "script P calls A vars rest u1 u2" "inv u2" using rest by blast
    show "\<exists>u'. script P calls A vars (INST_CHAIN v # rest) u u' \<and> inv u'"
      unfolding j(1) using script_chain [OF j(2) fresh [OF j(3)] u1(1) u2(1)] u2(2) by blast
  qed
next
  case (INST_OFFSET v)
  show ?case
  proof (intro allI impI)
    fix G vars u rest
    assume "instruction_typed P rank i G (INST_OFFSET v)" "inv u"
      and rest: "\<forall>v. inv v \<longrightarrow> (\<exists>v'. script P calls A vars rest v v' \<and> inv v')"
    then obtain n where n: "v = NUMBER n" "0 \<le> n" "n < 2 ^ 16" by (cases v) auto
    then obtain u1 where "call_offset calls n u = Ret u1" "inv u1" using offset [OF \<open>inv u\<close>] by blast
    then show "\<exists>u'. script P calls A vars (INST_OFFSET v # rest) u u' \<and> inv u'"
      using rest script_offset [of calls vars v u n u] unfolding n(1) by fastforce
  qed
next
  case (INST_WRITE v)
  show ?case
  proof (intro allI impI)
    fix G vars u rest
    assume "instruction_typed P rank i G (INST_WRITE v)" "agrees rows G vars" "inv u"
      and rest: "\<forall>v. inv v \<longrightarrow> (\<exists>v'. script P calls A vars rest v v' \<and> inv v')"
    then obtain w ws u1 where w: "value_evaluate calls vars v u = Ret (Some w, u)" "written w = Ret ws"
        "call_write calls ws u = Ret u1" "inv u1"
      using write_runs [of G v vars u] by auto
    then obtain u2 where "script P calls A vars rest u1 u2" "inv u2" using rest by blast
    then show "\<exists>u'. script P calls A vars (INST_WRITE v # rest) u u' \<and> inv u'"
      using script_write [OF w(1-3)] by blast
  qed
next
  case (KEYWORD_FOR name start until body)
  have body: "\<exists>u'. script P calls A vars insts u u' \<and> inv u'"
    if "set insts \<subseteq> set body" "list_all (instruction_typed P rank i G) insts" "agrees rows G vars" "inv u" for G vars u insts
    using that
  proof (induction insts arbitrary: u)
    case Nil
    then show ?case by (intro exI [of _ u]) (simp add: script_nil)
  next
    case (Cons a insts)
    then show ?case using KEYWORD_FOR.IH [of a] by auto
  qed
  show ?case
  proof (intro allI impI)
    fix G vars u rest
    assume typed: "instruction_typed P rank i G (KEYWORD_FOR name start until body)" and ag: "agrees rows G vars" and "inv u"
      and rest: "\<forall>v. inv v \<longrightarrow> (\<exists>v'. script P calls A vars rest v v' \<and> inv v')"
    obtain a t where at: "value_evaluate calls vars start u = Ret (Some (PNumber a), u)"
        "value_evaluate calls vars until u = Ret (Some (PNumber t), u)"
        "\<And>n. a \<le> n \<Longrightarrow> n < t \<Longrightarrow> agrees rows (G @ [(name, loop_table start until)]) (vars @ [(name, n)])"
      using loop_values [of G start until vars u name] typed ag \<open>inv u\<close> by auto
    obtain u1 where u1: "script_loop P calls A vars name a t body u u1" "inv u1"
      using loop_runs [of a t P A vars name body u] body [of body] at(3) typed \<open>inv u\<close> by auto
    then obtain u2 where u2: "script P calls A vars rest u1 u2" "inv u2" using rest by blast
    have "map_of G name = None" using typed by simp
    then show "\<exists>u'. script P calls A vars (KEYWORD_FOR name start until body # rest) u u' \<and> inv u'"
      using script_for [OF agrees_none [OF ag] at(1,2) u1(1) u2(1)] u2(2) by blast
  qed
qed

lemma typed_policy_script:
  assumes "policies_typed P rank"
  shows "i < length (ps_policies P) \<Longrightarrow> inv u \<Longrightarrow> \<forall>j \<in> A. rank i \<le> rank j \<Longrightarrow>
    \<exists>u'. script P calls (insert i A) [] (po_instructions (ps_policies P ! i)) u u' \<and> inv u'"
proof (induction "rank i" arbitrary: i A u rule: less_induct)
  case less
  have fresh: "\<And>j. rank j < rank i \<Longrightarrow> j \<notin> insert i A" using less.prems(3) by fastforce
  have chains: "\<exists>u'. script P calls (insert j (insert i A)) [] (po_instructions (ps_policies P ! j)) v u' \<and> inv u'"
    if "rank j < rank i" "j < length (ps_policies P)" "inv v" for j v
    using less.hyps [OF that, of "insert i A"] that(1) less.prems(3) by fastforce
  note run = instructions_run [where A = "insert i A" and i = i and P = P and rank = rank, OF chains fresh]
  have "list_all (instruction_typed P rank i []) insts \<Longrightarrow> inv v \<Longrightarrow>
      \<exists>v'. script P calls (insert i A) [] insts v v' \<and> inv v'" for insts v
  proof (induction insts arbitrary: v)
    case Nil
    then show ?case by (intro exI [of _ v]) (simp add: script_nil)
  next
    case (Cons a insts)
    then show ?case using run [of a] by (auto simp: agrees_def)
  qed
  then show ?case using assms less.prems(1,2) by (simp add: policies_typed_def)
qed

end

section \<open>The linker as the provider of the handlers\<close>

text \<open>
  A linked program: every table but the section table is there, and the adjusted words are words
  of the program.
\<close>

definition linked_bin :: "ldbin \<Rightarrow> bool" where
  "linked_bin b \<longleftrightarrow> (\<forall>t. t \<noteq> TABLE_SECTION \<longrightarrow> b_tabs b (table_kind t) \<noteq> None) \<and>
     (\<forall>e \<in> set (elems (the (b_tabs b TAdjustment))). unat (ce_address e) < length (b_words b))"

definition table_rows :: "ldbin \<Rightarrow> ptable \<Rightarrow> nat" where
  "table_rows b t = length (elems (the (b_tabs b (table_kind t))))"

definition linker_inv :: "ldstate \<Rightarrow> cstr \<Rightarrow> bref \<Rightarrow> ldbin \<Rightarrow> cstr \<Rightarrow> policy_userdata \<Rightarrow> bool" where
  "linker_inv st name p b output u \<longleftrightarrow> code_bin st name p b \<and> linked_bin b \<and>
     (\<exists>cs ws prev. length cs = length (b_words b) \<and> u = running st name p b output cs ws prev)"

lemma offset_words_length:
  assumes "- 65536 < d" and "d < 65536"
  shows "\<forall>e \<in> set es. unat (ce_address e) < length ws \<Longrightarrow> \<exists>ws'. offset_words d es ws = Ret ws' \<and> length ws' = length ws"
proof (induction es arbitrary: ws)
  case (Cons e es)
  have c: "c_int d" "c_int (uint w + d)" for w :: u16
  proof -
    have "uint w < 65536" using uint_lt2p [of w] by simp
    then have "- 2147483648 \<le> d" "d < 2147483648" "- 2147483648 \<le> uint w + d" "uint w + d < 2147483648"
      using assms uint_ge_0 [of w] by linarith+
    then show "c_int d" "c_int (uint w + d)" unfolding c_int_def by simp_all
  qed
  have a: "unat (ce_address e) < length ws" using Cons.prems by simp
  obtain ws' where "offset_words d es (ws[unat (ce_address e) := word_of_int (uint (ws ! unat (ce_address e)) + d)]) = Ret ws'"
      "length ws' = length ws"
    using Cons.IH [of "ws[unat (ce_address e) := word_of_int (uint (ws ! unat (ce_address e)) + d)]"] Cons.prems by auto
  then show ?case using a c by (intro exI [of _ ws']) (simp add: Let_def ensure_def)
qed simp

interpretation lk: policy_handlers "linker_calls env" "linker_inv st name p b output" "table_rows b"
  for env st name p b "output"
proof (unfold_locales, goal_cases)
  case (1 u t)
  then show ?case by (auto simp: linker_inv_def linked_bin_def table_rows_def)
next
  case (2 u t i f)
  then show ?case by (fastforce simp: linker_inv_def linked_bin_def table_rows_def)
next
  case (3 u)
  then show ?case by (auto simp: linker_inv_def)
next
  case (4 u ws)
  then show ?case by (auto simp: linker_inv_def) blast
next
  case (5 u n)
  then obtain cs ws prev where u: "code_bin st name p b" "linked_bin b" "length cs = length (b_words b)"
      "u = running st name p b output cs ws prev"
    by (auto simp: linker_inv_def)
  then obtain l where l: "b_tabs b TAdjustment = Some l" "\<forall>e \<in> set (elems l). unat (ce_address e) < length cs"
    by (fastforce simp: linked_bin_def dest: spec [of _ TABLE_ADJUSTMENT])
  have "uint prev < 65536" "n < 65536" using uint_lt2p [of prev] 5(3) by simp_all
  then have "- 65536 < n - uint prev" "n - uint prev < 65536" using 5(2) uint_ge_0 [of prev] by linarith+
  then obtain cs' where "offset_words (n - uint prev) (elems l) cs = Ret cs'" "length cs' = length cs"
    using offset_words_length [OF _ _ l(2), of "n - uint prev"] by auto
  then show ?case using u l offset_running [of st name p b l n prev cs cs' env "output" ws]
    by (auto simp: linker_inv_def)
qed

text \<open>
  C23. Types for policies: a set of policies that has types (numbers and lists of words where they
  are expected, declared variables, fields of the rows that the loop around them counts, and
  chains that go down in a rank) never fails. Applied to any linked program, every format of the
  set returns, with no undefined behaviour and no error, for all fuel from some amount on; it
  only changes words of the code in place and the new bin.
\<close>

theorem typed_policy_applies:
  assumes "l_fs st path = Some bs" and "policies_typed (load bs) rank"
    and "find_policy (ps_policies (load bs)) target 0 = Some i" and "po_type (ps_policies (load bs) ! i) = POLICY_FORMAT"
    and "code_bin st name p b" and "linked_bin b"
  shows "\<exists>n cs ws. length cs = length (b_words b) \<and>
    (\<forall>fuel \<ge> n. bins_apply_policy fuel env load path target name output st = Some (Ret (applied_state st p b cs output ws)))"
proof -
  have "i < length (ps_policies (load bs))" using find_policy_bounds [OF assms(3)] by simp
  moreover have "linker_inv st name p b output (running st name p b output (b_words b) [] 0)"
    using assms(5,6) by (auto simp: linker_inv_def)
  ultimately obtain u where u: "script (load bs) (linker_calls env) {i} [] (po_instructions (ps_policies (load bs) ! i))
      (running st name p b output (b_words b) [] 0) u" "linker_inv st name p b output u"
    using lk.typed_policy_script [OF assms(2), of i st name p b "output" _ "{}" env] by auto
  then obtain cs ws prev where cs: "length cs = length (b_words b)" "u = running st name p b output cs ws prev"
    by (auto simp: linker_inv_def)
  have "\<exists>n. \<forall>fuel \<ge> n. bins_apply_policy fuel env load path target name output st = Some (Ret (applied_state st p b cs output ws))"
    by (rule apply_policy_script [of st path bs load target i name p b env "output" cs ws prev])
      (use assms u(1) cs(2) in simp_all)
  with cs(1) show ?thesis by blast
qed

theorem typed_policy_applies_witness:
  "\<exists>n cs ws. length cs = length (b_words policy_bin) \<and>
    (\<forall>fuel \<ge> n. bins_apply_policy fuel policy_env (\<lambda>_. example_policies 0x1000) (c_str ''policy'') (c_str ''shared'')
       (c_str ''output'') (c_str ''out'') policy_state =
     Some (Ret (applied_state policy_state 0 policy_bin cs (c_str ''out'') ws)))"
proof -
  have t: "policies_typed (example_policies 0x1000) (\<lambda>i. if i \<in> {1, 2, 3} then 0 else 1)" by code_simp
  have "b_tabs policy_bin (table_kind t) \<noteq> None" if "t \<noteq> TABLE_SECTION" for t
    using that by (cases t) (simp_all add: policy_bin_def)
  then have b: "linked_bin policy_bin" by (simp add: linked_bin_def)
  show ?thesis
    using typed_policy_applies [of policy_state "c_str ''policy''" "[]" "\<lambda>_. example_policies 0x1000"
        "\<lambda>i. if i \<in> {1, 2, 3} then 0 else 1" "c_str ''shared''" 4 "c_str ''output''" 0 policy_bin policy_env "c_str ''out''"] t b
    by simp
qed

end
