(* ===== verification/Ppexpr.thy ===== *)
theory Ppexpr
  imports Derr
begin

unbundle bit_operations_syntax

text \<open>
  Compile-time expressions (\<^verbatim>\<open>libdcpu-pp-expr/ppexpr.c\<close>): their tree, their evaluation on 16-bit
  values, and the text that is shown for them in messages.

  A child that is a null pointer is \<open>None\<close>, and following it is undefined. The order in which
  C evaluates the two operands of an operator only matters for which of two errors is
  raised; here it is the error of the left one. As in the instruction routines, a product or a
  shift that leaves \<open>int\<close> wraps, and a shift by 32 or more is undefined.
\<close>

datatype expr_op =
    EXPR_OP_INVALID | EXPR_OP_ADD | EXPR_OP_SUBTRACT | EXPR_OP_MULTIPLY | EXPR_OP_DIVIDE | EXPR_OP_MODULUS
  | EXPR_OP_EQUALS | EXPR_OP_NOT_EQUALS | EXPR_OP_LESS_THAN | EXPR_OP_LESS_EQUALS
  | EXPR_OP_GREATER_THAN | EXPR_OP_GREATER_EQUALS | EXPR_OP_AND | EXPR_OP_BOR | EXPR_OP_XOR
  | EXPR_OP_BOOLEAN_NOT | EXPR_OP_BOOLEAN_AND | EXPR_OP_BOOLEAN_OR | EXPR_OP_BOOLEAN_XOR
  | EXPR_OP_LEFT_SHIFT | EXPR_OP_RIGHT_SHIFT

datatype expr =
    EXPR_NUMBER u16
  | EXPR_LABEL cstr
  | EXPR_EXPR "expr option" expr_op "expr option"

abbreviation (input) EXPR_EXIT_LABEL_NOT_FOUND :: int where "EXPR_EXIT_LABEL_NOT_FOUND \<equiv> 0"
abbreviation (input) EXPR_EXIT_DIVIDE_BY_ZERO :: int where "EXPR_EXIT_DIVIDE_BY_ZERO \<equiv> 1"

definition expr_new :: "expr option \<Rightarrow> expr_op \<Rightarrow> expr option \<Rightarrow> expr" where
  "expr_new a op b = EXPR_EXPR a op b"

definition expr_new_number :: "u16 \<Rightarrow> expr" where
  "expr_new_number val = EXPR_NUMBER val"

definition expr_new_label :: "cstr \<Rightarrow> expr" where
  "expr_new_label label = EXPR_LABEL label"

section \<open>Text\<close>

text \<open>The digits of a number in base 10.\<close>

fun decimal :: "nat \<Rightarrow> cstr" where
  "decimal n = (if n < 10 then [48 + of_nat n] else decimal (n div 10) @ [48 + of_nat (n mod 10)])"

declare decimal.simps [simp del]

fun op_text :: "expr_op \<Rightarrow> string" where
  "op_text EXPR_OP_ADD = ''+''"
| "op_text EXPR_OP_SUBTRACT = ''-''"
| "op_text EXPR_OP_MULTIPLY = ''*''"
| "op_text EXPR_OP_DIVIDE = ''/''"
| "op_text EXPR_OP_MODULUS = ''%''"
| "op_text EXPR_OP_EQUALS = ''==''"
| "op_text EXPR_OP_NOT_EQUALS = ''!=''"
| "op_text EXPR_OP_LESS_THAN = ''<''"
| "op_text EXPR_OP_LESS_EQUALS = ''<=''"
| "op_text EXPR_OP_GREATER_THAN = ''>''"
| "op_text EXPR_OP_GREATER_EQUALS = ''>=''"
| "op_text EXPR_OP_AND = ''&''"
| "op_text EXPR_OP_BOR = ''|''"
| "op_text EXPR_OP_XOR = ''^''"
| "op_text _ = ''???''"

fun expr_representation :: "expr \<Rightarrow> cstr ldres" where
  "expr_representation (EXPR_NUMBER n) = Ret (decimal (unat n))"
| "expr_representation (EXPR_LABEL l) = Ret l"
| "expr_representation (EXPR_EXPR a op b) =
     ld_bind (case a of None \<Rightarrow> Undef | Some e \<Rightarrow> expr_representation e) (\<lambda>s.
     ld_bind (case b of None \<Rightarrow> Undef | Some e \<Rightarrow> expr_representation e) (\<lambda>t.
     Ret (c_str ''('' @ s @ c_str '' '' @ c_str (op_text op) @ c_str '' '' @ t @ c_str '')'')))"

text \<open>Releasing a tree follows both children.\<close>

fun expr_delete :: "expr \<Rightarrow> unit ldres" where
  "expr_delete (EXPR_NUMBER n) = Ret ()"
| "expr_delete (EXPR_LABEL l) = Ret ()"
| "expr_delete (EXPR_EXPR a op b) =
     ld_bind (case a of None \<Rightarrow> Undef | Some e \<Rightarrow> expr_delete e) (\<lambda>_.
     (case b of None \<Rightarrow> Undef | Some e \<Rightarrow> expr_delete e))"

section \<open>Evaluation\<close>

definition truth :: "bool \<Rightarrow> u16" where
  "truth P = (if P then 1 else 0)"

text \<open>The operators that evaluate both operands, left to right.\<close>

fun strict_op :: "expr_op \<Rightarrow> u16 \<Rightarrow> u16 \<Rightarrow> u16 ldres" where
  "strict_op EXPR_OP_ADD x y = Ret (x + y)"
| "strict_op EXPR_OP_SUBTRACT x y = Ret (x - y)"
| "strict_op EXPR_OP_MULTIPLY x y = Ret (x * y)"
| "strict_op EXPR_OP_EQUALS x y = Ret (truth (x = y))"
| "strict_op EXPR_OP_NOT_EQUALS x y = Ret (truth (x \<noteq> y))"
| "strict_op EXPR_OP_LESS_THAN x y = Ret (truth (x < y))"
| "strict_op EXPR_OP_LESS_EQUALS x y = Ret (truth (x \<le> y))"
| "strict_op EXPR_OP_GREATER_THAN x y = Ret (truth (x > y))"
| "strict_op EXPR_OP_GREATER_EQUALS x y = Ret (truth (x \<ge> y))"
| "strict_op EXPR_OP_AND x y = Ret (x AND y)"
| "strict_op EXPR_OP_BOR x y = Ret (x OR y)"
| "strict_op EXPR_OP_XOR x y = Ret (x XOR y)"
| "strict_op EXPR_OP_BOOLEAN_XOR x y = Ret (truth ((x \<noteq> 0 \<or> y \<noteq> 0) \<and> \<not> (x \<noteq> 0 \<and> y \<noteq> 0)))"
| "strict_op EXPR_OP_LEFT_SHIFT x y = (if y < 32 then Ret (push_bit (unat y) x) else Undef)"
| "strict_op EXPR_OP_RIGHT_SHIFT x y = (if y < 32 then Ret (drop_bit (unat y) x) else Undef)"
| "strict_op _ x y = Undef"

text \<open>
  \<open>labelreplace\<close> is the callback that gives a label its value, if there is one; \<open>errexit\<close> the
  callback for errors. When it returns from a division by zero, the division is undefined.
\<close>

fun expr_evaluate ::
    "(cstr \<Rightarrow> u16 ldres) option \<Rightarrow> (int \<Rightarrow> cstr \<Rightarrow> unit ldres) \<Rightarrow> expr \<Rightarrow> u16 ldres" where
  "expr_evaluate labelreplace errexit (EXPR_NUMBER n) = Ret n"
| "expr_evaluate labelreplace errexit (EXPR_LABEL l) =
     (case labelreplace of
        None \<Rightarrow> ld_bind (errexit EXPR_EXIT_LABEL_NOT_FOUND l) (\<lambda>_. Ret 0)
      | Some f \<Rightarrow> f l)"
| "expr_evaluate labelreplace errexit (EXPR_EXPR a op b) =
     (if op = EXPR_OP_INVALID then Ret 0
      else if op = EXPR_OP_DIVIDE \<or> op = EXPR_OP_MODULUS then
        ld_bind (case b of None \<Rightarrow> Undef | Some e \<Rightarrow> expr_evaluate labelreplace errexit e) (\<lambda>t.
        ld_bind (if t = 0
                 then ld_bind (case b of None \<Rightarrow> Undef | Some e \<Rightarrow> expr_representation e)
                        (errexit EXPR_EXIT_DIVIDE_BY_ZERO)
                 else Ret ()) (\<lambda>_.
        ld_bind (case a of None \<Rightarrow> Undef | Some e \<Rightarrow> expr_evaluate labelreplace errexit e) (\<lambda>x.
        if t = 0 then Undef else Ret (if op = EXPR_OP_DIVIDE then x div t else x mod t))))
      else if op = EXPR_OP_BOOLEAN_NOT then
        ld_bind (case b of None \<Rightarrow> Undef | Some e \<Rightarrow> expr_evaluate labelreplace errexit e) (\<lambda>y. Ret (truth (y = 0)))
      else
        ld_bind (case a of None \<Rightarrow> Undef | Some e \<Rightarrow> expr_evaluate labelreplace errexit e) (\<lambda>x.
        if op = EXPR_OP_BOOLEAN_AND \<and> x = 0 then Ret 0
        else if op = EXPR_OP_BOOLEAN_OR \<and> x \<noteq> 0 then Ret 1
        else
          ld_bind (case b of None \<Rightarrow> Undef | Some e \<Rightarrow> expr_evaluate labelreplace errexit e) (\<lambda>y.
          if op = EXPR_OP_BOOLEAN_AND \<or> op = EXPR_OP_BOOLEAN_OR then Ret (truth (y \<noteq> 0))
          else strict_op op x y)))"

text \<open>The two callbacks of \<^verbatim>\<open>libdcpu/derr.c\<close>.\<close>

definition dhalt_label_resolution_not_permitted :: "cstr \<Rightarrow> u16 ldres" where
  "dhalt_label_resolution_not_permitted name = Halt ERR_LABEL_RESOLUTION_NOT_PERMITTED (Some name)"

definition dhalt_expression_exit_handler :: "int \<Rightarrow> cstr \<Rightarrow> unit ldres" where
  "dhalt_expression_exit_handler code dat =
     (if code = EXPR_EXIT_LABEL_NOT_FOUND then Halt ERR_LABEL_NOT_FOUND (Some dat)
      else if code = EXPR_EXIT_DIVIDE_BY_ZERO then Halt ERR_EXPRESSION_DIVIDE_BY_ZERO (Some dat)
      else Halt ERR_GENERIC None)"

end
