(* ===== verification/Ppfind.thy ===== *)
theory Ppfind
  imports Objfmt
begin

text \<open>
  Finding and reading input files: the list of include paths (\<^verbatim>\<open>libdcpu-pp/ppfind.c\<close>), and the
  buffered reader (\<^verbatim>\<open>libdcpu/bfile.c\<close>) that looks one byte ahead so that the end of the file is
  known before it is read past.

  The files that exist are a map from paths to contents. The list of include paths is \<open>None\<close>
  until it is initialised. \<^verbatim>\<open>dirname\<close> of the C library is an argument.
\<close>

type_synonym filesystem = "cstr \<Rightarrow> u8 list option"

section \<open>Include paths\<close>

definition ppfind_init :: "cstr list" where
  "ppfind_init = [c_str ''.'']"

definition ppfind_ready :: "cstr list option \<Rightarrow> cstr list" where
  "ppfind_ready paths = (case paths of None \<Rightarrow> ppfind_init | Some ps \<Rightarrow> ps)"

definition ppfind_add_path :: "cstr \<Rightarrow> cstr list option \<Rightarrow> cstr list option" where
  "ppfind_add_path path paths = Some (ppfind_ready paths @ [path])"

definition ppfind_add_autopath :: "(cstr \<Rightarrow> cstr) \<Rightarrow> cstr \<Rightarrow> cstr list option \<Rightarrow> cstr list option" where
  "ppfind_add_autopath dirname file paths = ppfind_add_path (dirname file) paths"

definition ppfind_remove_path :: "cstr \<Rightarrow> cstr list option \<Rightarrow> cstr list option" where
  "ppfind_remove_path path paths = Some (remove1 path (ppfind_ready paths))"

fun locate_in :: "cstr list \<Rightarrow> filesystem \<Rightarrow> cstr \<Rightarrow> cstr option" where
  "locate_in [] fs path = None"
| "locate_in (p # ps) fs path =
     (let result = p @ c_str ''/'' @ path
      in if fs result = None then locate_in ps fs path else Some result)"

definition ppfind_locate :: "cstr list option \<Rightarrow> filesystem \<Rightarrow> cstr \<Rightarrow> cstr option" where
  "ppfind_locate paths fs path =
     (if take 1 path = c_str ''/'' then Some path
      else locate_in (ppfind_ready paths) fs path)"

lemma locate_in_first:
  "locate_in ps fs path = map_option (\<lambda>p. p @ c_str ''/'' @ path)
     (List.find (\<lambda>p. fs (p @ c_str ''/'' @ path) \<noteq> None) ps)"
  by (induction ps) (simp_all add: Let_def)

text \<open>A path that was added is searched after all paths that were there.\<close>

lemma locate_added:
  assumes "take 1 path \<noteq> c_str ''/''"
  shows "ppfind_locate (ppfind_add_path p paths) fs path =
    (case ppfind_locate paths fs path of
       Some r \<Rightarrow> Some r
     | None \<Rightarrow> if fs (p @ c_str ''/'' @ path) = None then None else Some (p @ c_str ''/'' @ path))"
proof -
  have "locate_in (ps @ [p]) fs path =
      (case locate_in ps fs path of
         Some r \<Rightarrow> Some r
       | None \<Rightarrow> if fs (p @ c_str ''/'' @ path) = None then None else Some (p @ c_str ''/'' @ path))" for ps
    by (induction ps) (simp_all add: Let_def)
  with assms show ?thesis by (simp add: ppfind_locate_def ppfind_add_path_def ppfind_ready_def split: option.split)
qed

section \<open>Buffered reading\<close>

record bfile =
  bf_file :: cfile
  bf_pos :: nat
  bf_last :: int
  bf_eof :: bool

text \<open>One byte of a stream, or -1, which also sets the end-of-file mark.\<close>

definition fgetc :: "cfile \<Rightarrow> int \<times> bool \<times> cfile" where
  "fgetc f =
     (if fpos f < length (fcontent f)
      then (uint (fcontent f ! fpos f), False, f\<lparr>fpos := fpos f + 1\<rparr>)
      else (-1, True, f))"

definition bfopen :: "u8 list option \<Rightarrow> bfile option" where
  "bfopen content =
     (case content of
        None \<Rightarrow> None
      | Some bs \<Rightarrow>
          (let (c, eof, f) = fgetc \<lparr>fcontent = bs, fpos = 0\<rparr>
           in Some \<lparr>bf_file = f, bf_pos = 0, bf_last = c, bf_eof = eof\<rparr>))"

definition bfgetc :: "bfile \<Rightarrow> int \<times> bfile" where
  "bfgetc file =
     (let (c, eof, f) = fgetc (bf_file file)
      in (bf_last file, \<lparr>bf_file = f, bf_pos = bf_pos file + 1, bf_last = c, bf_eof = eof\<rparr>))"

text \<open>The bytes that a loop reads which asks for the end before each one.\<close>

function bfread_all :: "bfile \<Rightarrow> u8 list" where
  "bfread_all file =
     (if bf_eof file then []
      else (let (c, file') = bfgetc file in word_of_int c # bfread_all file'))"
  by pat_completeness auto

termination
  by (relation "measure (\<lambda>f. length (fcontent (bf_file f)) - fpos (bf_file f) + (if bf_eof f then 0 else 1))")
    (auto simp: bfgetc_def fgetc_def Let_def split: if_splits)

declare bfread_all.simps [simp del]

lemma bfread_rest:
  assumes "\<not> bf_eof b" and "fpos (bf_file b) \<le> length (fcontent (bf_file b))"
    and "bf_last b = uint c"
  shows "bfread_all b = c # drop (fpos (bf_file b)) (fcontent (bf_file b))"
  using assms
proof (induction "length (fcontent (bf_file b)) - fpos (bf_file b)" arbitrary: b c)
  case 0
  then have "fpos (bf_file b) = length (fcontent (bf_file b))" by simp
  with 0 show ?case
    by (subst bfread_all.simps, subst bfread_all.simps) (simp add: bfgetc_def fgetc_def)
next
  case (Suc n)
  let ?p = "fpos (bf_file b)" and ?bs = "fcontent (bf_file b)"
  have p: "?p < length ?bs" using Suc.hyps(2) by simp
  let ?file = "\<lparr>bf_file = (bf_file b)\<lparr>fpos := ?p + 1\<rparr>, bf_pos = bf_pos b + 1, bf_last = uint (?bs ! ?p), bf_eof = False\<rparr>"
  have "bfread_all ?file = ?bs ! ?p # drop (?p + 1) ?bs"
    using Suc.hyps(1) [of ?file "?bs ! ?p"] Suc.hyps(2) p by simp
  with p Suc.prems show ?case
    by (subst bfread_all.simps) (simp add: bfgetc_def fgetc_def Cons_nth_drop_Suc)
qed

text \<open>The loop copies the file, whole and no more.\<close>

theorem buffered_copy: "map_option bfread_all (bfopen content) = content"
proof (cases content)
  case (Some bs)
  show ?thesis
  proof (cases bs)
    case Nil
    with Some show ?thesis by (simp add: bfopen_def fgetc_def bfread_all.simps)
  next
    case (Cons c cs)
    let ?file = "\<lparr>bf_file = \<lparr>fcontent = c # cs, fpos = 1\<rparr>, bf_pos = 0, bf_last = uint c, bf_eof = False\<rparr>"
    have "bfread_all ?file = c # cs" using bfread_rest [of ?file c] by simp
    with Some Cons show ?thesis by (simp add: bfopen_def fgetc_def)
  qed
qed (simp add: bfopen_def)

end
