(* ===== verification/Asm_Out.thy ===== *)
theory Asm_Out
  imports Ppexpr Ppfind Dbgfmt Dcpu_Isa "HOL-Library.Signed_Division"
begin

text \<open>
  The output side of the assembler (\<^verbatim>\<open>libdcpu-ci-asm/aout.c\<close>, \<^verbatim>\<open>textn.c\<close>, \<^verbatim>\<open>treloc.c\<close>): the
  list of words and directives that the assembler emits, and how \<^verbatim>\<open>aout_write\<close> turns it into
  an object file or a binary.

  The doubly linked list from \<^verbatim>\<open>start\<close> to \<^verbatim>\<open>end\<close> is a list. A debug symbol is shared between the
  list of all symbols and the word it belongs to: a word holds the positions of its symbols in
  the list of all symbols.
\<close>

section \<open>Words and directives\<close>

datatype aout_type =
    AOUT_TYPE_NORMAL | AOUT_TYPE_METADATA_EXTENSION | AOUT_TYPE_METADATA_INCBIN
  | AOUT_TYPE_METADATA_ORIGIN | AOUT_TYPE_METADATA_EXPORT | AOUT_TYPE_METADATA_IMPORT
  | AOUT_TYPE_METADATA_SECTION | AOUT_TYPE_METADATA_OUTPUT | AOUT_TYPE_METADATA_SEEK
  | AOUT_TYPE_METADATA_JUMP | AOUT_TYPE_METADATA_IMPORT_OPTIONAL | AOUT_TYPE_METADATA_CALL

record aout_byte =
  ab_type :: aout_type
  ab_opcode :: u16
  ab_a :: u16
  ab_b :: u16
  ab_expr :: "expr option"
  ab_label :: "cstr option"
  ab_raw_used :: bool
  ab_raw :: u16
  ab_symbols :: "nat list"

definition aout_blank :: "aout_type \<Rightarrow> aout_byte" where
  "aout_blank ty = \<lparr>ab_type = ty, ab_opcode = 0, ab_a = 0, ab_b = 0, ab_expr = None, ab_label = None,
     ab_raw_used = False, ab_raw = 0, ab_symbols = []\<rparr>"

definition aout_create_raw :: "u16 \<Rightarrow> aout_byte" where
  "aout_create_raw raw = (aout_blank AOUT_TYPE_NORMAL)\<lparr>ab_raw_used := True, ab_raw := raw\<rparr>"

definition aout_create_opcode :: "u16 \<Rightarrow> u16 \<Rightarrow> u16 \<Rightarrow> aout_byte ldres" where
  "aout_create_opcode opcode a b =
     (if opcode = 0 \<and> a = 0 then Halt ERR_OUTPUT_NULL None
      else Ret ((aout_blank AOUT_TYPE_NORMAL)\<lparr>ab_opcode := opcode, ab_a := a, ab_b := b\<rparr>))"

definition aout_create_label :: "cstr \<Rightarrow> aout_byte" where
  "aout_create_label name = (aout_blank AOUT_TYPE_NORMAL)\<lparr>ab_label := Some name\<rparr>"

definition aout_create_expr :: "expr \<Rightarrow> aout_byte" where
  "aout_create_expr expression = (aout_blank AOUT_TYPE_NORMAL)\<lparr>ab_expr := Some expression\<rparr>"

definition aout_create_metadata_extension :: "cstr option \<Rightarrow> aout_byte" where
  "aout_create_metadata_extension name = (aout_blank AOUT_TYPE_METADATA_EXTENSION)\<lparr>ab_label := name\<rparr>"

definition aout_create_metadata_incbin :: "cstr option \<Rightarrow> aout_byte" where
  "aout_create_metadata_incbin path = (aout_blank AOUT_TYPE_METADATA_INCBIN)\<lparr>ab_label := path\<rparr>"

definition aout_create_metadata_origin :: "u16 \<Rightarrow> aout_byte" where
  "aout_create_metadata_origin address =
     (aout_blank AOUT_TYPE_METADATA_ORIGIN)\<lparr>ab_opcode := address, ab_expr := Some (expr_new_number address)\<rparr>"

definition aout_create_metadata_seek :: "u16 \<Rightarrow> aout_byte" where
  "aout_create_metadata_seek address =
     (aout_blank AOUT_TYPE_METADATA_SEEK)\<lparr>ab_opcode := address, ab_expr := Some (expr_new_number address)\<rparr>"

definition aout_create_metadata_export :: "cstr option \<Rightarrow> aout_byte" where
  "aout_create_metadata_export name = (aout_blank AOUT_TYPE_METADATA_EXPORT)\<lparr>ab_label := name\<rparr>"

definition aout_create_metadata_jump :: "cstr option \<Rightarrow> aout_byte" where
  "aout_create_metadata_jump name = (aout_blank AOUT_TYPE_METADATA_JUMP)\<lparr>ab_label := name\<rparr>"

definition aout_create_metadata_call :: "cstr option \<Rightarrow> aout_byte" where
  "aout_create_metadata_call name = (aout_blank AOUT_TYPE_METADATA_CALL)\<lparr>ab_label := name\<rparr>"

definition aout_create_metadata_import :: "cstr option \<Rightarrow> aout_byte" where
  "aout_create_metadata_import name = (aout_blank AOUT_TYPE_METADATA_IMPORT)\<lparr>ab_label := name\<rparr>"

definition aout_create_metadata_import_optional :: "cstr option \<Rightarrow> aout_byte" where
  "aout_create_metadata_import_optional name =
     (aout_blank AOUT_TYPE_METADATA_IMPORT_OPTIONAL)\<lparr>ab_label := name\<rparr>"

definition aout_create_metadata_section :: "cstr option \<Rightarrow> aout_byte" where
  "aout_create_metadata_section name = (aout_blank AOUT_TYPE_METADATA_SECTION)\<lparr>ab_label := name\<rparr>"

definition aout_create_metadata_output :: "cstr option \<Rightarrow> aout_byte" where
  "aout_create_metadata_output name = (aout_blank AOUT_TYPE_METADATA_OUTPUT)\<lparr>ab_label := name\<rparr>"

section \<open>State\<close>

text \<open>
  The globals of the assembler. The offset of the code and the origin are set by
  \<^verbatim>\<open>aout_write\<close> and never reset.
\<close>

record aout_state =
  ao_bytes :: "aout_byte list"
  ao_code_offset :: u16
  ao_true_origin :: u16
  ao_symbols :: "dbg_sym list"
  ao_paths :: "cstr list option"
  ao_iio :: iio_state

definition aout_emit :: "aout_byte \<Rightarrow> 'a aout_state_scheme \<Rightarrow> 'a aout_state_scheme" where
  "aout_emit byte st = st\<lparr>ao_bytes := ao_bytes st @ [byte]\<rparr>"

text \<open>Releases the first and the last element; when they are the same one, it is released twice.\<close>

definition aout_reset :: "'a aout_state_scheme \<Rightarrow> 'a aout_state_scheme ldres" where
  "aout_reset st = (if length (ao_bytes st) = 1 then Undef else Ret (st\<lparr>ao_bytes := []\<rparr>))"

section \<open>Addresses of labels\<close>

text \<open>The search of \<^verbatim>\<open>aout_get_label_address\<close> from an element on, at a position in the output.\<close>

fun label_search :: "aout_byte list \<Rightarrow> cstr \<Rightarrow> u16 \<Rightarrow> bool \<Rightarrow> u16 ldres" where
  "label_search [] name mem_index found_import =
     (if found_import then Halt ERR_EXPRESSION_NOT_PERMITTED (Some name)
      else Halt ERR_LABEL_NOT_FOUND (Some name))"
| "label_search (x # xs) name mem_index found_import =
     (if ab_type x = AOUT_TYPE_METADATA_ORIGIN \<or> ab_type x = AOUT_TYPE_METADATA_SEEK then
        label_search xs name (ab_opcode x) found_import
      else if ab_type x = AOUT_TYPE_NORMAL then
        (case ab_label x of
           None \<Rightarrow> label_search xs name (mem_index + 1) found_import
         | Some l \<Rightarrow> if l = name then Ret mem_index else label_search xs name mem_index found_import)
      else if ab_type x = AOUT_TYPE_METADATA_IMPORT \<or> ab_type x = AOUT_TYPE_METADATA_IMPORT_OPTIONAL then
        (case ab_label x of
           None \<Rightarrow> Undef
         | Some l \<Rightarrow> label_search xs name mem_index (found_import \<or> l = name))
      else label_search xs name mem_index found_import)"

definition aout_get_label_address :: "aout_byte list \<Rightarrow> u16 \<Rightarrow> cstr \<Rightarrow> u16 ldres" where
  "aout_get_label_address start code_offset name = label_search start name code_offset False"

section \<open>Extension tables\<close>

abbreviation (input) EXTENSION_MAGIC :: u16 where "EXTENSION_MAGIC \<equiv> 0x4321"
abbreviation (input) EXTENSION_VERSION :: u16 where "EXTENSION_VERSION \<equiv> 0x0001"
abbreviation (input) EXTENSION_MAXIMUM_ENTRIES :: nat where "EXTENSION_MAXIMUM_ENTRIES \<equiv> 50"

definition extension_map :: "string list" where
  "extension_map =
     [''experimental-output-screen-32x12-0x8000'',
      ''experimental-output-screen-32x16-0x8000'',
      ''experimental-input-keyboard-single-0x9000'']"

text \<open>Characters of a name.\<close>

definition cstr_string :: "cstr \<Rightarrow> string" where
  "cstr_string s = map (\<lambda>b. char_of (unat b)) s"

definition textn_verify_name :: "cstr \<Rightarrow> cstr option" where
  "textn_verify_name name =
     map_option c_str (List.find (\<lambda>m. stricmp_eq (cstr_string name) m) extension_map)"

text \<open>The table of extensions: the names, and the number of words they take.\<close>

definition extension_offset :: "cstr list \<Rightarrow> u16" where
  "extension_offset exts = of_nat (sum_list (map (\<lambda>e. length e + 1) exts))"

fun textn_collect :: "aout_byte list \<Rightarrow> cstr list \<Rightarrow> cstr list ldres" where
  "textn_collect [] exts = Ret exts"
| "textn_collect (x # xs) exts =
     (if ab_type x = AOUT_TYPE_METADATA_EXTENSION then
        (case ab_label x of
           None \<Rightarrow> Undef
         | Some l \<Rightarrow>
             (case textn_verify_name l of
                None \<Rightarrow> Halt ERR_EXTENSION_UNKNOWN (Some l)
              | Some e \<Rightarrow>
                  if length (exts @ [e]) = EXTENSION_MAXIMUM_ENTRIES then Halt ERR_EXTENSION_TABLE_TOO_LARGE None
                  else textn_collect xs (exts @ [e])))
      else textn_collect xs exts)"

definition textn_init :: "aout_byte list \<Rightarrow> (u16 \<times> cstr list) ldres" where
  "textn_init start =
     ld_bind (textn_collect start []) (\<lambda>exts.
     Ret (if exts = [] then 0 else extension_offset exts + 5, exts))"

definition extension_words :: "cstr list \<Rightarrow> u16 list" where
  "extension_words exts =
     (if exts = [] then []
      else [INSTRUCTION_CREATE OP_SET PC_val NXT_LIT, extension_offset exts + 5, EXTENSION_MAGIC,
            EXTENSION_VERSION, of_nat (length exts)] @ concat (map (\<lambda>e. map ucast e @ [0]) exts))"

definition textn_write :: "bool \<Rightarrow> cstr list \<Rightarrow> iio_state \<Rightarrow> cfile \<Rightarrow> iio_state \<times> cfile" where
  "textn_write big exts io out = write_words big io (extension_words exts) out"

section \<open>Relocation tables\<close>

abbreviation (input) RELOC_MAGIC :: u16 where "RELOC_MAGIC \<equiv> 0x1234"
abbreviation (input) RELOC_VERSION :: u16 where "RELOC_VERSION \<equiv> 0x0001"
abbreviation (input) RELOC_MAXIMUM_ENTRIES :: nat where "RELOC_MAXIMUM_ENTRIES \<equiv> 2000"

text \<open>The position counts the word itself, so an entry is the position behind the word.\<close>

fun treloc_collect :: "aout_byte list \<Rightarrow> u32 \<Rightarrow> u16 list \<Rightarrow> u16 list ldres" where
  "treloc_collect [] mem_index reloc = Ret reloc"
| "treloc_collect (x # xs) mem_index reloc =
     (if ab_type x \<noteq> AOUT_TYPE_NORMAL then treloc_collect xs mem_index reloc
      else
        (let mem_index = (if ab_label x = None then mem_index + 1 else mem_index) in
         case ab_expr x of
           Some (EXPR_LABEL l) \<Rightarrow>
             (if length (reloc @ [ucast mem_index]) = RELOC_MAXIMUM_ENTRIES
              then Halt ERR_RELOCATION_TABLE_TOO_LARGE None
              else treloc_collect xs mem_index (reloc @ [ucast mem_index]))
         | _ \<Rightarrow> treloc_collect xs mem_index reloc))"

definition treloc_init :: "aout_byte list \<Rightarrow> (u16 \<times> u16 list) ldres" where
  "treloc_init start =
     ld_bind (treloc_collect start 0 []) (\<lambda>reloc. Ret (of_nat (length reloc) + 5, reloc))"

definition reloc_words :: "u16 list \<Rightarrow> u16 list" where
  "reloc_words reloc =
     [INSTRUCTION_CREATE OP_SET PC_val NXT_LIT, of_nat (length reloc) + 5, RELOC_MAGIC, RELOC_VERSION,
      of_nat (length reloc)] @ reloc"

definition treloc_write :: "bool \<Rightarrow> u16 list \<Rightarrow> iio_state \<Rightarrow> cfile \<Rightarrow> iio_state \<times> cfile" where
  "treloc_write big reloc io out = write_words big io (reloc_words reloc) out"

section \<open>Evaluating the list\<close>

text \<open>The eight linker tables, and the state of the loop that builds them.\<close>

record linker_tables =
  linker_provided :: "lprov_entry list"
  linker_required :: "lprov_entry list"
  linker_adjustment :: "lprov_entry list"
  linker_section :: "lprov_entry list"
  linker_output :: "lprov_entry list"
  linker_jump :: "lprov_entry list"
  linker_optional :: "lprov_entry list"
  linker_call :: "lprov_entry list"

record aout_pass = linker_tables +
  out_index :: u32
  shown_expr_warning :: bool
  has_output :: bool

definition aout_pass_start :: "u16 \<Rightarrow> aout_pass" where
  "aout_pass_start code_offset = \<lparr>linker_provided = [], linker_required = [], linker_adjustment = [],
     linker_section = [], linker_output = [], linker_jump = [], linker_optional = [], linker_call = [],
     out_index = ucast code_offset, shown_expr_warning = False, has_output = False\<rparr>"

text \<open>
  The first import directive for a label. A binary may have none: the first one in the list
  halts as soon as a label is looked for.
\<close>

fun find_import :: "aout_byte list \<Rightarrow> bool \<Rightarrow> cstr \<Rightarrow> aout_type option ldres" where
  "find_import [] intermediate name = Ret None"
| "find_import (x # xs) intermediate name =
     (if ab_type x = AOUT_TYPE_METADATA_IMPORT \<or> ab_type x = AOUT_TYPE_METADATA_IMPORT_OPTIONAL then
        (if \<not> intermediate then Halt ERR_NOT_GENERATING_INTERMEDIATE_CODE None
         else
           (case ab_label x of
              None \<Rightarrow> Undef
            | Some l \<Rightarrow> if l = name then Ret (Some (ab_type x)) else find_import xs intermediate name))
      else find_import xs intermediate name)"

text \<open>The directives that need a parameter and object code.\<close>

definition aout_keyword :: "bool \<Rightarrow> string \<Rightarrow> cstr option \<Rightarrow> cstr ldres" where
  "aout_keyword intermediate keyword label =
     (case label of
        None \<Rightarrow> Halt ERR_KEYWORD_PARAMETER_MISSING (Some (c_str keyword))
      | Some l \<Rightarrow> if \<not> intermediate then Halt ERR_NOT_GENERATING_INTERMEDIATE_CODE None else Ret l)"

definition aout_number :: "aout_byte list \<Rightarrow> u16 \<Rightarrow> expr \<Rightarrow> aout_byte \<Rightarrow> aout_byte ldres" where
  "aout_number start code_offset e x =
     ld_bind (expr_evaluate (Some (aout_get_label_address start code_offset)) dhalt_expression_exit_handler e) (\<lambda>v.
     ld_bind (expr_delete e) (\<lambda>_.
     Ret (x\<lparr>ab_raw_used := True, ab_raw := v, ab_expr := None\<rparr>)))"

definition aout_expression ::
    "ldenv \<Rightarrow> aout_byte list \<Rightarrow> u16 \<Rightarrow> bool \<Rightarrow> bool \<Rightarrow> expr \<Rightarrow> aout_byte \<Rightarrow> aout_pass \<Rightarrow>
     (aout_byte \<times> aout_pass) ldres" where
  "aout_expression env start code_offset relocatable intermediate e x p =
     (case e of
        EXPR_LABEL l \<Rightarrow>
          ld_bind (find_import start intermediate l) (\<lambda>imported.
          case imported of
            Some AOUT_TYPE_METADATA_IMPORT \<Rightarrow>
              Ret (x\<lparr>ab_raw := 0xFFFF, ab_expr := None\<rparr>,
                p\<lparr>linker_required := lprov_create (Some l) (ucast (out_index p)) # linker_required p\<rparr>)
          | Some _ \<Rightarrow>
              Ret (x\<lparr>ab_raw := 0xFFFF, ab_expr := None\<rparr>,
                p\<lparr>linker_optional := lprov_create (Some l) (ucast (out_index p)) # linker_optional p\<rparr>)
          | None \<Rightarrow>
              ld_bind (aout_number start code_offset e x) (\<lambda>x.
              Ret (x, p\<lparr>linker_adjustment := lprov_create None (ucast (out_index p)) # linker_adjustment p\<rparr>)))
      | _ \<Rightarrow>
          (let warn = ((relocatable \<or> intermediate) \<and> \<not> shown_expr_warning p) in
           ld_bind (if warn then dwarn env WARN_EXPRESSION_NOT_ADJUSTED else Ret ()) (\<lambda>_.
           ld_bind (aout_number start code_offset e x) (\<lambda>x.
           Ret (x, if warn then p\<lparr>shown_expr_warning := True\<rparr> else p)))))"

definition aout_evaluate ::
    "ldenv \<Rightarrow> aout_byte list \<Rightarrow> u16 \<Rightarrow> bool \<Rightarrow> bool \<Rightarrow> aout_byte \<Rightarrow> aout_pass \<Rightarrow> (aout_byte \<times> aout_pass) ldres" where
  "aout_evaluate env start code_offset relocatable intermediate x p =
     (case ab_type x of
        AOUT_TYPE_METADATA_ORIGIN \<Rightarrow>
          ld_bind (dwarn env WARN_USE_RELOCATION_NOT_ORIGIN) (\<lambda>_. Ret (x, p\<lparr>out_index := ucast (ab_opcode x)\<rparr>))
      | AOUT_TYPE_METADATA_SEEK \<Rightarrow> Ret (x, p\<lparr>out_index := ucast (ab_opcode x)\<rparr>)
      | AOUT_TYPE_METADATA_SECTION \<Rightarrow>
          ld_bind (aout_keyword intermediate ''SECTION'' (ab_label x)) (\<lambda>l.
          if has_output p then Halt ERR_OUTPUT_BEFORE_SECTION None
          else Ret (x, p\<lparr>linker_section := lprov_create (Some l) (ucast (out_index p)) # linker_section p\<rparr>))
      | AOUT_TYPE_METADATA_OUTPUT \<Rightarrow>
          ld_bind (aout_keyword intermediate ''OUTPUT'' (ab_label x)) (\<lambda>l.
          Ret (x, p\<lparr>has_output := True,
            linker_output := lprov_create (Some l) (ucast (out_index p)) # linker_output p\<rparr>))
      | AOUT_TYPE_METADATA_EXPORT \<Rightarrow>
          ld_bind (aout_keyword intermediate ''EXPORT'' (ab_label x)) (\<lambda>l.
          ld_bind (aout_get_label_address start code_offset l) (\<lambda>eaddr.
          Ret (x, p\<lparr>linker_provided := lprov_create (Some l) eaddr # linker_provided p\<rparr>)))
      | AOUT_TYPE_METADATA_JUMP \<Rightarrow>
          (if \<not> intermediate then Halt ERR_NOT_GENERATING_INTERMEDIATE_CODE None
           else
             ld_bind (case ab_label x of
                        Some l \<Rightarrow> aout_get_label_address start code_offset l
                      | None \<Rightarrow> Ret (ucast (out_index p))) (\<lambda>eaddr.
             Ret (x, p\<lparr>linker_jump := lprov_create (ab_label x) eaddr # linker_jump p\<rparr>)))
      | AOUT_TYPE_METADATA_CALL \<Rightarrow>
          ld_bind (aout_keyword intermediate ''CALL'' (ab_label x)) (\<lambda>l.
          Ret (x, p\<lparr>has_output := True,
            linker_call := lprov_create (Some l) (ucast (out_index p)) # linker_call p\<rparr>))
      | AOUT_TYPE_NORMAL \<Rightarrow>
          ld_bind (case ab_expr x of
                     None \<Rightarrow> Ret (x, p)
                   | Some e \<Rightarrow> aout_expression env start code_offset relocatable intermediate e x p) (\<lambda>(x, p).
          Ret (x, if ab_label x = None then p\<lparr>out_index := out_index p + 1\<rparr> else p))
      | _ \<Rightarrow> Ret (x, p))"

fun aout_evaluate_all ::
    "ldenv \<Rightarrow> aout_byte list \<Rightarrow> u16 \<Rightarrow> bool \<Rightarrow> bool \<Rightarrow> aout_byte list \<Rightarrow> aout_pass \<Rightarrow>
     (aout_byte list \<times> aout_pass) ldres" where
  "aout_evaluate_all env start code_offset relocatable intermediate [] p = Ret ([], p)"
| "aout_evaluate_all env start code_offset relocatable intermediate (x # xs) p =
     ld_bind (aout_evaluate env start code_offset relocatable intermediate x p) (\<lambda>(x, p).
     ld_bind (aout_evaluate_all env start code_offset relocatable intermediate xs p) (\<lambda>(xs, p).
     Ret (x # xs, p)))"

section \<open>Writing the file\<close>

definition written_words :: "u16 \<Rightarrow> cfile \<Rightarrow> u16" where
  "written_words true_origin out = word_of_int ((int (fpos out) - uint true_origin) sdiv 2)"

text \<open>The symbols of a word get the position of the word.\<close>

definition update_shared :: "nat list \<Rightarrow> u16 \<Rightarrow> dbg_sym list \<Rightarrow> dbg_sym list" where
  "update_shared refs address symbols = fold (\<lambda>i ss. ss[i := dbgfmt_update_symbol (ss ! i) address]) refs symbols"

definition aout_incbin :: "filesystem \<Rightarrow> cstr list option \<Rightarrow> cstr option \<Rightarrow> cfile \<Rightarrow> cfile ldres" where
  "aout_incbin fs paths label out =
     (case label of
        None \<Rightarrow> Undef
      | Some l \<Rightarrow>
          (case ppfind_locate paths fs l of
             None \<Rightarrow> Halt ERR_UNABLE_TO_INCBIN (Some l)
           | Some bname \<Rightarrow>
               (case bfopen (fs bname) of
                  None \<Rightarrow> Halt ERR_UNABLE_TO_INCBIN (Some l)
                | Some temp \<Rightarrow> Ret (foldl (\<lambda>out b. fwrite_bytes [b] out) out (bfread_all temp)))))"

definition aout_write_byte ::
    "ldenv \<Rightarrow> filesystem \<Rightarrow> aout_byte \<Rightarrow> 'a aout_state_scheme \<times> cfile \<Rightarrow> ('a aout_state_scheme \<times> cfile) ldres" where
  "aout_write_byte env fs x =
     (\<lambda>(st, out).
        if ab_type x = AOUT_TYPE_METADATA_SEEK then
          Ret (st, fseek_set out (unat (ao_true_origin st) + unat (ab_opcode x) * 2))
        else if ab_type x = AOUT_TYPE_METADATA_INCBIN then
          ld_bind (aout_incbin fs (ao_paths st) (ab_label x) out) (\<lambda>out. Ret (st, out))
        else if ab_type x = AOUT_TYPE_NORMAL then
          (let st = st\<lparr>ao_symbols :=
                 update_shared (ab_symbols x) (written_words (ao_true_origin st) out) (ao_symbols st)\<rparr>
           in if ab_raw_used x \<or> ab_label x = None then
                (let inst = (if ab_raw_used x then ab_raw x
                             else INSTRUCTION_CREATE (ab_opcode x) (ab_a x) (ab_b x));
                     (io, out) = iwrite (e_big env) (ao_iio st) inst out
                 in Ret (st\<lparr>ao_iio := io\<rparr>, out))
              else Ret (st, out))
        else Ret (st, out))"

fun aout_write_all ::
    "ldenv \<Rightarrow> filesystem \<Rightarrow> aout_byte list \<Rightarrow> 'a aout_state_scheme \<times> cfile \<Rightarrow> ('a aout_state_scheme \<times> cfile) ldres" where
  "aout_write_all env fs [] s = Ret s"
| "aout_write_all env fs (x # xs) s = ld_bind (aout_write_byte env fs x s) (aout_write_all env fs xs)"

text \<open>The tables in front of the code.\<close>

definition aout_front :: "bool \<Rightarrow> cstr list \<Rightarrow> u16 list option \<Rightarrow> iio_state \<Rightarrow> cfile \<Rightarrow> iio_state \<times> cfile" where
  "aout_front big exts reloc io out =
     (let (io, out) = textn_write big exts io out
      in case reloc of None \<Rightarrow> (io, out) | Some r \<Rightarrow> treloc_write big r io out)"

definition aout_head ::
    "ldenv \<Rightarrow> cstr list \<Rightarrow> u16 list option \<Rightarrow> bool \<Rightarrow> aout_pass \<Rightarrow> 'a aout_state_scheme \<times> cfile \<Rightarrow> ('a aout_state_scheme \<times> cfile) ldres" where
  "aout_head env exts reloc intermediate p =
     (\<lambda>(st, out).
        ld_bind (if intermediate
                 then defined (objfile_save (e_big env) (fwrite_bytes (ldata_objfmt @ [0]) out)
                        (linker_provided p) (linker_required p) (linker_adjustment p) (linker_section p)
                        (linker_output p) (linker_jump p) (linker_optional p) (linker_call p))
                 else Ret out) (\<lambda>out.
        let st = (if intermediate then st\<lparr>ao_true_origin := of_nat (fpos out)\<rparr> else st);
            (io, out) = aout_front (e_big env) exts reloc (ao_iio st) out
        in Ret (st\<lparr>ao_iio := io\<rparr>, out)))"

definition aout_write ::
    "ldenv \<Rightarrow> filesystem \<Rightarrow> cfile \<Rightarrow> bool \<Rightarrow> bool \<Rightarrow> 'a aout_state_scheme \<Rightarrow>
     (u16 \<times> cfile \<times> 'a aout_state_scheme) ldres" where
  "aout_write env fs out relocatable intermediate st =
     ld_bind (textn_init (ao_bytes st)) (\<lambda>(n, exts).
     ld_bind (if relocatable
              then ld_bind (treloc_init (ao_bytes st)) (\<lambda>(m, reloc). Ret (m, Some reloc))
              else Ret (0, None)) (\<lambda>(m, reloc).
     let code_offset = ao_code_offset st + n + m in
     ld_bind (aout_evaluate_all env (ao_bytes st) code_offset relocatable intermediate (ao_bytes st)
                (aout_pass_start code_offset)) (\<lambda>(bytes, p).
     ld_bind (aout_head env exts reloc intermediate p
                (st\<lparr>ao_code_offset := code_offset, ao_bytes := bytes\<rparr>, out)) (\<lambda>s.
     ld_bind (aout_write_all env fs bytes s) (\<lambda>(st, out).
     Ret (written_words (ao_true_origin st) out, out, st))))))"

end
