(* ===== verification/Asm.thy ===== *)
theory Asm
  imports Asm_Out
begin

text \<open>
  The front of the assembler (\<^verbatim>\<open>libdcpu-ci-asm/assem.c\<close>): from the syntax tree
  (\<^verbatim>\<open>node.h\<close>) of a source file to the list of words and directives.

  The tree is built by the generated parser and is an argument here. Its lists are linked from
  the last element to the first; a list is given in that order. Names that may be registers
  or mnemonics are strings, other texts are lists of bytes.
\<close>

section \<open>The syntax tree\<close>

record ast_node_address =
  ad_value :: "expr option"
  ad_bracketed :: bool
  ad_added :: bool
  ad_addcmpt :: string

record ast_node_register =
  rg_value :: string
  rg_bracketed :: bool

datatype ast_node_parameter =
    type_address ast_node_address
  | type_register ast_node_register
  | type_raw cstr

datatype ast_keyword =
    SYMBOL | SECTION | OUTPUT | BOUNDARY | FILL | EXTENSION | INCBIN | ORIGIN | SEEK | EXPORT | IMPORT
  | IMPORT_OPTIONAL | JUMP | CALL | OTHER_KEYWORD

datatype ast_line_type =
    type_keyword ast_keyword "cstr option" "expr option" "expr option"
  | type_instruction string "ast_node_parameter list option"
  | type_label cstr

record ast_node_line =
  ln_type :: ast_line_type
  ln_line :: int
  ln_file :: "cstr option"
  ln_uline :: int
  ln_ufile :: "cstr option"

definition reverse_lines :: "ast_node_line list \<Rightarrow> ast_node_line list" where
  "reverse_lines lines = rev lines"

definition reverse_parameters :: "ast_node_parameter list option \<Rightarrow> ast_node_parameter list option" where
  "reverse_parameters params = map_option rev params"

section \<open>Parameters\<close>

record process_parameter_results =
  pr_v :: u16
  pr_extra :: "expr option"
  pr_extra_used :: bool
  pr_label :: "string option"
  pr_label_bracketed :: bool
  pr_raw :: "cstr option"

definition no_parameter :: process_parameter_results where
  "no_parameter = \<lparr>pr_v = 0, pr_extra = None, pr_extra_used = False, pr_label = None,
     pr_label_bracketed = False, pr_raw = None\<rparr>"

text \<open>An expression with a given operand code. Its text is shown, so it has to exist.\<close>

definition address_result :: "expr option \<Rightarrow> u16 \<Rightarrow> process_parameter_results ldres" where
  "address_result val v =
     (case val of
        None \<Rightarrow> Undef
      | Some e \<Rightarrow>
          ld_bind (expr_representation e) (\<lambda>_.
          Ret (no_parameter\<lparr>pr_v := v, pr_extra := Some e, pr_extra_used := True\<rparr>)))"

text \<open>
  A name that is not a register becomes part of the expression; the brackets are lost then.
\<close>

definition process_address :: "ast_node_address \<Rightarrow> process_parameter_results ldres" where
  "process_address param =
     (if ad_bracketed param \<and> ad_added param then
        (case get_register_by_name_next (ad_addcmpt param) of
           None \<Rightarrow>
             ld_bind (case ad_value param of None \<Rightarrow> Ret [] | Some e \<Rightarrow> expr_representation e) (\<lambda>_.
             address_result (Some (expr_new (Some (expr_new_label (c_str (ad_addcmpt param)))) EXPR_OP_ADD
               (ad_value param))) NXT_LIT)
         | Some registr \<Rightarrow>
             if rm_value registr = VALUE_NEXT_UNSUPPORTED
             then ld_bind (case ad_value param of None \<Rightarrow> Ret [] | Some e \<Rightarrow> expr_representation e) (\<lambda>_.
                    Halt ERR_NEXTED_REGISTER_UNSUPPORTED (Some (c_str (ad_addcmpt param))))
             else address_result (ad_value param) (rm_value registr))
      else address_result (ad_value param) (if ad_bracketed param then NXT else NXT_LIT))"

definition process_register :: "ast_node_register \<Rightarrow> process_parameter_results ldres" where
  "process_register param =
     (case get_register_by_name (rg_value param) (rg_bracketed param) of
        None \<Rightarrow> Ret (no_parameter\<lparr>pr_label := Some (rg_value param), pr_label_bracketed := rg_bracketed param\<rparr>)
      | Some registr \<Rightarrow>
          if rm_value registr = BRACKETS_UNSUPPORTED
          then Halt ERR_BRACKETED_REGISTER_UNSUPPORTED (Some (c_str (rg_value param)))
          else Ret (no_parameter\<lparr>pr_v := rm_value registr\<rparr>))"

fun process_parameter :: "ast_node_parameter \<Rightarrow> process_parameter_results ldres" where
  "process_parameter (type_address address) = process_address address"
| "process_parameter (type_register registr) = process_register registr"
| "process_parameter (type_raw raw) = Ret (no_parameter\<lparr>pr_raw := Some raw\<rparr>)"

text \<open>A parameter of an instruction: no string.\<close>

definition process_operand :: "ast_node_parameter \<Rightarrow> process_parameter_results ldres" where
  "process_operand param =
     ld_bind (process_parameter param) (\<lambda>t.
     if pr_raw t \<noteq> None then Halt ERR_GEN_UNSUPPORTED_PARAMETER None else Ret t)"

text \<open>
  The first two parameters of an instruction, in the order of the source text; further ones are
  not looked at, missing ones are 0.
\<close>

definition process_parameters ::
    "ast_node_parameter list \<Rightarrow> (process_parameter_results \<times> process_parameter_results) ldres" where
  "process_parameters params =
     (case rev params of
        [] \<Rightarrow> Ret (no_parameter, no_parameter)
      | [p] \<Rightarrow> ld_bind (process_operand p) (\<lambda>a. Ret (a, no_parameter))
      | p # q # _ \<Rightarrow>
          ld_bind (process_operand p) (\<lambda>a.
          ld_bind (process_operand q) (\<lambda>b. Ret (a, b))))"

section \<open>Lines\<close>

record asm_state = aout_state +
  as_newsyms :: "dbg_sym list"

text \<open>\<^verbatim>\<open>bstr2cstr\<close>: zeros become the digit 0.\<close>

definition bstr2cstr :: "cstr \<Rightarrow> cstr" where
  "bstr2cstr s = map (\<lambda>b. if b = 0 then 48 else b) s"

definition keyword_expr :: "expr \<Rightarrow> u16 ldres" where
  "keyword_expr e = expr_evaluate (Some dhalt_label_resolution_not_permitted) dhalt_expression_exit_handler e"

definition not_permitted :: "cstr option \<Rightarrow> 'a ldres" where
  "not_permitted s = Halt ERR_LABEL_RESOLUTION_NOT_PERMITTED (Some (case s of None \<Rightarrow> [] | Some d \<Rightarrow> d))"

fun process_keyword ::
    "ast_keyword \<Rightarrow> cstr option \<Rightarrow> expr option \<Rightarrow> expr option \<Rightarrow> asm_state \<Rightarrow> asm_state ldres" where
  "process_keyword SYMBOL s e1 e2 st =
     Ret (st\<lparr>as_newsyms := as_newsyms st @
       [dbgfmt_create_symbol_string (case s of None \<Rightarrow> [] | Some d \<Rightarrow> d) DBGFMT_UNDETERMINED]\<rparr>)"
| "process_keyword SECTION s e1 e2 st = Ret (aout_emit (aout_create_metadata_section (map_option bstr2cstr s)) st)"
| "process_keyword OUTPUT s e1 e2 st = Ret (aout_emit (aout_create_metadata_output (map_option bstr2cstr s)) st)"
| "process_keyword BOUNDARY s e1 e2 st = Ret (fold aout_emit (replicate 16 (aout_create_raw 0)) st)"
| "process_keyword FILL s e1 e2 st =
     (case (e1, e2) of
        (Some e1, Some e2) \<Rightarrow>
          ld_bind (keyword_expr e1) (\<lambda>flimit.
          ld_bind (keyword_expr e2) (\<lambda>fchar.
          Ret (fold aout_emit (replicate (unat flimit) (aout_create_raw fchar)) st)))
      | _ \<Rightarrow> not_permitted s)"
| "process_keyword EXTENSION s e1 e2 st = Ret (aout_emit (aout_create_metadata_extension (map_option bstr2cstr s)) st)"
| "process_keyword INCBIN s e1 e2 st = Ret (aout_emit (aout_create_metadata_incbin (map_option bstr2cstr s)) st)"
| "process_keyword ORIGIN s e1 e2 st =
     (case e1 of
        None \<Rightarrow> not_permitted s
      | Some e \<Rightarrow> ld_bind (keyword_expr e) (\<lambda>opos. Ret (aout_emit (aout_create_metadata_origin opos) st)))"
| "process_keyword SEEK s e1 e2 st =
     (case e1 of
        None \<Rightarrow> not_permitted s
      | Some e \<Rightarrow> ld_bind (keyword_expr e) (\<lambda>opos. Ret (aout_emit (aout_create_metadata_seek opos) st)))"
| "process_keyword EXPORT s e1 e2 st = Ret (aout_emit (aout_create_metadata_export (map_option bstr2cstr s)) st)"
| "process_keyword IMPORT s e1 e2 st = Ret (aout_emit (aout_create_metadata_import (map_option bstr2cstr s)) st)"
| "process_keyword IMPORT_OPTIONAL s e1 e2 st =
     Ret (aout_emit (aout_create_metadata_import_optional (map_option bstr2cstr s)) st)"
| "process_keyword JUMP s e1 e2 st = Ret (aout_emit (aout_create_metadata_jump (map_option bstr2cstr s)) st)"
| "process_keyword CALL s e1 e2 st = Ret (aout_emit (aout_create_metadata_call (map_option bstr2cstr s)) st)"
| "process_keyword OTHER_KEYWORD s e1 e2 st = Halt ERR_UNSUPPORTED_KEYWORD None"

text \<open>One parameter of \<^verbatim>\<open>DAT\<close>.\<close>

definition dat_bytes :: "process_parameter_results \<Rightarrow> aout_byte list ldres" where
  "dat_bytes t =
     (case pr_label t of
        Some l \<Rightarrow> Ret [aout_create_expr (expr_new_label (c_str l))]
      | None \<Rightarrow>
          (case pr_raw t of
             Some raw \<Rightarrow> Ret (map (\<lambda>b. aout_create_raw (ucast b)) raw)
           | None \<Rightarrow>
               (case pr_extra t of
                  Some e \<Rightarrow> Ret [aout_create_expr e]
                | None \<Rightarrow> Halt ERR_DAT_UNSUPPORTED_PARAMETER None)))"

fun process_dat :: "ast_node_parameter list \<Rightarrow> asm_state \<Rightarrow> asm_state ldres" where
  "process_dat [] st = Ret st"
| "process_dat (p # ps) st =
     ld_bind (process_parameter p) (\<lambda>t.
     ld_bind (dat_bytes t) (\<lambda>bs. process_dat ps (fold aout_emit bs st)))"

text \<open>The operand code of a parameter, and the word behind the instruction it needs.\<close>

definition operand_code :: "process_parameter_results \<Rightarrow> u16" where
  "operand_code t =
     (if pr_label t \<noteq> None then if pr_label_bracketed t then NXT else NXT_LIT else pr_v t)"

definition operand_words :: "process_parameter_results \<Rightarrow> aout_byte list" where
  "operand_words t =
     (case pr_label t of
        Some l \<Rightarrow> [aout_create_expr (expr_new_label (c_str l))]
      | None \<Rightarrow>
          (case pr_extra t of
             Some e \<Rightarrow> if pr_extra_used t then [aout_create_expr e] else []
           | None \<Rightarrow> []))"

text \<open>
  What an instruction emits: its word, which gets the debug symbols, and the words behind it,
  those of the second parameter first.
\<close>

definition process_instruction ::
    "ldenv \<Rightarrow> string \<Rightarrow> ast_node_parameter list option \<Rightarrow> (aout_byte \<times> aout_byte list) ldres" where
  "process_instruction env name params =
     (case get_instruction_by_name name of
        None \<Rightarrow> Halt ERR_UNKNOWN_OPCODE (Some (c_str name))
      | Some insttype \<Rightarrow>
          (case params of
             None \<Rightarrow>
               if name = ''RFI''
               then ld_bind (aout_create_opcode (im_opcode insttype) (im_nbopcode insttype) 0x21) (\<lambda>x. Ret (x, []))
               else Halt ERR_INVALID_PARAMETER_COUNT None
           | Some ps \<Rightarrow>
               ld_bind (process_parameters ps) (\<lambda>(a, b).
               ld_bind (if im_opcode insttype \<in> {OP_ADD, OP_SUB, OP_MUL, OP_DIV} \<and> operand_code a = PC_val
                        then dwarn env WARN_RELATIVE_PC_ADDRESSING else Ret ()) (\<lambda>_.
               ld_bind (if im_opcode insttype \<noteq> OP_NONBASIC
                        then aout_create_opcode (im_opcode insttype) (operand_code a) (operand_code b)
                        else aout_create_opcode (im_opcode insttype) (im_nbopcode insttype) (operand_code a)) (\<lambda>x.
               Ret (x, operand_words b @ operand_words a))))))"

text \<open>The symbols that wait for an instruction and those of the line are attached to it.\<close>

definition line_symbols :: "ast_node_line \<Rightarrow> dbg_sym list" where
  "line_symbols line =
     (case ln_file line of
        None \<Rightarrow> [] | Some f \<Rightarrow> [dbgfmt_create_symbol_line f (word_of_int (ln_line line)) DBGFMT_UNDETERMINED]) @
     (case ln_ufile line of
        None \<Rightarrow> [] | Some f \<Rightarrow> [dbgfmt_create_symbol_line f (word_of_int (ln_uline line)) DBGFMT_UNDETERMINED])"

definition attach_symbols :: "ast_node_line \<Rightarrow> aout_byte \<Rightarrow> asm_state \<Rightarrow> aout_byte \<times> asm_state" where
  "attach_symbols line x st =
     (let new = as_newsyms st @ line_symbols line; n = length (ao_symbols st)
      in (x\<lparr>ab_symbols := ab_symbols x @ [n..<n + length new]\<rparr>,
          st\<lparr>ao_symbols := ao_symbols st @ new, as_newsyms := []\<rparr>))"

definition process_line :: "ldenv \<Rightarrow> ast_node_line \<Rightarrow> asm_state \<Rightarrow> asm_state ldres" where
  "process_line env line st =
     (case ln_type line of
        type_keyword k s e1 e2 \<Rightarrow> process_keyword k s e1 e2 st
      | type_instruction name params \<Rightarrow>
          (if name = ''DAT'' \<or> name = ''.DAT''
           then ld_bind (defined (reverse_parameters params)) (\<lambda>ps. process_dat ps st)
           else
             ld_bind (process_instruction env name params) (\<lambda>(x, extra).
             let (x, st) = attach_symbols line x st in Ret (fold aout_emit (x # extra) st)))
      | type_label name \<Rightarrow>
          Ret (aout_emit (aout_create_label name)
            (st\<lparr>as_newsyms := as_newsyms st @ [dbgfmt_create_symbol_label name DBGFMT_UNDETERMINED]\<rparr>)))"

fun process_all :: "ldenv \<Rightarrow> ast_node_line list \<Rightarrow> asm_state \<Rightarrow> asm_state ldres" where
  "process_all env [] st = Ret st"
| "process_all env (line # lines) st = ld_bind (process_line env line st) (process_all env lines)"

definition process_lines :: "ldenv \<Rightarrow> ast_node_line list \<Rightarrow> asm_state \<Rightarrow> asm_state ldres" where
  "process_lines env lines st =
     ld_bind (process_all env (reverse_lines lines) (st\<lparr>as_newsyms := []\<rparr>)) (\<lambda>st.
     Ret (st\<lparr>ao_symbols := ao_symbols st @ as_newsyms st, as_newsyms := []\<rparr>))"

definition process_root :: "ldenv \<Rightarrow> ast_node_line list \<Rightarrow> asm_state \<Rightarrow> asm_state ldres" where
  "process_root env root st = process_lines env root (st\<lparr>ao_symbols := []\<rparr>)"

section \<open>The tool\<close>

text \<open>
  What \<^verbatim>\<open>dtasm\<close> does with a parsed file: the content of the output and the debug symbols;
  symbols without an address get the one at the end.
\<close>

definition asm_initial :: "cstr list option \<Rightarrow> iio_state \<Rightarrow> asm_state" where
  "asm_initial paths io = \<lparr>ao_bytes = [], ao_code_offset = 0, ao_true_origin = 0, ao_symbols = [],
     ao_paths = paths, ao_iio = io, as_newsyms = []\<rparr>"

definition assemble ::
    "ldenv \<Rightarrow> filesystem \<Rightarrow> bool \<Rightarrow> bool \<Rightarrow> ast_node_line list \<Rightarrow> asm_state \<Rightarrow> (u8 list \<times> dbg_sym list) ldres" where
  "assemble env fs relocatable intermediate root st =
     ld_bind (process_root env root st) (\<lambda>st.
     ld_bind (aout_write env fs \<lparr>fcontent = [], fpos = 0\<rparr> relocatable intermediate st) (\<lambda>(final, img, st).
     Ret (fcontent img, map (\<lambda>s. dbgfmt_finalize_symbol s final) (ao_symbols st))))"

end
