(* ===== verification/Asm_Encode.thy ===== *)
theory Asm_Encode
  imports Asm Vm_Disasm
begin

text \<open>
  The assembler and the machine agree on instructions: the words that the assembler emits for an
  instruction are the words that the disassembler, and with it the machine, reads.
\<close>

section \<open>Operands\<close>

text \<open>The codes of the register tables: a register takes no further word, a sum with one does.\<close>

lemma register_codes:
  "list_all (\<lambda>m. rm_value m = BRACKETS_UNSUPPORTED \<or> rm_value m \<le> 0x1f \<and> \<not> takes_word (rm_value m)) register_name_map"
  "list_all (\<lambda>m. rm_value m = BRACKETS_UNSUPPORTED \<or> rm_value m \<le> 0x1f \<and> \<not> takes_word (rm_value m)) register_value_name_map"
  "list_all (\<lambda>m. rm_value m = VALUE_NEXT_UNSUPPORTED \<or> rm_value m \<le> 0x1f \<and> takes_word (rm_value m)) register_value_next_map"
  by code_simp+

lemma found_in: "List.find P xs = Some x \<Longrightarrow> list_all Q xs \<Longrightarrow> Q x"
  by (auto simp: find_Some_iff list_all_length)

definition operand_ok :: "process_parameter_results \<Rightarrow> bool" where
  "operand_ok t \<longleftrightarrow> operand_code t \<le> 0x1f \<and> length (operand_words t) = of_bool (takes_word (operand_code t)) \<and>
     (\<forall>x \<in> set (operand_words t). \<exists>e. x = aout_create_expr e)"

lemma address_result_ok:
  assumes "address_result val v = Ret t" and "v \<le> 0x1f" and "takes_word v"
  shows "operand_ok t"
  using assms
  by (auto simp: address_result_def operand_ok_def operand_code_def operand_words_def no_parameter_def split: option.splits)

lemma process_address_ok: "process_address p = Ret t \<Longrightarrow> operand_ok t"
proof -
  assume p: "process_address p = Ret t"
  have n: "takes_word NXT" "takes_word NXT_LIT" by (simp_all add: takes_word_def)
  show "operand_ok t"
  proof (cases "ad_bracketed p \<and> ad_added p")
    case False
    with p have "address_result (ad_value p) (if ad_bracketed p then NXT else NXT_LIT) = Ret t"
      by (auto simp: process_address_def)
    then show ?thesis using address_result_ok n by (auto split: if_splits)
  next
    case True
    show ?thesis
    proof (cases "get_register_by_name_next (ad_addcmpt p)")
      case None
      with p True have "\<exists>val. address_result val NXT_LIT = Ret t" by (auto simp: process_address_def)
      then show ?thesis using address_result_ok n(2) by force
    next
      case (Some r)
      with p True have r: "rm_value r \<noteq> VALUE_NEXT_UNSUPPORTED" "address_result (ad_value p) (rm_value r) = Ret t"
        by (auto simp: process_address_def split: if_splits)
      have "rm_value r \<le> 0x1f \<and> takes_word (rm_value r)"
        using found_in [OF Some [unfolded get_register_by_name_next_def] register_codes(3)] r(1) by simp
      with address_result_ok [OF r(2)] show ?thesis by blast
    qed
  qed
qed

lemma process_register_ok: "process_register p = Ret t \<Longrightarrow> operand_ok t"
proof -
  assume p: "process_register p = Ret t"
  show "operand_ok t"
  proof (cases "get_register_by_name (rg_value p) (rg_bracketed p)")
    case None
    with p show ?thesis
      by (auto simp: process_register_def operand_ok_def operand_code_def operand_words_def no_parameter_def takes_word_def)
  next
    case (Some r)
    with p have r: "rm_value r \<noteq> BRACKETS_UNSUPPORTED" "t = no_parameter\<lparr>pr_v := rm_value r\<rparr>"
      by (auto simp: process_register_def split: if_splits)
    have "rm_value r = BRACKETS_UNSUPPORTED \<or> rm_value r \<le> 0x1f \<and> \<not> takes_word (rm_value r)"
      using Some found_in [OF _ register_codes(1)] found_in [OF _ register_codes(2)]
      by (auto simp: get_register_by_name_def split: if_splits)
    with r show ?thesis by (simp add: operand_ok_def operand_code_def operand_words_def no_parameter_def)
  qed
qed

lemma process_operand_ok: "process_operand p = Ret t \<Longrightarrow> operand_ok t"
  by (cases p) (auto simp: process_operand_def process_address_ok process_register_ok split: if_splits)

section \<open>Instructions\<close>

lemma instruction_codes:
  "list_all (\<lambda>m. im_opcode m \<le> 0x1f \<and> im_nbopcode m \<le> 0x1f) instruction_name_map"
  by code_simp

lemma mask_small: "v \<le> 0x1f \<Longrightarrow> v AND 0x1f = v" "v \<le> 0x1f \<Longrightarrow> v AND 0x3f = (v :: u16)"
proof -
  assume "v \<le> 0x1f"
  then have "unat v < 32" by (simp add: word_le_nat_alt)
  then show "v AND 0x1f = v" "v AND 0x3f = v"
    using unat_and_mask [of v 5] unat_and_mask [of v 6]
    by (simp_all add: word_eq_iff_unsigned [where ?'a = nat] mask_eq_exp_minus_1)
qed


lemma named_instruction:
  assumes "get_instruction_by_name name = Some m"
  shows "im_name m = name" "im_opcode m \<le> 0x1f" "im_nbopcode m \<le> 0x1f"
    "get_instruction_by_value (im_opcode m) (if im_opcode m = OP_NONBASIC then im_nbopcode m else c) = Some m"
proof -
  have m: "m \<in> set instruction_name_map" "im_name m = name"
    using assms by (auto simp: get_instruction_by_name_def find_Some_iff)
  then show "im_name m = name" "im_opcode m \<le> 0x1f" "im_nbopcode m \<le> 0x1f"
    using instruction_codes by (auto simp: list_all_iff)
  have "get_instruction_by_value (im_opcode m) (im_nbopcode m) = Some m"
    using m(1) instruction_lookup by blast
  then show "get_instruction_by_value (im_opcode m) (if im_opcode m = OP_NONBASIC then im_nbopcode m else c) = Some m"
    by (cases "im_opcode m = 0") (simp_all add: get_instruction_by_value_def)
qed

text \<open>The word an instruction emits, and the words behind it.\<close>

lemma basic_emitted:
  assumes "get_instruction_by_name name = Some m" and "im_opcode m \<noteq> OP_NONBASIC"
    and "process_instruction env name (Some [q, p]) = Ret (x, extra)"
  obtains a b where "process_operand p = Ret a" "process_operand q = Ret b"
    "extra = operand_words b @ operand_words a"
    "ab_opcode x = im_opcode m" "ab_a x = operand_code a" "ab_b x = operand_code b"
  using assms
  by (auto simp: process_instruction_def process_parameters_def aout_create_opcode_def aout_blank_def dwarn_def
      split: if_splits)

lemma nonbasic_emitted:
  assumes "get_instruction_by_name name = Some m" and "im_opcode m = OP_NONBASIC"
    and "process_instruction env name (Some [p]) = Ret (x, extra)"
  obtains a where "process_operand p = Ret a" "extra = operand_words a"
    "ab_opcode x = OP_NONBASIC" "ab_a x = im_nbopcode m" "ab_b x = operand_code a"
  using assms
  by (auto simp: process_instruction_def process_parameters_def aout_create_opcode_def aout_blank_def dwarn_def
      operand_words_def no_parameter_def ld_bind_Ret split: if_splits)


text \<open>
  C5. The machine's disassembler reads an instruction as the assembler wrote it. When the
  assembler accepts an instruction with the number of operands its mnemonic takes, and its word
  and the words behind it are in memory, then disassembling there reports the mnemonic, the
  operand codes of the source text (the last operand in the slot a, the first of two in the slot
  b), the size of all the words, and gives each operand that has a word behind the instruction its
  own one: the word of the last operand comes first.
\<close>

theorem assembled_instruction_disassembles:
  assumes "get_instruction_by_name name = Some m"
    and "process_instruction env name (Some (rev ps)) = Ret (x, extra)"
    and "length ps = (if im_opcode m = OP_NONBASIC then 1 else 2)"
    and "ram vm pos = INSTRUCTION_CREATE (ab_opcode x) (ab_a x) (ab_b x)"
    and "unat pos + length extra < 0x10000"
  shows "\<exists>i a b. vm_disassemble vm pos True =
      Some (i, vm\<lparr>sleep_cycles := sleep_cycles vm + of_nat (length extra)\<rparr>) \<and>
    pretty_op i = Some name \<and> unat (inst_size i) = 1 + length extra \<and>
    process_operand (ps ! (length ps - 1)) = Ret a \<and> original_a i = ucast (operand_code a) \<and>
    (operand_words a \<noteq> [] \<longrightarrow> extra ! 0 = operand_words a ! 0 \<and> fst (inst_next i) = ram vm (pos + 1)) \<and>
    (im_opcode m \<noteq> OP_NONBASIC \<longrightarrow>
       process_operand (ps ! 0) = Ret b \<and> original_b i = ucast (operand_code b) \<and>
       (operand_words b \<noteq> [] \<longrightarrow> extra ! (length extra - 1) = operand_words b ! 0 \<and>
          snd (inst_next i) = ram vm (pos + of_nat (length extra))))"
proof (cases "im_opcode m = OP_NONBASIC")
  case True
  then obtain p where ps: "ps = [p]" using assms(3) by (auto simp: length_Suc_conv)
  obtain a where a: "process_operand p = Ret a" "extra = operand_words a" "ab_opcode x = OP_NONBASIC"
      "ab_a x = im_nbopcode m" "ab_b x = operand_code a"
    by (rule nonbasic_emitted [OF assms(1) True, of env p x extra]) (use assms(2) ps in auto)
  note ok = process_operand_ok [OF a(1), unfolded operand_ok_def]
  note m = named_instruction [OF assms(1)]
  have d: "INSTRUCTION_GET_OP (ram vm pos) = OP_NONBASIC" "INSTRUCTION_GET_B (ram vm pos) = im_nbopcode m"
    "INSTRUCTION_GET_A (ram vm pos) = operand_code a"
    using m ok by (simp_all add: assms(4) decode_create a mask_small)
  have n: "dis_extra (ram vm pos) = length extra" using ok by (simp add: dis_extra_def d a(2))
  have v: "get_instruction_by_value OP_NONBASIC (im_nbopcode m) = Some m" using m(4) True by simp
  show ?thesis
    using disassemble_result [of pos vm True] assms(5) ok
    by (force simp: n d v True ps a m(1) vm_disassemble_next_def operand_extra_takes)
next
  case False
  then obtain p q where ps: "ps = [p, q]" using assms(3) by (auto simp: length_Suc_conv numeral_2_eq_2)
  obtain b a where a: "process_operand p = Ret b" "process_operand q = Ret a" "extra = operand_words a @ operand_words b"
      "ab_opcode x = im_opcode m" "ab_a x = operand_code b" "ab_b x = operand_code a"
    by (rule basic_emitted [OF assms(1) False, of env q p x extra]) (use assms(2) ps in auto)
  note ok = process_operand_ok [OF a(1), unfolded operand_ok_def] process_operand_ok [OF a(2), unfolded operand_ok_def]
  note m = named_instruction [OF assms(1)]
  have d: "INSTRUCTION_GET_OP (ram vm pos) = im_opcode m" "INSTRUCTION_GET_B (ram vm pos) = operand_code b"
    "INSTRUCTION_GET_A (ram vm pos) = operand_code a"
    using m ok by (simp_all add: assms(4) decode_create a mask_small)
  have n: "dis_extra (ram vm pos) = length extra" using ok False by (simp add: dis_extra_def d a(3))
  have v: "get_instruction_by_value (im_opcode m) (operand_code b) = Some m" using m(4) [of "operand_code b"] False by simp
  show ?thesis
    using disassemble_result [of pos vm True] assms(5) ok False
    by (force simp: n d v ps a m(1) vm_disassemble_next_def operand_extra_takes nth_append split: if_splits)
qed


definition encode_demo :: "ast_node_parameter list" where
  "encode_demo = [type_register \<lparr>rg_value = ''A'', rg_bracketed = True\<rparr>,
     type_address \<lparr>ad_value = Some (EXPR_NUMBER 0x1234), ad_bracketed = False, ad_added = False, ad_addcmpt = []\<rparr>]"

definition encode_machine :: "unit vm_t" where
  "encode_machine = (vm_create ())\<lparr>ram := (\<lambda>_. 0)(0x10 := INSTRUCTION_CREATE OP_SET VAL_A NXT_LIT, 0x11 := 0x1234)\<rparr>"

theorem assembled_instruction_disassembles_witness:
  "\<exists>x extra i. process_instruction demo_env ''SET'' (Some (rev encode_demo)) = Ret (x, extra) \<and>
     vm_disassemble encode_machine 0x10 True = Some (i, encode_machine\<lparr>sleep_cycles := 1\<rparr>) \<and>
     pretty_op i = Some ''SET'' \<and> unat (inst_size i) = 2 \<and> original_b i = 8 \<and> original_a i = 31 \<and>
     fst (inst_next i) = 0x1234"
proof -
  let ?p = "encode_demo ! 0" and ?q = "encode_demo ! 1"
  let ?a = "no_parameter\<lparr>pr_v := VAL_A\<rparr>"
  let ?b = "no_parameter\<lparr>pr_v := NXT_LIT, pr_extra := Some (EXPR_NUMBER 0x1234), pr_extra_used := True\<rparr>"
  have p: "process_operand ?p = Ret ?a"
    by code_simp
  have q: "process_operand ?q = Ret ?b"
    by code_simp
  obtain m where m: "get_instruction_by_name ''SET'' = Some m" "im_opcode m = OP_SET"
    by (simp add: get_instruction_by_name_def name_tables)
  obtain x extra where x: "process_instruction demo_env ''SET'' (Some (rev encode_demo)) = Ret (x, extra)"
      "ab_opcode x = OP_SET" "ab_a x = VAL_A" "ab_b x = NXT_LIT" "length extra = 1"
    using p q by (simp add: process_instruction_def process_parameters_def encode_demo_def m aout_create_opcode_def
      aout_blank_def dwarn_def demo_env_def operand_code_def operand_words_def no_parameter_def)
  have n: "length encode_demo = (if im_opcode m = OP_NONBASIC then 1 else 2)" by (simp add: encode_demo_def m)
  have r: "ram encode_machine 0x10 = INSTRUCTION_CREATE (ab_opcode x) (ab_a x) (ab_b x)" "ram encode_machine 0x11 = 0x1234"
    "sleep_cycles encode_machine = 0"
    by (simp_all add: encode_machine_def x vm_create_fields)
  have "\<exists>i. vm_disassemble encode_machine 0x10 True = Some (i, encode_machine\<lparr>sleep_cycles := 1\<rparr>) \<and>
     pretty_op i = Some ''SET'' \<and> unat (inst_size i) = 2 \<and> original_b i = 8 \<and> original_a i = 31 \<and>
     fst (inst_next i) = 0x1234"
    using assembled_instruction_disassembles [OF m(1) x(1) n r(1)] x(5) p q r(2,3)
    by (auto simp: encode_demo_def operand_code_def operand_words_def no_parameter_def m(2))
  then show ?thesis using x(1) by blast
qed

end
