(* ===== verification/Asm_Link.thy ===== *)
theory Asm_Link
  imports Asm Ld_Files
begin

text \<open>
  What the assembler promises about the file it writes: every label stands for the place of a
  word in the file, every word that names a label holds that place or is listed for the linker,
  and the linker loads what was assembled.
\<close>

section \<open>Places\<close>

text \<open>The elements that become a word of the output.\<close>

definition is_word :: "aout_byte \<Rightarrow> bool" where
  "is_word x \<longleftrightarrow> ab_type x = AOUT_TYPE_NORMAL \<and> ab_label x = None"

text \<open>The number of words in front of the first definition of a label.\<close>

fun label_index :: "aout_byte list \<Rightarrow> cstr \<Rightarrow> nat option" where
  "label_index [] l = None"
| "label_index (x # xs) l =
     (if ab_type x = AOUT_TYPE_NORMAL \<and> ab_label x = Some l then Some 0
      else map_option (\<lambda>i. i + of_bool (is_word x)) (label_index xs l))"

definition is_import :: "aout_byte \<Rightarrow> bool" where
  "is_import x \<longleftrightarrow> ab_type x = AOUT_TYPE_METADATA_IMPORT \<or> ab_type x = AOUT_TYPE_METADATA_IMPORT_OPTIONAL"

definition import_of :: "aout_byte list \<Rightarrow> cstr \<Rightarrow> aout_type option" where
  "import_of xs l = map_option ab_type (List.find (\<lambda>x. is_import x \<and> ab_label x = Some l) xs)"

text \<open>
  Lists in which the output only moves forward, word by word, and whose elements are as the
  functions that create them leave them.
\<close>

definition straight :: "aout_byte \<Rightarrow> bool" where
  "straight x \<longleftrightarrow>
     ab_type x \<notin> {AOUT_TYPE_METADATA_ORIGIN, AOUT_TYPE_METADATA_SEEK, AOUT_TYPE_METADATA_INCBIN} \<and>
     (ab_type x = AOUT_TYPE_NORMAL \<and> ab_label x \<noteq> None \<longrightarrow> ab_expr x = None \<and> \<not> ab_raw_used x) \<and>
     (ab_type x = AOUT_TYPE_NORMAL \<and> ab_expr x \<noteq> None \<longrightarrow> \<not> ab_raw_used x \<and> ab_opcode x = 0 \<and> ab_a x = 0 \<and> ab_b x = 0) \<and>
     (is_import x \<longrightarrow> ab_label x \<noteq> None)"

lemma straightD:
  assumes "straight x"
  shows "ab_type x \<noteq> AOUT_TYPE_METADATA_ORIGIN" "ab_type x \<noteq> AOUT_TYPE_METADATA_SEEK"
    "ab_type x \<noteq> AOUT_TYPE_METADATA_INCBIN" "is_import x \<Longrightarrow> \<exists>l. ab_label x = Some l"
    "ab_type x = AOUT_TYPE_NORMAL \<Longrightarrow> ab_label x = Some l \<Longrightarrow> ab_expr x = None \<and> \<not> ab_raw_used x"
    "ab_type x = AOUT_TYPE_NORMAL \<Longrightarrow> ab_expr x = Some e \<Longrightarrow>
       \<not> ab_raw_used x \<and> ab_label x = None \<and> ab_opcode x = 0 \<and> ab_a x = 0 \<and> ab_b x = 0"
  using assms by (auto simp: straight_def)

lemma import_of_Cons:
  "import_of (x # xs) l = (if is_import x \<and> ab_label x = Some l then Some (ab_type x) else import_of xs l)"
  by (simp add: import_of_def)

lemma import_not_word: "is_import x \<Longrightarrow> \<not> is_word x \<and> ab_type x \<noteq> AOUT_TYPE_NORMAL"
  by (auto simp: is_import_def is_word_def)

lemma label_search_step:
  assumes "straight x"
  shows "label_search (x # xs) l m fi =
    (if ab_type x = AOUT_TYPE_NORMAL \<and> ab_label x = Some l then Ret m
     else label_search xs l (m + of_bool (is_word x)) (fi \<or> is_import x \<and> ab_label x = Some l))"
proof (cases "is_import x")
  case True
  with straightD(4) [OF assms] import_not_word [OF True] straightD(1,2) [OF assms] show ?thesis
    by (auto simp: is_import_def)
next
  case False
  then show ?thesis
    using straightD(1,2) [OF assms] by (auto simp: is_import_def is_word_def split: option.splits)
qed

lemma label_search_index:
  assumes "list_all straight xs"
  shows "label_search xs l m fi =
    (case label_index xs l of
       Some i \<Rightarrow> Ret (m + of_nat i)
     | None \<Rightarrow> if fi \<or> import_of xs l \<noteq> None then Halt ERR_EXPRESSION_NOT_PERMITTED (Some l)
               else Halt ERR_LABEL_NOT_FOUND (Some l))"
  using assms
proof (induction xs arbitrary: m fi)
  case Nil
  then show ?case by (simp add: import_of_def)
next
  case (Cons x xs)
  have s: "straight x" "list_all straight xs" using Cons.prems by simp_all
  show ?case
    unfolding label_search_step [OF s(1)] Cons.IH [OF s(2)]
    by (cases "label_index xs l") (auto simp: import_of_Cons add_ac)
qed

lemma label_address_index:
  assumes "list_all straight xs"
  shows "aout_get_label_address xs off l =
    (case label_index xs l of
       Some i \<Rightarrow> Ret (off + of_nat i)
     | None \<Rightarrow> if import_of xs l \<noteq> None then Halt ERR_EXPRESSION_NOT_PERMITTED (Some l)
               else Halt ERR_LABEL_NOT_FOUND (Some l))"
  unfolding aout_get_label_address_def label_search_index [OF assms] by (simp split: option.split)

lemma find_import_of: "list_all straight xs \<Longrightarrow> find_import xs True l = Ret (import_of xs l)"
proof (induction xs)
  case (Cons x xs)
  then show ?case
    using straightD(4) [of x] by (cases "is_import x") (auto simp: import_of_Cons is_import_def)
qed (simp add: import_of_def)

lemma find_no_import: "\<not> list_ex is_import xs \<Longrightarrow> find_import xs b l = Ret None"
  by (induction xs) (auto simp: is_import_def)

lemma no_import: "\<not> list_ex is_import xs \<Longrightarrow> import_of xs l = None"
  by (induction xs) (auto simp: import_of_def)

section \<open>What the first pass computes\<close>

fun placed :: "u16 \<Rightarrow> aout_byte list \<Rightarrow> (u16 \<times> aout_byte) list" where
  "placed n [] = []"
| "placed n (x # xs) = (n, x) # placed (n + of_bool (is_word x)) xs"

definition address_of :: "aout_byte list \<Rightarrow> u16 \<Rightarrow> cstr \<Rightarrow> u16" where
  "address_of bs off l = off + of_nat (the (label_index bs l))"

text \<open>The entry of the linker tables that an element at a place makes.\<close>

definition table_entry :: "aout_byte list \<Rightarrow> u16 \<Rightarrow> u16 \<times> aout_byte \<Rightarrow> (ldtable \<times> lprov_entry) option" where
  "table_entry bs off = (\<lambda>(n, x).
     case ab_type x of
       AOUT_TYPE_METADATA_SECTION \<Rightarrow> Some (TSection, lprov_create (ab_label x) n)
     | AOUT_TYPE_METADATA_OUTPUT \<Rightarrow> Some (TOutput, lprov_create (ab_label x) n)
     | AOUT_TYPE_METADATA_CALL \<Rightarrow> Some (TCall, lprov_create (ab_label x) n)
     | AOUT_TYPE_METADATA_EXPORT \<Rightarrow> Some (TProvided, lprov_create (ab_label x) (address_of bs off (the (ab_label x))))
     | AOUT_TYPE_METADATA_JUMP \<Rightarrow>
         Some (TJump, lprov_create (ab_label x) (case ab_label x of None \<Rightarrow> n | Some l \<Rightarrow> address_of bs off l))
     | AOUT_TYPE_NORMAL \<Rightarrow>
         (case ab_expr x of
            Some (EXPR_LABEL l) \<Rightarrow>
              (case import_of bs l of
                 None \<Rightarrow> Some (TAdjustment, lprov_create None n)
               | Some AOUT_TYPE_METADATA_IMPORT \<Rightarrow> Some (TRequired, lprov_create (Some l) n)
               | Some _ \<Rightarrow> Some (TOptional, lprov_create (Some l) n))
          | _ \<Rightarrow> None)
     | _ \<Rightarrow> None)"

definition entry_for :: "ldtable \<Rightarrow> (ldtable \<times> lprov_entry) option \<Rightarrow> lprov_entry list" where
  "entry_for t r = (case r of None \<Rightarrow> [] | Some (u, e) \<Rightarrow> if u = t then [e] else [])"

text \<open>A table as it is written: the last entry first.\<close>

definition aout_table :: "aout_byte list \<Rightarrow> u16 \<Rightarrow> ldtable \<Rightarrow> (u16 \<times> aout_byte) list \<Rightarrow> lprov_entry list" where
  "aout_table bs off t ps = rev (concat (map (\<lambda>p. entry_for t (table_entry bs off p)) ps))"

definition imported :: "aout_byte list \<Rightarrow> expr \<Rightarrow> bool" where
  "imported bs e \<longleftrightarrow> (case e of EXPR_LABEL l \<Rightarrow> import_of bs l \<noteq> None | _ \<Rightarrow> False)"

fun ret_value :: "u16 ldres \<Rightarrow> u16" where
  "ret_value (Ret v) = v"
| "ret_value _ = 0"

definition expr_value :: "aout_byte list \<Rightarrow> u16 \<Rightarrow> expr \<Rightarrow> u16" where
  "expr_value bs off e =
     ret_value (expr_evaluate (Some (aout_get_label_address bs off)) dhalt_expression_exit_handler e)"

definition evaluated :: "aout_byte list \<Rightarrow> u16 \<Rightarrow> aout_byte \<Rightarrow> aout_byte" where
  "evaluated bs off x =
     (case ab_expr x of
        Some e \<Rightarrow>
          if ab_type x \<noteq> AOUT_TYPE_NORMAL then x
          else if imported bs e then x\<lparr>ab_raw := 0xFFFF, ab_expr := None\<rparr>
          else x\<lparr>ab_raw_used := True, ab_raw := expr_value bs off e, ab_expr := None\<rparr>
      | None \<Rightarrow> x)"

text \<open>
  The conditions under which an element is accepted: expressions have a value, labels are
  defined or imported, and directives for the linker have their parameter and are in object
  code.
\<close>

definition expr_ok :: "aout_byte list \<Rightarrow> u16 \<Rightarrow> expr \<Rightarrow> bool" where
  "expr_ok bs off e \<longleftrightarrow>
     (case e of
        EXPR_LABEL l \<Rightarrow> import_of bs l \<noteq> None \<or> label_index bs l \<noteq> None
      | _ \<Rightarrow> (\<exists>v. expr_evaluate (Some (aout_get_label_address bs off)) dhalt_expression_exit_handler e = Ret v) \<and>
             expr_delete e = Ret ())"

definition byte_ok :: "aout_byte list \<Rightarrow> u16 \<Rightarrow> bool \<Rightarrow> aout_byte \<Rightarrow> bool" where
  "byte_ok bs off intermediate x \<longleftrightarrow>
     (case ab_type x of
        AOUT_TYPE_METADATA_SECTION \<Rightarrow> intermediate \<and> ab_label x \<noteq> None
      | AOUT_TYPE_METADATA_OUTPUT \<Rightarrow> intermediate \<and> ab_label x \<noteq> None
      | AOUT_TYPE_METADATA_CALL \<Rightarrow> intermediate \<and> ab_label x \<noteq> None
      | AOUT_TYPE_METADATA_EXPORT \<Rightarrow>
          intermediate \<and> (case ab_label x of None \<Rightarrow> False | Some l \<Rightarrow> label_index bs l \<noteq> None)
      | AOUT_TYPE_METADATA_JUMP \<Rightarrow>
          intermediate \<and> (case ab_label x of None \<Rightarrow> True | Some l \<Rightarrow> label_index bs l \<noteq> None)
      | AOUT_TYPE_METADATA_IMPORT \<Rightarrow> intermediate
      | AOUT_TYPE_METADATA_IMPORT_OPTIONAL \<Rightarrow> intermediate
      | AOUT_TYPE_NORMAL \<Rightarrow> (case ab_expr x of None \<Rightarrow> True | Some e \<Rightarrow> expr_ok bs off e)
      | _ \<Rightarrow> True)"

definition ends_sections :: "aout_byte \<Rightarrow> bool" where
  "ends_sections x \<longleftrightarrow> ab_type x = AOUT_TYPE_METADATA_OUTPUT \<or> ab_type x = AOUT_TYPE_METADATA_CALL"

text \<open>No section directive behind an output or call directive.\<close>

fun sections_first :: "bool \<Rightarrow> aout_byte list \<Rightarrow> bool" where
  "sections_first out [] = True"
| "sections_first out (x # xs) =
     ((ab_type x = AOUT_TYPE_METADATA_SECTION \<longrightarrow> \<not> out) \<and> sections_first (out \<or> ends_sections x) xs)"

fun pass_tab :: "aout_pass \<Rightarrow> ldtable \<Rightarrow> lprov_entry list" where
  "pass_tab p TProvided = linker_provided p"
| "pass_tab p TRequired = linker_required p"
| "pass_tab p TAdjustment = linker_adjustment p"
| "pass_tab p TSection = linker_section p"
| "pass_tab p TOutput = linker_output p"
| "pass_tab p TJump = linker_jump p"
| "pass_tab p TOptional = linker_optional p"
| "pass_tab p TCall = linker_call p"

text \<open>How one element changes the state of the pass.\<close>

definition pass_step :: "aout_byte list \<Rightarrow> u16 \<Rightarrow> aout_byte \<Rightarrow> aout_pass \<Rightarrow> aout_pass \<Rightarrow> bool" where
  "pass_step bs off x p p' \<longleftrightarrow>
     (\<forall>t. pass_tab p' t = entry_for t (table_entry bs off (ucast (out_index p), x)) @ pass_tab p t) \<and>
     out_index p' = out_index p + of_bool (is_word x) \<and> has_output p' = (has_output p \<or> ends_sections x)"

lemma pass_stepI:
  assumes "linker_provided p' = entry_for TProvided r @ linker_provided p"
    and "linker_required p' = entry_for TRequired r @ linker_required p"
    and "linker_adjustment p' = entry_for TAdjustment r @ linker_adjustment p"
    and "linker_section p' = entry_for TSection r @ linker_section p"
    and "linker_output p' = entry_for TOutput r @ linker_output p"
    and "linker_jump p' = entry_for TJump r @ linker_jump p"
    and "linker_optional p' = entry_for TOptional r @ linker_optional p"
    and "linker_call p' = entry_for TCall r @ linker_call p"
    and "r = table_entry bs off (ucast (out_index p), x)"
    and "out_index p' = out_index p + of_bool (is_word x)" and "has_output p' = (has_output p \<or> ends_sections x)"
  shows "pass_step bs off x p p'"
proof -
  have "pass_tab p' t = entry_for t r @ pass_tab p t" for t
    using assms by (cases t) simp_all
  with assms show ?thesis by (simp add: pass_step_def)
qed

text \<open>The conditions on the whole list, and on the warnings.\<close>

definition list_ok :: "ldenv \<Rightarrow> aout_byte list \<Rightarrow> bool \<Rightarrow> bool" where
  "list_ok env bs intermediate \<longleftrightarrow> list_all straight bs \<and> (intermediate \<or> \<not> list_ex is_import bs) \<and>
     \<not> e_werror env WARN_EXPRESSION_NOT_ADJUSTED"

lemma find_import_eq:
  assumes "list_ok env bs intermediate"
  shows "find_import bs intermediate l = Ret (import_of bs l)"
proof (cases intermediate)
  case True
  with assms show ?thesis by (simp add: list_ok_def find_import_of)
next
  case False
  with assms show ?thesis by (simp add: list_ok_def find_no_import no_import)
qed

lemma expr_ok_value:
  assumes "list_all straight bs" and "expr_ok bs off e" and "\<not> imported bs e"
  shows "expr_evaluate (Some (aout_get_label_address bs off)) dhalt_expression_exit_handler e = Ret (expr_value bs off e)"
    and "expr_delete e = Ret ()"
proof -
  have "\<exists>v. expr_evaluate (Some (aout_get_label_address bs off)) dhalt_expression_exit_handler e = Ret v \<and>
      expr_delete e = Ret ()"
  proof (cases "\<exists>l. e = EXPR_LABEL l")
    case True
    with assms show ?thesis by (auto simp: expr_ok_def imported_def label_address_index)
  next
    case False
    then have "(case e of EXPR_LABEL l \<Rightarrow> import_of bs l \<noteq> None \<or> label_index bs l \<noteq> None | _ \<Rightarrow> R) = R" for R
      by (simp split: expr.split)
    with assms(2) show ?thesis unfolding expr_ok_def by simp
  qed
  then show "expr_evaluate (Some (aout_get_label_address bs off)) dhalt_expression_exit_handler e = Ret (expr_value bs off e)"
    "expr_delete e = Ret ()" unfolding expr_value_def by (metis ret_value.simps(1))+
qed

lemma number_eq:
  assumes "list_ok env bs intermediate" and "expr_ok bs off e" and "\<not> imported bs e"
  shows "aout_number bs off e x = Ret (x\<lparr>ab_raw_used := True, ab_raw := expr_value bs off e, ab_expr := None\<rparr>)"
  using expr_ok_value [OF _ assms(2,3)] assms(1) by (simp add: aout_number_def list_ok_def)

lemma expression_step:
  assumes "list_ok env bs intermediate" and "straight x" and "ab_type x = AOUT_TYPE_NORMAL"
    and "ab_expr x = Some e" and "expr_ok bs off e"
  shows "\<exists>p'. aout_expression env bs off relocatable intermediate e x p = Ret (evaluated bs off x, p') \<and>
    pass_step bs off x p (p'\<lparr>out_index := out_index p' + 1\<rparr>)"
proof -
  have w: "is_word x" "\<not> ends_sections x"
    using straightD(6) [OF assms(2-4)] assms(3) by (simp_all add: is_word_def ends_sections_def)
  note n = number_eq [OF assms(1,5)]
  show ?thesis
  proof (cases "\<exists>l. e = EXPR_LABEL l")
    case True
    then obtain l where e: "e = EXPR_LABEL l" by blast
    show ?thesis
    proof (cases "import_of bs l")
      case None
      then have "\<not> imported bs e" by (simp add: imported_def e)
      with None w show ?thesis
        using n [of x] by (auto simp: aout_expression_def e find_import_eq [OF assms(1)] evaluated_def assms(3,4)
            table_entry_def entry_for_def intro!: pass_stepI)
    next
      case (Some ty)
      then have "imported bs e" by (simp add: imported_def e)
      with Some w show ?thesis
        by (cases ty) (auto simp: aout_expression_def e find_import_eq [OF assms(1)] evaluated_def assms(3,4)
            table_entry_def entry_for_def intro!: pass_stepI)
    qed
  next
    case False
    then have i: "\<not> imported bs e" by (auto simp: imported_def split: expr.splits)
    have r: "table_entry bs off (ucast (out_index p), x) = None"
      using False assms(3,4) by (auto simp: table_entry_def split: expr.splits)
    have q: "\<not> e_werror env WARN_EXPRESSION_NOT_ADJUSTED" using assms(1) by (simp add: list_ok_def)
    from False i w show ?thesis
      using n [of x] by (cases e) (auto simp: aout_expression_def Let_def dwarn_def q evaluated_def assms(3,4)
          entry_for_def r intro!: pass_stepI)
  qed
qed

lemma evaluate_step:
  assumes "list_ok env bs intermediate" and "straight x" and "byte_ok bs off intermediate x"
    and "ab_type x = AOUT_TYPE_METADATA_SECTION \<Longrightarrow> \<not> has_output p"
  shows "\<exists>p'. aout_evaluate env bs off relocatable intermediate x p = Ret (evaluated bs off x, p') \<and>
    pass_step bs off x p p'"
proof (cases "ab_type x = AOUT_TYPE_NORMAL")
  case True
  show ?thesis
  proof (cases "ab_expr x")
    case None
    with True show ?thesis
      by (auto simp: aout_evaluate_def evaluated_def table_entry_def entry_for_def is_word_def ends_sections_def
          intro!: pass_stepI)
  next
    case (Some e)
    have l: "ab_label x = None" using straightD(6) [OF assms(2) True Some] by simp
    have "ab_label (evaluated bs off x) = None" using l by (simp add: evaluated_def split: option.split)
    moreover have "expr_ok bs off e" using assms(3) True Some by (simp add: byte_ok_def)
    ultimately show ?thesis
      using expression_step [OF assms(1,2) True Some] True Some by (force simp: aout_evaluate_def)
  qed
next
  case False
  then have e: "evaluated bs off x = x" by (simp add: evaluated_def split: option.split)
  have a: "aout_get_label_address bs off l = Ret (address_of bs off l)" if "label_index bs l \<noteq> None" for l
    using that assms(1) by (auto simp: list_ok_def label_address_index address_of_def)
  have w: "\<not> is_word x" using False by (simp add: is_word_def)
  show ?thesis
    using False assms(3,4) straightD(1-3) [OF assms(2)] w
    by (cases "ab_type x"; cases "ab_label x")
      (auto simp: aout_evaluate_def e byte_ok_def aout_keyword_def a table_entry_def entry_for_def
        ends_sections_def intro!: pass_stepI)
qed

lemma ucast_add_bool: "(ucast (n + of_bool b :: u32) :: u16) = ucast n + of_bool b"
proof -
  have *: "(m + 1) mod 65536 = (m mod 4294967296 + 1) mod (65536 :: int)" for m
  proof -
    have "(m mod 4294967296) mod 65536 = m mod (65536 :: int)" by (rule mod_mod_cancel) simp
    then show ?thesis by (rule mod_add_cong [OF _ refl, symmetric])
  qed
  have "(ucast (n + 1) :: u16) = ucast n + 1"
    by (transfer, simp add: take_bit_eq_mod mod_mod_cancel mod_simps) (rule *)
  then show ?thesis by (cases b) simp_all
qed

lemma evaluate_all_eq:
  assumes "list_ok env bs intermediate" and "list_all straight xs" and "list_all (byte_ok bs off intermediate) xs"
    and "sections_first (has_output p) xs"
  shows "\<exists>p'. aout_evaluate_all env bs off relocatable intermediate xs p = Ret (map (evaluated bs off) xs, p') \<and>
    (\<forall>t. pass_tab p' t = aout_table bs off t (placed (ucast (out_index p)) xs) @ pass_tab p t)"
  using assms(2-4)
proof (induction xs arbitrary: p)
  case Nil
  then show ?case by (simp add: aout_table_def)
next
  case (Cons x xs)
  have x: "straight x" "byte_ok bs off intermediate x" "ab_type x = AOUT_TYPE_METADATA_SECTION \<Longrightarrow> \<not> has_output p"
    using Cons.prems by simp_all
  obtain p1 where 1: "aout_evaluate env bs off relocatable intermediate x p = Ret (evaluated bs off x, p1)"
    "pass_step bs off x p p1" using evaluate_step [OF assms(1) x] by blast
  have "sections_first (has_output p1) xs" using Cons.prems(3) 1(2) by (simp add: pass_step_def)
  then obtain p2 where 2: "aout_evaluate_all env bs off relocatable intermediate xs p1 = Ret (map (evaluated bs off) xs, p2)"
    "\<forall>t. pass_tab p2 t = aout_table bs off t (placed (ucast (out_index p1)) xs) @ pass_tab p1 t"
    using Cons.IH [of p1] Cons.prems by auto
  have "pass_tab p2 t = aout_table bs off t (placed (ucast (out_index p)) (x # xs)) @ pass_tab p t" for t
  proof -
    have "rev (entry_for t r) = entry_for t r" for r by (simp add: entry_for_def split: option.split)
    then show ?thesis using 1(2) 2(2) by (simp add: pass_step_def aout_table_def ucast_add_bool)
  qed
  with 1(1) 2(1) show ?case by simp
qed

section \<open>What is written\<close>

text \<open>The word that an element becomes; an imported label is left to the linker.\<close>

definition code_word :: "aout_byte list \<Rightarrow> u16 \<Rightarrow> aout_byte \<Rightarrow> u16" where
  "code_word bs off x =
     (case ab_expr x of
        Some e \<Rightarrow> if imported bs e then 0 else expr_value bs off e
      | None \<Rightarrow> if ab_raw_used x then ab_raw x else INSTRUCTION_CREATE (ab_opcode x) (ab_a x) (ab_b x))"

definition code_words :: "aout_byte list \<Rightarrow> u16 \<Rightarrow> aout_byte list \<Rightarrow> u16 list" where
  "code_words bs off xs = map (code_word bs off) (filter is_word xs)"

lemma code_words_simps [simp]:
  "code_words bs off [] = []"
  "code_words bs off (x # xs) = (if is_word x then [code_word bs off x] else []) @ code_words bs off xs"
  by (simp_all add: code_words_def)

text \<open>The debug symbols after the words at the given places were written.\<close>

fun symbols_at :: "(u16 \<times> aout_byte) list \<Rightarrow> dbg_sym list \<Rightarrow> dbg_sym list" where
  "symbols_at [] ss = ss"
| "symbols_at ((n, x) # ps) ss =
     symbols_at ps (if ab_type x = AOUT_TYPE_NORMAL then update_shared (ab_symbols x) n ss else ss)"

lemma evaluated_fields:
  "ab_type (evaluated bs off x) = ab_type x" "ab_label (evaluated bs off x) = ab_label x"
  "ab_symbols (evaluated bs off x) = ab_symbols x"
  by (simp_all add: evaluated_def split: option.split)

lemma evaluated_word:
  assumes "straight x" and "ab_type x = AOUT_TYPE_NORMAL"
  shows "ab_raw_used (evaluated bs off x) \<or> ab_label (evaluated bs off x) = None \<longleftrightarrow> is_word x"
    and "is_word x \<Longrightarrow>
      (if ab_raw_used (evaluated bs off x) then ab_raw (evaluated bs off x)
       else INSTRUCTION_CREATE (ab_opcode (evaluated bs off x)) (ab_a (evaluated bs off x)) (ab_b (evaluated bs off x))) =
      code_word bs off x"
proof -
  have z: "INSTRUCTION_CREATE 0 0 0 = 0" by (simp add: INSTRUCTION_CREATE_def)
  show "ab_raw_used (evaluated bs off x) \<or> ab_label (evaluated bs off x) = None \<longleftrightarrow> is_word x"
    using assms(2) straightD(5) [OF assms]
    by (cases "ab_label x") (auto simp: evaluated_def is_word_def split: option.split)
  show "(if ab_raw_used (evaluated bs off x) then ab_raw (evaluated bs off x)
       else INSTRUCTION_CREATE (ab_opcode (evaluated bs off x)) (ab_a (evaluated bs off x)) (ab_b (evaluated bs off x))) =
      code_word bs off x" if "is_word x"
    using assms(2) straightD(6) [OF assms] z by (auto simp: evaluated_def code_word_def split: option.splits)
qed

lemma written_words_at: "fpos out = unat origin + 2 * k \<Longrightarrow> written_words origin out = of_nat k"
proof -
  assume "fpos out = unat origin + 2 * k"
  then have "int (fpos out) - uint origin = 2 * int k" by simp
  moreover have "(2 * int k) sdiv 2 = int k" by (cases k) (simp_all add: signed_divide_int_def)
  ultimately show ?thesis by (simp add: written_words_def)
qed

lemma write_byte_eq:
  assumes "straight x" and "at_end out" and "iio_ok (e_big env) (ao_iio st)"
  shows "\<exists>st'. aout_write_byte env fs (evaluated bs off x) (st, out) =
      Ret (st', append_bytes out (concat (map (file_bytes (iwritemode (ao_iio st))) (code_words bs off [x])))) \<and>
    ao_true_origin st' = ao_true_origin st \<and> iio_ok (e_big env) (ao_iio st') \<and>
    iwritemode (ao_iio st') = iwritemode (ao_iio st) \<and>
    ao_symbols st' = symbols_at [(written_words (ao_true_origin st) out, x)] (ao_symbols st)"
proof (cases "ab_type x = AOUT_TYPE_NORMAL")
  case False
  with assms straightD(1-3) [OF assms(1)] show ?thesis
    by (auto simp: aout_write_byte_def evaluated_fields is_word_def append_bytes_Nil)
next
  case True
  note w = evaluated_word [OF assms(1) True, of bs off]
  show ?thesis
    using True w assms(2,3) icpudetect_ok [OF assms(3)]
    by (auto simp: aout_write_byte_def evaluated_fields Let_def iwrite_eq fwrite_at_end append_bytes_Nil split_def)
qed

lemma write_all_eq:
  assumes "list_all straight xs" and "at_end out" and "iio_ok (e_big env) (ao_iio st)"
  shows "\<exists>st'. aout_write_all env fs (map (evaluated bs off) xs) (st, out) =
      Ret (st', append_bytes out (concat (map (file_bytes (iwritemode (ao_iio st))) (code_words bs off xs)))) \<and>
    ao_true_origin st' = ao_true_origin st \<and>
    (\<forall>k. fpos out = unat (ao_true_origin st) + 2 * k \<longrightarrow>
       ao_symbols st' = symbols_at (placed (of_nat k) xs) (ao_symbols st))"
  using assms
proof (induction xs arbitrary: st out)
  case Nil
  then show ?case by (simp add: append_bytes_Nil)
next
  case (Cons x xs)
  have x: "straight x" "list_all straight xs" using Cons.prems(1) by simp_all
  let ?bs = "concat (map (file_bytes (iwritemode (ao_iio st))) (code_words bs off [x]))"
  obtain st1 where 1: "aout_write_byte env fs (evaluated bs off x) (st, out) = Ret (st1, append_bytes out ?bs)"
    "ao_true_origin st1 = ao_true_origin st" "iio_ok (e_big env) (ao_iio st1)"
    "iwritemode (ao_iio st1) = iwritemode (ao_iio st)"
    "ao_symbols st1 = symbols_at [(written_words (ao_true_origin st) out, x)] (ao_symbols st)"
    using write_byte_eq [OF x(1) Cons.prems(2,3)] by blast
  obtain st2 where 2: "aout_write_all env fs (map (evaluated bs off) xs) (st1, append_bytes out ?bs) =
      Ret (st2, append_bytes (append_bytes out ?bs)
        (concat (map (file_bytes (iwritemode (ao_iio st1))) (code_words bs off xs))))"
    "ao_true_origin st2 = ao_true_origin st1"
    "\<forall>k. fpos (append_bytes out ?bs) = unat (ao_true_origin st1) + 2 * k \<longrightarrow>
       ao_symbols st2 = symbols_at (placed (of_nat k) xs) (ao_symbols st1)"
    using Cons.IH [OF x(2) append_bytes_simps(1) 1(3)] by blast
  have "ao_symbols st2 = symbols_at (placed (of_nat k) (x # xs)) (ao_symbols st)"
    if k: "fpos out = unat (ao_true_origin st) + 2 * k" for k
  proof -
    have "fpos (append_bytes out ?bs) = unat (ao_true_origin st1) + 2 * (k + of_bool (is_word x))"
      using k Cons.prems(2) 1(2) by (simp add: at_end_def)
    then show ?thesis
      using 2(3) [rule_format, of "k + of_bool (is_word x)"] 1(5) written_words_at [OF k] by simp
  qed
  with 1 2 show ?case by simp
qed

section \<open>The whole file\<close>

text \<open>The words in front of the code: the tables of extensions and of relocations.\<close>

definition front_words :: "cstr list \<Rightarrow> u16 list option \<Rightarrow> u16 list" where
  "front_words exts reloc = extension_words exts @ (case reloc of None \<Rightarrow> [] | Some r \<Rightarrow> reloc_words r)"

definition front_tables :: "aout_byte list \<Rightarrow> bool \<Rightarrow> cstr list \<Rightarrow> u16 list option \<Rightarrow> bool" where
  "front_tables bs relocatable exts reloc \<longleftrightarrow> textn_collect bs [] = Ret exts \<and>
     (if relocatable then \<exists>r. treloc_collect bs 0 [] = Ret r \<and> reloc = Some r else reloc = None)"

lemma extension_words_length: "(of_nat (length (extension_words exts)) :: u16) = (if exts = [] then 0 else extension_offset exts + 5)"
proof -
  have "length (concat (map (\<lambda>e. map (ucast :: u8 \<Rightarrow> u16) e @ [0]) exts)) = sum_list (map (\<lambda>e. length e + 1) exts)"
    by (induction exts) simp_all
  then show ?thesis by (simp add: extension_words_def extension_offset_def add_ac)
qed

lemma front_length:
  "(of_nat (length (front_words exts reloc)) :: u16) =
     (if exts = [] then 0 else extension_offset exts + 5) + (case reloc of None \<Rightarrow> 0 | Some r \<Rightarrow> of_nat (length r) + 5)"
  by (simp add: front_words_def extension_words_length reloc_words_def split: option.split)

text \<open>The linker tables of a list, as they are written.\<close>

definition aout_tables :: "aout_byte list \<Rightarrow> u16 \<Rightarrow> ldtable \<Rightarrow> lprov_entry list" where
  "aout_tables bs off t = aout_table bs off t (placed off bs)"

definition tables_file :: "ldenv \<Rightarrow> aout_byte list \<Rightarrow> u16 \<Rightarrow> cfile \<Rightarrow> cfile option" where
  "tables_file env bs off out =
     objfile_save (e_big env) (fwrite_bytes (ldata_objfmt @ [0]) out)
       (aout_tables bs off TProvided) (aout_tables bs off TRequired) (aout_tables bs off TAdjustment)
       (aout_tables bs off TSection) (aout_tables bs off TOutput) (aout_tables bs off TJump)
       (aout_tables bs off TOptional) (aout_tables bs off TCall)"

lemma write_front:
  assumes "at_end out" and "iio_ok big io"
  shows "\<exists>io'. aout_front big exts reloc io out = (io', append_bytes out (concat (map (file_bytes (iwritemode io)) (front_words exts reloc)))) \<and>
     iio_ok big io' \<and> iwritemode io' = iwritemode io"
proof -
  have w: "write_words big io (xs @ ys) out = (let (io, out) = write_words big io xs out in write_words big io ys out)"
    for io out and xs ys :: "u16 list"
    by (induction xs arbitrary: io out) (simp_all split: prod.split)
  have m: "iio_ok big io' \<and> iwritemode io' = iwritemode io" if "write_words big io ws out = (io', out')" "iio_ok big io"
    for io io' out out' and ws :: "u16 list"
    using that
  proof (induction ws arbitrary: io out)
    case (Cons w ws)
    then show ?case using icpudetect_ok [OF Cons.prems(2)] by (auto simp: iwrite_eq)
  qed simp
  have e: "aout_front big exts reloc io out = write_words big io (front_words exts reloc) out"
    by (simp add: aout_front_def textn_write_def treloc_write_def front_words_def w split: option.split prod.split)
  obtain io' where io': "write_words big io (front_words exts reloc) out =
      (io', append_bytes out (concat (map (file_bytes (iwritemode io)) (front_words exts reloc))))"
    using write_words_eq [OF assms(2,1)] by blast
  with m [OF io' assms(2)] show ?thesis unfolding e by blast
qed

text \<open>The pass over the list leaves the evaluated list and the eight tables.\<close>

lemma aout_pass_eq:
  assumes "list_ok env bs intermediate" and "list_all (byte_ok bs off intermediate) bs" and "sections_first False bs"
  obtains p where "aout_evaluate_all env bs off relocatable intermediate bs (aout_pass_start off) =
      Ret (map (evaluated bs off) bs, p)"
    and "linker_provided p = aout_tables bs off TProvided" and "linker_required p = aout_tables bs off TRequired"
    and "linker_adjustment p = aout_tables bs off TAdjustment" and "linker_section p = aout_tables bs off TSection"
    and "linker_output p = aout_tables bs off TOutput" and "linker_jump p = aout_tables bs off TJump"
    and "linker_optional p = aout_tables bs off TOptional" and "linker_call p = aout_tables bs off TCall"
proof -
  have s: "list_all straight bs" using assms(1) by (simp add: list_ok_def)
  have t: "pass_tab (aout_pass_start off) t = []" for t by (cases t) (simp_all add: aout_pass_start_def)
  have "sections_first (has_output (aout_pass_start off)) bs" using assms(3) by (simp add: aout_pass_start_def)
  moreover have "ucast (out_index (aout_pass_start off)) = off"
    by (simp add: aout_pass_start_def) (transfer, simp)
  ultimately obtain p where p: "aout_evaluate_all env bs off relocatable intermediate bs (aout_pass_start off) =
      Ret (map (evaluated bs off) bs, p)" "\<forall>t. pass_tab p t = aout_tables bs off t"
    using evaluate_all_eq [OF assms(1) s assms(2), of "aout_pass_start off" relocatable] t
    by (auto simp: aout_tables_def)
  note tab = p(2) [rule_format]
  show thesis
    by (rule that [OF p(1)])
      (use tab [of TProvided] tab [of TRequired] tab [of TAdjustment] tab [of TSection] tab [of TOutput]
        tab [of TJump] tab [of TOptional] tab [of TCall] in simp_all)
qed

text \<open>The sizes of the tables in front of the code move its offset.\<close>

lemma aout_front_sizes:
  fixes f :: "u16 \<Rightarrow> cstr list \<Rightarrow> u16 \<Rightarrow> u16 list option \<Rightarrow> 'c ldres"
  assumes "front_tables bs relocatable exts reloc"
  shows "ld_bind (textn_init bs) (\<lambda>(n, exts). ld_bind (if relocatable
      then ld_bind (treloc_init bs) (\<lambda>(m, reloc). Ret (m, Some reloc)) else Ret (0, None)) (\<lambda>(m, reloc). f n exts m reloc)) =
      f (if exts = [] then 0 else extension_offset exts + 5) exts (case reloc of None \<Rightarrow> 0 | Some r \<Rightarrow> of_nat (length r) + 5) reloc"
  using assms by (auto simp: front_tables_def textn_init_def treloc_init_def split: if_splits)

lemma aout_write_eq:
  assumes "list_ok env (ao_bytes st) intermediate" and "front_tables (ao_bytes st) relocatable exts reloc"
    and "off = ao_code_offset st + of_nat (length (front_words exts reloc))"
    and "list_all (byte_ok (ao_bytes st) off intermediate) (ao_bytes st)" and "sections_first False (ao_bytes st)"
    and "iio_ok (e_big env) (ao_iio st)"
    and "(if intermediate then tables_file env (ao_bytes st) off out else Some out) = Some out1" and "at_end out1"
    and "W = front_words exts reloc @ code_words (ao_bytes st) off (ao_bytes st)"
  shows "\<exists>n st'. aout_write env fs out relocatable intermediate st =
      Ret (n, append_bytes out1 (concat (map (file_bytes (iwritemode (ao_iio st))) W)), st') \<and>
    (\<forall>k. fpos out1 = unat (if intermediate then of_nat (fpos out1) else ao_true_origin st) + 2 * k \<longrightarrow>
       n = of_nat (k + length W) \<and>
       ao_symbols st' = symbols_at (placed (of_nat (k + length (front_words exts reloc))) (ao_bytes st)) (ao_symbols st))"
proof -
  let ?bs = "ao_bytes st"
  have s: "list_all straight ?bs" using assms(1) by (simp add: list_ok_def)
  obtain p where p: "aout_evaluate_all env ?bs off relocatable intermediate ?bs (aout_pass_start off) =
      Ret (map (evaluated ?bs off) ?bs, p)"
    and tabs: "linker_provided p = aout_tables ?bs off TProvided" "linker_required p = aout_tables ?bs off TRequired"
      "linker_adjustment p = aout_tables ?bs off TAdjustment" "linker_section p = aout_tables ?bs off TSection"
      "linker_output p = aout_tables ?bs off TOutput" "linker_jump p = aout_tables ?bs off TJump"
      "linker_optional p = aout_tables ?bs off TOptional" "linker_call p = aout_tables ?bs off TCall"
    by (rule aout_pass_eq [OF assms(1,4,5), of relocatable])
  let ?F = "front_words exts reloc"
  let ?enc = "\<lambda>ws. concat (map (file_bytes (iwritemode (ao_iio st))) ws)"
  let ?st0 = "st\<lparr>ao_code_offset := off, ao_bytes := map (evaluated ?bs off) ?bs\<rparr>"
  define st1 where "st1 = (if intermediate then ?st0\<lparr>ao_true_origin := of_nat (fpos out1)\<rparr> else ?st0)"
  have st1: "ao_symbols st1 = ao_symbols st"
    "ao_true_origin st1 = (if intermediate then of_nat (fpos out1) else ao_true_origin st)"
    by (simp_all add: st1_def)
  obtain io' where io': "aout_front (e_big env) exts reloc (ao_iio st) out1 = (io', append_bytes out1 (?enc ?F))"
     "iio_ok (e_big env) io'" "iwritemode io' = iwritemode (ao_iio st)"
    using write_front [OF assms(8,6)] by blast
  have head: "aout_head env exts reloc intermediate p (?st0, out) = Ret (st1\<lparr>ao_iio := io'\<rparr>, append_bytes out1 (?enc ?F))"
    using assms(7) io'(1) by (auto simp: aout_head_def st1_def tabs tables_file_def split: if_splits)
  obtain st' where st': "aout_write_all env fs (map (evaluated ?bs off) ?bs) (st1\<lparr>ao_iio := io'\<rparr>, append_bytes out1 (?enc ?F)) =
      Ret (st', append_bytes (append_bytes out1 (?enc ?F)) (?enc (code_words ?bs off ?bs)))"
    "ao_true_origin st' = ao_true_origin st1"
    "\<forall>k. fpos (append_bytes out1 (?enc ?F)) = unat (ao_true_origin st1) + 2 * k \<longrightarrow>
       ao_symbols st' = symbols_at (placed (of_nat k) ?bs) (ao_symbols st)"
    using write_all_eq [OF s append_bytes_simps(1) [of out1 "?enc ?F"], where env = env and fs = fs and bs = ?bs and off = off and
        st = "st1\<lparr>ao_iio := io'\<rparr>"] io'(2,3) st1(1) by auto
  note front = aout_front_sizes [OF assms(2)]
  have off: "ao_code_offset st + (if exts = [] then 0 else extension_offset exts + 5) +
      (case reloc of None \<Rightarrow> 0 | Some r \<Rightarrow> of_nat (length r) + 5) = off"
    using assms(3) front_length [of exts reloc] by (simp add: add.assoc)
  let ?img = "append_bytes out1 (?enc W)"
  have len: "length (?enc ws) = 2 * length ws" for ws :: "u16 list" by (induction ws) simp_all
  have "aout_write env fs out relocatable intermediate st = Ret (written_words (ao_true_origin st') ?img, ?img, st')"
    unfolding aout_write_def front Let_def off using p head st'(1) assms(9) by simp
  moreover have "written_words (ao_true_origin st') ?img = of_nat (k + length W) \<and>
      ao_symbols st' = symbols_at (placed (of_nat (k + length ?F)) ?bs) (ao_symbols st)"
    if k: "fpos out1 = unat (if intermediate then of_nat (fpos out1) else ao_true_origin st) + 2 * k" for k
  proof -
    have "fpos ?img = unat (ao_true_origin st') + 2 * (k + length W)"
      using k assms(8) unfolding st'(2) st1(2) by (simp add: at_end_def len)
    moreover have "fpos (append_bytes out1 (?enc ?F)) = unat (ao_true_origin st1) + 2 * (k + length ?F)"
      using k assms(8) unfolding st1(2) by (simp add: at_end_def len)
    ultimately show ?thesis using st'(3) written_words_at by blast
  qed
  ultimately show ?thesis by blast
qed

section \<open>Labels in a binary\<close>

lemma label_index_split:
  assumes "ab_type d = AOUT_TYPE_NORMAL" and "ab_label d = Some l"
    and "\<forall>u \<in> set us. \<not> (ab_type u = AOUT_TYPE_NORMAL \<and> ab_label u = Some l)"
  shows "label_index (us @ d # vs) l = Some (length (filter is_word us))"
  using assms by (induction us) auto

lemma label_index_SomeD:
  assumes "label_index bs l = Some i"
  shows "\<exists>us d vs. bs = us @ d # vs \<and> ab_type d = AOUT_TYPE_NORMAL \<and> ab_label d = Some l \<and> i = length (filter is_word us)"
  using assms
proof (induction bs arbitrary: i)
  case (Cons x xs)
  show ?case
  proof (cases "ab_type x = AOUT_TYPE_NORMAL \<and> ab_label x = Some l")
    case True
    with Cons.prems show ?thesis by (intro exI [of _ "[]"]) auto
  next
    case False
    then obtain j where j: "label_index xs l = Some j" "i = j + of_bool (is_word x)" using Cons.prems by (auto split: if_splits)
    from Cons.IH [OF j(1)] obtain us d vs where "xs = us @ d # vs" "ab_type d = AOUT_TYPE_NORMAL" "ab_label d = Some l"
      "j = length (filter is_word us)" by blast
    with j(2) show ?thesis by (intro exI [of _ "x # us"]) auto
  qed
qed simp

lemma code_words_nth:
  "is_word x \<Longrightarrow> code_words bs off (ys @ x # zs) ! length (filter is_word ys) = code_word bs off x"
  by (simp add: code_words_def nth_append)

definition place :: "u16 list \<Rightarrow> aout_byte list \<Rightarrow> nat" where
  "place front ys = length front + length (filter is_word ys)"

lemma place_word:
  assumes "bs = ys @ x # zs" and "is_word x"
  shows "(front @ code_words bs off bs) ! place front ys = code_word bs off x"
  using code_words_nth [OF assms(2)] unfolding assms(1) place_def by (simp add: nth_append)

text \<open>A word that names a label of the same list holds the place behind the label.\<close>

lemma place_label:
  assumes "bs = ys @ x # zs" and "is_word x" and "ab_expr x = Some (EXPR_LABEL l)" and "import_of bs l = None"
    and "bs = us @ d # vs" and "ab_type d = AOUT_TYPE_NORMAL" and "ab_label d = Some l"
    and "\<forall>u \<in> set us. \<not> (ab_type u = AOUT_TYPE_NORMAL \<and> ab_label u = Some l)"
    and "list_all straight bs" and "off = of_nat (length front)"
  shows "(front @ code_words bs off bs) ! place front ys = of_nat (place front us)"
proof -
  have "label_index bs l = Some (length (filter is_word us))"
    using label_index_split [OF assms(6-8)] assms(5) by blast
  then show ?thesis
    unfolding place_word [OF assms(1,2)] code_word_def
    using assms(3,4,9,10) by (simp add: imported_def expr_value_def label_address_index place_def)
qed

lemma no_sections: "list_all (byte_ok bs off False) xs \<Longrightarrow> sections_first b xs"
  by (induction xs arbitrary: b) (auto simp: byte_ok_def)

text \<open>
  C3. Labels in an assembled binary. When every label and every expression of the program has a
  value and it uses no directive that belongs to object code or moves the output, the
  assembler succeeds, and the file is a sequence of words: the tables of extensions and
  relocations if asked for, then one word for each element that is one. A word that is given by
  a label is the number of words of the file in front of the first definition of that label,
  so that a file loaded at address 0 refers to its own words. Other words are the instruction
  or value that was emitted, or the value of their expression.
\<close>

theorem assembled_labels:
  assumes "list_ok env bs False" and "front_tables bs relocatable exts reloc" and "front = front_words exts reloc"
    and "off = of_nat (length front)" and "list_all (byte_ok bs off False) bs" and "iio_ok (e_big env) (ao_iio st)"
    and "ao_bytes st = bs" and "ao_code_offset st = 0" and "ao_true_origin st = 0"
  shows "\<exists>st' W img. aout_write env fs \<lparr>fcontent = [], fpos = 0\<rparr> relocatable False st = Ret (of_nat (length W), img, st') \<and>
    fcontent img = concat (map (file_bytes (iwritemode (ao_iio st))) W) \<and>
    length W = place front bs \<and> take (length front) W = front \<and>
    (\<forall>ys x zs. bs = ys @ x # zs \<longrightarrow> is_word x \<longrightarrow> W ! place front ys = code_word bs off x) \<and>
    (\<forall>ys x zs us d vs l. bs = ys @ x # zs \<longrightarrow> is_word x \<longrightarrow> ab_expr x = Some (EXPR_LABEL l) \<longrightarrow>
       bs = us @ d # vs \<longrightarrow> ab_type d = AOUT_TYPE_NORMAL \<longrightarrow> ab_label d = Some l \<longrightarrow>
       (\<forall>u \<in> set us. \<not> (ab_type u = AOUT_TYPE_NORMAL \<and> ab_label u = Some l)) \<longrightarrow>
       W ! place front ys = of_nat (place front us))"
proof -
  let ?out = "\<lparr>fcontent = [], fpos = 0\<rparr>" and ?W = "front @ code_words bs off bs"
  have off: "off = ao_code_offset st + of_nat (length (front_words exts reloc))" using assms(3,4,8) by simp
  have "sections_first False bs" using no_sections [OF assms(5)] .
  with aout_write_eq [of env st False, unfolded assms(7), OF assms(1,2) off assms(5) _ assms(6), of ?out ?out ?W fs] assms(3,9)
  obtain n st' where w: "aout_write env fs ?out relocatable False st =
      Ret (n, append_bytes ?out (concat (map (file_bytes (iwritemode (ao_iio st))) ?W)), st')"
    and n: "n = of_nat (length ?W)"
    by (auto simp: at_end_def dest!: spec [of _ 0])
  have s: "list_all straight bs" and i: "import_of bs l = None" for l
    using assms(1) no_import by (simp_all add: list_ok_def)
  have len: "length ?W = place front bs" "take (length front) ?W = front" by (simp_all add: place_def code_words_def)
  have img: "fcontent (append_bytes ?out bytes) = bytes" for bytes by simp
  have word: "\<forall>ys x zs. bs = ys @ x # zs \<longrightarrow> is_word x \<longrightarrow> ?W ! place front ys = code_word bs off x"
    using place_word by blast
  have label: "\<forall>ys x zs us d vs l. bs = ys @ x # zs \<longrightarrow> is_word x \<longrightarrow> ab_expr x = Some (EXPR_LABEL l) \<longrightarrow>
       bs = us @ d # vs \<longrightarrow> ab_type d = AOUT_TYPE_NORMAL \<longrightarrow> ab_label d = Some l \<longrightarrow>
       (\<forall>u \<in> set us. \<not> (ab_type u = AOUT_TYPE_NORMAL \<and> ab_label u = Some l)) \<longrightarrow>
       ?W ! place front ys = of_nat (place front us)"
    using place_label [OF _ _ _ i _ _ _ _ s assms(4)] by blast
  show ?thesis
    by (intro exI [of _ st'] exI [of _ ?W] exI conjI) (rule w [unfolded n], rule img, rule len, rule len, rule word, rule label)
qed

text \<open>A word, a reference to a label, the label and a word behind it.\<close>

definition asm_demo :: "aout_byte list" where
  "asm_demo = [aout_create_raw 1, aout_create_expr (EXPR_LABEL [0x78]), aout_create_label [0x78], aout_create_raw 7]"

lemma asm_demo_ok:
  "list_ok demo_env asm_demo b" "front_tables asm_demo False [] None"
  "list_all (byte_ok asm_demo 0 False) asm_demo" "asm_demo = [aout_create_raw 1] @ asm_demo ! 1 # drop 2 asm_demo"
  "asm_demo = take 2 asm_demo @ asm_demo ! 2 # drop 3 asm_demo"
  "is_word (asm_demo ! 1)" "ab_expr (asm_demo ! 1) = Some (EXPR_LABEL [0x78])"
  "ab_type (asm_demo ! 2) = AOUT_TYPE_NORMAL" "ab_label (asm_demo ! 2) = Some [0x78]"
  "\<forall>u \<in> set (take 2 asm_demo). \<not> (ab_type u = AOUT_TYPE_NORMAL \<and> ab_label u = Some [0x78])"
  "front_words [] None = []" "place [] [aout_create_raw 1] = 1" "place [] (take 2 asm_demo) = 2" "place [] asm_demo = 3"
  by (simp_all add: asm_demo_def list_ok_def demo_env_def straight_def is_import_def is_word_def front_tables_def
      byte_ok_def expr_ok_def import_of_def aout_create_raw_def aout_create_expr_def aout_create_label_def
      aout_blank_def front_words_def extension_words_def place_def)

theorem assembled_labels_witness:
  "\<exists>st' W img. aout_write demo_env (\<lambda>_. None) \<lparr>fcontent = [], fpos = 0\<rparr> False False
      ((asm_initial None iio_initial)\<lparr>ao_bytes := asm_demo\<rparr>) = Ret (3, img, st') \<and>
     fcontent img = concat (map (file_bytes 2) W) \<and> length W = 3 \<and> W ! 1 = 2"
proof -
  let ?st = "(asm_initial None iio_initial)\<lparr>ao_bytes := asm_demo\<rparr>"
  have st: "iio_ok (e_big demo_env) (ao_iio ?st)" "ao_bytes ?st = asm_demo" "ao_code_offset ?st = 0" "ao_true_origin ?st = 0"
    "iwritemode (ao_iio ?st) = 2"
    by (simp_all add: asm_initial_def iio_initial_ok) (simp add: iio_initial_def)
  obtain st' W img where w: "aout_write demo_env (\<lambda>_. None) \<lparr>fcontent = [], fpos = 0\<rparr> False False ?st =
      Ret (of_nat (length W), img, st')" "fcontent img = concat (map (file_bytes (iwritemode (ao_iio ?st))) W)"
    "length W = place [] asm_demo"
    and l: "\<forall>ys x zs us d vs l. asm_demo = ys @ x # zs \<longrightarrow> is_word x \<longrightarrow> ab_expr x = Some (EXPR_LABEL l) \<longrightarrow>
       asm_demo = us @ d # vs \<longrightarrow> ab_type d = AOUT_TYPE_NORMAL \<longrightarrow> ab_label d = Some l \<longrightarrow>
       (\<forall>u \<in> set us. \<not> (ab_type u = AOUT_TYPE_NORMAL \<and> ab_label u = Some l)) \<longrightarrow>
       W ! place [] ys = of_nat (place [] us)"
    using assembled_labels [OF asm_demo_ok(1,2) asm_demo_ok(11) [symmetric] _ _ st(1-4), of 0 "\<lambda>_. None"] asm_demo_ok(3) by auto
  have "W ! place [] [aout_create_raw 1] = of_nat (place [] (take 2 asm_demo))"
    by (rule l [rule_format, OF asm_demo_ok(4,6,7,5,8,9)]) (use asm_demo_ok(10) in blast)
  with w st(5) show ?thesis by (auto simp: asm_demo_ok(12-14))
qed

section \<open>Object files\<close>

lemma assembled_object_file:
  assumes "list_ok env bs True" and "front_tables bs relocatable exts reloc" and "front = front_words exts reloc"
    and "off = of_nat (length front)" and "list_all (byte_ok bs off True) bs" and "sections_first False bs"
    and "iio_ok (e_big env) (ao_iio st)" and "ao_bytes st = bs" and "ao_code_offset st = 0"
    and "\<forall>t. table_ok (table_mode t) (aout_tables bs off t)" and "distinct_adj (map pe_address (aout_tables bs off TSection))"
  shows "\<exists>n (out1 :: cfile) img st'. aout_write env fs \<lparr>fcontent = [], fpos = 0\<rparr> relocatable True st = Ret (n, img, st') \<and>
    fcontent img = fcontent out1 @ concat (map (file_bytes (iwritemode (ao_iio st))) (front @ code_words bs off bs)) \<and>
    (\<forall>code path. check_objfmt path (fcontent out1 @ code) = Ret \<lparr>fcontent = fcontent out1 @ code, fpos = 18\<rparr> \<and>
      (\<exists>offset t f. objfile_load (e_big env) \<lparr>fcontent = fcontent out1 @ code, fpos = 18\<rparr> 0 all_tabs = Some (offset, t, f) \<and>
         (\<forall>u. objtab t u = map (loaded (table_mode u) 0) (aout_tables bs off u)) \<and> drop (fpos f) (fcontent f) = code)) \<and>
    (fpos out1 < 65536 \<longrightarrow> n = of_nat (place front bs) \<and> ao_symbols st' = symbols_at (placed off bs) (ao_symbols st))"
proof -
  let ?out = "\<lparr>fcontent = [], fpos = 0\<rparr>" and ?W = "front @ code_words bs off bs"
  have off: "off = ao_code_offset st + of_nat (length (front_words exts reloc))" using assms(3,4,9) by simp
  obtain out1 where o: "tables_file env bs off ?out = Some out1" "at_end out1"
    using object_image [OF assms(10,11), of "e_big env" "[]"] by (auto simp: tables_file_def new_file_def)
  have o': "(if True then tables_file env (ao_bytes st) off ?out else Some ?out) = Some out1" using o(1) assms(8) by simp
  have 1: "\<forall>code path. check_objfmt path (fcontent out1 @ code) = Ret \<lparr>fcontent = fcontent out1 @ code, fpos = 18\<rparr> \<and>
      (\<exists>offset t f. objfile_load (e_big env) \<lparr>fcontent = fcontent out1 @ code, fpos = 18\<rparr> 0 all_tabs = Some (offset, t, f) \<and>
         (\<forall>u. objtab t u = map (loaded (table_mode u) 0) (aout_tables bs off u)) \<and> drop (fpos f) (fcontent f) = code)"
    using object_image [OF assms(10,11), of "e_big env"] o(1) by (fastforce simp: tables_file_def new_file_def)
  obtain n st' where w: "aout_write env fs ?out relocatable True st =
      Ret (n, append_bytes out1 (concat (map (file_bytes (iwritemode (ao_iio st))) ?W)), st')"
    and k: "\<forall>k. fpos out1 = unat (of_nat (fpos out1) :: u16) + 2 * k \<longrightarrow> n = of_nat (k + length ?W) \<and>
       ao_symbols st' = symbols_at (placed (of_nat (k + length (front_words exts reloc))) bs) (ao_symbols st)"
    using aout_write_eq [of env st True, unfolded assms(8), OF assms(1,2) off assms(5,6,7) _ o(2), of ?out ?W fs] assms(3) o'
    unfolding assms(8) by auto
  have "n = of_nat (place front bs) \<and> ao_symbols st' = symbols_at (placed off bs) (ao_symbols st)" if "fpos out1 < 65536"
    using k [rule_format, of 0] that assms(3,4) by (simp add: unat_of_nat_u16 place_def code_words_def)
  then have 2: "fpos out1 < 65536 \<longrightarrow> n = of_nat (place front bs) \<and> ao_symbols st' = symbols_at (placed off bs) (ao_symbols st)"
    by blast
  have 3: "fcontent (append_bytes out1 bytes) = fcontent out1 @ bytes" for bytes by simp
  show ?thesis
    using w 1 2 3 [of "concat (map (file_bytes (iwritemode (ao_iio st))) ?W)"] by (intro exI conjI)
qed


text \<open>An object that exports a label, refers to it and to a label of another file.\<close>

definition object_demo :: "aout_byte list" where
  "object_demo = [aout_create_metadata_import (Some [0x79]), aout_create_raw 1, aout_create_expr (EXPR_LABEL [0x78]),
     aout_create_label [0x78], aout_create_expr (EXPR_LABEL [0x79]), aout_create_metadata_export (Some [0x78])]"

lemma object_demo_tables:
  "aout_tables object_demo 0 t =
     (case t of TProvided \<Rightarrow> [\<lparr>pe_label = Some [0x78], pe_address = 2\<rparr>] | TRequired \<Rightarrow> [\<lparr>pe_label = Some [0x79], pe_address = 2\<rparr>]
      | TAdjustment \<Rightarrow> [\<lparr>pe_label = None, pe_address = 1\<rparr>] | _ \<Rightarrow> [])"
  by (induct t; code_simp)

lemma object_demo_ok:
  "list_ok demo_env object_demo True" "front_tables object_demo False [] None" "[] = front_words [] None"
  "list_all (byte_ok object_demo 0 True) object_demo" "sections_first False object_demo"
  "[] @ code_words object_demo 0 object_demo = [1, 2, 0]"
proof -
  show "[] @ code_words object_demo 0 object_demo = [1, 2, 0]" by code_simp
qed (simp_all add: object_demo_def list_ok_def demo_env_def straight_def is_import_def is_word_def front_tables_def
      byte_ok_def expr_ok_def import_of_def aout_create_raw_def aout_create_expr_def aout_create_label_def
      aout_create_metadata_import_def aout_create_metadata_export_def ends_sections_def
      aout_blank_def front_words_def extension_words_def)


end
