(* ===== verification/Dtld.thy ===== *)
theory Dtld
  imports Ld_Call Ld_Policy
begin

text \<open>
  The linker as a tool (\<^verbatim>\<open>dtld/main.c\<close>): from its parsed arguments and the files to the files
  it writes. The arguments are parsed by a library; the folder with the kernels and the name of
  the default kernel come from the system and the configuration and are parameters.
\<close>

section \<open>Arguments\<close>

record dtld_args =
  da_target :: "cstr option"
  da_inputs :: "cstr list"
  da_output :: cstr
  da_kernel :: "cstr option"
  da_policy_file :: "cstr option"
  da_direct :: bool
  da_no_direct :: bool
  da_jumplist :: "cstr option"
  da_symbols :: "cstr option"
  da_symbol_ext :: "cstr option"
  da_opt_level :: "int option"
  da_opt_mode :: bool
  da_no_short_literals :: bool
  da_keep_outputs :: bool

definition image_target :: "dtld_args \<Rightarrow> int" where
  "image_target args =
     (case da_target args of
        None \<Rightarrow> IMAGE_APPLICATION
      | Some t \<Rightarrow> if t = c_str ''static'' then IMAGE_STATIC_LIBRARY
                  else if t = c_str ''kernel'' then IMAGE_KERNEL
                  else IMAGE_APPLICATION)"

section \<open>The kernel\<close>

text \<open>\<^verbatim>\<open>bfindreplace\<close>: every occurrence, from left to right.\<close>

fun find_replace :: "cstr \<Rightarrow> cstr \<Rightarrow> cstr \<Rightarrow> cstr" where
  "find_replace pat repl [] = []"
| "find_replace pat repl (c # s) =
     (if pat \<noteq> [] \<and> take (length pat) (c # s) = pat
      then repl @ find_replace pat repl (drop (length pat - 1) s)
      else c # find_replace pat repl s)"

text \<open>What the policy file of the kernel says about linking against it.\<close>

record kernel_setup =
  ks_policies :: policies_t
  ks_path :: cstr
  ks_target :: cstr
  ks_direct :: bool
  ks_jumplist :: "cstr option"
  ks_kernel :: "cstr option"

definition kernel_folder :: "cstr option \<Rightarrow> cstr \<Rightarrow> cstr \<Rightarrow> cstr" where
  "kernel_folder path krnl s =
     (case path of
        None \<Rightarrow> s
      | Some p \<Rightarrow> find_replace (c_str ''@KERNEL_FOLDER@'') (p @ c_str ''/'' @ krnl) s)"

text \<open>
  The target of a direct link is only used when the user names none. Without a folder of
  kernels nothing is replaced in the settings.
\<close>

definition read_settings :: "dtld_args \<Rightarrow> cstr option \<Rightarrow> cstr \<Rightarrow> cstr \<Rightarrow> policies_t \<Rightarrow> kernel_setup" where
  "read_settings args kernelpath krnl path policies =
     (let target = (case policies_get_setting policies (c_str ''target'') of None \<Rightarrow> c_str ''image'' | Some t \<Rightarrow> t);
          target = (case da_target args of None \<Rightarrow> target | Some t \<Rightarrow> t);
          direct = (case policies_get_setting policies (c_str ''direct-default'') of
                      None \<Rightarrow> False | Some d \<Rightarrow> biseqcstrcaseless d ''true'');
          direct = (if da_direct args then True else if da_no_direct args then False else direct);
          target = (case policies_get_setting policies (c_str ''direct-target'') of
                      Some t \<Rightarrow> if direct \<and> da_target args = None then t else target
                    | None \<Rightarrow> target)
      in \<lparr>ks_policies = policies, ks_path = path, ks_target = target, ks_direct = direct,
          ks_jumplist = map_option (kernel_folder kernelpath krnl) (policies_get_setting policies (c_str ''jumplist'')),
          ks_kernel = map_option (kernel_folder kernelpath krnl) (policies_get_setting policies (c_str ''kernel''))\<rparr>)"

definition find_kernel ::
    "dtld_args \<Rightarrow> cstr option \<Rightarrow> cstr \<Rightarrow> (u8 list \<Rightarrow> policies_t) \<Rightarrow> ldstate \<Rightarrow> kernel_setup option ldres" where
  "find_kernel args kernelpath kerneldefault policies_load st =
     (let krnl = (case da_kernel args of None \<Rightarrow> kerneldefault | Some k \<Rightarrow> k) in
      if image_target args \<noteq> IMAGE_APPLICATION \<or> krnl = c_str ''none'' then Ret None
      else
        ld_bind (case da_policy_file args of
                   Some p \<Rightarrow> Ret p
                 | None \<Rightarrow>
                     (case kernelpath of
                        None \<Rightarrow> Halt ERR_POLICY_PATH_UNKNOWN None
                      | Some k \<Rightarrow> Ret (k @ c_str ''/'' @ krnl @ c_str ''/policy''))) (\<lambda>path.
        case l_fs st path of
          None \<Rightarrow> Halt ERR_POLICY_FILE_NOT_FOUND (Some path)
        | Some bs \<Rightarrow> Ret (Some (read_settings args kernelpath krnl path (policies_load bs)))))"

section \<open>The run\<close>

definition check_args :: "dtld_args \<Rightarrow> unit ldres" where
  "check_args args =
     (if da_jumplist args \<noteq> None \<and> image_target args \<noteq> IMAGE_KERNEL then Halt ERR_JUMPLIST_WITHOUT_KERNEL None
      else if image_target args = IMAGE_KERNEL \<and> da_policy_file args \<noteq> None then Halt ERR_POLICY_WITH_KERNEL None
      else Ret ())"

definition load_kernel :: "ldenv \<Rightarrow> kernel_setup option \<Rightarrow> ldstate \<Rightarrow> ldstate ldres" where
  "load_kernel env k st =
     (case k of
        None \<Rightarrow> Ret st
      | Some ks \<Rightarrow>
          (case ks_jumplist ks of
             None \<Rightarrow> Ret st
           | Some jl \<Rightarrow>
               (case ks_kernel ks of
                  Some kp \<Rightarrow> if ks_direct ks then bins_load_kernel env jl kp st else bins_load_jumplist env jl st
                | None \<Rightarrow> bins_load_jumplist env jl st)))"

definition load_inputs :: "ldenv \<Rightarrow> dtld_args \<Rightarrow> ldstate \<Rightarrow> ldstate ldres" where
  "load_inputs env args =
     ld_each (\<lambda>p. bins_load env p (da_symbols args \<noteq> None)
       (case (da_symbols args, da_symbol_ext args) of (Some _, Some e) \<Rightarrow> e | _ \<Rightarrow> c_str ''dsym16'')) (da_inputs args)"

definition dtld_compress :: "ldenv \<Rightarrow> dtld_args \<Rightarrow> ldstate \<Rightarrow> ldstate ldres" where
  "dtld_compress env args st =
     (if da_no_short_literals args then ld_bind (dwarn env WARN_SKIPPING_SHORT_LITERALS_REQUEST) (\<lambda>_. Ret st)
      else if image_target args = IMAGE_STATIC_LIBRARY
      then ld_bind (dwarn env WARN_SKIPPING_SHORT_LITERALS_TYPE) (\<lambda>_. Ret st)
      else ld_bind (bins_compress st) (\<lambda>(saved, st). Ret st))"

text \<open>Everything up to the policy: the program is one bin with the name \<^verbatim>\<open>output\<close>.\<close>

definition dtld_link ::
    "ldenv \<Rightarrow> (bref \<Rightarrow> ldstate \<Rightarrow> (int \<times> ldstate) ldres) \<Rightarrow> dtld_args \<Rightarrow> kernel_setup option \<Rightarrow> ldstate \<Rightarrow> ldstate ldres" where
  "dtld_link env bin_lua_optimize args k st =
     (let target = image_target args in
      ld_bind (load_kernel env k (bins_init st)) (\<lambda>st.
      ld_bind (load_inputs env args st) (\<lambda>st.
      ld_bind (bins_associate st) (\<lambda>st.
      ld_bind (bins_sectionize st) (\<lambda>st.
      ld_bind (bins_flatten (c_str ''output'') st) (\<lambda>st.
      ld_bind (if target = IMAGE_KERNEL then bins_write_jump env st else Ret st) (\<lambda>st.
      ld_bind (bins_optimize bin_lua_optimize (if da_opt_mode args then 0 else 1)
                 (case da_opt_level args of None \<Rightarrow> 0 | Some n \<Rightarrow> n) st) (\<lambda>(saved, st).
      ld_bind (dtld_compress env args st) (\<lambda>st.
      ld_bind (case k of None \<Rightarrow> Ret st | Some ks \<Rightarrow> bins_resolve_kernel (ks_policies ks) st) (\<lambda>st.
      bins_resolve (target = IMAGE_STATIC_LIBRARY) (target = IMAGE_STATIC_LIBRARY)
        (target = IMAGE_STATIC_LIBRARY \<or> target = IMAGE_KERNEL) st))))))))))"

definition dtld_save :: "ldenv \<Rightarrow> dtld_args \<Rightarrow> cstr \<Rightarrow> ldstate \<Rightarrow> ldstate ldres" where
  "dtld_save env args name st =
     ld_bind (bins_save env name (da_output args) (image_target args) (da_keep_outputs args) (da_symbols args)
        (if image_target args = IMAGE_KERNEL then da_jumplist args else None) st) (\<lambda>st. Ret (bins_free st))"

text \<open>The fuel is that of the policy.\<close>

definition dtld ::
    "nat \<Rightarrow> ldenv \<Rightarrow> (bref \<Rightarrow> ldstate \<Rightarrow> (int \<times> ldstate) ldres) \<Rightarrow> (u8 list \<Rightarrow> policies_t) \<Rightarrow> cstr option \<Rightarrow> cstr \<Rightarrow>
     dtld_args \<Rightarrow> ldstate \<Rightarrow> ldstate ldres option" where
  "dtld fuel env bin_lua_optimize policies_load kernelpath kerneldefault args st =
     (case ld_bind (check_args args) (\<lambda>_.
           ld_bind (find_kernel args kernelpath kerneldefault policies_load st) (\<lambda>k.
           ld_bind (dtld_link env bin_lua_optimize args k st) (\<lambda>st. Ret (k, st)))) of
        Undef \<Rightarrow> Some Undef
      | Halt e d \<Rightarrow> Some (Halt e d)
      | Ret (None, st) \<Rightarrow> Some (dtld_save env args (c_str ''output'') st)
      | Ret (Some ks, st) \<Rightarrow>
          map_option (\<lambda>r. ld_bind r (dtld_save env args (c_str ''output_applied'')))
            (bins_apply_policy fuel env policies_load (ks_path ks) (ks_target ks) (c_str ''output'')
               (c_str ''output_applied'') st))"

text \<open>Replacing does nothing to a string in which the pattern does not occur.\<close>

lemma find_replace_absent:
  assumes "\<And>us vs. s \<noteq> us @ pat @ vs"
  shows "find_replace pat repl s = s"
  using assms
proof (induction pat repl s rule: find_replace.induct)
  case (2 pat repl c s)
  have "take (length pat) (c # s) \<noteq> pat"
    using "2.prems" [of "[]" "drop (length pat) (c # s)"] append_take_drop_id [of "length pat" "c # s"] by (metis append_Nil)
  moreover have "s \<noteq> us @ pat @ vs" for us vs using "2.prems" [of "c # us" vs] by simp
  ultimately show ?case using "2.IH"(2) by simp
qed simp

end
