(* ===== verification/Toolchain.thy ===== *)
theory Toolchain
  imports Asm_Link Ld_Flatten Dtld "HOL-Library.Multiset"
begin

text \<open>
  The assembler and the linker together: what the linker makes of the object files that the
  assembler writes. A module is the list of words and directives of one source file; here it
  has words, labels, exports and imports.
\<close>

section \<open>What linking means\<close>

definition module_size :: "aout_byte list \<Rightarrow> nat" where
  "module_size bs = length (filter is_word bs)"

definition exports :: "aout_byte list \<Rightarrow> cstr \<Rightarrow> bool" where
  "exports bs l \<longleftrightarrow> (\<exists>x \<in> set bs. ab_type x = AOUT_TYPE_METADATA_EXPORT \<and> ab_label x = Some l)"

text \<open>The place of a label in the first module that exports it.\<close>

fun find_export :: "nat \<Rightarrow> aout_byte list list \<Rightarrow> cstr \<Rightarrow> nat option" where
  "find_export base [] l = None"
| "find_export base (bs # ms) l =
     (if exports bs l then map_option (\<lambda>i. base + i) (label_index bs l)
      else find_export (base + module_size bs) ms l)"

text \<open>
  A word of a module that is placed at \<open>base\<close>: a label of the module is its place, an imported
  label the place where some module has it, or 0; every other word is the one of the module.
\<close>

definition link_word :: "aout_byte list list \<Rightarrow> nat \<times> aout_byte list \<times> aout_byte \<Rightarrow> u16" where
  "link_word mods = (\<lambda>(base, bs, x).
     case ab_expr x of
       Some (EXPR_LABEL l) \<Rightarrow>
         (case import_of bs l of
            None \<Rightarrow> of_nat (base + the (label_index bs l))
          | Some _ \<Rightarrow> (case find_export 0 mods l of None \<Rightarrow> 0 | Some a \<Rightarrow> of_nat a))
     | _ \<Rightarrow> code_word bs 0 x)"

text \<open>The words of all modules in order, with the module and its place.\<close>

fun link_sites :: "nat \<Rightarrow> aout_byte list list \<Rightarrow> (nat \<times> aout_byte list \<times> aout_byte) list" where
  "link_sites base [] = []"
| "link_sites base (bs # ms) = map (\<lambda>x. (base, bs, x)) (filter is_word bs) @ link_sites (base + module_size bs) ms"

definition link_image :: "aout_byte list list \<Rightarrow> u16 list" where
  "link_image mods = map (link_word mods) (link_sites 0 mods)"

lemma length_link_sites: "length (link_sites base ms) = sum_list (map module_size ms)"
  by (induction ms arbitrary: base) (simp_all add: module_size_def)

section \<open>Modules\<close>

definition module_ok :: "ldenv \<Rightarrow> aout_byte list \<Rightarrow> bool" where
  "module_ok env bs \<longleftrightarrow> list_ok env bs True \<and> list_all (byte_ok bs 0 True) bs \<and>
     (\<forall>x \<in> set bs. ab_type x \<in> {AOUT_TYPE_NORMAL, AOUT_TYPE_METADATA_EXPORT, AOUT_TYPE_METADATA_IMPORT,
        AOUT_TYPE_METADATA_IMPORT_OPTIONAL}) \<and>
     (\<forall>t. table_ok (table_mode t) (aout_tables bs 0 t)) \<and>
     (\<forall>l i. label_index bs l = Some i \<longrightarrow> i < module_size bs)"

text \<open>The table that a word is listed in.\<close>

definition word_kind :: "aout_byte list \<Rightarrow> aout_byte \<Rightarrow> ldtable option" where
  "word_kind bs x =
     (case ab_expr x of
        Some (EXPR_LABEL l) \<Rightarrow>
          Some (case import_of bs l of None \<Rightarrow> TAdjustment
            | Some ty \<Rightarrow> if ty = AOUT_TYPE_METADATA_IMPORT then TRequired else TOptional)
      | _ \<Rightarrow> None)"

definition word_label :: "ldtable \<Rightarrow> aout_byte \<Rightarrow> cstr option" where
  "word_label t x =
     (case ab_expr x of Some (EXPR_LABEL l) \<Rightarrow> if t = TAdjustment then None else Some l | _ \<Rightarrow> None)"

lemma word_entry:
  assumes "t \<in> {TRequired, TOptional, TAdjustment}" and "straight x"
  shows "entry_for t (table_entry bs off (n, x)) =
    (if is_word x \<and> word_kind bs x = Some t then [lprov_create (word_label t x) n] else [])"
proof (cases "ab_type x = AOUT_TYPE_NORMAL")
  case False
  then show ?thesis
    using assms(1) by (cases "ab_type x") (auto simp: entry_for_def table_entry_def is_word_def)
next
  case True
  show ?thesis
  proof (cases "\<exists>l. ab_expr x = Some (EXPR_LABEL l)")
    case False
    then have "table_entry bs off (n, x) = None" "word_kind bs x = None"
      using True by (auto simp: table_entry_def word_kind_def split: option.split expr.split)
    then show ?thesis by (simp add: entry_for_def)
  next
    case e: True
    then obtain l where l: "ab_expr x = Some (EXPR_LABEL l)" by blast
    have w: "is_word x" using straightD(6) [OF assms(2) True l] True by (simp add: is_word_def)
    show ?thesis
    proof (cases "import_of bs l")
      case None
      then show ?thesis using True l w assms(1)
        by (auto simp: entry_for_def table_entry_def word_kind_def word_label_def)
    next
      case (Some ty)
      then show ?thesis using True l w assms(1)
        by (cases ty) (auto simp: entry_for_def table_entry_def word_kind_def word_label_def)
    qed
  qed
qed

lemma word_entries:
  assumes "t \<in> {TRequired, TOptional, TAdjustment}" and "list_all straight xs"
  shows "concat (map (\<lambda>p. entry_for t (table_entry bs off p)) (placed (of_nat k) xs)) =
    map (\<lambda>(j, x). lprov_create (word_label t x) (of_nat j))
      (filter (\<lambda>(j, x). word_kind bs x = Some t) (enumerate k (filter is_word xs)))"
  using assms(2)
proof (induction xs arbitrary: k)
  case (Cons x xs)
  have n: "of_nat k + of_bool (is_word x) = (of_nat (if is_word x then Suc k else k) :: u16)" by simp
  show ?case
    using Cons.prems Cons.IH [of "if is_word x then Suc k else k"] unfolding placed.simps n
    by (simp add: word_entry [OF assms(1)])
qed simp

lemma word_table:
  assumes "t \<in> {TRequired, TOptional, TAdjustment}" and "list_all straight bs"
  shows "aout_tables bs 0 t = rev (map (\<lambda>(j, x). lprov_create (word_label t x) (of_nat j))
      (filter (\<lambda>(j, x). word_kind bs x = Some t) (enumerate 0 (filter is_word bs))))"
  using word_entries [OF assms, of bs 0 0] by (simp add: aout_tables_def aout_table_def)

text \<open>A module has no other entries than exports.\<close>

lemma module_other_tables:
  assumes "module_ok env bs" and "t \<in> {TSection, TOutput, TJump, TCall}"
  shows "aout_tables bs 0 t = []"
proof -
  have "entry_for t (table_entry bs off (n, x)) = []" if "x \<in> set bs" for off n x
  proof -
    have "ab_type x \<in> {AOUT_TYPE_NORMAL, AOUT_TYPE_METADATA_EXPORT, AOUT_TYPE_METADATA_IMPORT,
        AOUT_TYPE_METADATA_IMPORT_OPTIONAL}" using assms(1) that by (simp add: module_ok_def)
    then show ?thesis using assms(2)
      by (auto simp: entry_for_def table_entry_def split: option.split expr.split aout_type.split)
  qed
  moreover have "snd p \<in> set bs" if "p \<in> set (placed n bs)" for p n
    using that by (induction bs arbitrary: n) auto
  ultimately show ?thesis
    unfolding aout_tables_def aout_table_def by (auto simp: concat_eq_Nil_conv)
qed


section \<open>The bin of a module\<close>

definition module_bin :: "cstr \<Rightarrow> aout_byte list \<Rightarrow> ldbin" where
  "module_bin path bs =
     \<lparr>b_name = path, b_tabs = (\<lambda>t. Some (list_convert (map (loaded (table_mode t) 0) (aout_tables bs 0 t)))),
      b_symbols = Some new_list, b_words = code_words bs 0 bs\<rparr>"

text \<open>The entry for a word at a place.\<close>

definition site_entry :: "ldtable \<Rightarrow> cstr \<Rightarrow> nat \<Rightarrow> aout_byte \<Rightarrow> lconv_entry" where
  "site_entry t name j x =
     \<lparr>ce_label = word_label t x, ce_bin = (if t = TAdjustment then Some name else None), ce_address = of_nat j\<rparr>"

lemma module_bin_fields:
  "b_name (associate_bin (module_bin path bs)) = path" "b_symbols (associate_bin (module_bin path bs)) = Some new_list"
  "b_words (associate_bin (module_bin path bs)) = code_words bs 0 bs"
  "length (code_words bs 0 bs) = module_size bs"
  by (simp_all add: module_bin_def associate_bin_def set_tab_def code_words_def module_size_def)

lemma module_bin_tab:
  "b_tabs (associate_bin (module_bin path bs)) t = Some \<lparr>elems = map (\<lambda>e. \<lparr>ce_label = pe_label e,
      ce_bin = (if t = TAdjustment then Some path else None), ce_address = pe_address e\<rparr>)
      (map (loaded (table_mode t) 0) (aout_tables bs 0 t)), iterating = False\<rparr>"
  by (simp add: module_bin_def associate_bin_def set_tab_def list_convert_def map_elems_def)

lemma module_words:
  assumes "module_ok env bs" and "t \<in> {TRequired, TOptional, TAdjustment}"
  shows "tab_list (associate_bin (module_bin path bs)) t = rev (map (\<lambda>(j, x). site_entry t path j x)
      (filter (\<lambda>(j, x). word_kind bs x = Some t) (enumerate 0 (filter is_word bs))))"
proof -
  have s: "list_all straight bs" using assms(1) by (simp add: module_ok_def list_ok_def)
  have k: "word_label t x \<noteq> None" if "word_kind bs x = Some t" "t \<noteq> TAdjustment" for x
    using that by (auto simp: word_kind_def word_label_def split: option.splits expr.splits if_splits)
  have l: "\<lparr>ce_label = pe_label e, ce_bin = (if t = TAdjustment then Some path else None), ce_address = pe_address e\<rparr> = site_entry t path j x"
    if "word_kind bs x = Some t" "e = loaded (table_mode t) 0 (lprov_create (word_label t x) (of_nat j))" for e j x
    using k [OF that(1)] that assms(2)
    by (cases "t = TAdjustment") (auto simp: site_entry_def loaded_def lprov_create_def saved_label_def word_label_def
        split: option.splits expr.splits)
  show ?thesis
    using l by (auto simp: tab_list_def module_bin_tab word_table [OF assms(2) s] rev_map)
qed

lemma module_export_label:
  assumes "module_ok env bs" and "x \<in> set bs" and "ab_type x = AOUT_TYPE_METADATA_EXPORT"
  obtains l i where "ab_label x = Some l" "label_index bs l = Some i" "i < module_size bs"
proof -
  have "byte_ok bs 0 True x" using assms(1,2) by (simp add: module_ok_def list_all_iff)
  with assms(1,3) that show ?thesis by (auto simp: module_ok_def byte_ok_def split: option.splits)
qed

lemma module_exports:
  assumes "module_ok env bs"
  shows "e \<in> set (aout_tables bs 0 TProvided) \<longleftrightarrow> (\<exists>l. exports bs l \<and> e = lprov_create (Some l) (address_of bs 0 l))"
proof -
  have e: "e \<in> set (entry_for TProvided (table_entry bs 0 q)) \<longleftrightarrow> ab_type (snd q) = AOUT_TYPE_METADATA_EXPORT \<and>
      e = lprov_create (ab_label (snd q)) (address_of bs 0 (the (ab_label (snd q))))" for q
    by (cases q) (auto simp: entry_for_def table_entry_def split: option.splits expr.splits aout_type.splits)
  have p: "snd ` set (placed n bs) = set bs" for n by (induction bs arbitrary: n) auto
  have "e \<in> set (aout_tables bs 0 TProvided) \<longleftrightarrow> (\<exists>x \<in> snd ` set (placed 0 bs). ab_type x = AOUT_TYPE_METADATA_EXPORT \<and>
      e = lprov_create (ab_label x) (address_of bs 0 (the (ab_label x))))"
    unfolding aout_tables_def aout_table_def by (simp add: e)
  also have "\<dots> \<longleftrightarrow> (\<exists>l. exports bs l \<and> e = lprov_create (Some l) (address_of bs 0 l))"
    unfolding p exports_def by (metis module_export_label [OF assms] option.sel)
  finally show ?thesis .
qed

lemma module_provides:
  assumes "module_ok env bs" and "module_size bs < 65536"
  shows "e \<in> set (tab_list (associate_bin (module_bin path bs)) TProvided) \<longleftrightarrow>
    (\<exists>l i. exports bs l \<and> label_index bs l = Some i \<and> i < module_size bs \<and>
       e = \<lparr>ce_label = Some l, ce_bin = None, ce_address = of_nat i\<rparr>)"
proof -
  have d: "\<exists>i. label_index bs l = Some i \<and> i < module_size bs" if "exports bs l" for l
    using that module_export_label [OF assms(1)] unfolding exports_def by (metis option.sel)
  have "e \<in> set (tab_list (associate_bin (module_bin path bs)) TProvided) \<longleftrightarrow>
      (\<exists>q \<in> set (aout_tables bs 0 TProvided). e = \<lparr>ce_label = Some (saved_label LABEL_PROVIDED q), ce_bin = None, ce_address = pe_address q\<rparr>)"
    by (auto simp: tab_list_def module_bin_tab loaded_def lprov_create_def)
  also have "\<dots> \<longleftrightarrow> (\<exists>l. exports bs l \<and> e = \<lparr>ce_label = Some l, ce_bin = None, ce_address = address_of bs 0 l\<rparr>)"
    unfolding Bex_def module_exports [OF assms(1)] using d by (auto simp: lprov_create_def saved_label_def)
  also have "\<dots> \<longleftrightarrow> (\<exists>l i. exports bs l \<and> label_index bs l = Some i \<and> i < module_size bs \<and>
       e = \<lparr>ce_label = Some l, ce_bin = None, ce_address = of_nat i\<rparr>)"
    using d by (fastforce simp: address_of_def)
  finally show ?thesis .
qed


section \<open>The bins of all modules\<close>

abbreviation (input) module_bins :: "cstr list \<Rightarrow> aout_byte list list \<Rightarrow> ldbin list" where
  "module_bins paths ms \<equiv> map2 (\<lambda>path bs. associate_bin (module_bin path bs)) paths ms"

lemma module_adjusts:
  assumes "module_ok env bs" and "module_size bs < 65536"
  shows "adj_addrs (associate_bin (module_bin path bs)) =
    {j. j < module_size bs \<and> word_kind bs (filter is_word bs ! j) = Some TAdjustment}"
proof -
  have "adj_addrs (associate_bin (module_bin path bs)) = addr ` set (tab_list (associate_bin (module_bin path bs)) TAdjustment)"
    by (simp add: adj_addrs_def adj_list_def tab_list_def)
  also have "\<dots> = (\<lambda>(j, x). unat (of_nat j :: u16)) `
      set (filter (\<lambda>(j, x). word_kind bs x = Some TAdjustment) (enumerate 0 (filter is_word bs)))"
    by (simp add: module_words [OF assms(1)] image_image split_def site_entry_def)
  also have "\<dots> = {j. j < module_size bs \<and> word_kind bs (filter is_word bs ! j) = Some TAdjustment}"
    using assms(2) by (force simp: in_set_enumerate_eq module_size_def unat_of_nat_u16 image_iff)
  finally show ?thesis .
qed

lemma module_relocated:
  assumes "module_ok env bs" and "module_size bs < 65536"
  shows "relocate base (associate_bin (module_bin path bs)) =
    map (\<lambda>x. if word_kind bs x = Some TAdjustment then code_word bs 0 x + of_nat base else code_word bs 0 x) (filter is_word bs)"
  unfolding relocate_def module_adjusts [OF assms] module_bin_fields
  by (rule nth_equalityI) (auto simp: code_words_def module_size_def)

definition linked_word :: "nat \<times> aout_byte list \<times> aout_byte \<Rightarrow> u16" where
  "linked_word = (\<lambda>(base, bs, x).
     if word_kind bs x = Some TAdjustment then code_word bs 0 x + of_nat base else code_word bs 0 x)"

lemma linked_modules:
  assumes "list_all (\<lambda>bs. module_ok env bs \<and> module_size bs < 65536) ms" and "length paths = length ms"
  shows "linked base (module_bins paths ms) = map linked_word (link_sites base ms)"
  using assms
proof (induction ms arbitrary: base paths)
  case (Cons bs ms)
  then obtain p ps where p: "paths = p # ps" "length ps = length ms" by (auto simp: length_Suc_conv)
  have "module_ok env bs" "module_size bs < 65536" using Cons.prems(1) by simp_all
  with Cons.IH [OF _ p(2)] Cons.prems(1) show ?case
    by (simp add: p(1) module_relocated module_bin_fields linked_word_def comp_def)
qed simp

lemma placed_sites:
  "map (\<lambda>(j, x). f (base + j) x) (filter (\<lambda>(j, x). Q bs x) (enumerate k xs)) =
     map (\<lambda>(j, _, c, x). f j x) (filter (\<lambda>(j, _, c, x). Q c x) (enumerate (base + k) (map (\<lambda>x. (b, bs, x)) xs)))"
  by (induction xs arbitrary: k) (auto simp flip: add_Suc_right)

text \<open>The tables of words: an entry for each word of the kind, at its place.\<close>

lemma linked_sites:
  assumes "list_all (\<lambda>bs. module_ok env bs) ms" and "length paths = length ms"
    and "t \<in> {TRequired, TOptional, TAdjustment}" and "base + length (link_sites base ms) \<le> 65536"
  shows "mset (linked_tab t name base (module_bins paths ms)) =
    mset (map (\<lambda>(j, _, bs, x). site_entry t name j x)
      (filter (\<lambda>(j, _, bs, x). word_kind bs x = Some t) (enumerate base (link_sites base ms))))"
  using assms(1,2,4)
proof (induction ms arbitrary: base paths)
  case (Cons bs ms)
  then obtain p ps where p: "paths = p # ps" "length ps = length ms" by (auto simp: length_Suc_conv)
  have ok: "module_ok env bs" and sz: "base + module_size bs \<le> 65536" using Cons.prems by (simp_all add: module_size_def)
  let ?f = "\<lambda>e. if t = TAdjustment then (copy_entry base 0 e)\<lparr>ce_bin := Some name\<rparr> else copy_entry base 0 e"
  let ?ws = "filter is_word bs"
  have c: "?f (site_entry t p j x) = site_entry t name (base + j) x" if "j < module_size bs" for j x
    using that sz by (simp add: copy_entry_def site_entry_def unat_of_nat_u16)
  have "map ?f (rev (map (\<lambda>(j, x). site_entry t p j x) (filter (\<lambda>(j, x). word_kind bs x = Some t) (enumerate 0 ?ws)))) =
      rev (map (\<lambda>(j, x). site_entry t name (base + j) x) (filter (\<lambda>(j, x). word_kind bs x = Some t) (enumerate 0 ?ws)))"
    using c by (auto simp: rev_map [symmetric] in_set_enumerate_eq module_size_def)
  moreover have "map (\<lambda>(j, x). site_entry t name (base + j) x) (filter (\<lambda>(j, x). word_kind bs x = Some t) (enumerate 0 ?ws)) =
      map (\<lambda>(j, _, bs, x). site_entry t name j x)
        (filter (\<lambda>(j, _, bs, x). word_kind bs x = Some t) (enumerate base (map (\<lambda>x. (base, bs, x)) ?ws)))"
    using placed_sites [where k = 0] by simp
  ultimately have "image_mset ?f (mset (tab_list (associate_bin (module_bin p bs)) t)) =
      mset (map (\<lambda>(j, _, bs, x). site_entry t name j x)
        (filter (\<lambda>(j, _, bs, x). word_kind bs x = Some t) (enumerate base (map (\<lambda>x. (base, bs, x)) ?ws))))"
    unfolding module_words [OF ok assms(3)] by (metis mset_map mset_rev)
  then show ?case
    using Cons.IH [of ps "base + module_size bs"] Cons.prems p
    by (simp add: module_bin_fields enumerate_append_eq module_size_def)
qed simp


lemma label_word:
  assumes "module_ok env bs" and "x \<in> set bs" and "is_word x" and "ab_expr x = Some (EXPR_LABEL l)" and "import_of bs l = None"
  obtains i where "label_index bs l = Some i" "i < module_size bs" "code_word bs 0 x = of_nat i"
proof -
  have s: "list_all straight bs" using assms(1) by (simp add: module_ok_def list_ok_def)
  have "byte_ok bs 0 True x" using assms(1,2) by (simp add: module_ok_def list_all_iff)
  then obtain i where i: "label_index bs l = Some i"
    using assms(3-5) by (auto simp: byte_ok_def is_word_def expr_ok_def)
  moreover have "i < module_size bs" using assms(1) i by (simp add: module_ok_def)
  moreover have "code_word bs 0 x = of_nat i"
    using assms(4,5) i by (simp add: code_word_def imported_def expr_value_def label_address_index [OF s])
  ultimately show ?thesis using that by blast
qed

lemma kind_adjust:
  assumes "word_kind bs x = Some TAdjustment"
  obtains l where "ab_expr x = Some (EXPR_LABEL l)" "import_of bs l = None"
  using assms that by (auto simp: word_kind_def split: option.splits expr.splits if_splits)

lemma word_in_module: "j < module_size bs \<Longrightarrow> filter is_word bs ! j \<in> set bs \<and> is_word (filter is_word bs ! j)"
  using nth_mem [of j "filter is_word bs"] by (auto simp: module_size_def)

text \<open>The bin of a module is one that the linker flattens.\<close>

lemma module_entries:
  assumes "module_ok env bs" and "module_size bs < 65536" and "e \<in> set (tab_list (associate_bin (module_bin path bs)) t)"
  shows "unat (ce_address e) < module_size bs" and "t \<noteq> TAdjustment \<Longrightarrow> ce_label e \<noteq> None"
    and "t = TAdjustment \<Longrightarrow> ce_bin e = Some path"
proof -
  have "unat (ce_address e) < module_size bs \<and> (t \<noteq> TAdjustment \<longrightarrow> ce_label e \<noteq> None) \<and> (t = TAdjustment \<longrightarrow> ce_bin e = Some path)"
  proof (cases "t \<in> {TSection, TOutput, TJump, TCall}")
    case True
    with assms(3) show ?thesis by (auto simp: tab_list_def module_bin_tab module_other_tables [OF assms(1)])
  next
    case False
    show ?thesis
    proof (cases "t = TProvided")
      case True
      then show ?thesis using assms(3) module_provides [OF assms(1,2)] assms(2) by (auto simp: unat_of_nat_u16)
    next
      case p: False
      with False have t: "t \<in> {TRequired, TOptional, TAdjustment}" by (cases t) auto
      from assms(3) obtain j where "j < module_size bs" "word_kind bs (filter is_word bs ! j) = Some t"
          "e = site_entry t path j (filter is_word bs ! j)"
        unfolding module_words [OF assms(1) t] by (auto simp: in_set_enumerate_eq module_size_def)
      then show ?thesis using assms(2)
        by (auto simp: site_entry_def unat_of_nat_u16 word_kind_def word_label_def split: option.splits expr.splits if_splits)
    qed
  qed
  then show "unat (ce_address e) < module_size bs" "t \<noteq> TAdjustment \<Longrightarrow> ce_label e \<noteq> None"
    "t = TAdjustment \<Longrightarrow> ce_bin e = Some path" by blast+
qed

lemma sites_distinct:
  assumes "length xs \<le> 65536"
  shows "distinct (map (\<lambda>(j, x). of_nat j :: u16) (filter P (enumerate 0 xs)))"
proof -
  have "inj_on (of_nat :: nat \<Rightarrow> u16) {..<65536}" by (rule inj_onI) (metis lessThan_iff unat_of_nat_u16)
  moreover have "fst ` set (filter P (enumerate 0 xs)) \<subseteq> {..<65536}" using assms by (auto simp: in_set_enumerate_eq)
  ultimately have "inj_on (of_nat :: nat \<Rightarrow> u16) (fst ` set (filter P (enumerate 0 xs)))" by (rule inj_on_subset)
  moreover have "distinct (map fst (filter P (enumerate 0 xs)))" by (intro distinct_map_filter) simp
  ultimately have "distinct (map (of_nat :: nat \<Rightarrow> u16) (map fst (filter P (enumerate 0 xs))))"
    by (subst distinct_map) (simp only: set_map)
  then show ?thesis by (simp add: comp_def split_def)
qed

lemma module_file:
  assumes "module_ok env bs" and "module_size bs < 65536" and "path \<noteq> name" and "take 8 path \<noteq> c_str ''SECTION ''"
  shows "file_bin name (associate_bin (module_bin path bs))" and "labelled (associate_bin (module_bin path bs))"
proof -
  let ?b = "associate_bin (module_bin path bs)"
  note e = module_entries [OF assms(1,2)]
  have l: "adj_list ?b = tab_list ?b TAdjustment" by (simp add: adj_list_def tab_list_def)
  have v: "unat (code_words bs 0 bs ! unat (ce_address a)) < module_size bs" if "a \<in> set (tab_list ?b TAdjustment)" for a
  proof -
    from that obtain j where j: "j < module_size bs" "word_kind bs (filter is_word bs ! j) = Some TAdjustment" "ce_address a = of_nat j"
      unfolding module_words [OF assms(1), of TAdjustment, simplified]
      by (auto simp: in_set_enumerate_eq module_size_def site_entry_def)
    then obtain lb where lb: "ab_expr (filter is_word bs ! j) = Some (EXPR_LABEL lb)" "import_of bs lb = None"
      using kind_adjust by blast
    obtain i where "i < module_size bs" "code_word bs 0 (filter is_word bs ! j) = of_nat i"
      using label_word [OF assms(1) _ _ lb] word_in_module [OF j(1)] by blast
    with j(1,3) assms(2) show ?thesis by (simp add: code_words_def module_size_def unat_of_nat_u16)
  qed
  have d: "distinct (map ce_address (tab_list ?b TAdjustment))"
    using sites_distinct [of "filter is_word bs" "\<lambda>(j, x). word_kind bs x = Some TAdjustment"] assms(2)
    unfolding module_words [OF assms(1), of TAdjustment, simplified]
    by (simp add: rev_map [symmetric] site_entry_def comp_def split_def module_size_def)
  have f: "in_file ?b t" for t
    using e(1) [of _ path t] unfolding in_file_def module_bin_fields by (simp add: module_bin_tab tab_list_def)
  show "file_bin name ?b"
    unfolding file_bin_def object_bin_def own_adjust_def module_bin_fields l using f d e v assms(3,4) by auto
  show "labelled ?b" using e(2) by (auto simp: labelled_def)
qed


section \<open>Looking labels up\<close>

lemma seek_label_append:
  "seek_label (xs @ ys) n = (case seek_label xs n of None \<Rightarrow> seek_label ys n | Some e \<Rightarrow> Some e)"
  by (induction xs) simp_all

lemma seek_label_found: "seek_label es (Some l) = Some e \<Longrightarrow> e \<in> set es \<and> ce_label e = Some l"
  by (induction es) (auto simp: biseq_def split: if_splits)

lemma seek_label_none: "seek_label es (Some l) = None \<longleftrightarrow> (\<forall>e \<in> set es. ce_label e \<noteq> Some l)"
  by (induction es) (auto simp: biseq_def)

lemma linked_export:
  assumes "list_all (\<lambda>bs. module_ok env bs \<and> module_size bs < 65536) ms" and "length paths = length ms"
  shows "map_option ce_address (seek_label (linked_tab TProvided name base (module_bins paths ms)) (Some l)) =
    map_option of_nat (find_export base ms l)"
  using assms
proof (induction ms arbitrary: base paths)
  case (Cons bs ms)
  then obtain p ps where p: "paths = p # ps" "length ps = length ms" by (auto simp: length_Suc_conv)
  have ok: "module_ok env bs" "module_size bs < 65536" using Cons.prems(1) by simp_all
  let ?es = "map (copy_entry base 0) (sort_key ce_address (tab_list (associate_bin (module_bin p bs)) TProvided))"
  have c: "copy_entry base 0 \<lparr>ce_label = Some l, ce_bin = None, ce_address = of_nat i\<rparr> =
      \<lparr>ce_label = Some l, ce_bin = None, ce_address = of_nat (base + i)\<rparr>" if "i < module_size bs" for l i
    using that ok(2) by (simp add: copy_entry_def unat_of_nat_u16)
  have m: "e \<in> set ?es \<longleftrightarrow> (\<exists>l i. exports bs l \<and> label_index bs l = Some i \<and> i < module_size bs \<and>
      e = \<lparr>ce_label = Some l, ce_bin = None, ce_address = of_nat (base + i)\<rparr>)" for e
  proof -
    have "e \<in> set ?es \<longleftrightarrow> (\<exists>q. q \<in> set (tab_list (associate_bin (module_bin p bs)) TProvided) \<and> e = copy_entry base 0 q)"
      by auto
    also have "\<dots> \<longleftrightarrow> (\<exists>l i. exports bs l \<and> label_index bs l = Some i \<and> i < module_size bs \<and>
        e = copy_entry base 0 \<lparr>ce_label = Some l, ce_bin = None, ce_address = of_nat i\<rparr>)"
      unfolding module_provides [OF ok] by blast
    finally show ?thesis using c by metis
  qed
  have "map_option ce_address (seek_label ?es (Some l)) =
      (if exports bs l then Some (of_nat (base + the (label_index bs l))) else None)"
  proof (cases "seek_label ?es (Some l)")
    case None
    have "\<not> exports bs l"
    proof
      assume x: "exports bs l"
      then obtain i where "label_index bs l = Some i" "i < module_size bs"
        unfolding exports_def using module_export_label [OF ok(1)] by (metis option.sel)
      with x m have "\<lparr>ce_label = Some l, ce_bin = None, ce_address = of_nat (base + i)\<rparr> \<in> set ?es" by blast
      moreover have "ce_label \<lparr>ce_label = Some l, ce_bin = None, ce_address = of_nat (base + i)\<rparr> = Some l" by simp
      ultimately show False using None unfolding seek_label_none by blast
    qed
    then show ?thesis by (simp add: None)
  next
    case (Some e)
    then show ?thesis using seek_label_found [OF Some] m by auto
  qed
  moreover have "label_index bs l \<noteq> None" if "exports bs l"
    using that module_export_label [OF ok(1)] unfolding exports_def by (metis option.distinct(1) option.sel)
  ultimately show ?case
    using Cons.IH [of ps "base + module_size bs"] Cons.prems p
    by (auto simp: seek_label_append module_bin_fields split: option.splits)
qed simp


section \<open>Resolving the joined modules\<close>

text \<open>The program that flattening makes of the modules.\<close>

definition joined_modules :: "cstr \<Rightarrow> cstr list \<Rightarrow> aout_byte list list \<Rightarrow> ldbin \<Rightarrow> bool" where
  "joined_modules name paths mods b \<longleftrightarrow> b_name b = name \<and> b_words b = linked 0 (module_bins paths mods) \<and>
     (\<forall>t \<in> file_tables - {TOutput}. in_file b t \<and> tab_list b t = linked_tab t name 0 (module_bins paths mods)) \<and>
     bin_print b = Ret ()"

definition modules_ok :: "ldenv \<Rightarrow> aout_byte list list \<Rightarrow> bool" where
  "modules_ok env mods \<longleftrightarrow> list_all (module_ok env) mods \<and> sum_list (map module_size mods) < 65536"

lemma modules_small: "modules_ok env mods \<Longrightarrow> list_all (\<lambda>bs. module_ok env bs \<and> module_size bs < 65536) mods"
proof -
  assume m: "modules_ok env mods"
  have "module_size bs \<le> sum_list (map module_size mods)" if "bs \<in> set mods" for bs
    using that by (intro member_le_sum_list) simp_all
  with m show ?thesis by (fastforce simp: modules_ok_def list_all_iff)
qed

lemma other_linked_tab:
  "(\<And>b. b \<in> set bins \<Longrightarrow> tab_list b t = []) \<Longrightarrow> linked_tab t name base bins = []"
  by (induction bins arbitrary: base) simp_all

lemma joined_entries:
  assumes "modules_ok env mods" and "length paths = length mods" and "joined_modules name paths mods b"
    and "t \<in> {TRequired, TOptional}"
  shows "mset (tab_list b t) = mset (map (\<lambda>(j, _, bs, x). site_entry t name j x)
      (filter (\<lambda>(j, _, bs, x). word_kind bs x = Some t) (enumerate 0 (link_sites 0 mods))))"
proof -
  have "tab_list b t = linked_tab t name 0 (module_bins paths mods)"
    using assms(3,4) by (auto simp: joined_modules_def file_tables_def)
  moreover have "0 + length (link_sites 0 mods) \<le> 65536" using assms(1) by (simp add: length_link_sites modules_ok_def)
  moreover have "list_all (\<lambda>bs. module_ok env bs) mods" using assms(1) by (simp add: modules_ok_def)
  ultimately show ?thesis using linked_sites [of env mods paths t 0 name] assms(2,4) by auto
qed

lemma filter_disjoint:
  "(\<And>x. \<not> (P x \<and> Q x)) \<Longrightarrow> mset (filter P xs @ filter Q xs) = mset (filter (\<lambda>x. P x \<or> Q x) xs)"
  by (induction xs) auto

lemma mset_map_cong: "mset xs = mset ys \<Longrightarrow> mset (map f xs) = mset (map f ys)"
  by simp

lemma mem_map_filter: "e \<in> set (map f (filter P xs)) \<longleftrightarrow> (\<exists>p \<in> set xs. P p \<and> e = f p)"
  by auto

lemma enumerate_ex: "(\<exists>p \<in> set (enumerate 0 xs). F (fst p) (snd p)) \<longleftrightarrow> (\<exists>j < length xs. F j (xs ! j))"
proof
  assume "\<exists>j < length xs. F j (xs ! j)"
  then obtain j where "j < length xs" "F j (xs ! j)" by blast
  then show "\<exists>p \<in> set (enumerate 0 xs). F (fst p) (snd p)"
    by (intro bexI [of _ "(j, xs ! j)"]) (simp_all add: in_set_enumerate_eq)
qed (auto simp: in_set_enumerate_eq)

lemma joined_distinct:
  assumes "modules_ok env mods" and "length paths = length mods" and "joined_modules name paths mods b"
  shows "distinct (map ce_address (tab_list b TRequired @ tab_list b TOptional))"
proof -
  let ?E = "enumerate 0 (link_sites 0 mods)"
  let ?K = "\<lambda>t (j, _, bs, x). word_kind bs x = Some t"
  have "mset (tab_list b TRequired @ tab_list b TOptional) =
      mset (map (\<lambda>(j, _, bs, x). site_entry TRequired name j x) (filter (?K TRequired) ?E) @
        map (\<lambda>(j, _, bs, x). site_entry TOptional name j x) (filter (?K TOptional) ?E))"
    using joined_entries [OF assms] by simp
  then have "mset (map ce_address (tab_list b TRequired @ tab_list b TOptional)) =
      mset (map ce_address (map (\<lambda>(j, _, bs, x). site_entry TRequired name j x) (filter (?K TRequired) ?E) @
        map (\<lambda>(j, _, bs, x). site_entry TOptional name j x) (filter (?K TOptional) ?E)))"
    by (rule mset_map_cong)
  also have "map ce_address (map (\<lambda>(j, _, bs, x). site_entry TRequired name j x) (filter (?K TRequired) ?E) @
        map (\<lambda>(j, _, bs, x). site_entry TOptional name j x) (filter (?K TOptional) ?E)) =
      map (\<lambda>(j, x). of_nat j) (filter (?K TRequired) ?E @ filter (?K TOptional) ?E)"
    by (auto simp: site_entry_def)
  also have "mset \<dots> = mset (map (\<lambda>(j, x). of_nat j) (filter (\<lambda>p. ?K TRequired p \<or> ?K TOptional p) ?E))"
  proof -
    have "mset (filter (?K TRequired) ?E @ filter (?K TOptional) ?E) = mset (filter (\<lambda>p. ?K TRequired p \<or> ?K TOptional p) ?E)"
      by (rule filter_disjoint) auto
    then show ?thesis by (rule mset_map_cong)
  qed
  finally have "distinct (map ce_address (tab_list b TRequired @ tab_list b TOptional)) =
      distinct (map (\<lambda>(j, x). of_nat j :: u16) (filter (\<lambda>p. ?K TRequired p \<or> ?K TOptional p) ?E))"
    by (rule mset_eq_imp_distinct_iff)
  moreover have "length (link_sites 0 mods) \<le> 65536" using assms(1) by (simp add: length_link_sites modules_ok_def)
  ultimately show ?thesis using sites_distinct by blast
qed

text \<open>An entry and the word it is for.\<close>

lemma joined_entry:
  assumes "modules_ok env mods" and "length paths = length mods" and "joined_modules name paths mods b"
    and "t \<in> {TRequired, TOptional}"
  shows "e \<in> set (tab_list b t) \<longleftrightarrow> (\<exists>j < length (link_sites 0 mods). \<exists>base bs x. link_sites 0 mods ! j = (base, bs, x) \<and>
      word_kind bs x = Some t \<and> e = site_entry t name j x)"
proof -
  have c: "(case p of (base, bs, x) \<Rightarrow> R base bs x) \<longleftrightarrow> (\<exists>base bs x. p = (base, bs, x) \<and> R base bs x)"
    for p :: "'a \<times> 'b \<times> 'c" and R by (cases p) auto
  have "e \<in> set (tab_list b t) \<longleftrightarrow> e \<in> set (map (\<lambda>(j, _, bs, x). site_entry t name j x)
      (filter (\<lambda>(j, _, bs, x). word_kind bs x = Some t) (enumerate 0 (link_sites 0 mods))))"
    using joined_entries [OF assms] by (metis set_mset_mset)
  also have "\<dots> \<longleftrightarrow> (\<exists>p \<in> set (enumerate 0 (link_sites 0 mods)).
      case snd p of (base, bs, x) \<Rightarrow> word_kind bs x = Some t \<and> e = site_entry t name (fst p) x)"
    by (simp only: mem_map_filter split_beta)
  finally show ?thesis
    unfolding enumerate_ex [of "link_sites 0 mods" "\<lambda>j. \<lambda>(base, bs, x). word_kind bs x = Some t \<and> e = site_entry t name j x"]
    unfolding c .
qed

lemma joined_value:
  assumes "modules_ok env mods" and "length paths = length mods" and "joined_modules name paths mods b"
    and "ce_label e = Some l"
  shows "label_value b e = map_option of_nat (find_export 0 mods l)" and "seek_tab b TJump (Some l) = None"
proof -
  have s: "seek_tab b t n = seek_label (linked_tab t name 0 (module_bins paths mods)) n" if "t \<in> {TProvided, TJump}" for t n
  proof -
    have t: "t \<in> file_tables - {TOutput}" using that by (auto simp: file_tables_def)
    with assms(3) have "in_file b t" "tab_list b t = linked_tab t name 0 (module_bins paths mods)"
      by (auto simp: joined_modules_def)
    then show ?thesis by (auto simp: seek_tab_def tab_list_def in_file_def)
  qed
  have j: "linked_tab TJump name 0 (module_bins paths mods) = []"
    using assms(1,2) by (intro other_linked_tab)
      (auto simp: in_set_conv_nth modules_ok_def list_all_length tab_list_def module_bin_tab intro!: module_other_tables [of env])
  show J: "seek_tab b TJump (Some l) = None" by (simp add: s j)
  have "map_option ce_address (seek_tab b TProvided (Some l)) = map_option of_nat (find_export 0 mods l)"
    using linked_export [OF modules_small [OF assms(1)] assms(2)] by (simp add: s)
  with J assms(4) show "label_value b e = map_option of_nat (find_export 0 mods l)"
    by (auto simp: label_value_def split: option.splits)
qed


text \<open>Every label that a module needs is exported by some module.\<close>

definition imports_met :: "aout_byte list list \<Rightarrow> bool" where
  "imports_met mods \<longleftrightarrow> (\<forall>bs \<in> set mods. \<forall>x \<in> set bs. \<forall>l. is_word x \<and> ab_expr x = Some (EXPR_LABEL l) \<and>
     import_of bs l = Some AOUT_TYPE_METADATA_IMPORT \<longrightarrow> find_export 0 mods l \<noteq> None)"

lemma site_in: "(base, bs, x) \<in> set (link_sites k mods) \<Longrightarrow> bs \<in> set mods \<and> x \<in> set bs \<and> is_word x"
  by (induction mods arbitrary: k) auto

lemma kind_label:
  assumes "word_kind bs x = Some t"
  obtains l where "ab_expr x = Some (EXPR_LABEL l)" "t \<noteq> TAdjustment \<Longrightarrow> word_label t x = Some l"
    "t = TAdjustment \<longleftrightarrow> import_of bs l = None" "t = TRequired \<longleftrightarrow> import_of bs l = Some AOUT_TYPE_METADATA_IMPORT"
    "t \<in> {TAdjustment, TRequired, TOptional}"
  using assms that by (auto simp: word_kind_def word_label_def split: option.splits expr.splits if_splits)

lemma site_word:
  assumes "modules_ok env mods" and "(base, bs, x) \<in> set (link_sites 0 mods)"
    and "word_kind bs x = None \<or> word_kind bs x = Some TAdjustment"
  shows "linked_word (base, bs, x) = link_word mods (base, bs, x)"
  using assms(3)
proof
  assume n: "word_kind bs x = None"
  then have "(case ab_expr x of Some (EXPR_LABEL l) \<Rightarrow> f l | _ \<Rightarrow> c) = c" for f and c :: u16
    by (auto simp: word_kind_def split: option.splits expr.splits)
  with n show ?thesis by (simp add: linked_word_def link_word_def)
next
  assume a: "word_kind bs x = Some TAdjustment"
  then obtain l where l: "ab_expr x = Some (EXPR_LABEL l)" "import_of bs l = None" using kind_adjust by blast
  have "module_ok env bs" using assms(1) site_in [OF assms(2)] by (simp add: modules_ok_def list_all_iff)
  then obtain i where "label_index bs l = Some i" "code_word bs 0 x = of_nat i"
    using label_word l site_in [OF assms(2)] by metis
  with a l show ?thesis by (simp add: linked_word_def link_word_def)
qed

lemma linked_entry:
  assumes "modules_ok env mods" and "length paths = length mods" and "joined_modules name paths mods b"
    and "e \<in> set (tab_list b u)" and "u \<in> {TRequired, TOptional}"
  obtains base bs x l where "unat (ce_address e) < length (link_sites 0 mods)"
    and "link_sites 0 mods ! unat (ce_address e) = (base, bs, x)" and "word_kind bs x = Some u"
    and "ce_label e = Some l" and "ab_expr x = Some (EXPR_LABEL l)"
proof -
  let ?S = "link_sites 0 mods"
  have len: "length ?S < 65536" using assms(1) by (simp add: length_link_sites modules_ok_def)
  from joined_entry [OF assms(1-3)] assms(4,5) obtain j base bs x where j: "j < length ?S" "?S ! j = (base, bs, x)"
    "word_kind bs x = Some u" "e = site_entry u name j x" by blast
  obtain l where l: "ab_expr x = Some (EXPR_LABEL l)" "u \<noteq> TAdjustment \<Longrightarrow> word_label u x = Some l"
    using kind_label [OF j(3)] by metis
  have "ce_label e = Some l" "unat (ce_address e) = j"
    using l(2) assms(5) j(1,4) len by (auto simp: site_entry_def unat_of_nat_u16)
  with j l(1) show thesis by (intro that [of base bs x l]) simp_all
qed

text \<open>With the imports met, resolving the joined bin has a label for every required entry.\<close>

lemma required_met:
  assumes "modules_ok env mods" and "length paths = length mods" and "joined_modules name paths mods b"
    and "imports_met mods" and "e \<in> set (tab_list b TRequired)"
  shows "label_value b e \<noteq> None \<and> ce_label e \<noteq> None"
proof -
  obtain base bs x l where e: "unat (ce_address e) < length (link_sites 0 mods)"
    "link_sites 0 mods ! unat (ce_address e) = (base, bs, x)" "word_kind bs x = Some TRequired"
    "ce_label e = Some l" "ab_expr x = Some (EXPR_LABEL l)"
    by (rule linked_entry [OF assms(1-3,5)]) simp_all
  have "import_of bs l = Some AOUT_TYPE_METADATA_IMPORT" using kind_label [OF e(3)] e(5) by auto
  moreover have "(base, bs, x) \<in> set (link_sites 0 mods)" using e(1,2) nth_mem by metis
  ultimately have "find_export 0 mods l \<noteq> None" using assms(4) site_in e(5) unfolding imports_met_def by blast
  then show ?thesis using joined_value(1) [OF assms(1-3) e(4)] e(4) by auto
qed

text \<open>The words of the joined bin, with the words of its required and optional entries replaced.\<close>

lemma resolved_word:
  assumes "modules_ok env mods" and "length paths = length mods" and "joined_modules name paths mods b"
    and "\<forall>e \<in> set (tab_list b TRequired). label_value b e = Some (ws ! unat (ce_address e))"
    and "\<forall>e \<in> set (tab_list b TOptional).
      ws ! unat (ce_address e) = (case label_value b e of Some w \<Rightarrow> w | None \<Rightarrow> 0)"
    and "\<forall>i. i \<notin> (\<lambda>e. unat (ce_address e)) ` set (tab_list b TRequired @ tab_list b TOptional) \<longrightarrow> ws ! i = b_words b ! i"
    and j: "j < length (link_sites 0 mods)"
  shows "ws ! j = link_image mods ! j"
proof -
  let ?S = "link_sites 0 mods"
  have len: "length ?S < 65536" using assms(1) by (simp add: length_link_sites modules_ok_def)
  obtain base bs x where S: "?S ! j = (base, bs, x)" by (metis prod_cases3)
  have m: "link_image mods ! j = link_word mods (base, bs, x)" "b_words b ! j = linked_word (base, bs, x)"
    using assms(3) j S linked_modules [OF modules_small [OF assms(1)] assms(2)]
    by (simp_all add: link_image_def joined_modules_def)
  show ?thesis
  proof (cases "word_kind bs x = None \<or> word_kind bs x = Some TAdjustment")
    case True
    have other: "unat (ce_address e) \<noteq> j" if "e \<in> set (tab_list b u)" "u \<in> {TRequired, TOptional}" for e u
    proof (rule linked_entry [OF assms(1-3) that])
      fix c cs y l
      assume "?S ! unat (ce_address e) = (c, cs, y)" "word_kind cs y = Some u"
      then show ?thesis using S True that(2) by auto
    qed
    have "j \<notin> (\<lambda>e. unat (ce_address e)) ` set (tab_list b TRequired @ tab_list b TOptional)"
      using other [of _ TRequired] other [of _ TOptional] by auto
    then have "ws ! j = linked_word (base, bs, x)" using assms(6) m(2) by simp
    then show ?thesis using site_word [OF assms(1) _ True, of base] S m(1) nth_mem [OF j] by simp
  next
    case False
    then obtain u where u: "word_kind bs x = Some u" "u \<noteq> TAdjustment" by auto
    obtain l where l: "ab_expr x = Some (EXPR_LABEL l)" "word_label u x = Some l" "import_of bs l \<noteq> None"
        "u = TRequired \<or> u = TOptional"
      using kind_label [OF u(1)] u(2) by (metis insertE singletonD)
    let ?e = "site_entry u name j x"
    have e: "?e \<in> set (tab_list b u)" using joined_entry [OF assms(1-3), of u ?e] l(4) j S u(1) by auto
    have a: "unat (ce_address ?e) = j" "ce_label ?e = Some l" using j len l(2) by (simp_all add: site_entry_def unat_of_nat_u16)
    have "label_value b ?e = map_option of_nat (find_export 0 mods l)" using joined_value(1) [OF assms(1-3) a(2)] .
    then have "ws ! j = (case map_option of_nat (find_export 0 mods l) of Some w \<Rightarrow> w | None \<Rightarrow> 0)"
      using l(4) e a(1) assms(4,5) by (auto split: option.splits)
    then show ?thesis using l(1,3) unfolding m(1) link_word_def by (auto split: option.splits)
  qed
qed

lemma resolve_modules:
  assumes "modules_ok env mods" and "length paths = length mods" and "joined_modules name paths mods b"
    and "imports_met mods" and "l_bins st = [bin]" and "l_heap st bin = Some b"
  shows "\<exists>st' b'. bins_resolve False False False st = Ret st' \<and> l_bins st' = [bin] \<and> l_heap st' bin = Some b' \<and>
    b_words b' = link_image mods \<and> b_name b' = name \<and> l_fs st' = l_fs st \<and> l_iio st' = l_iio st"
proof -
  let ?S = "link_sites 0 mods"
  have ws: "b_words b = map linked_word ?S"
    using assms(3) linked_modules [OF modules_small [OF assms(1)] assms(2)] by (simp add: joined_modules_def)
  have tab: "\<exists>l. b_tabs b t = Some l \<and> \<not> iterating l \<and> elems l = tab_list b t"
    if "t \<in> {TProvided, TRequired, TOptional, TAdjustment}" for t
    using assms(3) that by (force simp: joined_modules_def file_tables_def in_file_def tab_list_def)
  obtain req opt prov adjs where t: "b_tabs b TRequired = Some req" "elems req = tab_list b TRequired"
    "b_tabs b TOptional = Some opt" "elems opt = tab_list b TOptional" "b_tabs b TProvided = Some prov"
    "b_tabs b TAdjustment = Some adjs" "\<not> iterating adjs"
    using tab [of TRequired] tab [of TOptional] tab [of TProvided] tab [of TAdjustment] by auto
  have place: "unat (ce_address e) < length (b_words b) \<and> ce_label e \<noteq> None \<and> seek_tab b TJump (ce_label e) = None"
    if "e \<in> set (tab_list b u)" "u \<in> {TRequired, TOptional}" for e u
    using linked_entry [OF assms(1-3) that] joined_value(2) [OF assms(1-3)] ws by (metis length_map option.discI)
  have "\<forall>e \<in> set (elems req). label_value b e \<noteq> None \<and> ce_label e \<noteq> None \<and> unat (ce_address e) < length (b_words b)"
    using required_met [OF assms(1-4)] place t(2) by simp
  moreover have "\<forall>e \<in> set (elems opt). seek_tab b TJump (ce_label e) = None \<and> ce_label e \<noteq> None \<and> unat (ce_address e) < length (b_words b)"
    using place t(4) by simp
  ultimately obtain st' where st': "bins_resolve False False False st = Ret st'"
    using resolve_returns [OF assms(5,6) t(1,3,5)] t(6) assms(3) by (force simp: joined_modules_def)
  have "distinct (map ce_address (elems req @ elems opt))" using joined_distinct [OF assms(1-3)] t(2,4) by simp
  from resolve_linked [OF st' assms(5,6) t(1,3,6,7) this] obtain b' where b': "l_bins st' = [bin]" "l_heap st' bin = Some b'"
    "length (b_words b') = length (b_words b)"
    "\<forall>e \<in> set (elems req). case label_value b e of
       Some w \<Rightarrow> unat (ce_address e) < length (b_words b) \<and> b_words b' ! unat (ce_address e) = w
     | None \<Rightarrow> False \<and> b_words b' ! unat (ce_address e) = b_words b ! unat (ce_address e)"
    "\<forall>e \<in> set (elems opt). unat (ce_address e) < length (b_words b) \<longrightarrow> b_words b' ! unat (ce_address e) =
       (case label_value b e of Some w \<Rightarrow> w | None \<Rightarrow> if False then b_words b ! unat (ce_address e) else 0)"
    "\<forall>i. i \<notin> (\<lambda>e. unat (ce_address e)) ` set (elems req @ elems opt) \<longrightarrow> b_words b' ! i = b_words b ! i"
    "b_name b' = b_name b" "l_fs st' = l_fs st" "l_iio st' = l_iio st"
    by (elim exE conjE) (rule that)
  have "b_words b' ! j = link_image mods ! j" if j: "j < length ?S" for j
  proof (rule resolved_word [OF assms(1-3) _ _ _ j])
    show "\<forall>e \<in> set (tab_list b TRequired). label_value b e = Some (b_words b' ! unat (ce_address e))"
      using b'(4) unfolding t(2) by (fastforce split: option.splits)
    show "\<forall>e \<in> set (tab_list b TOptional).
        b_words b' ! unat (ce_address e) = (case label_value b e of Some w \<Rightarrow> w | None \<Rightarrow> 0)"
      using b'(5) place unfolding t(4) by simp
  qed (use b'(6) in \<open>simp add: t(2,4)\<close>)
  then have "b_words b' = link_image mods" using b'(3) ws by (intro nth_equalityI) (simp_all add: link_image_def)
  with st' b' assms(3) show ?thesis by (auto simp: joined_modules_def)
qed


section \<open>From object files to bins\<close>

text \<open>The content of the object file that the assembler writes for a list of words and directives.\<close>

definition assembled :: "ldenv \<Rightarrow> filesystem \<Rightarrow> int \<Rightarrow> aout_byte list \<Rightarrow> u8 list \<Rightarrow> bool" where
  "assembled env fs mode bs content \<longleftrightarrow> (\<exists>(st :: asm_state) n img st'.
     iio_ok (e_big env) (ao_iio st) \<and> iwritemode (ao_iio st) = mode \<and> ao_bytes st = bs \<and> ao_code_offset st = 0 \<and>
     aout_write env fs \<lparr>fcontent = [], fpos = 0\<rparr> False True st = Ret (n, img, st') \<and> content = fcontent img)"

lemma module_front:
  assumes "module_ok env bs"
  shows "front_tables bs False [] None" and "sections_first False bs"
proof -
  have t: "\<forall>x \<in> set bs. ab_type x \<noteq> AOUT_TYPE_METADATA_EXTENSION \<and> ab_type x \<noteq> AOUT_TYPE_METADATA_SECTION"
    using assms by (fastforce simp: module_ok_def)
  then have "textn_collect bs [] = Ret []" by (induction bs) simp_all
  then show "front_tables bs False [] None" by (simp add: front_tables_def)
  show "sections_first k bs" for k using t by (induction bs arbitrary: k) simp_all
qed

lemma module_loads:
  assumes "module_ok env bs" and "assembled env fs (iwritemode (l_iio st)) bs content" and "l_fs st path = Some content"
    and "e_big env2 = e_big env" and "iio_ok (e_big env2) (l_iio st)"
  shows "\<exists>st'. bins_load env2 path False ext st = Ret st' \<and> l_bins st' = l_bins st @ [l_next st] \<and>
    l_heap st' = (l_heap st)(l_next st := Some (module_bin path bs)) \<and> l_next st' = Suc (l_next st) \<and> l_fs st' = l_fs st \<and>
    iio_ok (e_big env2) (l_iio st') \<and> iwritemode (l_iio st') = iwritemode (l_iio st)"
proof -
  from assms(2) obtain s :: asm_state and n img s' where w: "iio_ok (e_big env) (ao_iio s)" "iwritemode (ao_iio s) = iwritemode (l_iio st)"
    "ao_bytes s = bs" "ao_code_offset s = 0" "aout_write env fs \<lparr>fcontent = [], fpos = 0\<rparr> False True s = Ret (n, img, s')"
    "content = fcontent img" unfolding assembled_def by blast
  have m: "list_ok env bs True" "list_all (byte_ok bs 0 True) bs" "\<forall>t. table_ok (table_mode t) (aout_tables bs 0 t)"
    using assms(1) by (simp_all add: module_ok_def)
  have z: "[] = front_words [] None" "0 = (of_nat (length ([] :: u16 list)) :: u16)"
    by (simp_all add: front_words_def extension_words_def)
  have d: "distinct_adj (map pe_address (aout_tables bs 0 TSection))" using module_other_tables [OF assms(1)] by simp
  obtain out1 :: cfile where o: "content = fcontent out1 @ concat (map (file_bytes (iwritemode (l_iio st))) (code_words bs 0 bs))"
    "\<forall>code path. check_objfmt path (fcontent out1 @ code) = Ret \<lparr>fcontent = fcontent out1 @ code, fpos = 18\<rparr> \<and>
      (\<exists>offset t f. objfile_load (e_big env) \<lparr>fcontent = fcontent out1 @ code, fpos = 18\<rparr> 0 all_tabs = Some (offset, t, f) \<and>
         (\<forall>u. objtab t u = map (loaded (table_mode u) 0) (aout_tables bs 0 u)) \<and> drop (fpos f) (fcontent f) = code)"
    using assembled_object_file [OF m(1) module_front(1) [OF assms(1)] z m(2) module_front(2) [OF assms(1)] w(1,3,4) m(3) d, of fs]
      w(2,5,6) by auto
  obtain offset t f where l: "check_objfmt path content = Ret \<lparr>fcontent = content, fpos = 18\<rparr>"
    "objfile_load (e_big env2) \<lparr>fcontent = content, fpos = 18\<rparr> 0 all_tabs = Some (offset, t, f)"
    "\<forall>u. objtab t u = map (loaded (table_mode u) 0) (aout_tables bs 0 u)"
    "drop (fpos f) (fcontent f) = concat (map (file_bytes (iwritemode (l_iio st))) (code_words bs 0 bs))"
    using o(2) unfolding o(1) assms(4) by metis
  obtain st' b' where st': "bins_load env2 path False ext st = Ret st'" "l_bins st' = l_bins st @ [l_next st]"
    "l_heap st' = (l_heap st)(l_next st := Some b')" "b_name b' = path" "b_words b' = code_words bs 0 bs"
    "\<forall>t. b_tabs b' t = Some (list_convert (map (loaded (table_mode t) 0) (aout_tables bs 0 t)))" "b_symbols b' = Some new_list"
    "l_next st' = Suc (l_next st)" "l_fs st' = l_fs st" "iio_ok (e_big env2) (l_iio st')" "iwritemode (l_iio st') = iwritemode (l_iio st)"
    using load_image [OF assms(3) l(1,2,4,3) assms(5), of ext] by (elim exE conjE) (rule that)
  have "b' = module_bin path bs" using st'(4-7) by (simp add: module_bin_def fun_eq_iff)
  then show ?thesis using st'(1-3,8-11) by (intro exI [of _ st']) simp
qed

lemma modules_load:
  assumes "list_all2 (\<lambda>path bs. module_ok env bs \<and> (\<exists>content. l_fs st path = Some content \<and>
      assembled env fs (iwritemode (l_iio st)) bs content)) paths mods"
    and "e_big env2 = e_big env" and "iio_ok (e_big env2) (l_iio st)"
  shows "\<exists>st'. ld_each (\<lambda>p. bins_load env2 p False ext) paths st = Ret st' \<and>
    l_bins st' = l_bins st @ [l_next st..<l_next st + length mods] \<and> l_next st' = l_next st + length mods \<and>
    (\<forall>i < length mods. l_heap st' (l_next st + i) = Some (module_bin (paths ! i) (mods ! i))) \<and>
    (\<forall>p < l_next st. l_heap st' p = l_heap st p) \<and> l_fs st' = l_fs st \<and>
    iio_ok (e_big env2) (l_iio st') \<and> iwritemode (l_iio st') = iwritemode (l_iio st)"
  using assms(1,3)
proof (induction paths arbitrary: st mods)
  case (Cons p ps)
  then obtain bs ms content where m: "mods = bs # ms"
    "list_all2 (\<lambda>path bs. module_ok env bs \<and> (\<exists>content. l_fs st path = Some content \<and>
      assembled env fs (iwritemode (l_iio st)) bs content)) ps ms"
    and c: "module_ok env bs" "l_fs st p = Some content" "assembled env fs (iwritemode (l_iio st)) bs content"
    by (auto simp: list_all2_Cons1)
  obtain st1 where 1: "bins_load env2 p False ext st = Ret st1" "l_bins st1 = l_bins st @ [l_next st]"
    "l_heap st1 = (l_heap st)(l_next st := Some (module_bin p bs))" "l_next st1 = Suc (l_next st)" "l_fs st1 = l_fs st"
    "iio_ok (e_big env2) (l_iio st1)" "iwritemode (l_iio st1) = iwritemode (l_iio st)"
    using module_loads [OF c(1,3,2) assms(2) Cons.prems(2), of ext] by blast
  have "list_all2 (\<lambda>path bs. module_ok env bs \<and> (\<exists>content. l_fs st1 path = Some content \<and>
      assembled env fs (iwritemode (l_iio st1)) bs content)) ps ms" using m(2) by (simp add: 1(5,7))
  from Cons.IH [OF this 1(6)] obtain st2 where 2: "ld_each (\<lambda>p. bins_load env2 p False ext) ps st1 = Ret st2"
    "l_bins st2 = l_bins st1 @ [l_next st1..<l_next st1 + length ms]" "l_next st2 = l_next st1 + length ms"
    "\<forall>i < length ms. l_heap st2 (l_next st1 + i) = Some (module_bin (ps ! i) (ms ! i))"
    "\<forall>p < l_next st1. l_heap st2 p = l_heap st1 p" "l_fs st2 = l_fs st1"
    "iio_ok (e_big env2) (l_iio st2)" "iwritemode (l_iio st2) = iwritemode (l_iio st1)" by blast
  have h: "l_heap st2 (l_next st + i) = Some (module_bin ((p # ps) ! i) ((bs # ms) ! i))" if "i < length (bs # ms)" for i
  proof (cases i)
    case 0
    then show ?thesis using 2(5) 1(3,4) by simp
  next
    case (Suc k)
    then show ?thesis using 2(4) [rule_format, of k] 1(4) that by simp
  qed
  have b: "l_bins st2 = l_bins st @ [l_next st..<l_next st + length mods]"
    using 1(2,4) 2(2) by (simp add: m(1) upt_conv_Cons del: upt_Suc)
  show ?case
    using 1 2 h b by (intro exI [of _ st2]) (simp add: m(1))
qed simp


section \<open>Up to the joined program\<close>

lemma associate_heap:
  assumes "distinct ps" and "\<forall>p \<in> set ps. h p \<noteq> None"
  shows "associate_all ps h = Some (\<lambda>p. if p \<in> set ps then map_option associate_bin (h p) else h p)"
  using assms
proof (induction ps arbitrary: h)
  case (Cons p ps)
  then obtain b where b: "h p = Some b" by auto
  let ?h = "h(p := Some (associate_bin b))"
  have "associate_all ps ?h = Some (\<lambda>q. if q \<in> set ps then map_option associate_bin (?h q) else ?h q)"
    by (rule Cons.IH) (use Cons.prems in auto)
  moreover have "(\<lambda>q. if q \<in> set ps then map_option associate_bin (?h q) else ?h q) =
      (\<lambda>q. if q \<in> set (p # ps) then map_option associate_bin (h q) else h q)"
    by (rule ext) (use Cons.prems(1) b in auto)
  ultimately show ?case by (simp add: b)
qed simp

lemma bins_print_all: "(\<forall>p \<in> set ps. \<exists>b. h p = Some b \<and> bin_print b = Ret ()) \<Longrightarrow> bins_print ps h = Ret ()"
  by (induction ps) auto

text \<open>Without sections nothing is moved.\<close>

lemma linked_no_sections:
  assumes "\<forall>p \<in> set ps. \<exists>b. h p = Some b \<and> b_tabs b TSection = Some new_list"
  shows "l_heap st = h \<Longrightarrow> create_all ps create st = Ret (create, st)" and "sectionize_all all ps create h = Ret h"
proof -
  show "create_all ps create st = Ret (create, st)" if "l_heap st = h" using assms that
    by (induction ps) (auto simp: new_list_def)
  show "sectionize_all all ps create h = Ret h" using assms
  proof (induction ps)
    case (Cons p ps)
    then obtain b where b: "h p = Some b" "b_tabs b TSection = Some new_list" by auto
    have "set_tab TSection (list_sort ce_address new_list) b = b"
      using b(2) by (simp add: set_tab_def list_sort_def new_list_def fun_upd_idem)
    with b Cons show ?case by (simp add: fun_upd_idem list_sort_def new_list_def)
  qed simp
qed

lemma module_prints:
  assumes "module_ok env bs" and "module_size bs < 65536"
  shows "bin_print (associate_bin (module_bin path bs)) = Ret ()"
    and "b_tabs (associate_bin (module_bin path bs)) TSection = Some new_list"
proof -
  let ?b = "associate_bin (module_bin path bs)"
  have t: "b_tabs ?b t = Some \<lparr>elems = tab_list ?b t, iterating = False\<rparr>" for t
    by (simp add: module_bin_tab tab_list_def)
  note e = module_entries [OF assms]
  show "bin_print ?b = Ret ()"
    unfolding bin_print_def t using e(1) [of _ path TAdjustment] e(2) [of _ path] e(3) [of _ path TAdjustment]
    by (auto simp: module_bin_fields)
  show "b_tabs ?b TSection = Some new_list"
    by (simp add: module_bin_tab module_other_tables [OF assms(1)] new_list_def)
qed

lemma modules_join:
  assumes "modules_ok env mods" and "length paths = length mods" and "distinct paths" and "name \<notin> set paths"
    and "\<forall>path \<in> set paths. take 8 path \<noteq> c_str ''SECTION ''"
    and "l_bins st = [l_next st - length mods..<l_next st]" and "length mods \<le> l_next st"
    and "\<forall>i < length mods. l_heap st (l_next st - length mods + i) = Some (module_bin (paths ! i) (mods ! i))"
  shows "\<exists>st' b'. ld_bind (bins_associate st) (\<lambda>st. ld_bind (bins_sectionize st) (bins_flatten name)) = Ret st' \<and>
    l_bins st' = [l_next st] \<and> l_heap st' (l_next st) = Some b' \<and> joined_modules name paths mods b' \<and>
    l_iio st' = l_iio st \<and> l_fs st' = l_fs st"
proof -
  let ?n = "l_next st - length mods"
  let ?h = "\<lambda>p. if p \<in> set (l_bins st) then map_option associate_bin (l_heap st p) else l_heap st p"
  let ?st = "st\<lparr>l_heap := ?h\<rparr>"
  let ?b = "\<lambda>i. associate_bin (module_bin (paths ! i) (mods ! i))"
  have P: "\<exists>i < length mods. p = ?n + i" if "p \<in> set (l_bins st)" for p
    using that assms(6,7) by (intro exI [of _ "p - ?n"]) auto
  have mem: "?n + i \<in> set (l_bins st)" if "i < length mods" for i using that assms(6,7) by auto
  have h: "?h (?n + i) = Some (?b i)" if "i < length mods" for i using mem [OF that] assms(8) that by simp
  have ok: "module_ok env (mods ! i)" "module_size (mods ! i) < 65536" if "i < length mods" for i
    using modules_small [OF assms(1)] that by (simp_all add: list_all_length)
  have 1: "bins_associate st = Ret ?st"
    using associate_heap [of "l_bins st" "l_heap st"] P assms(6,8) by (fastforce simp: bins_associate_def)
  have pr: "bins_print (l_bins st) ?h = Ret ()"
    by (rule bins_print_all) (use P h module_prints(1) [OF ok] in metis)
  have "\<forall>p \<in> set (l_bins st). \<exists>b. ?h p = Some b \<and> b_tabs b TSection = Some new_list"
    using P h module_prints(2) [OF ok] by metis
  note no = linked_no_sections [OF this]
  have 2: "bins_sectionize ?st = Ret ?st"
    using no(1) [of ?st "[]"] no(2) [of "l_bins st" "[]"] pr by (simp add: bins_sectionize_def Let_def)
  have files: "module_bins paths mods = map (\<lambda>p. the (?h p)) (l_bins st)"
  proof (rule nth_equalityI)
    fix i assume "i < length (module_bins paths mods)"
    then have i: "i < length mods" using assms(2) by simp
    then have l: "l_bins st ! i = ?n + i" "i < length (l_bins st)" using assms(6,7) by simp_all
    have "map (\<lambda>p. the (?h p)) (l_bins st) ! i = the (?h (l_bins st ! i))" using l(2) by (rule nth_map)
    also have "\<dots> = ?b i" unfolding l(1) h [OF i] by (rule option.sel)
    finally show "module_bins paths mods ! i = map (\<lambda>p. the (?h p)) (l_bins st) ! i" using i assms(2) by simp
  qed (use assms(2,6,7) in simp)
  have f: "\<forall>p \<in> set (l_bins ?st). \<exists>b. l_heap ?st p = Some b \<and> file_bin name b \<and> labelled b"
  proof
    fix p assume "p \<in> set (l_bins ?st)"
    then obtain i where i: "i < length mods" "p = ?n + i" using P by auto
    have "paths ! i \<in> set paths" using i(1) assms(2) by simp
    then have "paths ! i \<noteq> name" "take 8 (paths ! i) \<noteq> c_str ''SECTION ''" using assms(4,5) by auto
    then show "\<exists>b. l_heap ?st p = Some b \<and> file_bin name b \<and> labelled b"
      using h [OF i(1)] module_file [OF ok [OF i(1)]] i(2) by auto
  qed
  have inj: "inj_on (\<lambda>p. b_name (the (l_heap ?st p))) (set (l_bins ?st))"
  proof (rule inj_onI)
    fix p q assume "p \<in> set (l_bins ?st)" "q \<in> set (l_bins ?st)"
    then obtain i j where i: "i < length mods" "p = ?n + i" and j: "j < length mods" "q = ?n + j"
      using P [of p] P [of q] by auto
    assume "b_name (the (l_heap ?st p)) = b_name (the (l_heap ?st q))"
    then have "paths ! i = paths ! j" using h [OF i(1)] h [OF j(1)] i(2) j(2) by (simp add: module_bin_fields)
    then show "p = q" using assms(2,3) i j by (simp add: nth_eq_iff_index_eq)
  qed
  have "total_words (module_bins paths mods) = sum_list (map module_size mods)"
    using assms(2) by (intro arg_cong [of _ _ sum_list] nth_equalityI) (simp_all add: module_bin_fields)
  then have tot: "total_words (module_bins paths mods) < 65536" using assms(1) by (simp add: modules_ok_def)
  have d: "distinct (l_bins ?st)" "l_next ?st \<notin> set (l_bins ?st)" using assms(6) by simp_all
  obtain st' b' where fl: "bins_flatten name ?st = Ret st'" "l_bins st' = [l_next st]" "l_heap st' (l_next st) = Some b'"
    "b_name b' = name" "b_words b' = linked 0 (module_bins paths mods)"
    "\<forall>t \<in> file_tables - {TOutput}. tab_list b' t = linked_tab t name 0 (module_bins paths mods)"
    "\<forall>t \<in> file_tables - {TOutput}. in_file b' t" "bin_print b' = Ret ()" "l_iio st' = l_iio st" "l_fs st' = l_fs st"
    using flatten_linked [OF d f inj _ tot] files by auto
  then show ?thesis using 1 2 by (intro exI [of _ st'] exI [of _ b']) (simp add: joined_modules_def)
qed


section \<open>The whole run\<close>



text \<open>Two modules that need a label of each other.\<close>

definition module_a :: "aout_byte list" where
  "module_a = object_demo"

definition module_b :: "aout_byte list" where
  "module_b = [aout_create_metadata_import (Some [0x78]), aout_create_raw 7, aout_create_label [0x79],
     aout_create_expr (EXPR_LABEL [0x78]), aout_create_metadata_export (Some [0x79])]"

lemma module_b_tables:
  "aout_tables module_b 0 t =
     (case t of TProvided \<Rightarrow> [\<lparr>pe_label = Some [0x79], pe_address = 1\<rparr>] | TRequired \<Rightarrow> [\<lparr>pe_label = Some [0x78], pe_address = 1\<rparr>]
      | _ \<Rightarrow> [])"
  by (induct t; code_simp)

lemmas demo_module_defs =
  list_ok_def demo_env_def straight_def is_import_def is_word_def byte_ok_def expr_ok_def import_of_def aout_create_raw_def
  aout_create_expr_def aout_create_label_def aout_create_metadata_import_def aout_create_metadata_export_def aout_blank_def

lemma demo_modules:
  "modules_ok demo_env [module_a, module_b]" "imports_met [module_a, module_b]"
  "link_image [module_a, module_b] = [1, 2, 4, 7, 2]"
proof -
  have "module_ok demo_env module_a"
    using object_demo_ok(1,4) unfolding module_ok_def module_a_def object_demo_tables
    by (auto simp: object_demo_def table_ok_def label_ok_def module_size_def demo_module_defs split: ldtable.split if_splits)
  moreover have "module_ok demo_env module_b"
    unfolding module_ok_def module_b_tables
    by (auto simp: module_b_def table_ok_def label_ok_def module_size_def demo_module_defs split: ldtable.split if_splits)
  moreover have "module_size module_a = 3" "module_size module_b = 2" by code_simp+
  ultimately show "modules_ok demo_env [module_a, module_b]" by (simp add: modules_ok_def)
  have "find_export 0 [module_a, module_b] [0x78] = Some 2" "find_export 0 [module_a, module_b] [0x79] = Some 4"
    by code_simp+
  then show "imports_met [module_a, module_b]"
    by (auto simp: imports_met_def module_a_def module_b_def object_demo_def demo_module_defs)
  show "link_image [module_a, module_b] = [1, 2, 4, 7, 2]" by code_simp
qed


lemma module_assembles:
  assumes "module_ok demo_env bs"
  shows "\<exists>content. assembled demo_env fs 2 bs content"
proof -
  let ?st = "(asm_initial None iio_initial)\<lparr>ao_bytes := bs\<rparr>"
  have st: "iio_ok (e_big demo_env) (ao_iio ?st)" "ao_bytes ?st = bs" "ao_code_offset ?st = 0" "iwritemode (ao_iio ?st) = 2"
    by (simp_all add: asm_initial_def iio_initial_ok) (simp add: iio_initial_def)
  have m: "list_ok demo_env bs True" "list_all (byte_ok bs 0 True) bs" "\<forall>t. table_ok (table_mode t) (aout_tables bs 0 t)"
    using assms by (simp_all add: module_ok_def)
  have z: "[] = front_words [] None" "0 = (of_nat (length ([] :: u16 list)) :: u16)"
    by (simp_all add: front_words_def extension_words_def)
  have d: "distinct_adj (map pe_address (aout_tables bs 0 TSection))" using module_other_tables [OF assms] by simp
  obtain n img st' where "aout_write demo_env fs \<lparr>fcontent = [], fpos = 0\<rparr> False True ?st = Ret (n, img, st')"
    using assembled_object_file [OF m(1) module_front(1) [OF assms] z m(2) module_front(2) [OF assms] st(1-3) m(3) d] by blast
  then show ?thesis unfolding assembled_def using st by blast
qed

definition demo_args :: dtld_args where
  "demo_args = \<lparr>da_target = None, da_inputs = [[0x61], [0x62]], da_output = [0x6f], da_kernel = Some (c_str ''none''),
     da_policy_file = None, da_direct = False, da_no_direct = False, da_jumplist = None, da_symbols = None,
     da_symbol_ext = None, da_opt_level = None, da_opt_mode = False, da_no_short_literals = True, da_keep_outputs = False\<rparr>"


end
