(* ===== verification/Pp_State.thy ===== *)
theory Pp_State
  imports Ppexpr Ppfind
begin

text \<open>
  The preprocessor's machine (\<^verbatim>\<open>libdcpu-pp/ppimpl.c\<close>): characters move one at a time from the
  input to the output, text that a directive prints goes in front of the input, and a list of
  matches names the texts that call a handler when they appear at the end of the output.

  A handler function is a value of \<open>pp_handler\<close>; what it does is in the theories \<open>Pp_Define\<close>,
  \<open>Pp_Expr\<close> and \<open>Pp_Run\<close>. The callbacks of the input are the list of the characters they still
  return. The functions that print take the formatted text. A \<open>char\<close> is its byte.
\<close>

section \<open>Errors\<close>

datatype pp_error =
    ERR_PP_ASM_LINE_PARAMETERS_INCORRECT | ERR_PP_ASM_ULINE_PARAMETERS_INCORRECT
  | ERR_PP_ASM_DEFINE_PARAMETERS_INCORRECT | ERR_PP_ASM_INCLUDE_PARAMETERS_INCORRECT
  | ERR_PP_ASM_MACRO_PARAMETERS_INCORRECT | ERR_PP_ASM_IF_PARAMETERS_INCORRECT
  | ERR_PP_ASM_INCLUDE_FILE_NOT_FOUND | ERR_PP_ASM_MACRO_TERMINATION_NOT_FOUND
  | ERR_PP_ASM_MACRO_PARAMETERS_EXPECTED | ERR_PP_ASM_NO_ENDIF_TO_IF | ERR_PP_ASM_ENDIF_NO_IF
  | ERR_PP_ASM_ELSE_NO_IF | ERR_PP_C_LINE_PARAMETERS_INCORRECT | ERR_PP_C_DEFINE_PARAMETERS_INCORRECT
  | ERR_PP_C_INCLUDE_PARAMETERS_INCORRECT | ERR_PP_C_IF_PARAMETERS_INCORRECT
  | ERR_PP_C_IFDEF_PARAMETERS_INCORRECT | ERR_PP_C_IFNDEF_PARAMETERS_INCORRECT
  | ERR_PP_C_INCLUDE_FILE_NOT_FOUND | ERR_PP_C_ENDIF_NO_IF | ERR_PP_C_ELSE_NO_IF
  | ERR_PP_MACRO_MALFORMED
  | ERR_PP_EXPECTED_OPEN_BRACKET | ERR_PP_NO_TERMINATING_BRACKET | ERR_PP_TOO_MANY_PARAMETERS
  | ERR_PP_NOT_ENOUGH_PARAMETERS | ERR_PP_LONG_FORM_MACRO_ONLY
  | PP_EXPRESSION_ERROR ld_error

text \<open>The outcome of an operation, as for the linker: undefined, halted with an error, or a result.\<close>

datatype 'a ppres = PUndef | PHalt pp_error "cstr option" | PRet 'a

fun pp_bind :: "'a ppres \<Rightarrow> ('a \<Rightarrow> 'b ppres) \<Rightarrow> 'b ppres" where
  "pp_bind PUndef f = PUndef"
| "pp_bind (PHalt e d) f = PHalt e d"
| "pp_bind (PRet x) f = f x"

fun pp_of_ld :: "'a ldres \<Rightarrow> 'a ppres" where
  "pp_of_ld Undef = PUndef"
| "pp_of_ld (Halt e d) = PHalt (PP_EXPRESSION_ERROR e) d"
| "pp_of_ld (Ret x) = PRet x"

lemma pp_bind_cong [fundef_cong]:
  "m = m' \<Longrightarrow> (\<And>x. m' = PRet x \<Longrightarrow> f x = f' x) \<Longrightarrow> pp_bind m f = pp_bind m' f'"
  by (cases m') simp_all

lemma pp_bind_PRet [simp]: "pp_bind m f = PRet y \<longleftrightarrow> (\<exists>x. m = PRet x \<and> f x = PRet y)"
  by (cases m) simp_all

section \<open>State\<close>

datatype pp_handler =
    H_replace | H_macro | H_macro_term | H_define | H_macro_def
  | H_if | H_else | H_endif | H_include | H_line | H_uline
  | H_c_define | H_c_if | H_c_ifdef | H_c_ifndef | H_c_else | H_c_endif | H_c_include | H_c_line

record replace_info =
  ri_full :: cstr
  ri_replacement :: cstr

record match_t =
  m_text :: cstr
  m_handler :: pp_handler
  m_userdata :: "replace_info option"
  line_start_only :: bool
  identifier_only :: bool
  case_insensitive :: bool

record scope_t =
  sc_active :: bool
  sc_start_index :: nat
  sc_old_handlers :: "match_t list"
  sc_new_handlers :: "cstr list"

record pp_state =
  cached_input :: cstr
  cached_output :: cstr
  pp_source :: cstr
  handlers :: "match_t list"
  actual_line :: u32
  current_line :: u32
  current_filename :: cstr
  language :: cstr
  in_single_string :: bool
  in_double_string :: bool
  scopes :: "scope_t list"
  print_index :: nat

text \<open>A parameter of a directive, as the generated parser builds it.\<close>

datatype parameter =
    P_WORD cstr | P_STRING cstr | P_ANGLED_STRING cstr | P_NUMBER int | P_EXPRESSION expr

text \<open>
  What a run depends on: what the memory holds that \<open>malloc\<close> returned, where a field is not
  initialised (the printing index of a new state, and whether the directives of C ignore
  case); the generated parser of parameters, which is given the input and says how many
  characters of it it takes; and the files.
\<close>

record pp_env =
  pe_print_index :: nat
  pe_case_insensitive :: bool
  pe_params :: "cstr \<Rightarrow> parameter list \<times> nat"
  pe_paths :: "cstr list option"
  pe_files :: filesystem

abbreviation (input) NEWLINE :: u8 where "NEWLINE \<equiv> 10"

section \<open>Input\<close>

definition ppimpl_has_input :: "pp_state \<Rightarrow> bool" where
  "ppimpl_has_input s \<longleftrightarrow> cached_input s \<noteq> [] \<or> pp_source s \<noteq> []"

definition ppimpl_get_input :: "pp_state \<Rightarrow> (u8 \<times> pp_state) ppres" where
  "ppimpl_get_input s =
     (case cached_input s of
        c # cs \<Rightarrow> PRet (c, s\<lparr>cached_input := cs,
          actual_line := (if c = NEWLINE then actual_line s + 1 else actual_line s)\<rparr>)
      | [] \<Rightarrow>
          (case pp_source s of
             c # cs \<Rightarrow> PRet (c, s\<lparr>pp_source := cs,
               current_line := (if c = NEWLINE then current_line s + 1 else current_line s)\<rparr>)
           | [] \<Rightarrow> PUndef))"

definition pp_unread :: "u8 \<Rightarrow> pp_state \<Rightarrow> pp_state" where
  "pp_unread c s = s\<lparr>cached_input := c # cached_input s\<rparr>"

text \<open>The characters left, which bounds the loops that read.\<close>

definition pp_left :: "pp_state \<Rightarrow> nat" where
  "pp_left s = length (cached_input s) + length (pp_source s)"

lemma get_input_left: "ppimpl_get_input s = PRet (c, t) \<Longrightarrow> pp_left t < pp_left s"
  by (auto simp: ppimpl_get_input_def pp_left_def split: list.splits)

lemma has_input_iff: "ppimpl_has_input s \<longleftrightarrow> (\<exists>x. ppimpl_get_input s = PRet x)"
  by (auto simp: ppimpl_has_input_def ppimpl_get_input_def split: list.splits)

section \<open>Locations and printing\<close>

text \<open>The format \<open>%i\<close> of a line number.\<close>

definition int_text :: "u32 \<Rightarrow> cstr" where
  "int_text n = (if sint n < 0 then c_str ''-'' @ decimal (nat (- sint n)) else decimal (nat (sint n)))"

definition location_text :: "u32 \<Rightarrow> cstr \<Rightarrow> cstr" where
  "location_text line name = c_str ''line '' @ decimal (unat line) @ c_str '' of '' @ [39] @ c_string name @ [39]"

definition ppimpl_get_location :: "pp_state \<Rightarrow> cstr" where
  "ppimpl_get_location s = location_text (current_line s) (current_filename s)"

definition ppimpl_get_location_prev :: "pp_state \<Rightarrow> cstr" where
  "ppimpl_get_location_prev s = location_text (current_line s - 1) (current_filename s)"

definition pp_halt :: "pp_error \<Rightarrow> pp_state \<Rightarrow> 'a ppres" where
  "pp_halt e s = PHalt e (Some (ppimpl_get_location s))"

text \<open>A line mark: \<open># %i %s\<close>.\<close>

definition line_mark :: "u32 \<Rightarrow> cstr \<Rightarrow> cstr" where
  "line_mark n name = c_str ''# '' @ int_text n @ c_str '' '' @ c_string name"

text \<open>The buffer that a text is formatted into, of one more byte than is counted.\<close>

definition pp_store :: "cstr \<Rightarrow> cstr" where
  "pp_store text = text @ [0, 0]"

definition pp_count :: "cstr \<Rightarrow> nat" where
  "pp_count text = length text + 1"

definition ppimpl_oprintf :: "cstr \<Rightarrow> pp_state \<Rightarrow> pp_state" where
  "ppimpl_oprintf text s =
     s\<lparr>cached_output := cached_output s @ filter (\<lambda>c. c \<noteq> 0) (take (pp_count text) (pp_store text))\<rparr>"

lemma oprintf_eq: "ppimpl_oprintf text s = s\<lparr>cached_output := cached_output s @ filter (\<lambda>c. c \<noteq> 0) text\<rparr>"
  by (simp add: ppimpl_oprintf_def pp_count_def pp_store_def)

text \<open>Inserting at the printing index, which fails when it is past the end.\<close>

definition pp_insert :: "u8 \<Rightarrow> pp_state \<Rightarrow> pp_state" where
  "pp_insert c s =
     (let i = print_index s
      in s\<lparr>print_index := i + 1,
           cached_input := (if i \<le> length (cached_input s)
              then take i (cached_input s) @ c # drop i (cached_input s) else cached_input s)\<rparr>)"

definition ppimpl_iprintf :: "cstr \<Rightarrow> pp_state \<Rightarrow> pp_state" where
  "ppimpl_iprintf text s =
     fold (\<lambda>c s. if c = 0 then s else pp_insert c s) (take (pp_count text) (pp_store text)) s"

definition ppimpl_printf :: "cstr \<Rightarrow> pp_state \<Rightarrow> pp_state" where
  "ppimpl_printf text s =
     (let count = pp_count text;
          store = pp_store text;
          s = fold (\<lambda>c s. if c = 0 then s
                else pp_insert c (if c = NEWLINE then s\<lparr>actual_line := actual_line s + 1\<rparr> else s))
              (take count store) s
      in if count > 0 \<and> store ! (count - 1) = NEWLINE \<and> actual_line s \<noteq> current_line s
         then (ppimpl_iprintf (line_mark (current_line s) (current_filename s)) s)
                \<lparr>actual_line := current_line s\<rparr>
         else s)"

section \<open>Matching\<close>

definition in_range :: "u8 \<Rightarrow> u8 \<Rightarrow> u8 \<Rightarrow> bool" where
  "in_range lo hi c \<longleftrightarrow> lo \<le> c \<and> c \<le> hi"

definition ppimpl_isolates :: "u8 \<Rightarrow> bool \<Rightarrow> bool" where
  "ppimpl_isolates c at_start \<longleftrightarrow>
     \<not> (in_range 97 122 c \<or> in_range 65 90 c \<or> (\<not> at_start \<and> in_range 48 57 c) \<or> c = 95)"

definition pp_tolower :: "u8 \<Rightarrow> u8" where
  "pp_tolower c = (if in_range 65 90 c then c + 32 else c)"

text \<open>White space, and \<^verbatim>\<open>bltrimws\<close> and \<^verbatim>\<open>btrimws\<close> of the string library.\<close>

definition pp_isspace :: "u8 \<Rightarrow> bool" where
  "pp_isspace c \<longleftrightarrow> in_range 9 13 c \<or> c = 32"

definition bltrimws :: "cstr \<Rightarrow> cstr" where
  "bltrimws s = dropWhile pp_isspace s"

definition btrimws :: "cstr \<Rightarrow> cstr" where
  "btrimws s = bltrimws (rev (dropWhile pp_isspace (rev s)))"

text \<open>The text of a match against the end of the output.\<close>

definition ends_with :: "bool \<Rightarrow> cstr \<Rightarrow> cstr \<Rightarrow> bool" where
  "ends_with ci text out \<longleftrightarrow>
     length text \<le> length out \<and>
     (let e = drop (length out - length text) out
      in if ci then map pp_tolower e = map pp_tolower text else e = text)"

text \<open>The backwards scan for the start of the line, over the output before the text, reversed.\<close>

fun at_line_start :: "cstr \<Rightarrow> bool" where
  "at_line_start [] = True"
| "at_line_start (c # cs) =
     (if c = 32 \<or> c = 9 then at_line_start cs else c = NEWLINE)"

text \<open>
  The test of one match. To see the next character it is read and put back in front of the
  cached input, so a newline that was still in the source has been counted.
\<close>

definition ppimpl_match_test :: "pp_state \<Rightarrow> match_t \<Rightarrow> (bool \<times> pp_state) ppres" where
  "ppimpl_match_test s m =
     (let out = cached_output s; n = length (m_text m) in
      if \<not> ends_with (case_insensitive m) (m_text m) out then PRet (False, s)
      else if line_start_only m then PRet (at_line_start (rev (take (length out - n) out)), s)
      else if identifier_only m then
        (let has_next = ppimpl_has_input s;
             has_previous = (length out \<ge> n + 1)
         in pp_bind (if has_next
                     then pp_bind (ppimpl_get_input s) (\<lambda>(c, s). PRet (c, pp_unread c s))
                     else PRet (0, s)) (\<lambda>(c, s).
            let previous = out ! (length out - n - 1)
            in PRet (if has_next \<and> has_previous
                     then ppimpl_isolates c False \<and> ppimpl_isolates previous True
                     else if has_next then ppimpl_isolates c False
                     else if has_previous then ppimpl_isolates previous True
                     else True, s)))
      else PRet (True, s))"

text \<open>Strings: the state after a character was added to the output.\<close>

definition ppimpl_track_strings :: "pp_state \<Rightarrow> pp_state" where
  "ppimpl_track_strings s =
     (let out = cached_output s;
          current = last out;
          has_previous = (length out \<ge> 2);
          previous = out ! (length out - 2)
      in if \<not> in_single_string s \<and> \<not> in_double_string s then
           (if current = 39 then s\<lparr>in_single_string := True\<rparr>
            else if current = 34 then s\<lparr>in_double_string := True\<rparr>
            else s)
         else if in_single_string s then
           (if current = 39 then
              (if \<not> has_previous \<or> has_previous \<and> previous \<noteq> 92 then s\<lparr>in_single_string := False\<rparr> else s)
            else if current = NEWLINE then s\<lparr>in_single_string := False\<rparr>
            else s)
         else
           (if current = 34 then
              (if \<not> has_previous \<or> has_previous \<and> previous \<noteq> 92 then s\<lparr>in_double_string := False\<rparr> else s)
            else if current = NEWLINE then s\<lparr>in_double_string := False\<rparr>
            else s))"

section \<open>Scopes\<close>

definition ppimpl_push_scope :: "bool \<Rightarrow> pp_state \<Rightarrow> pp_state" where
  "ppimpl_push_scope active s =
     s\<lparr>scopes := scopes s @ [\<lparr>sc_active = active, sc_start_index = length (cached_output s),
        sc_old_handlers = [], sc_new_handlers = []\<rparr>]\<rparr>"

text \<open>A range of the output is only deleted when it lies inside it.\<close>

definition delete_range :: "nat \<Rightarrow> nat \<Rightarrow> 'a list \<Rightarrow> 'a list" where
  "delete_range i n xs = (if i \<le> n \<and> n < length xs then take i xs @ drop (n + 1) xs else xs)"

definition ppimpl_pop_scope :: "pp_state \<Rightarrow> pp_state" where
  "ppimpl_pop_scope s =
     (if scopes s = [] then s
      else
        (let scope = last (scopes s);
             s = s\<lparr>scopes := butlast (scopes s)\<rparr>;
             s = (if \<not> sc_active scope \<and> cached_output s \<noteq> []
                  then s\<lparr>cached_output := delete_range (sc_start_index scope)
                          (length (cached_output s) - 1) (cached_output s)\<rparr>
                  else s);
             hs = fold (\<lambda>name hs. filter (\<lambda>old. m_text old \<noteq> name) hs) (sc_new_handlers scope) (handlers s)
         in s\<lparr>handlers := hs @ sc_old_handlers scope\<rparr>))"

definition ppimpl_flip_scope :: "pp_state \<Rightarrow> pp_state ppres" where
  "ppimpl_flip_scope s =
     (if scopes s = [] then PUndef
      else PRet (ppimpl_push_scope (\<not> sc_active (last (scopes s))) (ppimpl_pop_scope s)))"

definition ppimpl_register :: "match_t \<Rightarrow> pp_state \<Rightarrow> pp_state" where
  "ppimpl_register m s =
     (if scopes s = [] then s\<lparr>handlers := handlers s @ [m]\<rparr>
      else
        (let scope = last (scopes s);
             scope = scope\<lparr>sc_old_handlers := sc_old_handlers scope @
               filter (\<lambda>other. m_text other = m_text m) (handlers s),
               sc_new_handlers := sc_new_handlers scope @ [m_text m]\<rparr>
         in s\<lparr>handlers := filter (\<lambda>other. m_text other \<noteq> m_text m) (handlers s) @ [m],
              scopes := butlast (scopes s) @ [scope]\<rparr>))"

end
