(* ===== verification/Pp_Define.thy ===== *)
theory Pp_Define
  imports Pp_State
begin

text \<open>
  Definitions and macros (\<^verbatim>\<open>libdcpu-pp/directives/asm/define.c\<close> and \<^verbatim>\<open>c/define.c\<close>, whose
  functions \<open>replace_handle\<close>, \<open>macro_handle\<close> and \<open>macro_term_handle\<close> are the same text). The loops
  read a character at a time; the end of the input, where none of them looks for it, is a
  failed assertion of \<open>ppimpl_get_input\<close>.
\<close>

section \<open>Replacement\<close>

definition replace_handle :: "match_t \<Rightarrow> pp_state \<Rightarrow> pp_state ppres" where
  "replace_handle m s =
     (case m_userdata m of
        None \<Rightarrow> PUndef
      | Some info \<Rightarrow> PRet (ppimpl_printf (c_string (ri_replacement info)) s))"

section \<open>Macros\<close>

text \<open>The parameters in the name of a macro, after its opening bracket.\<close>

fun macro_parameters :: "cstr \<Rightarrow> cstr \<Rightarrow> cstr list" where
  "macro_parameters temp [] = []"
| "macro_parameters temp (c # cs) =
     (if c = 41 then [btrimws temp]
      else if c = 44 then btrimws temp # macro_parameters [] cs
      else macro_parameters (temp @ [c]) cs)"

definition macro_parse_name :: "cstr \<Rightarrow> cstr list" where
  "macro_parse_name full = macro_parameters [] (drop 1 (dropWhile (\<lambda>c. c \<noteq> 40) full))"

definition macro_terminate :: cstr where
  "macro_terminate = 1 # c_str ''MACROTERMINATE'' @ [1]"

text \<open>The rest of a terminator whose first character is \<open>c\<close>.\<close>

fun consume_terminator :: "cstr \<Rightarrow> u8 \<Rightarrow> pp_state \<Rightarrow> (u8 \<times> pp_state) ppres" where
  "consume_terminator [] c s = PRet (c, s)"
| "consume_terminator (t # ts) c s =
     (if c \<noteq> t then pp_halt ERR_PP_EXPECTED_OPEN_BRACKET s
      else pp_bind (ppimpl_get_input s) (\<lambda>(c, s). consume_terminator ts c s))"

lemma consume_terminator_left:
  "consume_terminator ts c s = PRet (d, t) \<Longrightarrow> pp_left t + length ts \<le> pp_left s"
proof (induction ts arbitrary: c s)
  case (Cons x xs)
  then show ?case using get_input_left by (fastforce simp: pp_halt_def split: if_splits prod.splits)
qed simp

lemma pop_scope_input [simp]:
  "cached_input (ppimpl_pop_scope s) = cached_input s" "pp_source (ppimpl_pop_scope s) = pp_source s"
  by (simp_all add: ppimpl_pop_scope_def Let_def)

function macro_open :: "u8 \<Rightarrow> pp_state \<Rightarrow> (u8 \<times> pp_state) ppres" where
  "macro_open c s =
     (if c = 1 then
        pp_bind (consume_terminator macro_terminate c s) (\<lambda>r. macro_open (fst r) (ppimpl_pop_scope (snd r)))
      else PRet (c, s))"
  by pat_completeness auto

termination
proof (relation "measure (pp_left \<circ> snd)")
  fix c s and r :: "u8 \<times> pp_state"
  assume "consume_terminator macro_terminate c s = PRet r"
  then have "pp_left (snd r) + length macro_terminate \<le> pp_left s"
    by (cases r) (simp add: consume_terminator_left)
  then have "pp_left (snd r) < pp_left s" by (simp add: macro_terminate_def)
  then show "((fst r, ppimpl_pop_scope (snd r)), c, s) \<in> measure (pp_left \<circ> snd)"
    by (simp add: pp_left_def)
qed simp

declare macro_open.simps [simp del]

text \<open>The arguments up to the closing bracket; \<open>None\<close> at the end of the input.\<close>

function macro_arguments :: "int \<Rightarrow> cstr \<Rightarrow> pp_state \<Rightarrow> (cstr list option \<times> pp_state) ppres" where
  "macro_arguments brackets temp s =
     (if \<not> ppimpl_has_input s then PRet (None, s)
      else
        pp_bind (ppimpl_get_input s) (\<lambda>r. let c = fst r in
          if c = 40 then macro_arguments (brackets + 1) (temp @ [c]) (snd r)
          else if c = 41 \<and> brackets \<noteq> 0 then macro_arguments (brackets - 1) (temp @ [c]) (snd r)
          else if c = 41 \<and> brackets = 0 then PRet (Some [temp], snd r)
          else if c = 44 \<and> brackets = 0 then
            pp_bind (macro_arguments brackets [] (snd r)) (\<lambda>(args, s).
              PRet (map_option (\<lambda>as. temp # as) args, s))
          else macro_arguments brackets (temp @ [c]) (snd r)))"
  by pat_completeness auto

termination
  by (relation "measure (pp_left \<circ> snd \<circ> snd)") (auto simp: get_input_left)

declare macro_arguments.simps [simp del]

definition new_match :: "cstr \<Rightarrow> pp_handler \<Rightarrow> replace_info \<Rightarrow> match_t" where
  "new_match text h info =
     \<lparr>m_text = text, m_handler = h, m_userdata = Some info, line_start_only = False,
      identifier_only = True, case_insensitive = False\<rparr>"

definition macro_bind :: "cstr \<times> cstr \<Rightarrow> pp_state \<Rightarrow> pp_state" where
  "macro_bind p s =
     (case p of (parameter, argument) \<Rightarrow>
        if parameter = argument then s
        else ppimpl_register (new_match parameter H_replace \<lparr>ri_full = parameter, ri_replacement = argument\<rparr>) s)"

definition macro_handle :: "match_t \<Rightarrow> pp_state \<Rightarrow> pp_state ppres" where
  "macro_handle m s =
     (case m_userdata m of
        None \<Rightarrow> PUndef
      | Some info \<Rightarrow>
          (let parameters = macro_parse_name (ri_full info) in
           pp_bind (ppimpl_get_input s) (\<lambda>(c, s).
           pp_bind (macro_open c s) (\<lambda>(c, s).
           if c \<noteq> 40 then pp_halt ERR_PP_EXPECTED_OPEN_BRACKET s
           else
             (let start_loc = ppimpl_get_location s in
              pp_bind (macro_arguments 0 [] s) (\<lambda>(arguments, s).
              case arguments of
                None \<Rightarrow> PHalt ERR_PP_NO_TERMINATING_BRACKET (Some start_loc)
              | Some as \<Rightarrow>
                  if length as > length parameters then PHalt ERR_PP_TOO_MANY_PARAMETERS (Some start_loc)
                  else if length as < length parameters then PHalt ERR_PP_NOT_ENOUGH_PARAMETERS (Some start_loc)
                  else
                    (let s = ppimpl_push_scope True s;
                         s = fold macro_bind (zip parameters as) s
                     in PRet (ppimpl_printf (c_string (ri_replacement info) @ macro_terminate) s))))))))"

definition macro_term_handle :: "pp_state \<Rightarrow> pp_state ppres" where
  "macro_term_handle s = PRet (ppimpl_pop_scope s)"

section \<open>.DEFINE of the assembler\<close>

text \<open>The name, and whether a definition follows on the line.\<close>

function define_word :: "cstr \<Rightarrow> pp_state \<Rightarrow> (cstr \<times> bool \<times> pp_state) ppres" where
  "define_word word s =
     pp_bind (ppimpl_get_input s) (\<lambda>r.
       let c = fst r; s = snd r; word = bltrimws (word @ [c]) in
       if word \<noteq> [] \<and> (c = 32 \<or> c = 9) then PRet (btrimws word, True, s)
       else if word \<noteq> [] \<and> c = 40 then pp_halt ERR_PP_LONG_FORM_MACRO_ONLY s
       else if word = [] \<and> c = NEWLINE then pp_halt ERR_PP_ASM_DEFINE_PARAMETERS_INCORRECT s
       else if word \<noteq> [] \<and> c = NEWLINE then
         PRet (btrimws word, False, ppimpl_printf [NEWLINE] s)
       else define_word word s)"
  by pat_completeness auto

termination
  by (relation "measure (pp_left \<circ> snd)") (auto simp: get_input_left)

function define_definition :: "cstr \<Rightarrow> pp_state \<Rightarrow> (cstr \<times> pp_state) ppres" where
  "define_definition definition s =
     pp_bind (ppimpl_get_input s) (\<lambda>r.
       let c = fst r; s = snd r; definition = bltrimws (definition @ [c]) in
       if definition \<noteq> [] \<and> c = NEWLINE then
         (if definition ! (length definition - 2) \<noteq> 92
          then PRet (btrimws definition, ppimpl_printf [NEWLINE] s)
          else define_definition definition s)
       else if definition = [] \<and> c = NEWLINE then PRet (c_str ''1'', ppimpl_printf [NEWLINE] s)
       else define_definition definition s)"
  by pat_completeness auto

termination
  by (relation "measure (pp_left \<circ> snd)") (auto simp: get_input_left)

declare define_word.simps [simp del] define_definition.simps [simp del]

text \<open>
  Registering a definition. Every handler returns the state and whether the matches have to be
  tried again.
\<close>

definition define_register :: "cstr \<Rightarrow> pp_handler \<Rightarrow> replace_info \<Rightarrow> pp_state \<Rightarrow> pp_state \<times> bool" where
  "define_register name h info s =
     (if ri_full info = ri_replacement info then (s, False)
      else (ppimpl_register (new_match name h info) s, True))"

definition define_handle :: "pp_state \<Rightarrow> (pp_state \<times> bool) ppres" where
  "define_handle s =
     pp_bind (define_word [] s) (\<lambda>(word, more, s).
     pp_bind (if more then define_definition [] s else PRet ([], s)) (\<lambda>(definition, s).
     PRet (define_register word H_replace \<lparr>ri_full = word, ri_replacement = definition\<rparr> s)))"

section \<open>.MACRO of the assembler\<close>

text \<open>The name with its parameters, the name alone, and whether there were parameters.\<close>

function macro_def_word :: "bool \<Rightarrow> cstr \<Rightarrow> cstr \<Rightarrow> pp_state \<Rightarrow> (cstr \<times> cstr \<times> bool \<times> pp_state) ppres" where
  "macro_def_word is_macro word name s =
     pp_bind (ppimpl_get_input s) (\<lambda>r.
       let c = fst r; s = snd r; word = bltrimws (word @ [c]);
           name = (if \<not> is_macro \<and> c \<noteq> 40 then name @ [c] else name) in
       if word \<noteq> [] \<and> (c = 32 \<or> c = 9) \<and> \<not> is_macro then PRet (btrimws word, btrimws name, is_macro, s)
       else if word \<noteq> [] \<and> c = 40 \<and> \<not> is_macro then macro_def_word True word name s
       else if word \<noteq> [] \<and> c = 40 \<and> is_macro then pp_halt ERR_PP_MACRO_MALFORMED s
       else if word \<noteq> [] \<and> c = 41 \<and> is_macro then PRet (btrimws word, btrimws name, is_macro, s)
       else if word = [] \<and> c = NEWLINE then pp_halt ERR_PP_ASM_MACRO_PARAMETERS_INCORRECT s
       else macro_def_word is_macro word name s)"
  by pat_completeness auto

termination
  by (relation "measure (pp_left \<circ> snd \<circ> snd \<circ> snd)") (auto simp: get_input_left)

text \<open>
  The scan back over the line that the terminator starts on; the character at index 0 is not
  looked at.
\<close>

fun term_starts_line :: "cstr \<Rightarrow> nat \<Rightarrow> bool" where
  "term_starts_line definition 0 = True"
| "term_starts_line definition (Suc ip) =
     (let p = definition ! Suc ip in
      if p \<noteq> 32 \<and> p \<noteq> NEWLINE then False
      else if p = NEWLINE then True
      else term_starts_line definition ip)"

definition term_match :: cstr where
  "term_match = c_str ''.ENDMACRO''"

definition term_match_alt :: cstr where
  "term_match_alt = c_str ''#ENDMACRO''"

text \<open>The body up to the terminator; \<open>None\<close> at the end of the input.\<close>

function macro_def_body :: "nat \<Rightarrow> cstr \<Rightarrow> pp_state \<Rightarrow> (cstr option \<times> pp_state) ppres" where
  "macro_def_body count definition s =
     (if \<not> ppimpl_has_input s then PRet (None, s)
      else
        pp_bind (ppimpl_get_input s) (\<lambda>r.
          let c = fst r; s = snd r; definition = bltrimws (definition @ [c]) in
          if pp_tolower c = pp_tolower (term_match ! count) \<or> pp_tolower c = pp_tolower (term_match_alt ! count) then
            (if count = 0 \<and> length definition \<ge> 2 \<and> \<not> term_starts_line definition (length definition - 2)
             then macro_def_body count definition s
             else if count + 1 \<ge> length term_match then
               (let d = btrimws definition;
                    p = length d - length term_match
                in PRet (Some (take p d @ drop (p + length term_match) d), s))
             else macro_def_body (count + 1) definition s)
          else macro_def_body 0 definition s))"
  by pat_completeness auto

termination
  by (relation "measure (pp_left \<circ> snd \<circ> snd)") (auto simp: get_input_left)

declare macro_def_word.simps [simp del] macro_def_body.simps [simp del]

definition macro_def_handle :: "pp_state \<Rightarrow> (pp_state \<times> bool) ppres" where
  "macro_def_handle s =
     pp_bind (macro_def_word False [] [] s) (\<lambda>(word, name, is_macro, s).
     if \<not> is_macro then pp_halt ERR_PP_ASM_MACRO_PARAMETERS_EXPECTED s
     else
       pp_bind (macro_def_body 0 [] s) (\<lambda>(definition, s).
       case definition of
         None \<Rightarrow> pp_halt ERR_PP_ASM_MACRO_TERMINATION_NOT_FOUND s
       | Some d \<Rightarrow> PRet (define_register name H_macro \<lparr>ri_full = word, ri_replacement = d\<rparr> s)))"

section \<open>#define of C\<close>

function c_define_word ::
    "bool \<Rightarrow> cstr \<Rightarrow> cstr \<Rightarrow> pp_state \<Rightarrow> (cstr \<times> cstr \<times> bool \<times> bool \<times> pp_state) ppres" where
  "c_define_word is_macro word name s =
     pp_bind (ppimpl_get_input s) (\<lambda>r.
       let c = fst r; s = snd r; word = bltrimws (word @ [c]);
           name = (if \<not> is_macro \<and> c \<noteq> 40 then name @ [c] else name) in
       if word \<noteq> [] \<and> (c = 32 \<or> c = 9) \<and> \<not> is_macro then PRet (btrimws word, btrimws name, is_macro, True, s)
       else if word \<noteq> [] \<and> c = 40 \<and> \<not> is_macro then c_define_word True word name s
       else if word \<noteq> [] \<and> c = 40 \<and> is_macro then pp_halt ERR_PP_MACRO_MALFORMED s
       else if word \<noteq> [] \<and> c = 41 \<and> is_macro then PRet (btrimws word, btrimws name, is_macro, True, s)
       else if word = [] \<and> c = NEWLINE then pp_halt ERR_PP_C_DEFINE_PARAMETERS_INCORRECT s
       else if word \<noteq> [] \<and> c = NEWLINE then
         PRet (btrimws word, btrimws name, is_macro, False, ppimpl_printf [NEWLINE] s)
       else c_define_word is_macro word name s)"
  by pat_completeness auto

termination
  by (relation "measure (pp_left \<circ> snd \<circ> snd \<circ> snd)") (auto simp: get_input_left)

text \<open>\<open>bdelete\<close> of \<open>k\<close> characters from position \<open>i\<close>.\<close>

definition bdelete :: "nat \<Rightarrow> nat \<Rightarrow> cstr \<Rightarrow> cstr" where
  "bdelete i k b = take i b @ drop (i + k) b"

function c_define_definition :: "cstr \<Rightarrow> pp_state \<Rightarrow> (cstr \<times> pp_state) ppres" where
  "c_define_definition definition s =
     pp_bind (ppimpl_get_input s) (\<lambda>r.
       let c = fst r; s = snd r; d = bltrimws (definition @ [c]); n = length d in
       if c = NEWLINE then
         (if n > 1 \<and> d ! (n - 2) = 92
          then c_define_definition (bdelete (n - 2) 1 d) (ppimpl_oprintf [NEWLINE] s)
          else PRet (btrimws d, ppimpl_printf [NEWLINE] s))
       else if (c = 47 \<or> c = 42) \<and> n > 1 \<and> d ! (n - 2) = 47 then
         PRet (btrimws (bdelete (n - 2) 2 d), ppimpl_iprintf [47, c] s)
       else c_define_definition d s)"
  by pat_completeness auto

termination
  by (relation "measure (pp_left \<circ> snd)") (auto simp: get_input_left oprintf_eq pp_left_def [of "cached_output_update _ _"] simp flip: pp_left_def)

declare c_define_word.simps [simp del] c_define_definition.simps [simp del]

definition c_define_handle :: "pp_state \<Rightarrow> (pp_state \<times> bool) ppres" where
  "c_define_handle s =
     pp_bind (c_define_word False [] [] s) (\<lambda>(word, name, is_macro, more, s).
     pp_bind (if more then c_define_definition [] s else PRet ([], s)) (\<lambda>(definition, s).
     let definition = (if definition = [] \<and> \<not> is_macro then c_str ''1'' else definition)
     in PRet (define_register name (if is_macro then H_macro else H_replace)
          \<lparr>ri_full = word, ri_replacement = definition\<rparr> s)))"

end
