(* ===== verification/Pp_Expr.thy ===== *)
theory Pp_Expr
  imports Pp_State
begin

text \<open>
  Conditional text (\<^verbatim>\<open>libdcpu-pp/directives/asm/expr.c\<close> and \<^verbatim>\<open>c/expr.c\<close>). The two files have the
  same functions up to the directives they know; the argument \<open>cl\<close> says whether it is C's.

  Two paths have no defined behaviour. When the condition does not hold, \<open>bassigncstr\<close> writes
  through the pointer \<open>output\<close> before anything was assigned to it. And when a label of the
  condition is a definition, \<open>expr_parse\<close> is given the structure \<open>replace_info\<close> of the match
  where it takes a \<open>bstring\<close>.
\<close>

section \<open>Skipping\<close>

function skip_to_endln :: "pp_state \<Rightarrow> pp_state ppres" where
  "skip_to_endln s =
     (if \<not> ppimpl_has_input s then PRet s
      else pp_bind (ppimpl_get_input s) (\<lambda>r.
        if fst r = NEWLINE then PRet (snd r) else skip_to_endln (snd r)))"
  by pat_completeness auto

termination
  by (relation "measure pp_left") (auto simp: get_input_left)

text \<open>
  After the character that starts a directive: the white space and the first character behind
  it, then the rest of the word. Both are added to \<open>out\<close> as they are read; \<open>c\<close> is the last
  character read.
\<close>

function skip_blanks :: "u8 \<Rightarrow> cstr \<Rightarrow> pp_state \<Rightarrow> (u8 \<times> cstr \<times> pp_state) ppres" where
  "skip_blanks c out s =
     (if \<not> ppimpl_has_input s then PRet (c, out, s)
      else pp_bind (ppimpl_get_input s) (\<lambda>r.
        if fst r \<noteq> 32 \<and> fst r \<noteq> 9 then PRet (fst r, out @ [fst r], snd r)
        else skip_blanks (fst r) (out @ [fst r]) (snd r)))"
  by pat_completeness auto

termination
  by (relation "measure (pp_left \<circ> snd \<circ> snd)") (auto simp: get_input_left)

function directive_word :: "u8 \<Rightarrow> cstr \<Rightarrow> cstr \<Rightarrow> pp_state \<Rightarrow> (u8 \<times> cstr \<times> cstr \<times> pp_state) ppres" where
  "directive_word c temp out s =
     (if \<not> ppimpl_has_input s then PRet (c, temp, out, s)
      else pp_bind (ppimpl_get_input s) (\<lambda>r.
        if fst r = 32 \<or> fst r = 9 \<or> fst r = NEWLINE then PRet (fst r, temp, out @ [fst r], snd r)
        else directive_word (fst r) (temp @ [fst r]) (out @ [fst r]) (snd r)))"
  by pat_completeness auto

termination
  by (relation "measure (pp_left \<circ> snd \<circ> snd \<circ> snd)") (auto simp: get_input_left)

declare skip_to_endln.simps [simp del] skip_blanks.simps [simp del] directive_word.simps [simp del]

lemma skip_blanks_left: "skip_blanks c out s = PRet (d, out', t) \<Longrightarrow> pp_left t \<le> pp_left s"
proof (induction c out s rule: skip_blanks.induct)
  case (1 c out s)
  show ?case
  proof (cases "ppimpl_has_input s")
    case True
    then obtain r where r: "ppimpl_get_input s = PRet r" by (auto simp: has_input_iff)
    then have "pp_left (snd r) < pp_left s" by (cases r) (auto dest: get_input_left)
    moreover have "pp_left t \<le> pp_left (snd r)"
      using "1.IH" [OF _ r] "1.prems" True r
      unfolding skip_blanks.simps [of c out s] by (auto split: if_splits)
    ultimately show ?thesis by simp
  qed (use "1.prems" in \<open>simp add: skip_blanks.simps [of c]\<close>)
qed

lemma directive_word_left: "directive_word c temp out s = PRet (d, temp', out', t) \<Longrightarrow> pp_left t \<le> pp_left s"
proof (induction c temp out s rule: directive_word.induct)
  case (1 c temp out s)
  show ?case
  proof (cases "ppimpl_has_input s")
    case True
    then obtain r where r: "ppimpl_get_input s = PRet r" by (auto simp: has_input_iff)
    then have "pp_left (snd r) < pp_left s" by (cases r) (auto dest: get_input_left)
    moreover have "pp_left t \<le> pp_left (snd r)"
      using "1.IH" [OF _ r] "1.prems" True r
      unfolding directive_word.simps [of c temp out s] by (auto split: if_splits)
    ultimately show ?thesis by simp
  qed (use "1.prems" in \<open>simp add: directive_word.simps [of c]\<close>)
qed

definition directive_name :: "bool \<Rightarrow> cstr \<Rightarrow> cstr" where
  "directive_name cl temp =
     (let t = map pp_tolower temp
      in if cl then btrimws t else t)"

definition opens_if :: "bool \<Rightarrow> cstr \<Rightarrow> bool" where
  "opens_if cl name \<longleftrightarrow>
     name = c_str ''if'' \<or> cl \<and> (name = c_str ''ifdef'' \<or> name = c_str ''ifndef'')"

text \<open>The text up to the matching end or else, and whether it was an else.\<close>

function skip_to_endif ::
    "bool \<Rightarrow> bool \<Rightarrow> bool \<Rightarrow> cstr \<Rightarrow> int \<Rightarrow> pp_state \<Rightarrow> (cstr \<times> bool \<times> pp_state) ppres" where
  "skip_to_endif cl stop_at_else fresh_line output if_open s =
     (if \<not> ppimpl_has_input s then pp_halt ERR_PP_ASM_NO_ENDIF_TO_IF s
      else pp_bind (ppimpl_get_input s) (\<lambda>(c, s).
        if (c = 35 \<or> \<not> cl \<and> c = 46) \<and> fresh_line then
          pp_bind (skip_blanks c (c_str ''#'') s) (\<lambda>(c, out, s).
          pp_bind (directive_word c [c] out s) (\<lambda>(c, temp, out, s).
            let name = directive_name cl temp in
            if name = c_str ''endif'' \<and> if_open - 1 = 0 then
              pp_bind (if c \<noteq> NEWLINE then skip_to_endln s else PRet s) (\<lambda>s. PRet (output, False, s))
            else if name = c_str ''else'' \<and> stop_at_else \<and> if_open = 1 then
              pp_bind (if c \<noteq> NEWLINE then skip_to_endln s else PRet s) (\<lambda>s. PRet (output, True, s))
            else
              skip_to_endif cl stop_at_else (c = NEWLINE) (output @ out)
                (if name = c_str ''endif'' then if_open - 1
                 else if opens_if cl name then if_open + 1
                 else if_open) s))
        else
          skip_to_endif cl stop_at_else
            (if c = NEWLINE then True
             else if c = 32 \<or> c = 9 \<or> c = 35 \<or> \<not> cl \<and> c = 46 then fresh_line
             else False) (output @ [c]) if_open s))"
  by pat_completeness auto

termination
  apply (relation "measure (pp_left \<circ> snd \<circ> snd \<circ> snd \<circ> snd \<circ> snd)")
  apply (auto dest!: get_input_left skip_blanks_left directive_word_left)
  done

declare skip_to_endif.simps [simp del]

section \<open>Conditions\<close>

definition if_define_replace :: "pp_state \<Rightarrow> cstr \<Rightarrow> u16 ldres" where
  "if_define_replace s label =
     (if \<exists>m \<in> set (handlers s). m_text m = label then Undef
      else Halt ERR_PP_DEFINE_NOT_FOUND (Some (ppimpl_get_location s)))"

text \<open>The part that the condition chooses is printed to the input.\<close>

definition conditional_text :: "bool \<Rightarrow> bool \<Rightarrow> pp_state \<Rightarrow> pp_state ppres" where
  "conditional_text cl holds s =
     (if holds then
        pp_bind (skip_to_endif cl True True [] 1 s) (\<lambda>(output, stopped_at_else, s).
        pp_bind (if stopped_at_else
                 then pp_bind (skip_to_endif cl False True [] 1 s) (\<lambda>(_, _, s). PRet s)
                 else PRet s) (\<lambda>s.
        PRet (ppimpl_printf (c_string output) s)))
      else PUndef)"

definition if_handle :: "bool \<Rightarrow> parameter list \<Rightarrow> pp_state \<Rightarrow> pp_state ppres" where
  "if_handle cl result s =
     (case result of
        [P_EXPRESSION e] \<Rightarrow>
          pp_bind (pp_of_ld (expr_evaluate (Some (if_define_replace s)) dhalt_expression_exit_handler e))
            (\<lambda>value. conditional_text cl (value \<noteq> 0) s)
      | _ \<Rightarrow> pp_halt (if cl then ERR_PP_C_IF_PARAMETERS_INCORRECT else ERR_PP_ASM_IF_PARAMETERS_INCORRECT) s)"

text \<open>\<open>#ifdef\<close> and \<open>#ifndef\<close> compare the name with the first match, as often as there are matches.\<close>

definition ifdef_general_handle :: "bool \<Rightarrow> parameter list \<Rightarrow> pp_state \<Rightarrow> pp_state ppres" where
  "ifdef_general_handle exists result s =
     (case result of
        [P_WORD word] \<Rightarrow>
          (let found = (\<exists>i < length (handlers s). m_text (handlers s ! 0) = word);
               success = (if found then exists else \<not> exists)
           in conditional_text True success s)
      | _ \<Rightarrow> pp_halt (if exists then ERR_PP_C_IFDEF_PARAMETERS_INCORRECT
                      else ERR_PP_C_IFNDEF_PARAMETERS_INCORRECT) s)"

definition else_handle :: "bool \<Rightarrow> pp_state \<Rightarrow> pp_state ppres" where
  "else_handle cl s = pp_halt (if cl then ERR_PP_C_ELSE_NO_IF else ERR_PP_ASM_ELSE_NO_IF) s"

definition endif_handle :: "bool \<Rightarrow> pp_state \<Rightarrow> pp_state ppres" where
  "endif_handle cl s = pp_halt (if cl then ERR_PP_C_ENDIF_NO_IF else ERR_PP_ASM_ENDIF_NO_IF) s"

end
