(* ===== verification/Pp_Run.thy ===== *)
theory Pp_Run
  imports Pp_Define Pp_Expr
begin

text \<open>
  Running the preprocessor: the parameters of a directive, the line and include directives
  (\<^verbatim>\<open>libdcpu-pp/directives/asm\<close> and \<^verbatim>\<open>directives/c\<close>), the tables of directives, the main loop, and
  the creation of a state (\<^verbatim>\<open>ppimpl.c\<close>).

  The main loop need not end: a definition may expand to itself. Its value is then \<open>None\<close>. A
  file that is included is preprocessed by the argument \<open>inc\<close>; \<open>pp_nested d\<close> is the
  preprocessor for files that are nested at most \<open>d\<close> deep, and \<open>None\<close> for deeper ones. The
  directives that Lua modules add are left out: there are no modules.
\<close>

section \<open>Loops that may not end\<close>

definition ppo_bind :: "'a ppres option \<Rightarrow> ('a \<Rightarrow> 'b ppres option) \<Rightarrow> 'b ppres option" where
  "ppo_bind m f = m \<bind> (\<lambda>r. case r of PUndef \<Rightarrow> Some PUndef | PHalt e d \<Rightarrow> Some (PHalt e d) | PRet x \<Rightarrow> f x)"

lemma ppo_bind_simps [simp]:
  "ppo_bind None f = None" "ppo_bind (Some PUndef) f = Some PUndef"
  "ppo_bind (Some (PHalt e d)) f = Some (PHalt e d)" "ppo_bind (Some (PRet x)) f = f x"
  by (simp_all add: ppo_bind_def)

lemma ppo_bind_mono [partial_function_mono]:
  assumes "mono_option B" and "\<And>y. mono_option (\<lambda>f. C y f)"
  shows "mono_option (\<lambda>f. ppo_bind (B f) (\<lambda>y. C y f))"
  unfolding ppo_bind_def
proof (rule bind_mono [OF assms(1)])
  fix r
  show "mono_option (\<lambda>f. case r of PUndef \<Rightarrow> Some PUndef | PHalt e d \<Rightarrow> Some (PHalt e d) | PRet x \<Rightarrow> C x f)"
    by (cases r) (simp_all add: assms(2) option.const_mono)
qed

section \<open>Parameters\<close>

text \<open>The parser takes characters as long as there are some.\<close>

fun pp_advance :: "nat \<Rightarrow> pp_state \<Rightarrow> pp_state ppres" where
  "pp_advance 0 s = PRet s"
| "pp_advance (Suc n) s =
     (if ppimpl_has_input s then pp_bind (ppimpl_get_input s) (\<lambda>(_, s). pp_advance n s) else PRet s)"

definition ppparam_get :: "pp_env \<Rightarrow> pp_state \<Rightarrow> (parameter list \<times> pp_state) ppres" where
  "ppparam_get env s =
     (let (result, n) = pe_params env (cached_input s @ pp_source s)
      in pp_bind (pp_advance n s) (\<lambda>s. PRet (result, s)))"

section \<open>Line directives\<close>

fun name_parameter :: "parameter \<Rightarrow> cstr option" where
  "name_parameter (P_STRING n) = Some n"
| "name_parameter (P_WORD n) = Some n"
| "name_parameter _ = None"

definition line_parameters :: "parameter list \<Rightarrow> (u32 \<times> cstr) option" where
  "line_parameters result =
     (case result of
        [P_NUMBER n, p] \<Rightarrow> map_option (\<lambda>name. (word_of_int n, name)) (name_parameter p)
      | _ \<Rightarrow> None)"

definition quoted :: "bool \<Rightarrow> cstr \<Rightarrow> cstr" where
  "quoted cl name = (if cl then [34] @ c_string name @ [34] else c_string name)"

definition line_handle :: "bool \<Rightarrow> parameter list \<Rightarrow> pp_state \<Rightarrow> pp_state ppres" where
  "line_handle cl result s =
     (case line_parameters result of
        Some (n, name) \<Rightarrow>
          (let s = ppimpl_printf (c_str ''# '' @ int_text n @ c_str '' '' @ quoted cl name @ [NEWLINE]) s
           in PRet (s\<lparr>current_line := n, current_filename := name\<rparr>))
      | None \<Rightarrow> PHalt (if cl then ERR_PP_C_LINE_PARAMETERS_INCORRECT else ERR_PP_ASM_LINE_PARAMETERS_INCORRECT)
                  (Some (ppimpl_get_location_prev s)))"

definition uline_handle :: "parameter list \<Rightarrow> pp_state \<Rightarrow> pp_state ppres" where
  "uline_handle result s =
     (case line_parameters result of
        Some (n, name) \<Rightarrow>
          PRet (ppimpl_printf (c_str ''#U '' @ int_text n @ c_str '' '' @ c_string name @ [NEWLINE]) s)
      | None \<Rightarrow> PHalt ERR_PP_ASM_ULINE_PARAMETERS_INCORRECT (Some (ppimpl_get_location_prev s)))"

section \<open>Tables of directives\<close>

definition directive :: "bool \<Rightarrow> string \<Rightarrow> pp_handler \<Rightarrow> match_t" where
  "directive ci text h =
     \<lparr>m_text = c_str text, m_handler = h, m_userdata = None, line_start_only = True,
      identifier_only = False, case_insensitive = ci\<rparr>"

definition terminator_match :: match_t where
  "terminator_match =
     \<lparr>m_text = macro_terminate, m_handler = H_macro_term, m_userdata = None, line_start_only = False,
      identifier_only = False, case_insensitive = False\<rparr>"

definition register_all :: "match_t list \<Rightarrow> pp_state \<Rightarrow> pp_state" where
  "register_all ms s = fold ppimpl_register ms s"

definition ppimpl_asm_line_register :: "pp_state \<Rightarrow> pp_state" where
  "ppimpl_asm_line_register =
     register_all [directive True ''.LINE '' H_line, directive True ''.ULINE '' H_uline,
       directive True ''#LINE '' H_line, directive True ''#ULINE '' H_uline]"

definition ppimpl_asm_expr_register :: "pp_state \<Rightarrow> pp_state" where
  "ppimpl_asm_expr_register =
     register_all [directive True ''.IF '' H_if, directive True ''.ELSE'' H_else,
       directive True ''.ENDIF'' H_endif, directive True ''#IF '' H_if,
       directive True ''#ELSE'' H_else, directive True ''#ENDIF'' H_endif]"

definition ppimpl_asm_define_register :: "pp_state \<Rightarrow> pp_state" where
  "ppimpl_asm_define_register =
     register_all [directive True ''.DEFINE '' H_define, directive True ''.EQUATE '' H_define,
       directive True ''.EQU '' H_define, directive True ''.MACRO '' H_macro_def,
       directive True ''#DEFINE '' H_define, directive True ''#MACRO '' H_macro_def,
       terminator_match]"

definition ppimpl_asm_include_register :: "pp_state \<Rightarrow> pp_state" where
  "ppimpl_asm_include_register =
     register_all [directive True ''.INCLUDE '' H_include, directive True ''#INCLUDE '' H_include]"

definition ppimpl_c_line_register :: "pp_env \<Rightarrow> pp_state \<Rightarrow> pp_state" where
  "ppimpl_c_line_register env =
     register_all [directive (pe_case_insensitive env) ''#line '' H_c_line]"

definition ppimpl_c_expr_register :: "pp_env \<Rightarrow> pp_state \<Rightarrow> pp_state" where
  "ppimpl_c_expr_register env =
     (let ci = pe_case_insensitive env in
      register_all [directive ci ''#if '' H_c_if, directive ci ''#ifdef '' H_c_ifdef,
        directive ci ''#ifndef '' H_c_ifndef, directive ci ''#else'' H_c_else,
        directive ci ''#endif'' H_c_endif])"

definition ppimpl_c_define_register :: "pp_state \<Rightarrow> pp_state" where
  "ppimpl_c_define_register =
     register_all [directive True ''#define '' H_c_define, terminator_match]"

definition ppimpl_c_include_register :: "pp_env \<Rightarrow> pp_state \<Rightarrow> pp_state" where
  "ppimpl_c_include_register env =
     register_all [directive (pe_case_insensitive env) ''#include '' H_c_include]"

section \<open>Creating a state\<close>

definition ppimpl_asm_init :: "pp_state \<Rightarrow> pp_state" where
  "ppimpl_asm_init s = ppimpl_printf (line_mark (current_line s) (current_filename s) @ [NEWLINE]) s"

definition ppimpl_c_init :: "pp_state \<Rightarrow> pp_state" where
  "ppimpl_c_init s = ppimpl_printf (line_mark (current_line s) (current_filename s) @ [NEWLINE]) s"

definition ppimpl_new :: "pp_env \<Rightarrow> cstr \<Rightarrow> int \<Rightarrow> cstr \<Rightarrow> cstr \<Rightarrow> pp_state" where
  "ppimpl_new env filename line lang source =
     (let line = (if line \<le> 0 then 1 else line);
          s = \<lparr>cached_input = [], cached_output = [], pp_source = source, handlers = [],
               actual_line = word_of_int (line - 1), current_line = word_of_int line,
               current_filename = filename, language = lang, in_single_string = False,
               in_double_string = False, scopes = [], print_index = pe_print_index env\<rparr>;
          s = (if map pp_tolower lang = c_str ''asm'' then
                 ppimpl_asm_init (ppimpl_asm_include_register (ppimpl_asm_define_register
                   (ppimpl_asm_expr_register (ppimpl_asm_line_register s))))
               else if map pp_tolower lang = c_str ''c'' then
                 ppimpl_c_init (ppimpl_c_include_register env (ppimpl_c_define_register
                   (ppimpl_c_expr_register env (ppimpl_c_line_register env s))))
               else s)
      in ppimpl_oprintf (line_mark (current_line s) (current_filename s) @ [NEWLINE]) s)"

section \<open>Including files\<close>

type_synonym includer = "pp_state \<Rightarrow> pp_state ppres option"

fun path_parameter :: "parameter list \<Rightarrow> cstr option" where
  "path_parameter [P_STRING p] = Some p"
| "path_parameter [P_ANGLED_STRING p] = Some p"
| "path_parameter _ = None"

text \<open>
  The included file has a state of its own that works on the matches and the scopes of the
  including one. What it puts out goes to the output of the including state.
\<close>

definition include_handle :: "includer \<Rightarrow> pp_env \<Rightarrow> bool \<Rightarrow> parameter list \<Rightarrow> pp_state \<Rightarrow> pp_state ppres option" where
  "include_handle inc env cl result s =
     (case path_parameter result of
        None \<Rightarrow> Some (pp_halt (if cl then ERR_PP_C_INCLUDE_PARAMETERS_INCORRECT
                               else ERR_PP_ASM_INCLUDE_PARAMETERS_INCORRECT) s)
      | Some p \<Rightarrow>
          (let missing = Some (pp_halt (if cl then ERR_PP_C_INCLUDE_FILE_NOT_FOUND
                                        else ERR_PP_ASM_INCLUDE_FILE_NOT_FOUND) s) in
           case ppfind_locate (pe_paths env) (pe_files env) p of
             None \<Rightarrow> missing
           | Some path \<Rightarrow>
               (case pe_files env (c_string path) of
                  None \<Rightarrow> missing
                | Some source \<Rightarrow>
                    (let child = (ppimpl_new env path 1 (language s) source)
                           \<lparr>handlers := handlers s, scopes := scopes s\<rparr>
                     in ppo_bind (inc child) (\<lambda>child.
                        let s = fold (\<lambda>c s. ppimpl_oprintf [c] s) (cached_output child) s;
                            s = s\<lparr>handlers := handlers child, scopes := scopes child\<rparr>
                        in Some (PRet (ppimpl_oprintf
                             (line_mark (current_line s) (current_filename s) @ [NEWLINE]) s)))))))"

section \<open>Calling the handler of a match\<close>

definition no_reprocess :: "pp_state ppres \<Rightarrow> (pp_state \<times> bool) ppres" where
  "no_reprocess r = pp_bind r (\<lambda>s. PRet (s, False))"

definition with_parameters ::
    "pp_env \<Rightarrow> pp_state \<Rightarrow> (parameter list \<Rightarrow> pp_state \<Rightarrow> pp_state ppres) \<Rightarrow> (pp_state \<times> bool) ppres" where
  "with_parameters env s f = pp_bind (ppparam_get env s) (\<lambda>(result, s). no_reprocess (f result s))"

fun handler_call :: "pp_env \<Rightarrow> pp_handler \<Rightarrow> match_t \<Rightarrow> pp_state \<Rightarrow> (pp_state \<times> bool) ppres" where
  "handler_call env H_replace m s = no_reprocess (replace_handle m s)"
| "handler_call env H_macro m s = no_reprocess (macro_handle m s)"
| "handler_call env H_macro_term m s = no_reprocess (macro_term_handle s)"
| "handler_call env H_define m s = define_handle s"
| "handler_call env H_macro_def m s = macro_def_handle s"
| "handler_call env H_c_define m s = c_define_handle s"
| "handler_call env H_if m s = with_parameters env s (if_handle False)"
| "handler_call env H_c_if m s = with_parameters env s (if_handle True)"
| "handler_call env H_c_ifdef m s = with_parameters env s (ifdef_general_handle True)"
| "handler_call env H_c_ifndef m s = with_parameters env s (ifdef_general_handle False)"
| "handler_call env H_else m s = no_reprocess (else_handle False s)"
| "handler_call env H_c_else m s = no_reprocess (else_handle True s)"
| "handler_call env H_endif m s = no_reprocess (endif_handle False s)"
| "handler_call env H_c_endif m s = no_reprocess (endif_handle True s)"
| "handler_call env H_line m s = with_parameters env s (line_handle False)"
| "handler_call env H_c_line m s = with_parameters env s (line_handle True)"
| "handler_call env H_uline m s = with_parameters env s uline_handle"
| "handler_call env H_include m s = PUndef"
| "handler_call env H_c_include m s = PUndef"

definition match_call :: "includer \<Rightarrow> pp_env \<Rightarrow> match_t \<Rightarrow> pp_state \<Rightarrow> (pp_state \<times> bool) ppres option" where
  "match_call inc env m s =
     (if m_handler m = H_include \<or> m_handler m = H_c_include then
        ppo_bind (Some (ppparam_get env s)) (\<lambda>(result, s).
        ppo_bind (include_handle inc env (m_handler m = H_c_include) result s) (\<lambda>s.
        Some (PRet (s, False))))
      else Some (handler_call env (m_handler m) m s))"

section \<open>The main loop\<close>

text \<open>
  One match: the test, and if it succeeds the removal of the text and the call. With an empty
  text and an empty output the loop that looks for newlines in the text does not end.
\<close>

definition match_step :: "includer \<Rightarrow> pp_env \<Rightarrow> match_t \<Rightarrow> pp_state \<Rightarrow> (pp_state \<times> bool) ppres option" where
  "match_step inc env m s =
     ppo_bind (Some (ppimpl_match_test s m)) (\<lambda>(matches, s).
       if \<not> matches then Some (PRet (s, False))
       else if cached_output s = [] then None
       else
         (let n = length (cached_output s) - length (m_text m);
              newlines = length (filter (\<lambda>c. c = NEWLINE) (drop n (cached_output s)));
              s = s\<lparr>actual_line := actual_line s - of_nat newlines,
                    cached_output := delete_range n (length (cached_output s) - 1) (cached_output s),
                    print_index := 0\<rparr>
          in match_call inc env m s))"

text \<open>All matches from number \<open>i\<close> on, from the first one again when a handler asks for it.\<close>

partial_function (option) match_loop :: "includer \<Rightarrow> pp_env \<Rightarrow> nat \<Rightarrow> pp_state \<Rightarrow> pp_state ppres option" where
  "match_loop inc env i s =
     (if i < length (handlers s) then
        ppo_bind (match_step inc env (handlers s ! i) s) (\<lambda>(s, reprocess).
          match_loop inc env (if reprocess then 0 else i + 1) s)
      else Some (PRet s))"

text \<open>One character from the input to the output.\<close>

definition pp_fetch :: "pp_state \<Rightarrow> pp_state ppres" where
  "pp_fetch s =
     pp_bind (ppimpl_get_input s) (\<lambda>(c, s).
       let s = (if c = NEWLINE then s\<lparr>actual_line := actual_line s + 1\<rparr> else s);
           s = (if c = NEWLINE \<and> actual_line s \<noteq> current_line s
                then (ppimpl_oprintf (NEWLINE # line_mark (current_line s) (current_filename s)) s)
                       \<lparr>actual_line := current_line s\<rparr>
                else s)
       in PRet (ppimpl_track_strings (s\<lparr>cached_output := cached_output s @ [c]\<rparr>)))"

partial_function (option) process_loop :: "includer \<Rightarrow> pp_env \<Rightarrow> pp_state \<Rightarrow> pp_state ppres option" where
  "process_loop inc env s =
     (if \<not> ppimpl_has_input s then Some (PRet s)
      else ppo_bind (Some (pp_fetch s)) (\<lambda>s.
        ppo_bind (if in_single_string s \<or> in_double_string s then Some (PRet s)
                  else match_loop inc env 0 s) (\<lambda>s.
        process_loop inc env s)))"

declare match_loop.simps [code] process_loop.simps [code]

text \<open>
  The state when everything was read; its output is then handed to the callback, one character
  after the other, in the order of the list.
\<close>

primrec pp_nested :: "pp_env \<Rightarrow> nat \<Rightarrow> includer" where
  "pp_nested env 0 s = None"
| "pp_nested env (Suc d) s = process_loop (pp_nested env d) env s"

definition ppimpl_process :: "pp_env \<Rightarrow> nat \<Rightarrow> pp_state \<Rightarrow> cstr ppres option" where
  "ppimpl_process env d s =
     ppo_bind (process_loop (pp_nested env d) env s) (\<lambda>s. Some (PRet (cached_output s)))"

definition ppimpl :: "pp_env \<Rightarrow> nat \<Rightarrow> cstr \<Rightarrow> int \<Rightarrow> cstr \<Rightarrow> cstr \<Rightarrow> cstr ppres option" where
  "ppimpl env d filename line lang source =
     ppimpl_process env d (ppimpl_new env filename line lang source)"

section \<open>The tools\<close>

text \<open>
  \<^verbatim>\<open>dtpp\<close> asks \<open>feof\<close> before it reads, which only knows of the end once it has been read: the
  last character is the \<open>char\<close> that -1 becomes. The assembler and the compiler read through
  the buffered reader (\<^verbatim>\<open>ppcompat.c\<close>), which knows.
\<close>

definition dtpp_source :: "u8 list \<Rightarrow> cstr" where
  "dtpp_source content = content @ [word_of_int (-1)]"

definition dtpp :: "pp_env \<Rightarrow> nat \<Rightarrow> cstr \<Rightarrow> u8 list \<Rightarrow> cstr ppres option" where
  "dtpp env d lang content = ppimpl env d (c_str ''<stdin>'') 0 lang (dtpp_source content)"

definition pp_do :: "pp_env \<Rightarrow> nat \<Rightarrow> cstr \<Rightarrow> cstr \<Rightarrow> bfile \<Rightarrow> cstr ppres option" where
  "pp_do env d lang path file = ppimpl env d path 1 lang (bfread_all file)"

end
