(* ===== verification/Pp_Match.thy ===== *)
theory Pp_Match
  imports Pp_Run "HOL-Library.Sublist"
begin

text \<open>
  How the main loop of the preprocessor passes over the words, the strings and the other
  characters of a line: which matches succeed (the tests of \<^verbatim>\<open>ppimpl.c\<close> as functions of the input
  and the output), what peeking at the next character leaves behind, and the state after each
  word.
\<close>

section \<open>Peeking\<close>

text \<open>The test of an identifier reads the next character and puts it back.\<close>

definition pp_peek :: "pp_state \<Rightarrow> pp_state" where
  "pp_peek s = (case ppimpl_get_input s of PRet (c, t) \<Rightarrow> pp_unread c t | _ \<Rightarrow> s)"

definition pp_stream :: "pp_state \<Rightarrow> cstr" where
  "pp_stream s = cached_input s @ pp_source s"

lemma peek_frame [simp]:
  "cached_output (pp_peek s) = cached_output s" "handlers (pp_peek s) = handlers s"
  "scopes (pp_peek s) = scopes s" "in_single_string (pp_peek s) = in_single_string s"
  "in_double_string (pp_peek s) = in_double_string s" "current_filename (pp_peek s) = current_filename s"
  "pp_stream (pp_peek s) = pp_stream s"
  by (auto simp: pp_peek_def ppimpl_get_input_def pp_unread_def pp_stream_def split: list.splits)

lemma peeks_frame [simp]:
  "cached_output ((pp_peek ^^ j) s) = cached_output s" "handlers ((pp_peek ^^ j) s) = handlers s"
  "scopes ((pp_peek ^^ j) s) = scopes s" "in_single_string ((pp_peek ^^ j) s) = in_single_string s"
  "in_double_string ((pp_peek ^^ j) s) = in_double_string s"
  "current_filename ((pp_peek ^^ j) s) = current_filename s" "pp_stream ((pp_peek ^^ j) s) = pp_stream s"
  by (induction j) simp_all

section \<open>Which matches succeed\<close>

definition peeks_at :: "cstr \<Rightarrow> match_t \<Rightarrow> bool" where
  "peeks_at out m \<longleftrightarrow>
     ends_with (case_insensitive m) (m_text m) out \<and> \<not> line_start_only m \<and> identifier_only m"

definition isolated_in :: "cstr \<Rightarrow> cstr \<Rightarrow> cstr \<Rightarrow> bool" where
  "isolated_in stream out text \<longleftrightarrow>
     (stream = [] \<or> ppimpl_isolates (hd stream) False) \<and>
     (length out \<le> length text \<or> ppimpl_isolates (out ! (length out - length text - 1)) True)"

definition matches :: "cstr \<Rightarrow> cstr \<Rightarrow> match_t \<Rightarrow> bool" where
  "matches stream out m \<longleftrightarrow>
     ends_with (case_insensitive m) (m_text m) out \<and>
     (if line_start_only m then at_line_start (rev (take (length out - length (m_text m)) out))
      else identifier_only m \<longrightarrow> isolated_in stream out (m_text m))"

lemma match_test_eq:
  "ppimpl_match_test s m =
     PRet (matches (pp_stream s) (cached_output s) m,
       if peeks_at (cached_output s) m then pp_peek s else s)"
proof (cases "pp_stream s")
  case Nil
  then have "\<not> ppimpl_has_input s" "pp_peek s = s"
    by (simp_all add: pp_stream_def ppimpl_has_input_def pp_peek_def ppimpl_get_input_def)
  with Nil show ?thesis
    by (simp add: ppimpl_match_test_def matches_def peeks_at_def isolated_in_def Let_def not_less_eq_eq)
next
  case (Cons c cs)
  then have in': "ppimpl_has_input s" by (auto simp: pp_stream_def ppimpl_has_input_def)
  obtain t where t: "ppimpl_get_input s = PRet (c, t)"
    using Cons by (cases "cached_input s") (auto simp: pp_stream_def ppimpl_get_input_def)
  then have "pp_peek s = pp_unread c t" by (simp add: pp_peek_def)
  with Cons in' t show ?thesis
    by (simp add: ppimpl_match_test_def matches_def peeks_at_def isolated_in_def Let_def not_less_eq_eq)
qed

section \<open>The loop over the matches\<close>

lemma match_step_fails:
  assumes "\<not> matches (pp_stream s) (cached_output s) m"
  shows "match_step inc env m s =
    Some (PRet (if peeks_at (cached_output s) m then pp_peek s else s, False))"
  using assms by (simp add: match_step_def match_test_eq)

lemma match_loop_fails:
  assumes "handlers s = pre @ ms @ post" and "\<forall>m \<in> set ms. \<not> matches (pp_stream s) (cached_output s) m"
  shows "match_loop inc env (length pre) s =
    match_loop inc env (length pre + length ms)
      ((pp_peek ^^ length (filter (peeks_at (cached_output s)) ms)) s)"
  using assms
proof (induction ms arbitrary: pre s)
  case (Cons m ms)
  let ?t = "if peeks_at (cached_output s) m then pp_peek s else s"
  have "match_loop inc env (length pre) s = match_loop inc env (length (pre @ [m])) ?t"
    using Cons.prems match_step_fails [of s m inc env]
    by (subst match_loop.simps) (simp add: nth_append)
  also have "\<dots> = match_loop inc env (length (pre @ [m]) + length ms)
      ((pp_peek ^^ length (filter (peeks_at (cached_output ?t)) ms)) ?t)"
    using Cons.prems by (intro Cons.IH) (auto split: if_splits)
  finally show ?case by (simp add: funpow_swap1)
qed simp

lemma match_loop_end: "length (handlers s) \<le> i \<Longrightarrow> match_loop inc env i s = Some (PRet s)"
  by (subst match_loop.simps) simp

lemma match_loop_none:
  assumes "\<forall>m \<in> set (handlers s). \<not> matches (pp_stream s) (cached_output s) m"
  shows "match_loop inc env 0 s =
    Some (PRet ((pp_peek ^^ length (filter (peeks_at (cached_output s)) (handlers s))) s))"
  using match_loop_fails [of s "[]" "handlers s" "[]" inc env] assms by (simp add: match_loop_end)

section \<open>The input of a line\<close>

text \<open>
  Line \<open>k\<close> is being read: \<open>x\<close> is left of it, \<open>r\<close> comes after its newline, and the newline has
  been peeked at \<open>q\<close> times. The first time it was still in the source and is counted as the end
  of a line of the file, the other times as a line that was put out.
\<close>

definition line_input :: "pp_state \<Rightarrow> u32 \<Rightarrow> cstr \<Rightarrow> cstr \<Rightarrow> nat \<Rightarrow> bool" where
  "line_input s k x r q \<longleftrightarrow>
     (if q = 0 then
        (\<exists>y. x = cached_input s @ y \<and> pp_source s = y @ NEWLINE # r) \<and>
        current_line s = k \<and> actual_line s = k
      else
        cached_input s = x @ [NEWLINE] \<and> pp_source s = r \<and>
        current_line s = k + 1 \<and> actual_line s = k + of_nat (q - 1)) \<and>
     NEWLINE \<notin> set x"

lemma line_input_stream: "line_input s k x r q \<Longrightarrow> pp_stream s = x @ NEWLINE # r"
  by (auto simp: line_input_def pp_stream_def split: if_splits)

lemma line_input_has: "line_input s k x r q \<Longrightarrow> ppimpl_has_input s"
  by (auto simp: line_input_def ppimpl_has_input_def split: if_splits)

lemma line_input_peek:
  assumes "line_input s k x r q"
  shows "line_input (pp_peek s) k x r (if x = [] then Suc q else q)"
proof (cases "q = 0")
  case True
  with assms obtain y where "x = cached_input s @ y" "pp_source s = y @ NEWLINE # r"
    "current_line s = k" "actual_line s = k" "NEWLINE \<notin> set x"
    by (auto simp: line_input_def)
  with True show ?thesis
    by (cases "cached_input s"; cases y)
      (auto simp: line_input_def pp_peek_def ppimpl_get_input_def pp_unread_def)
next
  case False
  then obtain n where "q = Suc n" by (cases q) auto
  with assms show ?thesis
    by (cases x) (auto simp: line_input_def pp_peek_def ppimpl_get_input_def pp_unread_def)
qed

lemma line_input_peeks:
  "line_input s k x r q \<Longrightarrow> line_input ((pp_peek ^^ j) s) k x r (if x = [] then q + j else q)"
proof (induction j)
  case (Suc j)
  then show ?case using line_input_peek [OF Suc.IH [OF Suc.prems]] by (cases "x = []") simp_all
qed (cases "x = []", simp_all)

lemma line_input_get:
  assumes "line_input s k (c # x) r q"
  obtains t where "ppimpl_get_input s = PRet (c, t)" and "line_input t k x r q"
    and "cached_output t = cached_output s" and "handlers t = handlers s" and "scopes t = scopes s"
    and "in_single_string t = in_single_string s" and "in_double_string t = in_double_string s"
    and "current_filename t = current_filename s"
proof (cases "q = 0")
  case True
  with assms show thesis
    by (cases "cached_input s") (auto simp: line_input_def ppimpl_get_input_def intro!: that)
next
  case False
  with assms show thesis
    by (auto simp: line_input_def ppimpl_get_input_def intro!: that)
qed


section \<open>Moving one character\<close>

text \<open>The state after the loop of strings: a function of the output and of the two marks.\<close>

lemma track_plain:
  assumes "\<not> in_single_string s" and "\<not> in_double_string s" and "c \<noteq> 39" and "c \<noteq> 34"
  shows "ppimpl_track_strings (s\<lparr>cached_output := out @ [c]\<rparr>) = s\<lparr>cached_output := out @ [c]\<rparr>"
  using assms by (simp add: ppimpl_track_strings_def Let_def)

lemma line_input_update [simp]:
  "line_input (s\<lparr>cached_output := out\<rparr>) k x r q = line_input s k x r q"
  "line_input (s\<lparr>in_single_string := b\<rparr>) k x r q = line_input s k x r q"
  "line_input (s\<lparr>in_double_string := b\<rparr>) k x r q = line_input s k x r q"
  "line_input (s\<lparr>handlers := hs\<rparr>) k x r q = line_input s k x r q"
  "line_input (s\<lparr>print_index := i\<rparr>) k x r q = line_input s k x r q"
  by (simp_all add: line_input_def)

text \<open>
  What stays the same from character to character: the matches, no scope, the name of the
  file.
\<close>

definition pp_same :: "pp_state \<Rightarrow> pp_state \<Rightarrow> bool" where
  "pp_same s t \<longleftrightarrow> handlers t = handlers s \<and> scopes t = scopes s \<and> current_filename t = current_filename s"

lemma pp_same_refl [simp]: "pp_same s s"
  by (simp add: pp_same_def)

lemma pp_same_trans: "pp_same s t \<Longrightarrow> pp_same t u \<Longrightarrow> pp_same s u"
  by (simp add: pp_same_def)

definition outside :: "pp_state \<Rightarrow> bool" where
  "outside s \<longleftrightarrow> \<not> in_single_string s \<and> \<not> in_double_string s"

lemma fetch_char:
  assumes "line_input s k (c # x) r q"
  obtains t where "pp_fetch s = PRet (ppimpl_track_strings (t\<lparr>cached_output := cached_output s @ [c]\<rparr>))"
    and "line_input t k x r q" and "pp_same s t" and "in_single_string t = in_single_string s"
    and "in_double_string t = in_double_string s"
proof -
  have c: "c \<noteq> NEWLINE" using assms by (auto simp: line_input_def)
  from assms obtain t where t: "ppimpl_get_input s = PRet (c, t)" "line_input t k x r q"
    "cached_output t = cached_output s" "pp_same s t" "in_single_string t = in_single_string s"
    "in_double_string t = in_double_string s"
    by (rule line_input_get) (simp add: pp_same_def)
  have "pp_fetch s = PRet (ppimpl_track_strings (t\<lparr>cached_output := cached_output s @ [c]\<rparr>))"
    using t c by (simp add: pp_fetch_def)
  then show thesis by (rule that [OF _ t(2,4-6)])
qed

lemma fetch_plain:
  assumes "line_input s k (c # x) r q" and "outside s" and "c \<noteq> 39" and "c \<noteq> 34"
  obtains t where "pp_fetch s = PRet t" and "line_input t k x r q" and "pp_same s t" and "outside t"
    and "cached_output t = cached_output s @ [c]"
proof -
  from assms(1) obtain t where
    "pp_fetch s = PRet (ppimpl_track_strings (t\<lparr>cached_output := cached_output s @ [c]\<rparr>))"
    "line_input t k x r q" "pp_same s t" "in_single_string t = in_single_string s"
    "in_double_string t = in_double_string s" by (rule fetch_char)
  with assms(2-4) show thesis
    by (intro that [of "t\<lparr>cached_output := cached_output s @ [c]\<rparr>"])
      (simp_all add: track_plain outside_def pp_same_def)
qed

text \<open>The newline: when it was peeked at, the numbers differ and a line mark comes first.\<close>

definition mark_line :: "u32 \<Rightarrow> cstr \<Rightarrow> cstr" where
  "mark_line n name = NEWLINE # filter (\<lambda>c. c \<noteq> 0) (line_mark n name)"

lemma fetch_newline:
  assumes "line_input s k [] r q" and "outside s" and "q < 2 ^ 32"
  obtains t where "pp_fetch s = PRet t" and "cached_input t = []" and "pp_source t = r"
    and "current_line t = k + 1" and "actual_line t = k + 1" and "pp_same s t" and "outside t"
    and "cached_output t =
      cached_output s @ (if q = 0 then [] else mark_line (k + 1) (current_filename s)) @ [NEWLINE]"
proof (cases "q = 0")
  case True
  then have "cached_input s = []" "pp_source s = NEWLINE # r" "current_line s = k" "actual_line s = k"
    using assms(1) by (auto simp: line_input_def)
  with True assms(2) show thesis
    by (intro that [of "s\<lparr>pp_source := r, current_line := k + 1, actual_line := k + 1,
        cached_output := cached_output s @ [NEWLINE]\<rparr>"])
      (simp_all add: pp_fetch_def ppimpl_get_input_def ppimpl_track_strings_def Let_def outside_def pp_same_def)
next
  case False
  then have in': "cached_input s = [NEWLINE]" "pp_source s = r" "current_line s = k + 1"
    "actual_line s = k + of_nat (q - 1)"
    using assms(1) by (auto simp: line_input_def)
  have "(of_nat q :: u32) \<noteq> 0"
    using False assms(3) by (auto simp: word_of_nat_eq_0_iff dest: dvd_imp_le)
  then have "k + of_nat (q - 1) + 1 + 1 \<noteq> k + 1"
    using False by (simp add: of_nat_diff)
  with False assms(2) in' show thesis
    by (intro that [of "s\<lparr>cached_input := [], actual_line := k + 1,
        cached_output := cached_output s @ mark_line (k + 1) (current_filename s) @ [NEWLINE]\<rparr>"])
      (simp_all add: pp_fetch_def ppimpl_get_input_def ppimpl_track_strings_def Let_def outside_def
        pp_same_def oprintf_eq mark_line_def)
qed

section \<open>Printing in front of the input\<close>

lemma pp_insert_fold:
  assumes "0 \<notin> set v" and "NEWLINE \<notin> set v" and "print_index s \<le> length (cached_input s)"
  shows "fold (\<lambda>c s. if c = 0 then s
      else pp_insert c (if c = NEWLINE then s\<lparr>actual_line := actual_line s + 1\<rparr> else s)) v s =
    s\<lparr>print_index := print_index s + length v,
      cached_input := take (print_index s) (cached_input s) @ v @ drop (print_index s) (cached_input s)\<rparr>"
  using assms
proof (induction v arbitrary: s)
  case (Cons c v)
  then show ?case by (simp add: pp_insert_def Let_def)
qed simp

lemma printf_front:
  assumes "0 \<notin> set v" and "NEWLINE \<notin> set v" and "print_index s = 0"
  shows "ppimpl_printf v s = s\<lparr>print_index := length v, cached_input := v @ cached_input s\<rparr>"
  using assms pp_insert_fold [of v s]
  by (simp add: ppimpl_printf_def pp_count_def pp_store_def Let_def nth_append)

lemma line_input_printf:
  assumes "line_input s k x r q" and "0 \<notin> set v" and "NEWLINE \<notin> set v" and "print_index s = 0"
  shows "line_input (ppimpl_printf v s) k (v @ x) r q"
  using assms by (auto simp: printf_front line_input_def)

section \<open>The last line of the output\<close>

definition last_line :: "cstr \<Rightarrow> cstr" where
  "last_line out = rev (takeWhile (\<lambda>c. c \<noteq> NEWLINE) (rev out))"

abbreviation (input) blank :: "u8 \<Rightarrow> bool" where
  "blank c \<equiv> c = 32 \<or> c = 9"

lemma last_line_simps [simp]:
  "last_line [] = []" "last_line (out @ [c]) = (if c = NEWLINE then [] else last_line out @ [c])"
  by (simp_all add: last_line_def)

lemma last_line_append: "NEWLINE \<notin> set e \<Longrightarrow> last_line (out @ e) = last_line out @ e"
proof -
  assume "NEWLINE \<notin> set e"
  then have "takeWhile (\<lambda>c. c \<noteq> NEWLINE) (rev e) = rev e" "list_all (\<lambda>c. c \<noteq> NEWLINE) (rev e)"
    by (auto simp: takeWhile_eq_all_conv list_all_iff)
  then show ?thesis by (simp add: last_line_def takeWhile_append list_all_iff)
qed

lemma last_line_split: "\<exists>p. out = p @ last_line out"
proof -
  have "out = rev (dropWhile (\<lambda>c. c \<noteq> NEWLINE) (rev out)) @ last_line out"
    unfolding last_line_def rev_append [symmetric] by simp
  then show ?thesis ..
qed

lemma last_line_newline: "NEWLINE \<notin> set (last_line out)"
  by (auto simp: last_line_def dest: set_takeWhileD)

lemma at_line_start_iff: "at_line_start (rev out) \<longleftrightarrow> (\<forall>c \<in> set (last_line out). blank c)"
proof -
  have "at_line_start xs \<longleftrightarrow> (\<forall>c \<in> set (takeWhile (\<lambda>c. c \<noteq> NEWLINE) xs). blank c)" for xs
    by (induction xs) auto
  then show ?thesis by (simp add: last_line_def)
qed

lemma tolower_fixed: "pp_tolower c = d \<longleftrightarrow> c = d" if "d < 65"
proof -
  have "c + 32 \<noteq> d" if "65 \<le> c" "c \<le> 90"
  proof
    assume "c + 32 = d"
    then have "unat (c + 32) < 65" using \<open>d < 65\<close> by (simp add: word_less_nat_alt)
    moreover have "unat (c + 32) = unat c + 32"
      using that by (simp add: unat_word_ariths word_le_nat_alt)
    ultimately show False using that by (simp add: word_le_nat_alt)
  qed
  moreover have "\<not> (65 \<le> d \<and> d \<le> 90)" using that by auto
  ultimately show ?thesis by (auto simp: pp_tolower_def in_range_def)
qed

text \<open>A directive matches when it is all that the line has, behind its white space.\<close>

lemma directive_matches:
  assumes "line_start_only m" and "case_insensitive m" and "m_text m = d # ds"
    and "d < 65" and "\<not> blank d" and "NEWLINE \<notin> set (m_text m)"
  shows "matches st out m \<longleftrightarrow>
    map pp_tolower (dropWhile blank (last_line out)) = map pp_tolower (m_text m)"
proof
  let ?n = "length out - length (m_text m)"
  define p e where "p = take ?n out" and "e = drop ?n out"
  assume "matches st out m"
  then have e: "map pp_tolower e = map pp_tolower (m_text m)" and p: "\<forall>c \<in> set (last_line p). blank c"
    using assms(1,2) by (simp_all add: matches_def ends_with_def p_def e_def Let_def at_line_start_iff)
  have "NEWLINE \<notin> set e"
  proof
    assume "NEWLINE \<in> set e"
    then have "pp_tolower NEWLINE \<in> set (map pp_tolower e)" by auto
    then obtain c where "c \<in> set (m_text m)" "pp_tolower c = pp_tolower NEWLINE"
      unfolding e by auto
    then show False using assms(6) tolower_fixed [of NEWLINE NEWLINE] tolower_fixed [of NEWLINE c] by simp
  qed
  then have "last_line out = last_line p @ e"
    using last_line_append [of e p] by (simp add: p_def e_def)
  moreover obtain c cs where c: "e = c # cs" using e assms(3) by (cases e) auto
  moreover have "\<not> blank c"
    using e c assms(3-5) tolower_fixed [of d d] tolower_fixed [of d c] by auto
  ultimately have "dropWhile blank (last_line out) = e"
    using p by (simp add: dropWhile_append3)
  with e show "map pp_tolower (dropWhile blank (last_line out)) = map pp_tolower (m_text m)" by simp
next
  let ?D = "dropWhile blank (last_line out)"
  assume D: "map pp_tolower ?D = map pp_tolower (m_text m)"
  have len: "length ?D = length (m_text m)" using arg_cong [OF D, of length] by simp
  obtain q where "out = q @ last_line out" using last_line_split by blast
  then have out: "out = (q @ takeWhile blank (last_line out)) @ ?D" by simp
  define p where "p = q @ takeWhile blank (last_line out)"
  have "NEWLINE \<notin> set ?D" using last_line_newline [of out] by (auto dest: set_dropWhileD)
  then have "last_line out = last_line p @ ?D"
    using last_line_append [of ?D p] out p_def by simp
  then have "last_line p @ ?D = takeWhile blank (last_line out) @ ?D" by simp
  then have "last_line p = takeWhile blank (last_line out)" by blast
  then have "at_line_start (rev p)" by (auto simp: at_line_start_iff dest: set_takeWhileD)
  moreover have out_p: "out = p @ ?D" using out unfolding p_def .
  have "length out = length p + length (m_text m)"
    using arg_cong [OF out_p, of length] unfolding length_append len .
  then have "take (length out - length (m_text m)) out = p" "drop (length out - length (m_text m)) out = ?D"
    "length (m_text m) \<le> length out"
    using arg_cong [OF out_p, of "take (length p)"] arg_cong [OF out_p, of "drop (length p)"] by simp_all
  ultimately show "matches st out m"
    using D assms(1,2) by (simp add: matches_def ends_with_def)
qed

section \<open>Pieces of a line\<close>

text \<open>Words are the maximal runs of the characters of identifiers; strings are taken whole.\<close>

datatype piece = Word cstr | Sep u8 | Quoted u8 cstr

fun piece_text :: "piece \<Rightarrow> cstr" where
  "piece_text (Word w) = w"
| "piece_text (Sep c) = [c]"
| "piece_text (Quoted q b) = q # b @ [q]"

definition pieces_text :: "piece list \<Rightarrow> cstr" where
  "pieces_text ps = concat (map piece_text ps)"

definition ident_char :: "u8 \<Rightarrow> bool" where
  "ident_char c \<longleftrightarrow> \<not> ppimpl_isolates c False"

definition ident :: "cstr \<Rightarrow> bool" where
  "ident w \<longleftrightarrow> w \<noteq> [] \<and> list_all ident_char w"

text \<open>
  A digit in front of a name does not protect the name: in \<open>X9NAME\<close> the end is replaced. Words
  in which this happens are left out.
\<close>

definition clean_word :: "cstr list \<Rightarrow> cstr \<Rightarrow> bool" where
  "clean_word names w \<longleftrightarrow>
     (\<forall>n \<in> set names. \<forall>k < length w. drop k w = n \<longrightarrow> k = 0 \<or> \<not> ppimpl_isolates (w ! (k - 1)) True)"

fun piece_ok :: "cstr list \<Rightarrow> piece \<Rightarrow> bool" where
  "piece_ok names (Word w) \<longleftrightarrow> ident w \<and> clean_word names w"
| "piece_ok names (Sep c) \<longleftrightarrow> \<not> ident_char c \<and> c \<noteq> NEWLINE \<and> c \<noteq> 34 \<and> c \<noteq> 39 \<and> c \<noteq> 0 \<and> c \<noteq> 1"
| "piece_ok names (Quoted q b) \<longleftrightarrow>
     (q = 34 \<or> q = 39) \<and> q \<notin> set b \<and> NEWLINE \<notin> set b \<and> 0 \<notin> set b \<and> 92 \<notin> set b"

fun words_apart :: "piece list \<Rightarrow> bool" where
  "words_apart (Word v # Word w # ps) = False"
| "words_apart (p # ps) = words_apart ps"
| "words_apart [] = True"

definition pieces_ok :: "cstr list \<Rightarrow> piece list \<Rightarrow> bool" where
  "pieces_ok names ps \<longleftrightarrow> list_all (piece_ok names) ps \<and> words_apart ps"

text \<open>A line that is no directive: its first character is neither a dot nor a hash.\<close>

definition line_safe :: "cstr \<Rightarrow> bool" where
  "line_safe l \<longleftrightarrow> (case dropWhile blank l of [] \<Rightarrow> True | c # _ \<Rightarrow> c \<noteq> 46 \<and> c \<noteq> 35)"

type_synonym definitions = "(cstr \<times> piece list) list"

definition def_match :: "cstr \<times> piece list \<Rightarrow> match_t" where
  "def_match d = new_match (fst d) H_replace \<lparr>ri_full = fst d, ri_replacement = pieces_text (snd d)\<rparr>"

definition asm_matches :: "match_t list" where
  "asm_matches =
     [directive True ''.LINE '' H_line, directive True ''.ULINE '' H_uline,
      directive True ''#LINE '' H_line, directive True ''#ULINE '' H_uline,
      directive True ''.IF '' H_if, directive True ''.ELSE'' H_else, directive True ''.ENDIF'' H_endif,
      directive True ''#IF '' H_if, directive True ''#ELSE'' H_else, directive True ''#ENDIF'' H_endif,
      directive True ''.DEFINE '' H_define, directive True ''.EQUATE '' H_define,
      directive True ''.EQU '' H_define, directive True ''.MACRO '' H_macro_def,
      directive True ''#DEFINE '' H_define, directive True ''#MACRO '' H_macro_def, terminator_match,
      directive True ''.INCLUDE '' H_include, directive True ''#INCLUDE '' H_include]"

definition pp_ready :: "definitions \<Rightarrow> pp_state \<Rightarrow> bool" where
  "pp_ready defs s \<longleftrightarrow> handlers s = asm_matches @ map def_match defs \<and> scopes s = [] \<and> outside s"

text \<open>
  A value: text that is not white space at either end, starts no directive, and does not
  end in a backslash.
\<close>

definition value_ok :: "cstr list \<Rightarrow> piece list \<Rightarrow> bool" where
  "value_ok names ps \<longleftrightarrow>
     pieces_ok names ps \<and>
     (case pieces_text ps of
        [] \<Rightarrow> False
      | c # _ \<Rightarrow> \<not> pp_isspace c \<and> c \<noteq> 46 \<and> c \<noteq> 35 \<and>
          \<not> pp_isspace (last (pieces_text ps)) \<and> last (pieces_text ps) \<noteq> 92)"

definition defs_ok :: "cstr list \<Rightarrow> definitions \<Rightarrow> bool" where
  "defs_ok names defs \<longleftrightarrow> list_all (\<lambda>(n, v). n \<in> set names \<and> value_ok names v) defs"

definition names_ok :: "cstr list \<Rightarrow> bool" where
  "names_ok names \<longleftrightarrow> list_all ident names"

section \<open>Matches of a line that is no directive\<close>

lemma directive_heads:
  "\<forall>m \<in> set asm_matches. m = terminator_match \<or>
     line_start_only m \<and> case_insensitive m \<and> NEWLINE \<notin> set (m_text m) \<and>
     (\<exists>d ds. m_text m = d # ds \<and> (d = 46 \<or> d = 35))"
  by (simp add: asm_matches_def directive_def c_str_def)

lemma ends_with_suffix: "ends_with False n out \<longleftrightarrow> suffix n out"
  by (auto simp: ends_with_def suffix_def Let_def) (metis append_take_drop_id)

text \<open>A line on which no directive is complete.\<close>

definition line_quiet :: "cstr \<Rightarrow> bool" where
  "line_quiet l \<longleftrightarrow>
     list_all (\<lambda>m. line_start_only m \<longrightarrow> map pp_tolower (dropWhile blank l) \<noteq> map pp_tolower (m_text m)) asm_matches"

lemma safe_quiet:
  assumes "line_safe l"
  shows "line_quiet l"
  unfolding line_quiet_def list_all_iff
proof (intro ballI impI)
  fix m
  assume m: "m \<in> set asm_matches" "line_start_only m"
  then have "m \<noteq> terminator_match" by (auto simp: terminator_match_def)
  with m directive_heads obtain d ds where d: "m_text m = d # ds" "d = 46 \<or> d = 35" by blast
  show "map pp_tolower (dropWhile blank l) \<noteq> map pp_tolower (m_text m)"
  proof (cases "dropWhile blank l")
    case (Cons c cs)
    then have "c \<noteq> 46 \<and> c \<noteq> 35" using assms by (simp add: line_safe_def)
    with d(2) have "pp_tolower c \<noteq> pp_tolower d"
      using tolower_fixed [of d c] tolower_fixed [of d d] by auto
    with Cons d(1) show ?thesis by simp
  next
    case Nil
    show ?thesis unfolding Nil d(1) by simp
  qed
qed

lemma asm_none_match:
  assumes "line_quiet (last_line out)" and "out = [] \<or> last out \<noteq> 1" and "m \<in> set asm_matches"
  shows "\<not> matches st out m"
proof (cases "m = terminator_match")
  case True
  have "suffix macro_terminate out \<Longrightarrow> last out = 1 \<and> out \<noteq> []"
    by (auto simp: suffix_def macro_terminate_def)
  with assms(2) True show ?thesis by (auto simp: matches_def terminator_match_def ends_with_suffix)
next
  case False
  with assms(3) directive_heads obtain d ds where m: "line_start_only m" "case_insensitive m"
    "NEWLINE \<notin> set (m_text m)" "m_text m = d # ds" "d = 46 \<or> d = 35" by blast
  have "map pp_tolower (dropWhile blank (last_line out)) \<noteq> map pp_tolower (m_text m)"
    using assms(1,3) m(1) by (simp add: line_quiet_def list_all_iff)
  with m show ?thesis using directive_matches [of m d ds st out] by auto
qed

lemma def_match_fields [simp]:
  "m_text (def_match d) = fst d" "line_start_only (def_match d) = False"
  "identifier_only (def_match d)" "\<not> case_insensitive (def_match d)"
  "m_handler (def_match d) = H_replace"
  "m_userdata (def_match d) = Some \<lparr>ri_full = fst d, ri_replacement = pieces_text (snd d)\<rparr>"
  by (simp_all add: def_match_def new_match_def)

lemma def_matches: "matches st out (def_match d) \<longleftrightarrow> suffix (fst d) out \<and> isolated_in st out (fst d)"
  by (simp add: matches_def ends_with_suffix)

definition npeeks :: "definitions \<Rightarrow> cstr \<Rightarrow> nat" where
  "npeeks defs out = length (filter (\<lambda>d. suffix (fst d) out) defs)"

lemma npeeks_le: "npeeks defs out \<le> length defs"
  by (simp add: npeeks_def)

lemma asm_no_peek: "m \<in> set asm_matches \<Longrightarrow> \<not> peeks_at out m"
  using bspec [OF directive_heads, of m] by (cases "m = terminator_match") (simp_all add: peeks_at_def terminator_match_def)

lemma peeks_ready: "length (filter (peeks_at out) (asm_matches @ map def_match defs)) = npeeks defs out"
proof -
  have "filter (peeks_at out) asm_matches = []" by (simp add: filter_empty_conv asm_no_peek)
  moreover have "filter (peeks_at out) (map def_match defs) = map def_match (filter (\<lambda>d. suffix (fst d) out) defs)"
    by (simp add: filter_map comp_def peeks_at_def ends_with_suffix)
  ultimately show ?thesis by (simp add: npeeks_def)
qed

section \<open>Characters and words\<close>

text \<open>A character after which nothing matches.\<close>

lemma step_no_match:
  assumes "line_input s k (c # x) r q" and "pp_ready defs s" and "c \<noteq> 39" and "c \<noteq> 34"
    and "line_quiet (last_line (cached_output s @ [c]))" and "c \<noteq> 1"
    and "\<forall>d \<in> set defs. \<not> (suffix (fst d) (cached_output s @ [c]) \<and>
          isolated_in (x @ NEWLINE # r) (cached_output s @ [c]) (fst d))"
  obtains t where "process_loop inc env s = process_loop inc env t"
    and "line_input t k x r (if x = [] then q + npeeks defs (cached_output s @ [c]) else q)"
    and "pp_ready defs t" and "cached_output t = cached_output s @ [c]"
    and "current_filename t = current_filename s"
proof -
  from assms obtain u where u: "pp_fetch s = PRet u" "line_input u k x r q" "pp_same s u" "outside u"
    "cached_output u = cached_output s @ [c]"
    by (elim fetch_plain) (simp_all add: pp_ready_def)
  have h: "handlers u = asm_matches @ map def_match defs"
    using u(3) assms(2) by (simp add: pp_same_def pp_ready_def)
  have "\<not> matches (pp_stream u) (cached_output u) m" if "m \<in> set (handlers u)" for m
  proof (cases "m \<in> set asm_matches")
    case True
    then show ?thesis using asm_none_match [of "cached_output u" m] assms(5,6) by (simp add: u(5))
  next
    case False
    with that obtain d where "d \<in> set defs" "m = def_match d" by (auto simp: h)
    with assms(7) show ?thesis by (simp only: def_matches u(5) line_input_stream [OF u(2)]) blast
  qed
  then have loop: "match_loop inc env 0 u =
      Some (PRet ((pp_peek ^^ npeeks defs (cached_output u)) u))"
    using match_loop_none [of u inc env] peeks_ready [of "cached_output u" defs] by (simp add: h)
  show thesis
  proof (rule that)
    show "process_loop inc env s = process_loop inc env ((pp_peek ^^ npeeks defs (cached_output u)) u)"
      using line_input_has [OF assms(1)] u(1,4) loop
      by (subst process_loop.simps) (simp add: outside_def)
    show "line_input ((pp_peek ^^ npeeks defs (cached_output u)) u) k x r
        (if x = [] then q + npeeks defs (cached_output s @ [c]) else q)"
      using line_input_peeks [OF u(2)] u(5) by simp
  qed (use u h assms(2) in \<open>simp_all add: pp_ready_def outside_def pp_same_def\<close>)
qed

lemma isolates_weaken: "ppimpl_isolates c False \<Longrightarrow> ppimpl_isolates c True"
  by (simp add: ppimpl_isolates_def)

lemma ident_char_plain: "ident_char c \<Longrightarrow> c \<noteq> 39 \<and> c \<noteq> 34 \<and> c \<noteq> 1 \<and> c \<noteq> NEWLINE \<and> c \<noteq> 46 \<and> c \<noteq> 35 \<and> \<not> blank c \<and> c \<noteq> 0"
  by (auto simp: ident_char_def ppimpl_isolates_def in_range_def word_le_nat_alt)

lemma newline_isolates: "\<not> ident_char NEWLINE"
  by (simp add: ident_char_def ppimpl_isolates_def in_range_def)

text \<open>A prefix of the remaining line that is safe is safe.\<close>

lemma line_safe_prefix: "line_safe (l @ x) \<Longrightarrow> line_safe l"
proof (induction l)
  case (Cons c l)
  then show ?case by (cases "blank c") (simp_all add: line_safe_def)
qed (simp add: line_safe_def)

text \<open>A line that stays quiet while a text is added to it.\<close>

definition quiet_along :: "cstr \<Rightarrow> cstr \<Rightarrow> bool" where
  "quiet_along l u \<longleftrightarrow> list_all (\<lambda>i. line_quiet (l @ take i u)) [0..<Suc (length u)]"

lemma quiet_along_iff: "quiet_along l u \<longleftrightarrow> (\<forall>i \<le> length u. line_quiet (l @ take i u))"
  by (auto simp: quiet_along_def list_all_iff less_Suc_eq_le simp del: upt_Suc)

lemma quiet_along_Cons [simp]: "quiet_along l (c # u) \<longleftrightarrow> line_quiet l \<and> quiet_along (l @ [c]) u"
  unfolding quiet_along_iff
proof (intro iffI conjI allI impI)
  assume q: "\<forall>i \<le> length (c # u). line_quiet (l @ take i (c # u))"
  show "line_quiet l" using q [rule_format, of 0] by simp
  show "line_quiet ((l @ [c]) @ take i u)" if "i \<le> length u" for i
    using q [rule_format, of "Suc i"] that by simp
next
  fix i
  assume "line_quiet l \<and> (\<forall>i \<le> length u. line_quiet ((l @ [c]) @ take i u))" "i \<le> length (c # u)"
  then show "line_quiet (l @ take i (c # u))" by (cases i) simp_all
qed

lemma quiet_along_Nil [simp]: "quiet_along l [] \<longleftrightarrow> line_quiet l"
  by (simp add: quiet_along_iff)

lemma quiet_along_append [simp]: "quiet_along l (u @ v) \<longleftrightarrow> quiet_along l u \<and> quiet_along (l @ u) v"
proof (induction u arbitrary: l)
  case Nil
  show ?case by (cases v) auto
qed auto

lemma safe_quiet_along: "line_safe (l @ u @ x) \<Longrightarrow> quiet_along l u"
proof (induction u arbitrary: l)
  case Nil
  then show ?case using safe_quiet line_safe_prefix [of l x] by simp
next
  case (Cons c u)
  then have "line_safe ((l @ [c]) @ u @ x)" "line_safe l"
    using line_safe_prefix [of l "c # u @ x"] by simp_all
  then show ?case using Cons.IH safe_quiet by simp
qed

definition ends_apart :: "cstr \<Rightarrow> bool" where
  "ends_apart out \<longleftrightarrow> out = [] \<or> \<not> ident_char (last out)"

definition starts_apart :: "cstr \<Rightarrow> bool" where
  "starts_apart x \<longleftrightarrow> x = [] \<or> \<not> ident_char (hd x)"

text \<open>Inside a word nothing matches: the next character does not isolate.\<close>

lemma step_in_word:
  assumes "line_input s k (u @ x) r q" and "pp_ready defs s" and "list_all ident_char u" and "x \<noteq> []"
    and "ident_char (hd x)" and "quiet_along (last_line (cached_output s)) u"
  obtains t where "process_loop inc env s = process_loop inc env t" and "line_input t k x r q"
    and "pp_ready defs t" and "cached_output t = cached_output s @ u" and "current_filename t = current_filename s"
  using assms
proof (induction u arbitrary: s thesis)
  case Nil
  show ?case by (rule Nil.prems(1) [of s]) (use Nil.prems in simp_all)
next
  case (Cons c u)
  note c = ident_char_plain [of c]
  have next': "ident_char (hd ((u @ x) @ NEWLINE # r))"
    using Cons.prems(4,6) \<open>x \<noteq> []\<close> by (cases u) simp_all
  have safe: "quiet_along (last_line (cached_output s) @ [c]) u" using Cons.prems(7) by simp
  then have here: "line_quiet (last_line (cached_output s) @ [c])" by (cases u) simp_all
  obtain t where t: "process_loop inc env s = process_loop inc env t" "line_input t k (u @ x) r q"
    "pp_ready defs t" "cached_output t = cached_output s @ [c]" "current_filename t = current_filename s"
  proof (rule step_no_match [of s k c "u @ x" r q defs inc env])
    show "\<forall>d \<in> set defs. \<not> (suffix (fst d) (cached_output s @ [c]) \<and>
        isolated_in ((u @ x) @ NEWLINE # r) (cached_output s @ [c]) (fst d))"
      using next' by (auto simp: isolated_in_def ident_char_def)
    show "line_quiet (last_line (cached_output s @ [c]))"
      using here c Cons.prems(4) by simp
  qed (use Cons.prems c \<open>x \<noteq> []\<close> in \<open>simp_all split: if_splits\<close>)
  show ?case
  proof (rule Cons.IH [OF _ t(2,3)])
    show "quiet_along (last_line (cached_output t)) u"
      using safe c Cons.prems(4) by (simp add: t(4))
  next
    fix v
    assume "process_loop inc env t = process_loop inc env v" "line_input v k x r q" "pp_ready defs v"
      "cached_output v = cached_output t @ u" "current_filename v = current_filename t"
    then show thesis using t by (intro Cons.prems(1) [of v]) simp_all
  qed (use Cons.prems in simp_all)
qed

text \<open>At the end of a word exactly the names that are the word match.\<close>

lemma word_matches:
  assumes "ident w" and "ident n" and "clean_word names w" and "n \<in> set names" and "ends_apart out"
    and "stream = [] \<or> \<not> ident_char (hd stream)"
  shows "suffix n (out @ w) \<and> isolated_in stream (out @ w) n \<longleftrightarrow> n = w"
proof
  assume m: "suffix n (out @ w) \<and> isolated_in stream (out @ w) n"
  have "suffix n w"
  proof (rule ccontr)
    assume "\<not> suffix n w"
    moreover have "suffix w (out @ w)" by (simp add: suffix_def)
    ultimately have "suffix w n" "n \<noteq> w" using m suffix_same_cases [of n "out @ w" w] by auto
    then obtain a where a: "n = a @ w" "a \<noteq> []" by (auto simp: suffix_def)
    with m obtain b where "out = b @ a" by (auto simp: suffix_def)
    with a assms(2,5) show False by (auto simp: ends_apart_def ident_def list_all_iff)
  qed
  then obtain a where a: "w = a @ n" by (auto simp: suffix_def)
  show "n = w"
  proof (cases "a = []")
    case False
    have "length a < length w" using a assms(2) by (simp add: ident_def)
    moreover have "drop (length a) w = n" using a by simp
    ultimately have "length a = 0 \<or> \<not> ppimpl_isolates (w ! (length a - 1)) True"
      using assms(3,4) unfolding clean_word_def by blast
    then have "\<not> ppimpl_isolates (w ! (length a - 1)) True" using False by simp
    moreover have "length (out @ w) - length n - 1 = length out + (length a - 1)"
      using a False by (cases a rule: rev_cases) simp_all
    ultimately show ?thesis
      using m a False by (simp add: isolated_in_def nth_append)
  qed (use a in simp)
next
  assume "n = w"
  moreover have "out \<noteq> [] \<Longrightarrow> (out @ w) ! (length out - 1) = last out"
    by (simp add: nth_append last_conv_nth)
  ultimately show "suffix n (out @ w) \<and> isolated_in stream (out @ w) n"
    using assms(5,6) isolates_weaken [of "last out"]
    by (cases "out = []") (auto simp: suffix_def isolated_in_def ends_apart_def ident_char_def)
qed

lemma no_name_at_end:
  assumes "names_ok names" and "defs_ok names defs" and "d \<in> set defs" and "ends_apart out"
  shows "\<not> suffix (fst d) out"
proof -
  have "ident (fst d)"
    using assms(1-3) by (auto simp: names_ok_def defs_ok_def list_all_iff)
  then have "fst d \<noteq> []" "ident_char (last (fst d))" by (auto simp: ident_def list_all_iff)
  with assms(4) show ?thesis by (auto simp: ends_apart_def suffix_def)
qed

lemma npeeks_apart:
  "names_ok names \<Longrightarrow> defs_ok names defs \<Longrightarrow> ends_apart out \<Longrightarrow> npeeks defs out = 0"
  using no_name_at_end by (simp add: npeeks_def filter_empty_conv)

text \<open>A word that is not defined goes to the output.\<close>

lemma step_word_kept:
  assumes "line_input s k (w @ x) r q" and "pp_ready defs s" and "names_ok names" and "defs_ok names defs"
    and "ident w" and "clean_word names w" and "map_of defs w = None"
    and "ends_apart (cached_output s)" and "starts_apart x" and "quiet_along (last_line (cached_output s)) w"
  obtains t where "process_loop inc env s = process_loop inc env t"
    and "line_input t k x r (if x = [] then q + npeeks defs (cached_output s @ w) else q)"
    and "pp_ready defs t" and "cached_output t = cached_output s @ w" and "current_filename t = current_filename s"
proof -
  obtain u c where w: "w = u @ [c]" using assms(5) by (cases w rule: rev_cases) (simp_all add: ident_def)
  have id: "list_all ident_char u" "ident_char c" using assms(5) w by (simp_all add: ident_def)
  have safe: "quiet_along (last_line (cached_output s)) u" "line_quiet (last_line (cached_output s) @ w)"
    using assms(10) by (simp_all add: w)
  have l: "NEWLINE \<notin> set w" using assms(1) by (auto simp: line_input_def)
  have "line_input s k (u @ (c # x)) r q" using assms(1) w by simp
  then obtain v where v: "process_loop inc env s = process_loop inc env v" "line_input v k (c # x) r q"
    "pp_ready defs v" "cached_output v = cached_output s @ u" "current_filename v = current_filename s"
    by (rule step_in_word [OF _ assms(2) id(1)])
      (use id safe in simp_all)
  have out: "cached_output v @ [c] = cached_output s @ w" by (simp add: v(4) w)
  show thesis
  proof (rule step_no_match [OF v(2,3), of inc env])
    show "line_quiet (last_line (cached_output v @ [c]))"
      unfolding out by (simp add: last_line_append l safe)
    show "\<forall>d \<in> set defs. \<not> (suffix (fst d) (cached_output v @ [c]) \<and>
        isolated_in (x @ NEWLINE # r) (cached_output v @ [c]) (fst d))"
    proof (rule ballI)
      fix d
      assume d: "d \<in> set defs"
      then have n: "fst d \<in> set names" "ident (fst d)" "fst d \<noteq> w"
        using assms(3,4,7) by (auto simp: names_ok_def defs_ok_def list_all_iff map_of_eq_None_iff)
      have "x @ NEWLINE # r = [] \<or> \<not> ident_char (hd (x @ NEWLINE # r))"
        using assms(9) newline_isolates by (cases x) (simp_all add: starts_apart_def)
      with word_matches [OF assms(5) n(2) assms(6) n(1) assms(8)] n(3)
      show "\<not> (suffix (fst d) (cached_output v @ [c]) \<and>
          isolated_in (x @ NEWLINE # r) (cached_output v @ [c]) (fst d))"
        unfolding out by blast
    qed
  next
    fix t
    assume "process_loop inc env v = process_loop inc env t"
      "line_input t k x r (if x = [] then q + npeeks defs (cached_output v @ [c]) else q)"
      "pp_ready defs t" "cached_output t = cached_output v @ [c]" "current_filename t = current_filename v"
    then show thesis unfolding out v(1) [symmetric] v(5) by (rule that)
  qed (use ident_char_plain [OF id(2)] in simp_all)
qed

text \<open>A word that is defined is taken back from the output, and its value goes in front of the input.\<close>

lemma match_step_replace:
  assumes "line_input s k x r q" and "cached_output s = out @ w" and "w \<noteq> []" and "NEWLINE \<notin> set w"
    and "matches (pp_stream s) (cached_output s) (def_match (w, v))"
    and "0 \<notin> set (pieces_text v)" and "NEWLINE \<notin> set (pieces_text v)"
  obtains t where "match_step inc env (def_match (w, v)) s = Some (PRet (t, False))"
    and "line_input t k (pieces_text v @ x) r (if x = [] then Suc q else q)"
    and "cached_output t = out" and "pp_same s t"
    and "in_single_string t = in_single_string s" and "in_double_string t = in_double_string s"
proof -
  have p: "peeks_at (cached_output s) (def_match (w, v))"
    using assms(5) by (simp add: matches_def peeks_at_def)
  have nl: "filter (\<lambda>c. c = NEWLINE) w = []" using assms(4) by (simp add: filter_empty_conv) blast
  have d: "delete_range (length out) (length (out @ w) - 1) (out @ w) = out"
    using assms(3) by (cases w) (simp_all add: delete_range_def)
  let ?s = "(pp_peek s)\<lparr>actual_line := actual_line (pp_peek s), cached_output := out, print_index := 0\<rparr>"
  have v: "c_string (pieces_text v) = pieces_text v"
    using assms(6) by (simp add: c_string_def takeWhile_eq_all_conv) blast
  have ne: "cached_output s \<noteq> []" using assms(2,3) by simp
  have "match_step inc env (def_match (w, v)) s = match_call inc env (def_match (w, v)) ?s"
    using assms(2,3,5) p nl d ne by (simp add: match_step_def match_test_eq)
  also have "\<dots> = Some (PRet (ppimpl_printf (pieces_text v) ?s, False))"
    by (simp add: match_call_def replace_handle_def no_reprocess_def v)
  finally have step: "match_step inc env (def_match (w, v)) s =
      Some (PRet (ppimpl_printf (pieces_text v) ?s, False))" .
  have li: "line_input ?s k x r (if x = [] then Suc q else q)"
    using line_input_peek [OF assms(1)] by simp
  show thesis
  proof (rule that [OF step])
    show "line_input (ppimpl_printf (pieces_text v) ?s) k (pieces_text v @ x) r (if x = [] then Suc q else q)"
      by (rule line_input_printf [OF li assms(6,7)]) simp
  qed (simp_all add: printf_front assms(6,7) pp_same_def)
qed

lemma match_loop_at:
  assumes "handlers s = pre @ m # post" and "match_step inc env m s = Some (PRet (t, False))"
  shows "match_loop inc env (length pre) s = match_loop inc env (Suc (length pre)) t"
  using assms by (subst match_loop.simps) (simp add: nth_append)

text \<open>The loop over the matches at the end of a word that is defined.\<close>

lemma match_loop_replace:
  assumes "line_input s k x r q" and "pp_ready (pre @ (w, v) # post) s" and "cached_output s = out @ w"
    and "names_ok names" and "defs_ok names (pre @ (w, v) # post)" and "w \<notin> set (map fst pre)"
    and "ident w" and "clean_word names w" and "ends_apart out" and "starts_apart x"
    and "line_quiet (last_line (out @ w))" and "0 \<notin> set (pieces_text v)" and "NEWLINE \<notin> set (pieces_text v)"
  obtains t q' where "match_loop inc env 0 s = Some (PRet t)"
    and "line_input t k (pieces_text v @ x) r q'" and "pp_ready (pre @ (w, v) # post) t"
    and "cached_output t = out" and "current_filename t = current_filename s"
    and "q' = (if x = [] then Suc (q + npeeks pre (out @ w)) else q)"
proof -
  let ?defs = "pre @ (w, v) # post" and ?out = "out @ w"
  have h: "handlers s = (asm_matches @ map def_match pre) @ def_match (w, v) # map def_match post"
    using assms(2) by (simp add: pp_ready_def)
  have wl: "w \<noteq> []" "ident_char (last w)" using assms(7) by (auto simp: ident_def list_all_iff)
  have nl: "NEWLINE \<notin> set w" using assms(7) ident_char_plain by (auto simp: ident_def list_all_iff)
  have stream: "pp_stream s = x @ NEWLINE # r" by (rule line_input_stream [OF assms(1)])
  have apart: "pp_stream s = [] \<or> \<not> ident_char (hd (pp_stream s))"
    using assms(10) newline_isolates by (cases x) (simp_all add: stream starts_apart_def)
  have names: "ident n \<and> n \<in> set names" if "(n, u) \<in> set ?defs" for n u
    using that assms(4,5) by (auto simp: names_ok_def defs_ok_def list_all_iff)
  have m: "matches (pp_stream s) ?out (def_match (n, u)) \<longleftrightarrow> n = w" if "(n, u) \<in> set ?defs" for n u
    using word_matches [OF assms(7) _ assms(8) _ assms(9) apart, of n] names [OF that]
    by (simp add: def_matches)
  have asm: "\<not> matches (pp_stream s) ?out m" if "m \<in> set asm_matches" for m
    using asm_none_match [OF assms(11) _ that] wl ident_char_plain by auto
  have none: "\<forall>m \<in> set (asm_matches @ map def_match pre). \<not> matches (pp_stream s) (cached_output s) m"
    using asm m assms(3,6) by (fastforce simp: image_iff)
  define u where "u = (pp_peek ^^ npeeks pre ?out) s"
  have 1: "match_loop inc env 0 s = match_loop inc env (length (asm_matches @ map def_match pre)) u"
    using match_loop_fails [of s "[]" "asm_matches @ map def_match pre" "def_match (w, v) # map def_match post" inc env]
      h none peeks_ready [of ?out pre] by (simp add: assms(3) u_def)
  have u: "line_input u k x r (if x = [] then q + npeeks pre ?out else q)"
    unfolding u_def by (rule line_input_peeks [OF assms(1)])
  obtain t where t: "match_step inc env (def_match (w, v)) u = Some (PRet (t, False))"
    "line_input t k (pieces_text v @ x) r (if x = [] then Suc (q + npeeks pre ?out) else q)"
    "cached_output t = out" "pp_same u t" "in_single_string t = in_single_string u"
    "in_double_string t = in_double_string u"
    by (rule match_step_replace [OF u _ wl(1) nl _ assms(12,13), of out inc env])
      (use m [of w v] assms(3) in \<open>simp_all add: u_def split: if_splits\<close>)
  have ht: "handlers t = handlers s" using t(4) by (simp add: pp_same_def u_def)
  have 2: "match_loop inc env (length (asm_matches @ map def_match pre)) u =
      match_loop inc env (Suc (length (asm_matches @ map def_match pre))) t"
    by (rule match_loop_at [OF _ t(1)]) (use h in \<open>simp add: u_def\<close>)
  have no_suffix: "\<not> suffix (fst d) out" if "d \<in> set post" for d
    using no_name_at_end [OF assms(4,5) _ assms(9)] that by simp
  have "filter (peeks_at out) (map def_match post) = []"
    using no_suffix by (auto simp: filter_empty_conv peeks_at_def ends_with_suffix)
  moreover have "\<forall>m \<in> set (map def_match post). \<not> matches (pp_stream t) (cached_output t) m"
    using no_suffix by (auto simp: def_matches t(3))
  ultimately have "match_loop inc env (Suc (length (asm_matches @ map def_match pre))) t = Some (PRet t)"
    using match_loop_fails [of t "(asm_matches @ map def_match pre) @ [def_match (w, v)]" "map def_match post" "[]" inc env]
      ht h by (simp add: t(3) match_loop_end)
  with 1 2 have "match_loop inc env 0 s = Some (PRet t)" by simp
  then show thesis
    by (rule that [OF _ t(2) _ t(3) _ refl])
      (use t ht assms(2) in \<open>simp_all add: pp_ready_def outside_def pp_same_def u_def\<close>)
qed

lemma map_of_first: "map_of ps k = Some v \<Longrightarrow> \<exists>xs ys. ps = xs @ (k, v) # ys \<and> k \<notin> set (map fst xs)"
proof (induction ps)
  case (Cons p ps)
  show ?case
  proof (cases "fst p = k")
    case True
    with Cons.prems show ?thesis by (intro exI [of _ "[]"] exI [of _ ps]) (cases p, auto)
  next
    case False
    with Cons obtain xs ys where "ps = xs @ (k, v) # ys" "k \<notin> set (map fst xs)" by (cases p) auto
    with False show ?thesis by (intro exI [of _ "p # xs"] exI [of _ ys]) auto
  qed
qed simp

lemma step_word_replaced:
  assumes "line_input s k (w @ x) r q" and "pp_ready defs s" and "names_ok names" and "defs_ok names defs"
    and "ident w" and "clean_word names w" and "map_of defs w = Some v"
    and "ends_apart (cached_output s)" and "starts_apart x" and "quiet_along (last_line (cached_output s)) w"
    and "0 \<notin> set (pieces_text v)" and "NEWLINE \<notin> set (pieces_text v)"
  obtains t q' where "process_loop inc env s = process_loop inc env t"
    and "line_input t k (pieces_text v @ x) r q'" and "pp_ready defs t"
    and "cached_output t = cached_output s" and "current_filename t = current_filename s"
    and "if x = [] then q < q' \<and> q' \<le> q + length defs else q' = q"
proof -
  obtain pre post where defs: "defs = pre @ (w, v) # post" "w \<notin> set (map fst pre)"
    using map_of_first [OF assms(7)] by blast
  obtain u c where w: "w = u @ [c]" using assms(5) by (cases w rule: rev_cases) (simp_all add: ident_def)
  have id: "list_all ident_char u" "ident_char c" using assms(5) w by (simp_all add: ident_def)
  have safe: "quiet_along (last_line (cached_output s)) u" "line_quiet (last_line (cached_output s) @ w)"
    using assms(10) by (simp_all add: w)
  have l: "NEWLINE \<notin> set w" using assms(1) by (auto simp: line_input_def)
  have "line_input s k (u @ (c # x)) r q" using assms(1) w by simp
  then obtain y where y: "process_loop inc env s = process_loop inc env y" "line_input y k (c # x) r q"
    "pp_ready defs y" "cached_output y = cached_output s @ u" "current_filename y = current_filename s"
    by (rule step_in_word [OF _ assms(2) id(1)])
      (use id safe in simp_all)
  obtain z where z: "pp_fetch y = PRet z" "line_input z k x r q" "pp_same y z" "outside z"
    "cached_output z = cached_output y @ [c]"
    by (rule fetch_plain [OF y(2)]) (use y(3) ident_char_plain [OF id(2)] in \<open>simp_all add: pp_ready_def\<close>)
  have out: "cached_output z = cached_output s @ w" by (simp add: z y w)
  have "pp_ready defs z" using y(3) z by (simp add: pp_ready_def pp_same_def)
  then obtain t q' where t: "match_loop inc env 0 z = Some (PRet t)" "line_input t k (pieces_text v @ x) r q'"
    "pp_ready defs t" "cached_output t = cached_output s" "current_filename t = current_filename z"
    "q' = (if x = [] then Suc (q + npeeks pre (cached_output s @ w)) else q)"
    using match_loop_replace [OF z(2) _ out assms(3) _ defs(2) assms(5,6,8,9) _ assms(11,12), of post inc env]
      assms(4) safe l unfolding defs(1) by (auto simp: last_line_append)
  show thesis
  proof (rule that [OF _ t(2,3,4)])
    show "process_loop inc env s = process_loop inc env t"
      using y(1) line_input_has [OF y(2)] z(1,4) t(1)
      by (subst (asm) (2) process_loop.simps) (simp add: outside_def)
    show "current_filename t = current_filename s" using t(5) z(3) y(5) by (simp add: pp_same_def)
    have "npeeks pre (cached_output s @ w) < length defs"
      using npeeks_le [of pre "cached_output s @ w"] by (simp add: defs(1))
    then show "if x = [] then q < q' \<and> q' \<le> q + length defs else q' = q"
      by (simp add: t(6))
  qed
qed

text \<open>A string goes to the output as it is; nothing matches in it.\<close>

lemma track_in_string:
  assumes "in_single_string s \<longleftrightarrow> q = 39" and "in_double_string s \<longleftrightarrow> q = 34" and "q = 34 \<or> q = 39"
    and "c \<noteq> q" and "c \<noteq> NEWLINE"
  shows "ppimpl_track_strings (s\<lparr>cached_output := out @ [c]\<rparr>) = s\<lparr>cached_output := out @ [c]\<rparr>"
  using assms by (auto simp: ppimpl_track_strings_def Let_def)

lemma step_string_body:
  assumes "line_input s k (b @ x) r j" and "handlers s = hs" and "scopes s = []"
    and "in_single_string s \<longleftrightarrow> q = 39" and "in_double_string s \<longleftrightarrow> q = 34" and "q = 34 \<or> q = 39"
    and "q \<notin> set b" and "NEWLINE \<notin> set b"
  obtains t where "process_loop inc env s = process_loop inc env t" and "line_input t k x r j"
    and "handlers t = hs" and "scopes t = []" and "cached_output t = cached_output s @ b"
    and "in_single_string t \<longleftrightarrow> q = 39" and "in_double_string t \<longleftrightarrow> q = 34"
    and "current_filename t = current_filename s"
  using assms
proof (induction b arbitrary: s thesis)
  case Nil
  show ?case by (rule Nil.prems(1) [of s]) (use Nil.prems in simp_all)
next
  case (Cons c b)
  have "line_input s k (c # b @ x) r j" using Cons.prems(2) by simp
  then obtain y where y: "pp_fetch s = PRet (ppimpl_track_strings (y\<lparr>cached_output := cached_output s @ [c]\<rparr>))"
    "line_input y k (b @ x) r j" "pp_same s y" "in_single_string y = in_single_string s"
    "in_double_string y = in_double_string s" by (rule fetch_char)
  let ?t = "y\<lparr>cached_output := cached_output s @ [c]\<rparr>"
  have "ppimpl_track_strings ?t = ?t"
    by (rule track_in_string [of _ q]) (use Cons.prems y in auto)
  then have step: "process_loop inc env s = process_loop inc env ?t"
    using line_input_has [OF Cons.prems(2)] y(1,4,5) Cons.prems(5-7)
    by (subst process_loop.simps) auto
  show ?case
  proof (rule Cons.IH [of ?t])
    fix t
    assume "process_loop inc env ?t = process_loop inc env t" "line_input t k x r j" "handlers t = hs"
      "scopes t = []" "cached_output t = cached_output ?t @ b" "in_single_string t \<longleftrightarrow> q = 39"
      "in_double_string t \<longleftrightarrow> q = 34" "current_filename t = current_filename ?t"
    then show thesis using step y(3) by (intro Cons.prems(1) [of t]) (simp_all add: pp_same_def)
  qed (use Cons.prems y in \<open>simp_all add: pp_same_def\<close>)
qed

end
