(* ===== verification/Pp_Text.thy ===== *)
theory Pp_Text
  imports Pp_Match
begin

text \<open>
  What the preprocessor of the assembler makes of a file of definitions and text, as a function
  of the file: every defined word outside strings is replaced by its expansion, and line marks
  keep the numbers of the lines.
\<close>

section \<open>Strings\<close>

lemma string_opens:
  assumes "line_input s k (q # x) r j" and "pp_ready defs s" and "q = 34 \<or> q = 39"
  obtains u where "process_loop inc env s = process_loop inc env u" and "line_input u k x r j"
    and "handlers u = asm_matches @ map def_match defs" and "scopes u = []"
    and "in_single_string u \<longleftrightarrow> q = 39" and "in_double_string u \<longleftrightarrow> q = 34"
    and "cached_output u = cached_output s @ [q]" and "current_filename u = current_filename s"
proof -
  have ready: "handlers s = asm_matches @ map def_match defs" "scopes s = []"
    "\<not> in_single_string s" "\<not> in_double_string s"
    using assms(2) by (simp_all add: pp_ready_def outside_def)
  obtain y where y: "pp_fetch s = PRet (ppimpl_track_strings (y\<lparr>cached_output := cached_output s @ [q]\<rparr>))"
    "line_input y k x r j" "pp_same s y" "in_single_string y = in_single_string s"
    "in_double_string y = in_double_string s" by (rule fetch_char [OF assms(1)])
  define u where "u = ppimpl_track_strings (y\<lparr>cached_output := cached_output s @ [q]\<rparr>)"
  have u: "line_input u k x r j" "handlers u = asm_matches @ map def_match defs" "scopes u = []"
    "in_single_string u \<longleftrightarrow> q = 39" "in_double_string u \<longleftrightarrow> q = 34"
    "cached_output u = cached_output s @ [q]" "current_filename u = current_filename s"
    using assms(3) y(2-5) ready by (auto simp: u_def ppimpl_track_strings_def Let_def pp_same_def)
  have "process_loop inc env s = process_loop inc env u"
    using line_input_has [OF assms(1)] y(1) u(4,5) assms(3)
    by (subst process_loop.simps) (auto simp: u_def)
  then show thesis by (rule that [OF _ u])
qed

lemma string_closes:
  assumes "line_input v k (q # x) r j" and "handlers v = asm_matches @ map def_match defs" and "scopes v = []"
    and "in_single_string v \<longleftrightarrow> q = 39" and "in_double_string v \<longleftrightarrow> q = 34" and q: "q = 34 \<or> q = 39"
    and "names_ok names" and "defs_ok names defs" and "cached_output v \<noteq> []" and "last (cached_output v) \<noteq> 92"
    and quiet: "line_quiet (last_line (cached_output v @ [q]))"
  obtains w where "process_loop inc env v = process_loop inc env w" and "line_input w k x r j"
    and "pp_ready defs w" and "cached_output w = cached_output v @ [q]" and "current_filename w = current_filename v"
proof -
  obtain z where z: "pp_fetch v = PRet (ppimpl_track_strings (z\<lparr>cached_output := cached_output v @ [q]\<rparr>))"
    "line_input z k x r j" "pp_same v z" "in_single_string z = in_single_string v"
    "in_double_string z = in_double_string v" by (rule fetch_char [OF assms(1)])
  define w where "w = ppimpl_track_strings (z\<lparr>cached_output := cached_output v @ [q]\<rparr>)"
  have "(cached_output v @ [q]) ! (length (cached_output v @ [q]) - 2) \<noteq> 92"
    using assms(9,10) by (simp add: nth_append last_conv_nth)
  then have w: "line_input w k x r j" "handlers w = asm_matches @ map def_match defs" "scopes w = []"
    "outside w" "cached_output w = cached_output v @ [q]" "current_filename w = current_filename v"
    using q z(2-5) assms(2-5)
    by (auto simp: w_def ppimpl_track_strings_def Let_def pp_same_def outside_def)
  have apart: "ends_apart (cached_output w)"
    using q by (auto simp: w(5) ends_apart_def dest: ident_char_plain)
  have "\<not> matches (pp_stream w) (cached_output w) m" if "m \<in> set (handlers w)" for m
  proof (cases "m \<in> set asm_matches")
    case True
    then show ?thesis using asm_none_match q quiet by (auto simp: w(5))
  next
    case False
    with that obtain d where "d \<in> set defs" "m = def_match d" by (auto simp: w(2))
    then show ?thesis using no_name_at_end [OF assms(7,8) _ apart] by (simp add: def_matches)
  qed
  then have "match_loop inc env 0 w = Some (PRet w)"
    using match_loop_none [of w inc env] peeks_ready [of "cached_output w" defs]
      npeeks_apart [OF assms(7,8) apart] by (simp add: w(2))
  then have "process_loop inc env v = process_loop inc env w"
    using line_input_has [OF assms(1)] z(1) w(4)
    by (subst process_loop.simps) (simp add: w_def outside_def)
  then show thesis by (rule that [OF _ w(1)]) (use w in \<open>simp_all add: pp_ready_def\<close>)
qed

lemma step_quoted:
  assumes "line_input s k (piece_text (Quoted q b) @ x) r j" and "pp_ready defs s"
    and "names_ok names" and "defs_ok names defs" and "piece_ok names (Quoted q b)"
    and "line_quiet (last_line (cached_output s) @ piece_text (Quoted q b))"
  obtains t where "process_loop inc env s = process_loop inc env t" and "line_input t k x r j"
    and "pp_ready defs t" and "cached_output t = cached_output s @ piece_text (Quoted q b)"
    and "current_filename t = current_filename s"
proof -
  have q: "q = 34 \<or> q = 39" "q \<notin> set b" "NEWLINE \<notin> set b" "92 \<notin> set b" using assms(5) by auto
  have "line_input s k (q # b @ q # x) r j" using assms(1) by simp
  then obtain u where u: "process_loop inc env s = process_loop inc env u" "line_input u k (b @ q # x) r j"
    "handlers u = asm_matches @ map def_match defs" "scopes u = []"
    "in_single_string u \<longleftrightarrow> q = 39" "in_double_string u \<longleftrightarrow> q = 34"
    "cached_output u = cached_output s @ [q]" "current_filename u = current_filename s"
    by (rule string_opens [OF _ assms(2) q(1)])
  obtain v where v: "process_loop inc env u = process_loop inc env v" "line_input v k (q # x) r j"
    "handlers v = asm_matches @ map def_match defs" "scopes v = []" "cached_output v = cached_output u @ b"
    "in_single_string v \<longleftrightarrow> q = 39" "in_double_string v \<longleftrightarrow> q = 34" "current_filename v = current_filename u"
    by (rule step_string_body [OF u(2-6) q(1-3), of inc env])
  have out: "cached_output v @ [q] = cached_output s @ piece_text (Quoted q b)" by (simp add: v(5) u(7))
  have "last (q # b) \<in> set (q # b)" by (rule last_in_set) simp
  then have esc: "cached_output v \<noteq> []" "last (cached_output v) \<noteq> 92" using q by (auto simp: v(5) u(7))
  have quiet: "line_quiet (last_line (cached_output v @ [q]))"
    using assms(6) q by (auto simp: out last_line_append)
  show thesis
    by (rule string_closes [OF v(2-4,6,7) q(1) assms(3,4) esc quiet, of inc env])
      (use u(1,8) v(1,8) out that in simp)
qed

section \<open>Expansion\<close>

text \<open>The text of a line after at most \<open>n - 1\<close> nested replacements; \<open>None\<close> if that is not enough.\<close>

primrec expand :: "nat \<Rightarrow> definitions \<Rightarrow> piece list \<Rightarrow> cstr option" where
  "expand 0 defs ps = None"
| "expand (Suc n) defs ps =
     map_option concat (those (map (\<lambda>p.
       case p of
         Word w \<Rightarrow> (case map_of defs w of None \<Rightarrow> Some w | Some v \<Rightarrow> expand n defs v)
       | _ \<Rightarrow> Some (piece_text p)) ps))"

text \<open>Whether the line ends in a word that has a defined name at its end.\<close>

definition ends_defined :: "definitions \<Rightarrow> piece list \<Rightarrow> bool" where
  "ends_defined defs ps \<longleftrightarrow>
     ps \<noteq> [] \<and> (case last ps of Word w \<Rightarrow> list_ex (\<lambda>d. suffix (fst d) w) defs | _ \<Rightarrow> False)"

lemma npeeks_word:
  assumes "names_ok names" and "defs_ok names defs" and "ends_apart out"
  shows "npeeks defs (out @ w) = npeeks defs w"
proof -
  have "suffix (fst d) (out @ w) \<longleftrightarrow> suffix (fst d) w" if "d \<in> set defs" for d
  proof
    assume s: "suffix (fst d) (out @ w)"
    show "suffix (fst d) w"
    proof (rule ccontr)
      assume "\<not> suffix (fst d) w"
      moreover have "suffix w (out @ w)" by (simp add: suffix_def)
      ultimately obtain a where a: "fst d = a @ w" "a \<noteq> []"
        using s suffix_same_cases [of "fst d" "out @ w" w] by (auto simp: suffix_def)
      with s have "suffix a out" by (auto simp: suffix_def)
      moreover have "ident_char (last a)"
        using assms(1,2) that a by (auto simp: names_ok_def defs_ok_def ident_def list_all_iff)
      ultimately show False using assms(3) a(2) by (auto simp: ends_apart_def suffix_def)
    qed
  qed (auto simp: suffix_def)
  then show ?thesis by (simp add: npeeks_def cong: filter_cong)
qed

lemma npeeks_pos: "0 < npeeks defs w \<longleftrightarrow> list_ex (\<lambda>d. suffix (fst d) w) defs"
  by (auto simp: npeeks_def filter_empty_conv list_ex_iff)

lemma pieces_text_Cons [simp]: "pieces_text (p # ps) = piece_text p @ pieces_text ps"
  by (simp add: pieces_text_def)

lemma pieces_text_Nil [simp]: "pieces_text [] = []"
  by (simp add: pieces_text_def)

lemma piece_text_plain:
  assumes "piece_ok names p"
  shows "piece_text p \<noteq> []" and "0 \<notin> set (piece_text p)" and "NEWLINE \<notin> set (piece_text p)"
proof -
  show "piece_text p \<noteq> []" using assms by (cases p) (auto simp: ident_def)
  show "0 \<notin> set (piece_text p)" "NEWLINE \<notin> set (piece_text p)"
    using assms ident_char_plain by (cases p; force simp: ident_def list_all_iff)+
qed

lemma pieces_text_plain:
  assumes "pieces_ok names ps"
  shows "0 \<notin> set (pieces_text ps)" and "NEWLINE \<notin> set (pieces_text ps)"
  using assms piece_text_plain by (auto simp: pieces_text_def pieces_ok_def list_all_iff)

fun piece_is_word :: "piece \<Rightarrow> bool" where
  "piece_is_word (Word w) = True"
| "piece_is_word _ = False"

lemma words_apart_Cons: "words_apart (p # ps) \<longleftrightarrow> words_apart ps \<and> \<not> (piece_is_word p \<and> ps \<noteq> [] \<and> piece_is_word (hd ps))"
  by (cases p; cases ps; cases "hd ps") auto

lemma starts_apart_pieces:
  assumes "pieces_ok names ps" and "ps \<noteq> []" and "\<not> piece_is_word (hd ps)"
  shows "starts_apart (pieces_text ps @ x)"
  using assms ident_char_plain
  by (cases ps; cases "hd ps") (auto simp: pieces_ok_def starts_apart_def)

text \<open>
  What the loop does with pieces at the start of the input. The count of peeks at the newline
  only changes when the line ends with them.
\<close>

definition peeks_after :: "nat \<Rightarrow> definitions \<Rightarrow> piece list \<Rightarrow> cstr \<Rightarrow> nat \<Rightarrow> nat \<Rightarrow> bool" where
  "peeks_after n defs ps x q q' \<longleftrightarrow>
     (if x = [] then q \<le> q' \<and> q' \<le> q + n * length defs \<and> (0 < q' \<longleftrightarrow> 0 < q \<or> ends_defined defs ps)
      else q' = q)"


lemma line_safe_value:
  assumes "line_safe (l @ w @ x)" and "value_ok names v"
  shows "line_safe (l @ pieces_text v @ x)"
  using assms(1)
proof (induction l)
  case Nil
  show ?case using assms(2)
    by (auto simp: value_ok_def line_safe_def pp_isspace_def in_range_def split: list.splits)
next
  case (Cons c l)
  then show ?case by (cases "blank c") (simp_all add: line_safe_def)
qed

lemma safe_along_line: "line_safe (last_line out @ w @ x) \<Longrightarrow> NEWLINE \<notin> set w \<Longrightarrow> line_quiet (last_line (out @ w))"
  using safe_quiet line_safe_prefix [of "last_line out @ w" x] by (simp add: last_line_append)

text \<open>The state after pieces, as the lemmas on the kinds of pieces share it.\<close>

definition passed :: "includer \<Rightarrow> pp_env \<Rightarrow> definitions \<Rightarrow> u32 \<Rightarrow> cstr \<Rightarrow> cstr \<Rightarrow> pp_state \<Rightarrow> cstr \<Rightarrow> nat \<Rightarrow> pp_state \<Rightarrow> bool" where
  "passed inc env defs k r x s t q' u \<longleftrightarrow>
     process_loop inc env s = process_loop inc env u \<and> line_input u k x r q' \<and> pp_ready defs u \<and>
     cached_output u = cached_output s @ t \<and> current_filename u = current_filename s \<and>
     line_safe (last_line (cached_output u) @ x)"

lemma pass_sep:
  assumes "line_input s k (c # x) r q" and "pp_ready defs s" and "names_ok names" and "defs_ok names defs"
    and "piece_ok names (Sep c)" and "line_safe (last_line (cached_output s) @ c # x)"
  shows "\<exists>u. passed inc env defs k r x s [c] q u \<and> ends_apart (cached_output u)"
proof -
  have c: "c \<noteq> 39" "c \<noteq> 34" "c \<noteq> 1" "\<not> ident_char c" "c \<noteq> NEWLINE" using assms(5) by simp_all
  have apart: "ends_apart (cached_output s @ [c])" using c by (simp add: ends_apart_def)
  obtain u where u: "process_loop inc env s = process_loop inc env u"
    "line_input u k x r (if x = [] then q + npeeks defs (cached_output s @ [c]) else q)"
    "pp_ready defs u" "cached_output u = cached_output s @ [c]" "current_filename u = current_filename s"
  proof (rule step_no_match [OF assms(1,2) c(1,2) _ c(3), of inc env])
    show "line_quiet (last_line (cached_output s @ [c]))"
      using safe_along_line [of "cached_output s" "[c]" x] assms(6) c(5) by simp
    show "\<forall>d \<in> set defs. \<not> (suffix (fst d) (cached_output s @ [c]) \<and>
        isolated_in (x @ NEWLINE # r) (cached_output s @ [c]) (fst d))"
      using no_name_at_end [OF assms(3,4) _ apart] by blast
  qed
  have "npeeks defs (cached_output s @ [c]) = 0" by (rule npeeks_apart [OF assms(3,4) apart])
  with u apart assms(6) c(5) show ?thesis
    by (intro exI [of _ u]) (cases "x = []", simp_all add: passed_def)
qed

lemma pass_word:
  assumes "line_input s k (w @ x) r q" and "pp_ready defs s" and "names_ok names" and "defs_ok names defs"
    and "piece_ok names (Word w)" and "line_safe (last_line (cached_output s) @ w @ x)"
    and "map_of defs w = None" and "ends_apart (cached_output s)" and "starts_apart x"
  shows "\<exists>u. passed inc env defs k r x s w (if x = [] then q + npeeks defs w else q) u"
proof -
  have w: "ident w" "clean_word names w" using assms(5) by simp_all
  have nl: "NEWLINE \<notin> set w" using piece_text_plain [OF assms(5)] by simp
  obtain u where "process_loop inc env s = process_loop inc env u"
    "line_input u k x r (if x = [] then q + npeeks defs (cached_output s @ w) else q)" "pp_ready defs u"
    "cached_output u = cached_output s @ w" "current_filename u = current_filename s"
    by (rule step_word_kept [OF assms(1-4) w assms(7,8,9), of inc env])
      (use safe_quiet_along [of "last_line (cached_output s)" w x] assms(6) in simp_all)
  with npeeks_word [OF assms(3,4,8)] assms(6) nl show ?thesis
    by (intro exI [of _ u]) (cases "x = []", simp_all add: passed_def last_line_append)
qed

lemma pass_quoted:
  assumes "line_input s k (piece_text (Quoted c b) @ x) r q" and "pp_ready defs s" and "names_ok names"
    and "defs_ok names defs" and "piece_ok names (Quoted c b)"
    and "line_safe (last_line (cached_output s) @ piece_text (Quoted c b) @ x)"
  shows "\<exists>u. passed inc env defs k r x s (piece_text (Quoted c b)) q u \<and> ends_apart (cached_output u)"
proof -
  let ?t = "piece_text (Quoted c b)"
  have nl: "NEWLINE \<notin> set ?t" using piece_text_plain(3) [OF assms(5)] .
  obtain u where u: "process_loop inc env s = process_loop inc env u" "line_input u k x r q"
    "pp_ready defs u" "cached_output u = cached_output s @ ?t" "current_filename u = current_filename s"
    by (rule step_quoted [OF assms(1-5), of inc env])
      (use safe_along_line [OF assms(6) nl] nl in \<open>simp_all add: last_line_append\<close>)
  moreover have "ends_apart (cached_output u)"
    using assms(5) by (auto simp: u(4) ends_apart_def dest: ident_char_plain)
  moreover have "line_safe (last_line (cached_output u) @ x)"
    unfolding u(4) last_line_append [OF nl] using assms(6) by simp
  ultimately show ?thesis by (auto simp: passed_def)
qed

lemma expand_Cons:
  "expand (Suc n) defs (p # ps) = Some t \<longleftrightarrow>
     (\<exists>t1 t2. t = t1 @ t2 \<and> expand (Suc n) defs [p] = Some t1 \<and> expand (Suc n) defs ps = Some t2)"
  by (auto split: piece.splits option.splits)

lemma expand_word:
  "expand (Suc n) defs [Word w] = (case map_of defs w of None \<Rightarrow> Some w | Some v \<Rightarrow> expand n defs v)"
  "\<not> piece_is_word p \<Longrightarrow> expand (Suc n) defs [p] = Some (piece_text p)"
  by (cases p; simp split: option.splits)+

definition next_apart :: "piece list \<Rightarrow> cstr \<Rightarrow> cstr \<Rightarrow> bool" where
  "next_apart ps out x \<longleftrightarrow>
     (ps \<noteq> [] \<and> piece_is_word (hd ps) \<longrightarrow> ends_apart out) \<and> (ps \<noteq> [] \<and> piece_is_word (last ps) \<longrightarrow> starts_apart x)"

text \<open>One piece, given what the loop does with values.\<close>

lemma pass_piece:
  assumes "expand (Suc n) defs [p] = Some t" and "line_input s k (piece_text p @ x) r q" and "pp_ready defs s"
    and "names_ok names" and "defs_ok names defs" and "piece_ok names p"
    and "next_apart [p] (cached_output s) x" and "line_safe (last_line (cached_output s) @ piece_text p @ x)"
    and nested: "\<And>v s q. expand n defs v = Some t \<Longrightarrow> line_input s k (pieces_text v @ x) r q \<Longrightarrow>
      pp_ready defs s \<Longrightarrow> pieces_ok names v \<Longrightarrow> next_apart v (cached_output s) x \<Longrightarrow>
      line_safe (last_line (cached_output s) @ pieces_text v @ x) \<Longrightarrow>
      \<exists>u q'. passed inc env defs k r x s t q' u \<and> peeks_after n defs v x q q'"
  shows "\<exists>u q'. passed inc env defs k r x s t q' u \<and> peeks_after (Suc n) defs [p] x q q' \<and>
    (\<not> piece_is_word p \<longrightarrow> ends_apart (cached_output u))"
proof (cases p)
  case (Sep c)
  then obtain u where "passed inc env defs k r x s [c] q u" "ends_apart (cached_output u)"
    using pass_sep [OF _ assms(3-5), of k c x r q inc env] assms(2,6,8) by auto
  moreover have "t = [c]" using assms(1) Sep by (simp add: expand_word)
  moreover have "peeks_after (Suc n) defs [p] x q q" using Sep by (simp add: peeks_after_def ends_defined_def)
  ultimately show ?thesis by blast
next
  case (Quoted c b)
  then obtain u where "passed inc env defs k r x s (piece_text p) q u" "ends_apart (cached_output u)"
    using pass_quoted [OF _ assms(3-5), of k c b x r q inc env] assms(2,6,8) by auto
  moreover have "t = piece_text p" using assms(1) Quoted by (simp add: expand_word)
  moreover have "peeks_after (Suc n) defs [p] x q q" using Quoted by (simp add: peeks_after_def ends_defined_def)
  ultimately show ?thesis by blast
next
  case (Word w)
  have apart: "ends_apart (cached_output s)" "starts_apart x"
    using assms(7) Word by (simp_all add: next_apart_def)
  have w: "line_input s k (w @ x) r q" "ident w" "clean_word names w" "piece_ok names (Word w)"
    "line_safe (last_line (cached_output s) @ w @ x)"
    using assms(2,6,8) Word by simp_all
  show ?thesis
  proof (cases "map_of defs w")
    case None
    have "npeeks defs w \<le> Suc n * length defs"
      using npeeks_le [of defs w] by simp
    moreover have "t = w" using assms(1) Word None by (simp add: expand_word)
    moreover have "peeks_after (Suc n) defs [p] x q (if x = [] then q + npeeks defs w else q)"
      using calculation npeeks_pos [of defs w] Word by (auto simp: peeks_after_def ends_defined_def)
    ultimately show ?thesis
      using pass_word [OF w(1) assms(3-5) w(4,5) None apart, of inc env] Word by auto
  next
    case (Some v)
    then have v: "expand n defs v = Some t" "value_ok names v"
      using assms(1) unfolding Word expand_word
      using assms(5) by (auto simp: defs_ok_def list_all_iff dest: map_of_SomeD)
    then have ok: "pieces_ok names v" by (simp add: value_ok_def)
    obtain y q1 where y: "process_loop inc env s = process_loop inc env y"
      "line_input y k (pieces_text v @ x) r q1" "pp_ready defs y" "cached_output y = cached_output s"
      "current_filename y = current_filename s"
      "if x = [] then q < q1 \<and> q1 \<le> q + length defs else q1 = q"
      by (rule step_word_replaced [OF w(1) assms(3-5) w(2,3) Some apart _ pieces_text_plain [OF ok], of inc env])
        (use safe_quiet_along [of "last_line (cached_output s)" w x] w(5) in simp_all)
    have "next_apart v (cached_output y) x" using apart by (simp add: next_apart_def y(4))
    then obtain u q' where u: "passed inc env defs k r x y t q' u" "peeks_after n defs v x q1 q'"
      using nested [OF v(1) y(2,3) ok] line_safe_value [OF w(5) v(2)] by (auto simp: y(4))
    have "list_ex (\<lambda>d. suffix (fst d) w) defs"
      using map_of_SomeD [OF Some] by (auto simp: list_ex_iff intro: bexI [of _ "(w, v)"])
    with y(6) u(2) have "peeks_after (Suc n) defs [p] x q q'"
      by (auto simp: peeks_after_def ends_defined_def Word split: if_splits)
    moreover have "passed inc env defs k r x s t q' u"
      using u(1) y by (auto simp: passed_def)
    ultimately show ?thesis using Word by auto
  qed
qed

lemma pass_pieces:
  assumes "expand n defs ps = Some t" and "line_input s k (pieces_text ps @ x) r q" and "pp_ready defs s"
    and "names_ok names" and "defs_ok names defs" and "pieces_ok names ps"
    and "next_apart ps (cached_output s) x" and "line_safe (last_line (cached_output s) @ pieces_text ps @ x)"
  shows "\<exists>u q'. passed inc env defs k r x s t q' u \<and> peeks_after n defs ps x q q'"
  using assms
proof (induction n arbitrary: ps s x q t)
  case (Suc n)
  note nested = Suc.IH [OF _ _ _ Suc.prems(4,5)]
  from Suc.prems(1-3,6-8) show ?case
  proof (induction ps arbitrary: s q t)
    case Nil
    then have "passed inc env defs k r x s t q s" by (simp add: passed_def)
    moreover have "peeks_after (Suc n) defs [] x q q" by (simp add: peeks_after_def ends_defined_def)
    ultimately show ?case by blast
  next
    case (Cons p ps)
    let ?x = "pieces_text ps @ x"
    obtain t1 t2 where t: "t = t1 @ t2" "expand (Suc n) defs [p] = Some t1" "expand (Suc n) defs ps = Some t2"
      using Cons.prems(1) unfolding expand_Cons [of n defs p ps] by blast
    have ok: "piece_ok names p" "pieces_ok names ps"
      "piece_is_word p \<Longrightarrow> ps \<noteq> [] \<Longrightarrow> \<not> piece_is_word (hd ps)"
      using Cons.prems(4) by (auto simp: pieces_ok_def words_apart_Cons)
    have "next_apart [p] (cached_output s) ?x"
      using Cons.prems(5) starts_apart_pieces [OF ok(2)] ok(3) by (cases "ps = []") (auto simp: next_apart_def)
    then obtain u q1 where u: "passed inc env defs k r ?x s t1 q1 u" "peeks_after (Suc n) defs [p] ?x q q1"
      "\<not> piece_is_word p \<Longrightarrow> ends_apart (cached_output u)"
      using pass_piece [OF t(2) _ Cons.prems(3) Suc.prems(4,5) ok(1) _ _ nested] Cons.prems(2,6) by force
    show ?case
    proof (cases "ps = []")
      case True
      then show ?thesis using u t by (auto simp: passed_def)
    next
      case False
      then have "?x \<noteq> []"
        using ok(2) piece_text_plain(1) by (cases ps) (auto simp: pieces_ok_def)
      then have q1: "q1 = q" using u(2) by (simp add: peeks_after_def)
      have "next_apart ps (cached_output u) x"
        using Cons.prems(5) ok(3) u(3) False by (auto simp: next_apart_def)
      then obtain y q' where y: "passed inc env defs k r x u t2 q' y" "peeks_after (Suc n) defs ps x q1 q'"
        using Cons.IH [OF t(3), of u q1] u(1) ok(2) unfolding passed_def by blast
      have "passed inc env defs k r x s t q' y"
        using u(1) y(1) unfolding passed_def t(1) append_assoc [symmetric] by auto
      moreover have "peeks_after (Suc n) defs (p # ps) x q q'"
        using y(2) q1 False by (cases "x = []") (simp_all add: peeks_after_def ends_defined_def)
      ultimately show ?thesis by blast
    qed
  qed
qed simp

section \<open>Lines\<close>

text \<open>A file of definitions and text, each on a line of its own.\<close>

datatype pp_line = Define cstr "piece list" | Text "piece list"

fun line_text :: "pp_line \<Rightarrow> cstr" where
  "line_text (Define n v) = c_str ''.define '' @ n @ [32] @ pieces_text v"
| "line_text (Text ps) = pieces_text ps"

definition file_text :: "pp_line list \<Rightarrow> cstr" where
  "file_text ls = concat (map (\<lambda>l. line_text l @ [NEWLINE]) ls)"

text \<open>A definition of a word as itself is ignored; the first definition of a word counts.\<close>

definition add_definition :: "cstr \<Rightarrow> piece list \<Rightarrow> definitions \<Rightarrow> definitions" where
  "add_definition n v defs = (if n = pieces_text v then defs else defs @ [(n, v)])"

text \<open>
  What becomes of the lines from number \<open>k\<close> on. A definition leaves an empty line and a mark
  for the next line; a line that ends in a definition gets a mark as well.
\<close>

fun preprocessed :: "nat \<Rightarrow> cstr \<Rightarrow> u32 \<Rightarrow> definitions \<Rightarrow> pp_line list \<Rightarrow> cstr option" where
  "preprocessed d f k defs [] = Some []"
| "preprocessed d f k defs (Define n v # ls) =
     map_option (\<lambda>rest. mark_line (k + 1) f @ [NEWLINE] @ rest)
       (preprocessed d f (k + 1) (add_definition n v defs) ls)"
| "preprocessed d f k defs (Text ps # ls) =
     (case expand d defs ps of
        None \<Rightarrow> None
      | Some t \<Rightarrow>
          map_option (\<lambda>rest. t @ (if ends_defined defs ps then mark_line (k + 1) f else []) @ [NEWLINE] @ rest)
            (preprocessed d f (k + 1) defs ls))"

fun line_ok :: "cstr list \<Rightarrow> pp_line \<Rightarrow> bool" where
  "line_ok names (Define n v) \<longleftrightarrow> n \<in> set names \<and> value_ok names v"
| "line_ok names (Text ps) \<longleftrightarrow> pieces_ok names ps \<and> line_safe (pieces_text ps)"

text \<open>The state at the start of line \<open>k\<close>.\<close>

definition line_start :: "definitions \<Rightarrow> cstr \<Rightarrow> u32 \<Rightarrow> cstr \<Rightarrow> pp_state \<Rightarrow> bool" where
  "line_start defs f k src s \<longleftrightarrow>
     cached_input s = [] \<and> pp_source s = src \<and> current_line s = k \<and> actual_line s = k \<and>
     pp_ready defs s \<and> current_filename s = f \<and> (cached_output s = [] \<or> last (cached_output s) = NEWLINE)"

lemma line_start_input: "line_start defs f k (l @ NEWLINE # r) s \<Longrightarrow> NEWLINE \<notin> set l \<Longrightarrow> line_input s k l r 0"
  by (simp add: line_start_def line_input_def)

lemma fresh_output:
  assumes "out = [] \<or> last out = NEWLINE"
  shows "last_line out = []" and "ends_apart out"
  using assms newline_isolates by (cases out rule: rev_cases; simp add: ends_apart_def)+

lemma quiet_loop:
  assumes "pp_ready defs s" and "names_ok names" and "defs_ok names defs"
    and "cached_output s = [] \<or> last (cached_output s) = NEWLINE"
    and "handlers s = pre @ ms"
  shows "match_loop inc env (length pre) s = Some (PRet s)"
proof -
  note fresh = fresh_output [OF assms(4)]
  have h: "handlers s = asm_matches @ map def_match defs" using assms(1) by (simp add: pp_ready_def)
  have "\<not> matches (pp_stream s) (cached_output s) m" "\<not> peeks_at (cached_output s) m"
    if "m \<in> set (handlers s)" for m
  proof -
    show "\<not> peeks_at (cached_output s) m"
      using that asm_no_peek no_name_at_end [OF assms(2,3) _ fresh(2)]
      by (auto simp: h peeks_at_def ends_with_suffix)
    show "\<not> matches (pp_stream s) (cached_output s) m"
    proof (cases "m \<in> set asm_matches")
      case True
      have "line_quiet []" by (rule safe_quiet) (simp add: line_safe_def)
      with True show ?thesis using asm_none_match assms(4) fresh(1) by auto
    next
      case False
      with that obtain d where "d \<in> set defs" "m = def_match d" by (auto simp: h)
      then show ?thesis using no_name_at_end [OF assms(2,3) _ fresh(2)] by (simp add: def_matches)
    qed
  qed
  then have "filter (peeks_at (cached_output s)) ms = []"
    "\<forall>m \<in> set ms. \<not> matches (pp_stream s) (cached_output s) m"
    using assms(5) by (auto simp: filter_empty_conv)
  then show ?thesis
    using match_loop_fails [of s pre ms "[]" inc env] assms(5) by (simp add: match_loop_end)
qed

lemma finish_line:
  assumes "line_input s k [] r q" and "pp_ready defs s" and "names_ok names" and "defs_ok names defs" and "q < 2 ^ 32"
  obtains t where "process_loop inc env s = process_loop inc env t"
    and "line_start defs (current_filename s) (k + 1) r t"
    and "cached_output t = cached_output s @ (if q = 0 then [] else mark_line (k + 1) (current_filename s)) @ [NEWLINE]"
proof -
  have "outside s" using assms(2) by (simp add: pp_ready_def)
  then obtain t where t: "pp_fetch s = PRet t" "cached_input t = []" "pp_source t = r"
    "current_line t = k + 1" "actual_line t = k + 1" "pp_same s t" "outside t"
    "cached_output t = cached_output s @ (if q = 0 then [] else mark_line (k + 1) (current_filename s)) @ [NEWLINE]"
    using fetch_newline [OF assms(1) _ assms(5)] by blast
  have ready: "pp_ready defs t" using assms(2) t by (simp add: pp_ready_def pp_same_def)
  have "match_loop inc env 0 t = Some (PRet t)"
    using quiet_loop [OF ready assms(3,4), of "[]" "handlers t" inc env] by (simp add: t(8))
  then have "process_loop inc env s = process_loop inc env t"
    using line_input_has [OF assms(1)] t(1,7) by (subst process_loop.simps) (simp add: outside_def)
  moreover have "line_start defs (current_filename s) (k + 1) r t"
    using t ready by (simp add: line_start_def pp_same_def)
  ultimately show thesis using t(8) by (rule that)
qed

lemma text_line:
  assumes "line_start defs f k (pieces_text ps @ NEWLINE # r) s" and "names_ok names" and "defs_ok names defs"
    and "line_ok names (Text ps)" and "expand d defs ps = Some t" and "d * length defs < 2 ^ 32"
  obtains u where "process_loop inc env s = process_loop inc env u" and "line_start defs f (k + 1) r u"
    and "cached_output u =
      cached_output s @ t @ (if ends_defined defs ps then mark_line (k + 1) f else []) @ [NEWLINE]"
proof -
  have ok: "pieces_ok names ps" "line_safe (pieces_text ps)" using assms(4) by simp_all
  have s: "pp_ready defs s" "current_filename s = f" "cached_output s = [] \<or> last (cached_output s) = NEWLINE"
    using assms(1) by (simp_all add: line_start_def)
  note fresh = fresh_output [OF s(3)]
  have "line_input s k (pieces_text ps @ []) r 0"
    using line_start_input [OF assms(1) pieces_text_plain(2) [OF ok(1)]] by simp
  moreover have "next_apart ps (cached_output s) []" using fresh by (simp add: next_apart_def starts_apart_def)
  ultimately obtain y q where y: "passed inc env defs k r [] s t q y" "peeks_after d defs ps [] 0 q"
    using pass_pieces [OF assms(5) _ s(1) assms(2,3) ok(1), of k "[]" r 0 inc env] ok(2) by (auto simp: fresh(1))
  have q: "q < 2 ^ 32" "q = 0 \<longleftrightarrow> \<not> ends_defined defs ps"
    using y(2) assms(6) by (auto simp: peeks_after_def)
  have ys: "line_input y k [] r q" "pp_ready defs y" "current_filename y = f" "cached_output y = cached_output s @ t"
    "process_loop inc env s = process_loop inc env y"
    using y(1) s(2) by (simp_all add: passed_def)
  show thesis
    by (rule finish_line [OF ys(1,2) assms(2,3) q(1), of inc env])
      (use ys q(2) that in simp)
qed

section \<open>Definitions\<close>

lemma ident_not_space: "ident_char c \<Longrightarrow> \<not> pp_isspace c"
  by (auto simp: ident_char_def ppimpl_isolates_def pp_isspace_def in_range_def word_le_nat_alt)

lemma trim_front: "bltrimws (c # cs) = c # cs" if "\<not> pp_isspace c"
  using that by (simp add: bltrimws_def)

lemma trim_both:
  assumes "acc \<noteq> []" and "\<not> pp_isspace (hd acc)" and "\<not> pp_isspace (last acc)" and "pp_isspace c"
  shows "btrimws (acc @ [c]) = acc"
proof -
  obtain a as where a: "acc = a # as" using assms(1) by (cases acc) auto
  obtain bs b where b: "acc = bs @ [b]" using assms(1) by (cases acc rule: rev_cases) auto
  have "rev (dropWhile pp_isspace (rev (acc @ [c]))) = acc"
    using assms(3,4) by (simp add: b)
  moreover have "bltrimws acc = acc" using assms(2) by (simp add: a trim_front)
  ultimately show ?thesis by (simp add: btrimws_def)
qed

text \<open>Reading leaves all but the input and the line numbers alone.\<close>

definition pp_kept :: "pp_state \<Rightarrow> pp_state \<Rightarrow> bool" where
  "pp_kept s t \<longleftrightarrow> pp_same s t \<and> cached_output t = cached_output s \<and> print_index t = print_index s \<and>
     in_single_string t = in_single_string s \<and> in_double_string t = in_double_string s"

lemma get_char:
  assumes "line_input s k (c # x) r q"
  obtains t where "ppimpl_get_input s = PRet (c, t)" and "line_input t k x r q" and "pp_kept s t"
proof -
  obtain t where "ppimpl_get_input s = PRet (c, t)" "line_input t k x r q"
    using assms by (rule line_input_get)
  moreover from this have "pp_kept s t"
    by (auto simp: pp_kept_def pp_same_def ppimpl_get_input_def split: list.splits)
  ultimately show thesis by (rule that)
qed

lemma define_word_reads:
  assumes "line_input s k (u @ 32 # x) r q" and "list_all ident_char (acc @ u)" and "acc @ u \<noteq> []"
  obtains t where "define_word acc s = PRet (acc @ u, True, t)" and "line_input t k x r q" and "pp_kept s t"
  using assms
proof (induction u arbitrary: acc s thesis)
  case Nil
  then obtain a as where a: "acc = a # as" by (cases acc) auto
  have "hd acc \<in> set acc" "last acc \<in> set acc" using a by simp_all
  with Nil.prems(3) have sp: "\<not> pp_isspace (hd acc)" "\<not> pp_isspace (last acc)"
    using ident_not_space by (simp_all add: list_all_iff)
  have "line_input s k (32 # x) r q" using Nil.prems(2) by simp
  then obtain t where t: "ppimpl_get_input s = PRet (32, t)" "line_input t k x r q" "pp_kept s t"
    by (rule get_char)
  have "bltrimws (acc @ [32]) = acc @ [32]" using sp a by (simp add: trim_front)
  moreover have "btrimws (acc @ [32]) = acc"
    by (rule trim_both) (use a sp in \<open>simp_all add: pp_isspace_def\<close>)
  ultimately have "define_word acc s = PRet (acc, True, t)"
    using t(1) by (subst define_word.simps) simp
  with t show ?case by (intro Nil.prems(1)) simp_all
next
  case (Cons c u)
  have c: "ident_char c" using Cons.prems(3) by simp
  have "line_input s k (c # u @ 32 # x) r q" using Cons.prems(2) by simp
  then obtain t where t: "ppimpl_get_input s = PRet (c, t)" "line_input t k (u @ 32 # x) r q" "pp_kept s t"
    by (rule get_char)
  obtain a as where a: "acc @ [c] = a # as" by (cases acc) auto
  then have "a \<in> set (acc @ [c])" by simp
  then have "ident_char a" using Cons.prems(3) by (auto simp: list_all_iff)
  then have "bltrimws (acc @ [c]) = acc @ [c]"
    unfolding a by (intro trim_front ident_not_space)
  moreover have "c \<noteq> 40" using c by (auto simp: ident_char_def ppimpl_isolates_def in_range_def word_le_nat_alt)
  ultimately have step: "define_word acc s = define_word (acc @ [c]) t"
    using t(1) ident_char_plain [OF c] by (subst define_word.simps) simp
  show ?case
  proof (rule Cons.IH [OF _ t(2), of "acc @ [c]"])
    fix y
    assume "define_word (acc @ [c]) t = PRet ((acc @ [c]) @ u, True, y)" "line_input y k x r q" "pp_kept t y"
    with step t(3) show thesis by (intro Cons.prems(1) [of y]) (auto simp: pp_kept_def pp_same_def)
  qed (use Cons.prems in simp_all)
qed

text \<open>After the newline of a definition it is printed, so it is read as if it was peeked at twice.\<close>

lemma define_definition_reads:
  assumes "line_input s k u r 0" and "print_index s = 0" and "acc @ u = b # bs" and "\<not> pp_isspace b"
    and "\<not> pp_isspace (last (acc @ u))" and "last (acc @ u) \<noteq> 92"
  obtains t where "define_definition acc s = PRet (acc @ u, t)" and "line_input t k [] r 2"
    and "pp_same s t" and "cached_output t = cached_output s"
    and "in_single_string t = in_single_string s" and "in_double_string t = in_double_string s"
  using assms
proof (induction u arbitrary: acc s thesis)
  case Nil
  then have s: "cached_input s = []" "pp_source s = NEWLINE # r" "current_line s = k" "actual_line s = k"
    by (auto simp: line_input_def)
  have acc: "acc = b # bs" "\<not> pp_isspace (last acc)" "last acc \<noteq> 92" using Nil.prems by simp_all
  let ?t = "s\<lparr>pp_source := r, current_line := k + 1\<rparr>"
  have get: "ppimpl_get_input s = PRet (NEWLINE, ?t)" using s by (simp add: ppimpl_get_input_def)
  have l: "bltrimws (acc @ [NEWLINE]) = acc @ [NEWLINE]" using acc(1) Nil.prems(5) by (simp add: trim_front)
  have p: "(acc @ [NEWLINE]) ! (length (acc @ [NEWLINE]) - 2) = last acc"
    using acc(1) by (simp add: nth_append last_conv_nth)
  have b: "btrimws (acc @ [NEWLINE]) = acc"
    by (rule trim_both) (use acc Nil.prems(5) in \<open>simp_all add: pp_isspace_def in_range_def\<close>)
  have "define_definition acc s = PRet (acc, ppimpl_printf [NEWLINE] ?t)"
    using get l p b acc(3) by (subst define_definition.simps) (simp del: length_append)
  moreover have "ppimpl_printf [NEWLINE] ?t =
      ?t\<lparr>actual_line := actual_line s + 1, print_index := 1, cached_input := [NEWLINE]\<rparr>"
    using Nil.prems(3) s(1) by (simp add: ppimpl_printf_def pp_count_def pp_store_def pp_insert_def Let_def)
  ultimately have "define_definition acc s = PRet (acc @ [],
      ?t\<lparr>actual_line := actual_line s + 1, print_index := 1, cached_input := [NEWLINE]\<rparr>)" by simp
  then show ?case
    by (rule Nil.prems(1)) (simp_all add: line_input_def s pp_same_def)
next
  case (Cons c u)
  obtain t where t: "ppimpl_get_input s = PRet (c, t)" "line_input t k u r 0" "pp_kept s t"
    using Cons.prems(2) by (rule get_char)
  have "acc @ [c] = b # butlast bs @ [] \<or> (\<exists>cs. acc @ [c] = b # cs)"
    using Cons.prems(4) by (cases acc) auto
  then obtain cs where "acc @ [c] = b # cs" by auto
  then have l: "bltrimws (acc @ [c]) = acc @ [c]" using Cons.prems(5) by (simp add: trim_front)
  have "c \<noteq> NEWLINE" using Cons.prems(2) by (auto simp: line_input_def)
  then have step: "define_definition acc s = define_definition (acc @ [c]) t"
    using t(1) l by (subst define_definition.simps) simp
  show ?case
  proof (rule Cons.IH [of "acc @ [c]" t])
    fix y
    assume "define_definition (acc @ [c]) t = PRet ((acc @ [c]) @ u, y)" "line_input y k [] r 2" "pp_same t y"
      "cached_output y = cached_output t" "in_single_string y = in_single_string t"
      "in_double_string y = in_double_string t"
    with step t(3) show thesis by (intro Cons.prems(1) [of y]) (auto simp: pp_kept_def pp_same_def)
  qed (use Cons.prems t in \<open>simp_all add: pp_kept_def\<close>)
qed

definition define_text :: cstr where
  "define_text = c_str ''define''"

lemma define_directive: "c_str ''.define '' = [46] @ define_text @ [32]"
  by (simp add: define_text_def c_str_def)

lemma define_quiet: "line_quiet [46]" "quiet_along [46] define_text"
  by code_simp+

lemma define_clean: "ident define_text" "clean_word names define_text"
proof -
  show "ident define_text" by code_simp
  have "list_all (\<lambda>k. \<not> ppimpl_isolates (define_text ! (k - 1)) True) [1..<length define_text]" by code_simp
  then show "clean_word names define_text"
    unfolding clean_word_def list_all_iff by (metis atLeastLessThan_iff atLeastLessThan_upt One_nat_def Suc_leI neq0_conv)
qed

abbreviation (input) define_match :: match_t where
  "define_match \<equiv> directive True ''.DEFINE '' H_define"

lemma define_split: "asm_matches = take 10 asm_matches @ define_match # drop 11 asm_matches"
  by (simp add: asm_matches_def)

lemma define_differs:
  "list_all (\<lambda>m. line_start_only m \<and>
     map pp_tolower (dropWhile blank (c_str ''.define '')) \<noteq> map pp_tolower (m_text m)) (take 10 asm_matches)"
  "map pp_tolower (dropWhile blank (c_str ''.define '')) = map pp_tolower (m_text define_match)"
  "NEWLINE \<notin> set (c_str ''.define '')"
  by code_simp+

text \<open>The directive itself, once it is in the output.\<close>

lemma define_matches:
  assumes "last_line out = []"
  shows "\<forall>m \<in> set (take 10 asm_matches). \<not> matches st (out @ c_str ''.define '') m"
    and "matches st (out @ c_str ''.define '') define_match"
proof -
  let ?out = "out @ c_str ''.define ''"
  have l: "last_line ?out = c_str ''.define ''"
    using last_line_append [OF define_differs(3), of out] assms by simp
  have heads: "matches st ?out m \<longleftrightarrow>
      map pp_tolower (dropWhile blank (c_str ''.define '')) = map pp_tolower (m_text m)"
    if m: "m \<in> set asm_matches" "line_start_only m" for m
  proof -
    have "m \<noteq> terminator_match" using m(2) by (auto simp: terminator_match_def)
    with m directive_heads obtain d ds where "case_insensitive m" "NEWLINE \<notin> set (m_text m)"
      "m_text m = d # ds" "d = 46 \<or> d = 35" by blast
    then show ?thesis using directive_matches [of m d ds st ?out] m(2) l by auto
  qed
  have "set (take 10 asm_matches) \<subseteq> set asm_matches" by (rule set_take_subset)
  then show "\<forall>m \<in> set (take 10 asm_matches). \<not> matches st ?out m"
    using heads define_differs(1) by (auto simp: list_all_iff)
  have "define_match \<in> set asm_matches" "line_start_only define_match"
    using define_split by (simp_all add: asm_matches_def) (simp add: directive_def)
  then show "matches st ?out define_match" using heads define_differs(2) by blast
qed

lemma value_ends:
  assumes "value_ok names v"
  obtains b bs where "pieces_text v = b # bs" and "\<not> pp_isspace b"
    and "\<not> pp_isspace (last (pieces_text v))" and "last (pieces_text v) \<noteq> 92"
  using assms by (auto simp: value_ok_def split: list.splits)

lemma define_handle_reads:
  assumes "line_input s k (n @ 32 # pieces_text v) r 0" and "print_index s = 0" and "ident n"
    and "value_ok names v" and "handlers s = asm_matches @ map def_match defs" and "scopes s = []" and "outside s"
  obtains t where "define_handle s = PRet (t, n \<noteq> pieces_text v)" and "line_input t k [] r 2"
    and "pp_ready (add_definition n v defs) t" and "cached_output t = cached_output s"
    and "current_filename t = current_filename s"
proof -
  obtain y where y: "define_word [] s = PRet ([] @ n, True, y)" "line_input y k (pieces_text v) r 0" "pp_kept s y"
    by (rule define_word_reads [OF assms(1), of "[]"]) (use assms(3) in \<open>simp_all add: ident_def\<close>)
  obtain b bs where v: "pieces_text v = b # bs" "\<not> pp_isspace b" "\<not> pp_isspace (last (pieces_text v))"
    "last (pieces_text v) \<noteq> 92" using assms(4) by (rule value_ends)
  obtain z where z: "define_definition [] y = PRet ([] @ pieces_text v, z)" "line_input z k [] r 2"
    "pp_same y z" "cached_output z = cached_output y"
    "in_single_string z = in_single_string y" "in_double_string z = in_double_string y"
    by (rule define_definition_reads [OF y(2), of "[]" b bs]) (use v y(3) assms(2) in \<open>simp_all add: pp_kept_def\<close>)
  let ?info = "\<lparr>ri_full = n, ri_replacement = pieces_text v\<rparr>"
  have "define_handle s = PRet (define_register n H_replace ?info z)"
    using y(1) z(1) by (simp add: define_handle_def)
  moreover have "define_register n H_replace ?info z =
      (z\<lparr>handlers := asm_matches @ map def_match (add_definition n v defs)\<rparr>, n \<noteq> pieces_text v)"
    using assms(5,6) y(3) z(3)
    by (auto simp: define_register_def add_definition_def ppimpl_register_def def_match_def pp_same_def pp_kept_def)
  ultimately show thesis
    using z y(3) assms(6,7)
    by (intro that [of "z\<lparr>handlers := asm_matches @ map def_match (add_definition n v defs)\<rparr>"])
      (simp_all add: pp_ready_def outside_def pp_kept_def pp_same_def)
qed

lemma define_loop:
  assumes "line_input z k (n @ 32 # pieces_text v) r 0" and "pp_ready defs z"
    and "cached_output z = out @ c_str ''.define ''" and "out = [] \<or> last out = NEWLINE"
    and "names_ok names" and "defs_ok names defs" and "n \<in> set names" and "value_ok names v"
  obtains t where "match_loop inc env 0 z = Some (PRet t)" and "line_input t k [] r 2"
    and "pp_ready (add_definition n v defs) t" and "cached_output t = out"
    and "current_filename t = current_filename z"
proof -
  let ?pre = "take 10 asm_matches" and ?post = "drop 11 asm_matches @ map def_match defs"
  note fresh = fresh_output [OF assms(4)]
  have h: "handlers z = asm_matches @ map def_match defs" "scopes z = []" "outside z"
    using assms(2) by (simp_all add: pp_ready_def)
  have split: "handlers z = ?pre @ define_match # ?post"
    unfolding h(1) by (subst define_split) simp
  have len: "length ?pre = 10" by (simp add: asm_matches_def)
  have none: "filter (peeks_at (cached_output z)) ?pre = []"
    using asm_no_peek set_take_subset by (fastforce simp: filter_empty_conv)
  have 1: "match_loop inc env 0 z = match_loop inc env (length ?pre) z"
    using match_loop_fails [of z "[]" ?pre "define_match # ?post" inc env] split
      define_matches(1) [OF fresh(1), of "pp_stream z"] none by (simp add: assms(3))
  let ?s = "z\<lparr>actual_line := actual_line z, cached_output := out, print_index := 0\<rparr>"
  have in': "line_input ?s k (n @ 32 # pieces_text v) r 0" using assms(1) by simp
  have id: "ident n" using assms(5,7) by (simp add: names_ok_def list_all_iff)
  obtain t where t: "define_handle ?s = PRet (t, n \<noteq> pieces_text v)" "line_input t k [] r 2"
    "pp_ready (add_definition n v defs) t" "cached_output t = out" "current_filename t = current_filename z"
    using define_handle_reads [OF in' _ id assms(8), of defs] h by (force simp: outside_def)
  have del: "delete_range (length out) (7 + length out) (out @ c_str ''.define '') = out"
    by (simp add: delete_range_def c_str_def)
  have lens: "length (c_str ''.define '') = 8" "length (m_text define_match) = 8"
    "filter (\<lambda>c. c = NEWLINE) (c_str ''.define '') = []" "m_handler define_match = H_define"
    "\<not> peeks_at (cached_output z) define_match"
    by (simp_all add: directive_def c_str_def peeks_at_def)
  have ne: "c_str ''.define '' \<noteq> []" by (simp add: c_str_def)
  have "match_step inc env define_match z = match_call inc env define_match ?s"
    using define_matches(2) [OF fresh(1), of "pp_stream z"] lens del ne
    by (simp add: match_step_def match_test_eq assms(3) Let_def)
  then have step: "match_step inc env define_match z = Some (PRet (t, n \<noteq> pieces_text v))"
    using lens t(1) by (simp add: match_call_def)
  have ok: "defs_ok names (add_definition n v defs)"
    using assms(6-8) by (simp add: defs_ok_def add_definition_def)
  have t_out: "cached_output t = [] \<or> last (cached_output t) = NEWLINE" using assms(4) t(4) by simp
  have "match_loop inc env (if n \<noteq> pieces_text v then 0 else length ?pre + 1) t = Some (PRet t)"
  proof (cases "n = pieces_text v")
    case True
    then have "handlers t = (?pre @ [define_match]) @ ?post"
      using t(3) split h(1) by (simp add: pp_ready_def add_definition_def)
    with True show ?thesis
      using quiet_loop [OF t(3) assms(5) ok t_out, of "?pre @ [define_match]" ?post inc env] by simp
  next
    case False
    then show ?thesis using quiet_loop [OF t(3) assms(5) ok t_out, of "[]" "handlers t" inc env] by simp
  qed
  moreover have "match_loop inc env (length ?pre) z =
      match_loop inc env (if n \<noteq> pieces_text v then 0 else length ?pre + 1) t"
    using step split by (subst match_loop.simps) (simp add: nth_append)
  ultimately have "match_loop inc env 0 z = Some (PRet t)" using 1 by simp
  then show thesis using t(2-5) by (rule that)
qed

lemma define_line:
  assumes "line_start defs f k (line_text (Define n v) @ NEWLINE # r) s" and "names_ok names"
    and "defs_ok names defs" and "line_ok names (Define n v)" and "define_text \<notin> set names"
  obtains u where "process_loop inc env s = process_loop inc env u"
    and "line_start (add_definition n v defs) f (k + 1) r u"
    and "cached_output u = cached_output s @ mark_line (k + 1) f @ [NEWLINE]"
proof -
  have s: "pp_ready defs s" "current_filename s = f" "cached_output s = [] \<or> last (cached_output s) = NEWLINE"
    using assms(1) by (simp_all add: line_start_def)
  note fresh = fresh_output [OF s(3)]
  have n: "n \<in> set names" "value_ok names v" "pieces_ok names v" "ident n"
    using assms(2,4) by (auto simp: names_ok_def list_all_iff value_ok_def)
  let ?x = "n @ 32 # pieces_text v"
  have nl: "NEWLINE \<notin> set (line_text (Define n v))"
    using define_differs(3) pieces_text_plain(2) [OF n(3)] n(4) ident_char_plain
    by (auto simp: ident_def list_all_iff)
  have "line_input s k (46 # define_text @ 32 # ?x) r 0"
    using line_start_input [OF assms(1) nl] by (simp add: define_directive)
  then obtain y where y: "process_loop inc env s = process_loop inc env y"
    "line_input y k (define_text @ 32 # ?x) r 0" "pp_ready defs y" "cached_output y = cached_output s @ [46]"
    "current_filename y = f"
  proof (rule step_no_match [OF _ s(1), of k 46 _ r 0 inc env])
    have "ends_apart (cached_output s @ [46])"
      by (simp add: ends_apart_def ident_char_def ppimpl_isolates_def in_range_def)
    then show "\<forall>d \<in> set defs. \<not> (suffix (fst d) (cached_output s @ [46]) \<and>
        isolated_in ((define_text @ 32 # ?x) @ NEWLINE # r) (cached_output s @ [46]) (fst d))"
      using no_name_at_end [OF assms(2,3)] by blast
  qed (use define_quiet(1) fresh(1) s(2) in simp_all)
  have apart: "ends_apart (cached_output y)" "starts_apart (32 # ?x)"
    by (simp_all add: y(4) ends_apart_def starts_apart_def ident_char_def ppimpl_isolates_def in_range_def)
  have undef: "map_of defs define_text = None"
    using assms(3,5) by (auto simp: map_of_eq_None_iff defs_ok_def list_all_iff)
  obtain z where z: "process_loop inc env y = process_loop inc env z" "line_input z k (32 # ?x) r 0"
    "pp_ready defs z" "cached_output z = cached_output y @ define_text" "current_filename z = f"
    by (rule step_word_kept [OF y(2,3) assms(2,3) define_clean undef apart, of inc env])
      (use define_quiet(2) y(4,5) fresh(1) in simp_all)
  have "outside z" using z(3) by (simp add: pp_ready_def)
  then obtain w where w: "pp_fetch z = PRet w" "line_input w k ?x r 0" "pp_same z w" "outside w"
    "cached_output w = cached_output z @ [32]"
    by (rule fetch_plain [OF z(2)]) simp_all
  have "pp_ready defs w" using z(3) w by (simp add: pp_ready_def pp_same_def)
  moreover have "cached_output w = cached_output s @ c_str ''.define ''"
    by (simp add: w(5) z(4) y(4) define_directive)
  ultimately obtain t where t: "match_loop inc env 0 w = Some (PRet t)" "line_input t k [] r 2"
    "pp_ready (add_definition n v defs) t" "cached_output t = cached_output s" "current_filename t = current_filename w"
    using define_loop [OF w(2) _ _ s(3) assms(2,3) n(1,2), of inc env] by blast
  have 1: "process_loop inc env s = process_loop inc env t"
    using y(1) z(1) line_input_has [OF z(2)] w(1,4) t(1)
    by (subst (asm) (4) process_loop.simps) (simp add: outside_def)
  have f: "current_filename t = f" using t(5) w(3) z(5) by (simp add: pp_same_def)
  have ok: "defs_ok names (add_definition n v defs)"
    using assms(3) n by (simp add: defs_ok_def add_definition_def)
  show thesis
    by (rule finish_line [OF t(2,3) assms(2) ok, of inc env]) (use 1 f t(4) that in simp_all)
qed

section \<open>The start of a file\<close>

definition filename_ok :: "cstr \<Rightarrow> bool" where
  "filename_ok f \<longleftrightarrow> list_all (\<lambda>c. c \<noteq> 0 \<and> c \<noteq> 1 \<and> c \<noteq> NEWLINE \<and> c \<noteq> 34 \<and> c \<noteq> 39) f"

definition first_mark :: "cstr \<Rightarrow> cstr" where
  "first_mark f = c_str ''# 1 '' @ f"

text \<open>
  The first mark is printed twice: to the output, and to the input if the printing index
  happens to be 0. That one is read like a line, and a mark for its newline is added.
\<close>

definition first_marks :: "pp_env \<Rightarrow> cstr \<Rightarrow> cstr" where
  "first_marks env f =
     first_mark f @ [NEWLINE] @
     (if pe_print_index env = 0 then first_mark f @ [NEWLINE] @ first_mark f @ [NEWLINE] else [])"

lemma first_mark_line:
  assumes "filename_ok f"
  shows "line_mark 1 f = first_mark f" and "mark_line 1 f = NEWLINE # first_mark f"
    and "0 \<notin> set (first_mark f)" and "NEWLINE \<notin> set (first_mark f)"
    and "list_all (\<lambda>c. c \<noteq> 39 \<and> c \<noteq> 34 \<and> c \<noteq> 1) (first_mark f)"
proof -
  have f: "0 \<notin> set f" "NEWLINE \<notin> set f" using assms by (auto simp: filename_ok_def list_all_iff)
  then have "c_string f = f" by (simp add: c_string_def takeWhile_eq_all_conv) blast
  moreover have "c_str ''# '' @ int_text 1 @ c_str '' '' = c_str ''# 1 ''" by code_simp
  ultimately show m: "line_mark 1 f = first_mark f"
    unfolding line_mark_def first_mark_def by (metis append_assoc)
  show z: "0 \<notin> set (first_mark f)" "NEWLINE \<notin> set (first_mark f)"
    using f by (simp_all add: first_mark_def c_str_def)
  show "list_all (\<lambda>c. c \<noteq> 39 \<and> c \<noteq> 34 \<and> c \<noteq> 1) (first_mark f)"
    using assms by (auto simp: first_mark_def c_str_def filename_ok_def list_all_iff)
  have "filter (\<lambda>c. c \<noteq> 0) (first_mark f) = first_mark f" using z(1) by (simp add: filter_id_conv) blast
  then show "mark_line 1 f = NEWLINE # first_mark f" by (simp add: mark_line_def m)
qed

lemma mark_quiet: "line_quiet (35 # 32 # l)"
  by (simp add: line_quiet_def asm_matches_def directive_def c_str_def pp_tolower_def in_range_def
      terminator_match_def)

lemma first_mark_quiet: "quiet_along [] (first_mark f)"
  unfolding quiet_along_iff
proof (intro allI impI)
  fix i
  have "line_quiet []" "line_quiet [35]" by code_simp+
  moreover have "first_mark f = 35 # 32 # 49 # 32 # f" by (simp add: first_mark_def c_str_def)
  ultimately show "line_quiet ([] @ take i (first_mark f))"
    using mark_quiet by (cases i; cases "i - 1") simp_all
qed

text \<open>Text passes when nothing is defined.\<close>

lemma pass_plain:
  assumes "line_input s k (u @ x) r q" and "pp_ready [] s" and "list_all (\<lambda>c. c \<noteq> 39 \<and> c \<noteq> 34 \<and> c \<noteq> 1) u"
    and "NEWLINE \<notin> set u" and "quiet_along (last_line (cached_output s)) u"
  obtains t where "process_loop inc env s = process_loop inc env t" and "line_input t k x r q"
    and "pp_ready [] t" and "cached_output t = cached_output s @ u" and "current_filename t = current_filename s"
  using assms
proof (induction u arbitrary: s thesis)
  case Nil
  show ?case by (rule Nil.prems(1) [of s]) (use Nil.prems in simp_all)
next
  case (Cons c u)
  have here: "line_quiet (last_line (cached_output s) @ [c])"
    using Cons.prems(6) by (cases u) simp_all
  have "line_input s k (c # u @ x) r q" using Cons.prems(2) by simp
  then obtain t where t: "process_loop inc env s = process_loop inc env t"
    "line_input t k (u @ x) r (if u @ x = [] then q + npeeks [] (cached_output s @ [c]) else q)"
    "pp_ready [] t" "cached_output t = cached_output s @ [c]" "current_filename t = current_filename s"
    by (rule step_no_match [OF _ Cons.prems(3), of k c "u @ x" r q inc env])
      (use here Cons.prems in simp_all)
  have in': "line_input t k (u @ x) r q" using t(2) by (simp add: npeeks_def split: if_splits)
  show ?case
  proof (rule Cons.IH [OF _ in' t(3)])
    fix v
    assume "process_loop inc env t = process_loop inc env v" "line_input v k x r q" "pp_ready [] v"
      "cached_output v = cached_output t @ u" "current_filename v = current_filename t"
    with t show thesis by (intro Cons.prems(1) [of v]) simp_all
  qed (use Cons.prems t(4) in simp_all)
qed

lemma register_all_global:
  "scopes s = [] \<Longrightarrow> register_all ms s = s\<lparr>handlers := handlers s @ ms\<rparr>"
  unfolding register_all_def
proof (induction ms arbitrary: s)
  case (Cons m ms)
  then show ?case by (simp add: ppimpl_register_def)
qed simp

text \<open>Printing a line to an empty input.\<close>

lemma printf_lost:
  assumes "0 \<notin> set v" and "NEWLINE \<notin> set v" and "cached_input s = []" and "0 < print_index s"
  shows "fold (\<lambda>c s. if c = 0 then s
      else pp_insert c (if c = NEWLINE then s\<lparr>actual_line := actual_line s + 1\<rparr> else s)) v s =
    s\<lparr>print_index := print_index s + length v\<rparr>"
  using assms
proof (induction v arbitrary: s)
  case (Cons c v)
  then show ?case by (simp add: pp_insert_def Let_def)
qed simp

lemma printf_line:
  assumes "0 \<notin> set v" and "NEWLINE \<notin> set v" and "cached_input s = []"
  shows "ppimpl_printf (v @ [NEWLINE]) s =
    s\<lparr>print_index := print_index s + length v + 1, actual_line := actual_line s + 1,
      cached_input := (if print_index s = 0 then v @ [NEWLINE] else [])\<rparr>"
proof (cases "print_index s = 0")
  case True
  then show ?thesis
    using assms pp_insert_fold [OF assms(1,2), of s]
    by (simp add: ppimpl_printf_def pp_count_def pp_store_def Let_def nth_append pp_insert_def)
next
  case False
  then show ?thesis
    using assms printf_lost [OF assms(1-3)]
    by (simp add: ppimpl_printf_def pp_count_def pp_store_def Let_def nth_append pp_insert_def)
qed

lemma new_state:
  assumes "filename_ok f"
  shows "ppimpl_new env f 1 (c_str ''asm'') src =
    \<lparr>cached_input = (if pe_print_index env = 0 then first_mark f @ [NEWLINE] else []),
     cached_output = first_mark f @ [NEWLINE], pp_source = src, handlers = asm_matches,
     actual_line = 1, current_line = 1, current_filename = f, language = c_str ''asm'',
     in_single_string = False, in_double_string = False, scopes = [],
     print_index = pe_print_index env + length (first_mark f) + 1\<rparr>"
proof -
  note f = first_mark_line [OF assms]
  have low: "map pp_tolower (c_str ''asm'') = c_str ''asm''" by code_simp
  have nz: "filter (\<lambda>c. c \<noteq> 0) (first_mark f) = first_mark f" using f(3) by (simp add: filter_id_conv) blast
  show ?thesis
    by (simp add: ppimpl_new_def low ppimpl_asm_init_def ppimpl_asm_include_register_def
        ppimpl_asm_define_register_def ppimpl_asm_expr_register_def ppimpl_asm_line_register_def
        register_all_global printf_line f oprintf_eq nz asm_matches_def Let_def)
qed

lemma first_line:
  assumes "filename_ok f"
  obtains t where "process_loop inc env (ppimpl_new env f 1 (c_str ''asm'') src) = process_loop inc env t"
    and "line_start [] f 1 src t" and "cached_output t = first_marks env f"
proof (cases "pe_print_index env = 0")
  case False
  show thesis
    by (rule that [OF refl])
      (use False in \<open>simp_all add: new_state [OF assms] line_start_def pp_ready_def outside_def first_marks_def\<close>)
next
  case True
  let ?s = "ppimpl_new env f 1 (c_str ''asm'') src"
  note f = first_mark_line [OF assms]
  have s: "line_input ?s 0 (first_mark f @ []) src 2" "pp_ready [] ?s" "last_line (cached_output ?s) = []"
    "cached_output ?s = first_mark f @ [NEWLINE]" "current_filename ?s = f"
    using True f(4) by (simp_all add: new_state [OF assms] line_input_def pp_ready_def outside_def)
  obtain t where t: "process_loop inc env ?s = process_loop inc env t" "line_input t 0 [] src 2" "pp_ready [] t"
    "cached_output t = cached_output ?s @ first_mark f" "current_filename t = current_filename ?s"
    by (rule pass_plain [OF s(1,2) f(5,4), of inc env]) (use first_mark_quiet [of f] s(3) in simp_all)
  show thesis
  proof (rule finish_line [OF t(2,3), of "[]" inc env])
    fix u
    assume "process_loop inc env t = process_loop inc env u" "line_start [] (current_filename t) (0 + 1) src u"
      "cached_output u = cached_output t @
        (if (2::nat) = 0 then [] else mark_line (0 + 1) (current_filename t)) @ [NEWLINE]"
    then show thesis
      using t s f(2) True by (intro that [of u]) (simp_all add: first_marks_def)
  qed (simp_all add: names_ok_def defs_ok_def)
qed

section \<open>Whole files\<close>

lemma file_text_simps [simp]:
  "file_text [] = []" "file_text (l # ls) = line_text l @ NEWLINE # file_text ls"
  by (simp_all add: file_text_def)

lemma lines_pass:
  assumes "line_start defs f k (file_text ls) s" and "names_ok names" and "defs_ok names defs"
    and "list_all (line_ok names) ls" and "define_text \<notin> set names"
    and "preprocessed d f k defs ls = Some out" and "d * (length defs + length ls) < 2 ^ 32"
  obtains t where "process_loop inc env s = Some (PRet t)" and "cached_output t = cached_output s @ out"
  using assms
proof (induction ls arbitrary: defs k s out thesis)
  case Nil
  then have "\<not> ppimpl_has_input s" by (simp add: line_start_def ppimpl_has_input_def)
  then have "process_loop inc env s = Some (PRet s)" by (subst process_loop.simps) simp
  with Nil show ?case by simp
next
  case (Cons l ls)
  note ok = Cons.prems(3,4) Cons.prems(6)
  show ?case
  proof (cases l)
    case (Define n v)
    obtain rest where rest: "preprocessed d f (k + 1) (add_definition n v defs) ls = Some rest"
      "out = mark_line (k + 1) f @ [NEWLINE] @ rest"
      using Cons.prems(7) Define by auto
    have l: "line_ok names (Define n v)" using Cons.prems(5) Define by simp
    then have defs: "defs_ok names (add_definition n v defs)"
      using ok(2) by (simp add: defs_ok_def add_definition_def)
    have start: "line_start defs f k (line_text (Define n v) @ NEWLINE # file_text ls) s"
      using Cons.prems(2) Define by simp
    obtain u where u: "process_loop inc env s = process_loop inc env u"
      "line_start (add_definition n v defs) f (k + 1) (file_text ls) u"
      "cached_output u = cached_output s @ mark_line (k + 1) f @ [NEWLINE]"
      by (rule define_line [OF start ok(1,2) l ok(3), of inc env])
    have "length (add_definition n v defs) + length ls \<le> length defs + length (l # ls)"
      by (simp add: add_definition_def)
    then have "d * (length (add_definition n v defs) + length ls) < 2 ^ 32"
      using Cons.prems(8) by (meson le_less_trans mult_le_mono2)
    then obtain t where "process_loop inc env u = Some (PRet t)" "cached_output t = cached_output u @ rest"
      using Cons.IH [OF _ u(2) ok(1) defs _ ok(3) rest(1)] Cons.prems(5) by auto
    then show ?thesis using u rest(2) by (intro Cons.prems(1) [of t]) simp_all
  next
    case (Text ps)
    obtain t1 rest where rest: "expand d defs ps = Some t1" "preprocessed d f (k + 1) defs ls = Some rest"
      "out = t1 @ (if ends_defined defs ps then mark_line (k + 1) f else []) @ [NEWLINE] @ rest"
      using Cons.prems(7) Text by (auto split: option.splits)
    have l: "line_ok names (Text ps)" using Cons.prems(5) Text by simp
    have start: "line_start defs f k (pieces_text ps @ NEWLINE # file_text ls) s"
      using Cons.prems(2) Text by simp
    have small: "d * length defs < 2 ^ 32" "d * (length defs + length ls) < 2 ^ 32"
      using Cons.prems(8) by (simp_all add: algebra_simps)
    obtain u where u: "process_loop inc env s = process_loop inc env u"
      "line_start defs f (k + 1) (file_text ls) u"
      "cached_output u = cached_output s @ t1 @ (if ends_defined defs ps then mark_line (k + 1) f else []) @ [NEWLINE]"
      by (rule text_line [OF start ok(1,2) l rest(1) small(1), of inc env])
    obtain t where "process_loop inc env u = Some (PRet t)" "cached_output t = cached_output u @ rest"
      using Cons.IH [OF _ u(2) ok(1,2) _ ok(3) rest(2) small(2)] Cons.prems(5) by auto
    then show ?thesis using u rest(3) by (intro Cons.prems(1) [of t]) simp_all
  qed
qed

text \<open>
  A file in the form of the model: definitions of identifiers other than the word of the
  directive, by text that is not empty, and lines of text that are no directives.
\<close>

fun defined_names :: "pp_line list \<Rightarrow> cstr list" where
  "defined_names [] = []"
| "defined_names (Define n v # ls) = n # defined_names ls"
| "defined_names (Text ps # ls) = defined_names ls"

definition file_ok :: "pp_line list \<Rightarrow> bool" where
  "file_ok ls \<longleftrightarrow>
     (let names = defined_names ls
      in names_ok names \<and> define_text \<notin> set names \<and> list_all (line_ok names) ls)"

text \<open>
  C4. The preprocessor of the assembler computes what its definitions say: on a file of
  definitions and lines of text it ends, and puts out the line marks of the file, then for each
  line of text the text in which every defined word outside strings is replaced by its value,
  again and again, by the definitions in front of the line (the first one of a word counts), and
  for each definition an empty line, with marks that give the number of the line that follows.
  The expansions must not nest deeper than some bound.
\<close>

theorem preprocessed_file:
  assumes "file_ok ls" and "filename_ok f" and "preprocessed d f 1 [] ls = Some out"
    and "d * length ls < 2 ^ 32"
  shows "ppimpl env nesting f 1 (c_str ''asm'') (file_text ls) = Some (PRet (first_marks env f @ out))"
proof -
  let ?names = "defined_names ls"
  obtain t where t: "process_loop (pp_nested env nesting) env (ppimpl_new env f 1 (c_str ''asm'') (file_text ls)) =
      process_loop (pp_nested env nesting) env t"
    "line_start [] f 1 (file_text ls) t" "cached_output t = first_marks env f"
    by (rule first_line [OF assms(2)])
  have ok: "names_ok ?names" "defs_ok ?names []" "list_all (line_ok ?names) ls" "define_text \<notin> set ?names"
    using assms(1) by (simp_all add: file_ok_def Let_def defs_ok_def)
  obtain u where "process_loop (pp_nested env nesting) env t = Some (PRet u)"
    "cached_output u = cached_output t @ out"
    by (rule lines_pass [OF t(2) ok assms(3)]) (use assms(4) in simp_all)
  with t show ?thesis by (simp add: ppimpl_def ppimpl_process_def)
qed

section \<open>Definitions that contain their own word\<close>

text \<open>
  The value of a definition is read again, so a word whose value starts with the word is replaced
  for ever: the loop has no result. The invariant is that the word is next in the input and the
  output is the same as before.
\<close>

definition replacing :: "definitions \<Rightarrow> u8 \<Rightarrow> cstr \<Rightarrow> pp_state \<Rightarrow> bool" where
  "replacing defs c out s \<longleftrightarrow>
     (\<exists>k x r q. line_input s k (c # x) r q \<and> starts_apart x) \<and> pp_ready defs s \<and> cached_output s = out"

lemma replacing_step:
  assumes "replacing defs c out s" and "names_ok names" and "defs_ok names defs" and "ident [c]"
    and "clean_word names [c]" and "map_of defs [c] = Some v" and "pieces_text v = c # e # vs"
    and "\<not> ident_char e" and "0 \<notin> set (pieces_text v)" and "NEWLINE \<notin> set (pieces_text v)"
    and "ends_apart out" and "line_quiet (last_line out @ [c])"
  obtains z t where "ppimpl_has_input s" and "pp_fetch s = PRet z" and "outside z"
    and "match_loop inc env 0 z = Some (PRet t)" and "replacing defs c out t"
proof -
  obtain k x r q where s: "line_input s k (c # x) r q" "starts_apart x" "pp_ready defs s" "cached_output s = out"
    using assms(1) by (auto simp: replacing_def)
  have c: "ident_char c" "c \<noteq> NEWLINE" using assms(4) ident_char_plain by (auto simp: ident_def)
  obtain z where z: "pp_fetch s = PRet z" "line_input z k x r q" "pp_same s z" "outside z"
    "cached_output z = out @ [c]"
    by (rule fetch_plain [OF s(1)]) (use s(3,4) ident_char_plain [OF c(1)] in \<open>simp_all add: pp_ready_def\<close>)
  obtain pre post where defs: "defs = pre @ ([c], v) # post" "[c] \<notin> set (map fst pre)"
    using map_of_first [OF assms(6)] by blast
  have "pp_ready defs z" using s(3) z by (simp add: pp_ready_def pp_same_def)
  then have ready: "pp_ready (pre @ ([c], v) # post) z" by (simp add: defs(1))
  have ok: "defs_ok names (pre @ ([c], v) # post)" using assms(3) by (simp add: defs(1))
  have quiet: "line_quiet (last_line (out @ [c]))" using assms(12) c(2) by (simp add: last_line_append)
  obtain t q' where t: "match_loop inc env 0 z = Some (PRet t)" "line_input t k (pieces_text v @ x) r q'"
    "pp_ready (pre @ ([c], v) # post) t" "cached_output t = out"
    by (rule match_loop_replace [OF z(2) ready z(5) assms(2) ok defs(2) assms(4,5,11) s(2) quiet assms(9,10)])
  have "starts_apart (e # vs @ x)" using assms(8) by (simp add: starts_apart_def ident_char_def)
  then have "replacing defs c out t" using t(2-4) assms(7) by (auto simp: replacing_def defs(1))
  then show thesis by (rule that [OF line_input_has [OF s(1)] z(1,4) t(1)])
qed

lemma replacing_diverges:
  assumes "replacing defs c out s" and "names_ok names" and "defs_ok names defs" and "ident [c]"
    and "clean_word names [c]" and "map_of defs [c] = Some v" and "pieces_text v = c # e # vs"
    and "\<not> ident_char e" and "0 \<notin> set (pieces_text v)" and "NEWLINE \<notin> set (pieces_text v)"
    and "ends_apart out" and "line_quiet (last_line out @ [c])"
  shows "process_loop inc env s = None"
proof -
  have "\<not> replacing defs c out s" if "process_loop inc env s = Some y" for y
  proof (rule process_loop.raw_induct [where P = "\<lambda>inc env s y. \<not> replacing defs c out s", OF _ that])
    fix f inc env s and y :: "pp_state ppres"
    assume IH: "\<And>inc env s y. f inc env s = Some y \<Longrightarrow> \<not> replacing defs c out s"
      and body: "(if \<not> ppimpl_has_input s then Some (PRet s)
        else ppo_bind (Some (pp_fetch s)) (\<lambda>s.
          ppo_bind (if in_single_string s \<or> in_double_string s then Some (PRet s)
                    else match_loop inc env 0 s) (f inc env))) = Some y"
    show "\<not> replacing defs c out s"
    proof
      assume "replacing defs c out s"
      then obtain z t where "ppimpl_has_input s" "pp_fetch s = PRet z" "outside z"
        "match_loop inc env 0 z = Some (PRet t)" "replacing defs c out t"
        by (rule replacing_step [OF _ assms(2-12), where inc = inc and env = env])
      with IH [where s = t] body show False by (simp add: outside_def)
    qed
  qed
  with assms(1) show ?thesis by (cases "process_loop inc env s") auto
qed

text \<open>The file \<^verbatim>\<open>.define A A+1\<close>, \<^verbatim>\<open>A\<close> does not come to an end.\<close>

lemma self_definition_diverges:
  "ppimpl env nesting (c_str ''a.s'') 1 (c_str ''asm'') (c_str ''.define A A+1'' @ [10] @ c_str ''A'' @ [10]) = None"
proof -
  let ?v = "[Word (c_str ''A''), Sep 43, Word (c_str ''1'')]" and ?names = "[c_str ''A'']"
  let ?r = "c_str ''A'' @ [10]" and ?f = "c_str ''a.s''"
  let ?src = "line_text (Define (c_str ''A'') ?v) @ NEWLINE # ?r"
  have src: "c_str ''.define A A+1'' @ [10] @ ?r = ?src" by code_simp
  have "filename_ok ?f" by code_simp
  then obtain s where s: "process_loop (pp_nested env nesting) env (ppimpl_new env ?f 1 (c_str ''asm'') ?src) =
      process_loop (pp_nested env nesting) env s" "line_start [] ?f 1 ?src s"
    by (rule first_line)
  have ok: "names_ok ?names" "line_ok ?names (Define (c_str ''A'') ?v)" "define_text \<notin> set ?names" by code_simp+
  obtain u where u: "process_loop (pp_nested env nesting) env s = process_loop (pp_nested env nesting) env u"
    "line_start (add_definition (c_str ''A'') ?v []) ?f (1 + 1) ?r u"
    by (rule define_line [OF s(2) ok(1) _ ok(2,3), of "pp_nested env nesting" env]) (simp_all add: defs_ok_def)
  have d: "add_definition (c_str ''A'') ?v [] = [(c_str ''A'', ?v)]" by code_simp
  have A: "c_str ''A'' = [65]" by code_simp
  have out: "cached_output u = [] \<or> last (cached_output u) = NEWLINE" using u(2) by (simp add: line_start_def)
  note fresh = fresh_output [OF out]
  have v: "pieces_text ?v = 65 # 43 # [49]" by code_simp
  have "line_input u 2 (65 # []) [] 0"
    using line_start_input [of _ ?f 2 "[65]" "[]" u] u(2) by (simp add: A)
  moreover have "starts_apart []" by (simp add: starts_apart_def)
  ultimately have "replacing [([65], ?v)] 65 (cached_output u) u"
    using u(2) unfolding d unfolding A by (auto simp: replacing_def line_start_def)
  then have "process_loop (pp_nested env nesting) env u = None"
  proof (rule replacing_diverges [OF _ ok(1)])
    show "defs_ok ?names [([65], ?v)]" using ok(2) by (simp add: defs_ok_def A)
    show "clean_word ?names [65]" "ident [65]" "\<not> ident_char 43" by code_simp+
    show "map_of [([65], ?v)] [65] = Some ?v" by simp
    show "pieces_text ?v = 65 # 43 # [49]" by (rule v)
    show "0 \<notin> set (pieces_text ?v)" "NEWLINE \<notin> set (pieces_text ?v)" unfolding v by simp_all
    show "ends_apart (cached_output u)" by (rule fresh(2))
    show "line_quiet (last_line (cached_output u) @ [65])"
      by (simp add: fresh(1)) (rule safe_quiet, code_simp)
  qed
  with s(1) u(1) src show ?thesis by (simp add: ppimpl_def ppimpl_process_def)
qed

section \<open>Examples\<close>

text \<open>The file is
\<^verbatim>\<open>.define X 1\<close>, \<^verbatim>\<open>.define Y X+1\<close>, \<^verbatim>\<open>SET A, Y\<close>, \<^verbatim>\<open>DAT "X", X\<close>.\<close>

definition demo_file :: "pp_line list" where
  "demo_file =
     [Define (c_str ''X'') [Word (c_str ''1'')],
      Define (c_str ''Y'') [Word (c_str ''X''), Sep 43, Word (c_str ''1'')],
      Text [Word (c_str ''SET''), Sep 32, Word (c_str ''A''), Sep 44, Sep 32, Word (c_str ''Y'')],
      Text [Word (c_str ''DAT''), Sep 32, Quoted 34 (c_str ''X''), Sep 44, Sep 32, Word (c_str ''X''), Sep 32]]"

definition demo_pp_env :: pp_env where
  "demo_pp_env = \<lparr>pe_print_index = 1, pe_case_insensitive = False, pe_params = (\<lambda>_. ([], 0)),
     pe_paths = None, pe_files = (\<lambda>_. None)\<rparr>"

theorem preprocessed_file_witness:
  "ppimpl demo_pp_env 0 (c_str ''a.s'') 1 (c_str ''asm'')
     (c_str ''.define X 1'' @ [10] @ c_str ''.define Y X+1'' @ [10] @ c_str ''SET A, Y'' @ [10] @
      c_str ''DAT '' @ [34] @ c_str ''X'' @ [34] @ c_str '', X '' @ [10]) =
   Some (PRet (c_str ''# 1 a.s'' @ [10] @
     [10] @ c_str ''# 2 a.s'' @ [10] @
     [10] @ c_str ''# 3 a.s'' @ [10] @
     c_str ''SET A, 1+1'' @ [10] @ c_str ''# 4 a.s'' @ [10] @
     c_str ''DAT '' @ [34] @ c_str ''X'' @ [34] @ c_str '', 1 '' @ [10]))"
proof -
  have "file_ok demo_file" by code_simp
  moreover have "filename_ok (c_str ''a.s'')" by code_simp
  moreover have "3 * length demo_file < 2 ^ 32" by (simp add: demo_file_def)
  moreover have "file_text demo_file =
      c_str ''.define X 1'' @ [10] @ c_str ''.define Y X+1'' @ [10] @ c_str ''SET A, Y'' @ [10] @
      c_str ''DAT '' @ [34] @ c_str ''X'' @ [34] @ c_str '', X '' @ [10]" by code_simp
  moreover have "preprocessed 3 (c_str ''a.s'') 1 [] demo_file = Some (
     [10] @ c_str ''# 2 a.s'' @ [10] @
     [10] @ c_str ''# 3 a.s'' @ [10] @
     c_str ''SET A, 1+1'' @ [10] @ c_str ''# 4 a.s'' @ [10] @
     c_str ''DAT '' @ [34] @ c_str ''X'' @ [34] @ c_str '', 1 '' @ [10])" by code_simp
  moreover have "first_marks demo_pp_env (c_str ''a.s'') = c_str ''# 1 a.s'' @ [10]" by code_simp
  ultimately show ?thesis
    using preprocessed_file [of demo_file "c_str ''a.s''" 3 _ demo_pp_env 0] by simp
qed

end
